(* ===== verification/Stream_Prelude.thy ===== *)
theory Stream_Prelude
  imports Main "HOL-Library.Word"
begin

text \<open>
  Shared vocabulary of the development: the machine types of the C++ sources, the
  representation of a (pointer, length) pair as a view of a byte buffer, unsigned 32-bit
  arithmetic with its wrap-around written out, and generic lemmas on lists and words that
  the component theories share.

  Conventions.
  \<^item> \<open>uint8_t\<close> is \<open>8 word\<close>; binary data (\<open>std::string\<close>, \<open>std::vector<uint8_t>\<close>, a
    \<open>const uint8_t *\<close> with a size) is a list of bytes.
  \<^item> A pointer that the code tests against \<open>nullptr\<close> is an \<open>option\<close>, \<open>None\<close> being the
    null pointer. Output pointers become returned values.
  \<^item> \<open>size_t\<close> values that measure buffers are \<open>nat\<close>; \<open>uint32_t\<close> accumulators are \<open>nat\<close> with
    every addition and subtraction taken modulo \<open>2 ^ 32\<close>; \<open>uint64_t\<close> event counters (sequence
    numbers, drop counters) are \<open>nat\<close>, since they advance by one per frame.
\<close>

unbundle bit_operations_syntax

type_synonym u8 = "8 word"
type_synonym u16 = "16 word"
type_synonym u32 = "32 word"
type_synonym u64 = "64 word"
type_synonym bytes = "8 word list"

named_theorems wire_simps \<open>unfolding of byte-level writers\<close>
named_theorems bounds_simps \<open>bounds that show unsigned arithmetic does not wrap\<close>

section \<open>Views of byte buffers\<close>

text \<open>
  \<open>(const uint8_t *data, size_t size)\<close>: the address and the bytes found there.
\<close>

record byte_view =
  bv_addr :: nat
  bv_bytes :: bytes

definition bv_size :: "byte_view \<Rightarrow> nat" where
  "bv_size v = length (bv_bytes v)"

text \<open>\<open>data + off\<close> with a size of \<open>len\<close>: a view of part of a view.\<close>

definition sub_view :: "byte_view \<Rightarrow> nat \<Rightarrow> nat \<Rightarrow> byte_view" where
  "sub_view v off len = \<lparr>bv_addr = bv_addr v + off, bv_bytes = take len (drop off (bv_bytes v))\<rparr>"

definition view_within :: "byte_view \<Rightarrow> byte_view \<Rightarrow> bool" where
  "view_within w v \<longleftrightarrow> bv_addr v \<le> bv_addr w
     \<and> bv_addr w - bv_addr v + bv_size w \<le> bv_size v
     \<and> bv_bytes w = take (bv_size w) (drop (bv_addr w - bv_addr v) (bv_bytes v))"

lemma sub_view_sel [simp]:
  "bv_addr (sub_view v off len) = bv_addr v + off"
  "bv_bytes (sub_view v off len) = take len (drop off (bv_bytes v))"
  by (simp_all add: sub_view_def)

lemma view_within_sub_view:
  assumes "off + len \<le> bv_size v"
  shows "view_within (sub_view v off len) v"
  using assms by (simp add: view_within_def bv_size_def)

text \<open>
  A slice of an outgoing message (\<open>RtpPacketSlice\<close>, \<open>MediaFlvVideoTagSlice\<close>): the bytes, the address
  they stand at when they belong to a media buffer (\<open>None\<close> when they belong to the message object
  itself), and the \<open>media_payload\<close> flag.
\<close>

record data_slice =
  sl_addr :: "nat option"
  sl_bytes :: bytes
  sl_media :: bool

section \<open>Unsigned 32-bit arithmetic on nat\<close>

abbreviation UINT16_MAX :: nat where "UINT16_MAX \<equiv> 65535"
abbreviation UINT32_MAX :: nat where "UINT32_MAX \<equiv> 4294967295"

definition u32_add :: "nat \<Rightarrow> nat \<Rightarrow> nat" where
  "u32_add a b = (a + b) mod 2 ^ 32"

definition u32_sub :: "nat \<Rightarrow> nat \<Rightarrow> nat" where
  "u32_sub a b = (a + 2 ^ 32 - b mod 2 ^ 32) mod 2 ^ 32"

lemma u32_add_exact [bounds_simps]: "a + b \<le> UINT32_MAX \<Longrightarrow> u32_add a b = a + b"
  by (simp add: u32_add_def)

lemma u32_sub_exact [bounds_simps]: "b \<le> a \<Longrightarrow> a \<le> UINT32_MAX \<Longrightarrow> u32_sub a b = a - b"
proof -
  assume "b \<le> a" and "a \<le> UINT32_MAX"
  then have "a + 2 ^ 32 - b mod 2 ^ 32 = (a - b) + 2 ^ 32" and "a - b < 2 ^ 32" by simp_all
  then show ?thesis by (simp only: u32_sub_def mod_add_self2) simp
qed

lemma u32_add_0 [simp]: "a \<le> UINT32_MAX \<Longrightarrow> u32_add 0 a = a" "a \<le> UINT32_MAX \<Longrightarrow> u32_add a 0 = a"
  by (simp_all add: u32_add_def)

lemma u32_add_le [simp]: "u32_add a b \<le> UINT32_MAX"
  using mod_less_divisor [of "2 ^ 32" "a + b"] unfolding u32_add_def by simp

lemma u32_sub_le [simp]: "u32_sub a b \<le> UINT32_MAX"
proof -
  have "(a + 2 ^ 32 - b mod 2 ^ 32) mod 2 ^ 32 < (2 ^ 32 :: nat)" by simp
  then show ?thesis unfolding u32_sub_def by simp
qed

text \<open>\<open>size_t\<close> has 32 bits on the target; \<open>size_t_add\<close> is its addition where the code does not exclude overflow.\<close>

abbreviation SIZE_MAX :: nat where "SIZE_MAX \<equiv> 4294967295"

definition size_t_add :: "nat \<Rightarrow> nat \<Rightarrow> nat" where
  "size_t_add a b = (a + b) mod (SIZE_MAX + 1)"

text \<open>C++ integer division truncates towards zero.\<close>

definition trunc_div :: "int \<Rightarrow> int \<Rightarrow> int" where
  "trunc_div a b = sgn a * sgn b * (\<bar>a\<bar> div \<bar>b\<bar>)"

section \<open>Text\<close>

text \<open>The bytes of a literal.\<close>

definition ascii :: "string \<Rightarrow> bytes" where
  "ascii cs = map (\<lambda>c. word_of_nat (of_char c)) cs"

lemma length_ascii [simp]: "length (ascii cs) = length cs"
  by (simp add: ascii_def)

section \<open>Lists\<close>

text \<open>What has arrived of \<open>p @ q\<close>: a proper prefix of \<open>p\<close>, or all of it.\<close>

lemma cut_or_whole:
  assumes "b @ c = p @ q"
  shows "(\<exists>k < length p. b = take k p \<and> c \<noteq> []) \<or> (\<exists>rest. b = p @ rest \<and> rest @ c = q)"
proof -
  obtain us where us: "b = p @ us \<and> us @ c = q \<or> b @ us = p \<and> c = us @ q" using assms by (auto simp: append_eq_append_conv2)
  show ?thesis
  proof (cases "us = []")
    case False
    with us have "(\<exists>rest. b = p @ rest \<and> rest @ c = q) \<or> length b < length p \<and> b = take (length b) p \<and> c \<noteq> []" by auto
    then show ?thesis by blast
  qed (use us in auto)
qed

text \<open>\<open>memcpy(buf + off, data, size)\<close> into an array with room for the bytes.\<close>

definition memcpy_at :: "bytes \<Rightarrow> nat \<Rightarrow> bytes \<Rightarrow> bytes" where
  "memcpy_at buf off data = take off buf @ data @ drop (off + length data) buf"

lemma length_memcpy_at [simp]: "off + length data \<le> length buf \<Longrightarrow> length (memcpy_at buf off data) = length buf"
  by (simp add: memcpy_at_def)

lemma memcpy_at_twice:
  "off + length a + length b \<le> length buf
     \<Longrightarrow> memcpy_at (memcpy_at buf off a) (off + length a) b = memcpy_at buf off (a @ b)"
  by (simp add: memcpy_at_def ac_simps)

lemma memcpy_at_Nil [simp]: "memcpy_at buf off [] = buf"
  by (simp add: memcpy_at_def)

lemma all_ge_split: "(\<forall>j \<ge> (i :: nat). P j) \<longleftrightarrow> P i \<and> (\<forall>j \<ge> i + 1. P j)"
proof -
  have "i \<le> j \<longleftrightarrow> j = i \<or> i + 1 \<le> j" for j by linarith
  then show ?thesis by (metis (no_types, lifting))
qed

lemma all_between_split:
  "(i :: nat) < n \<Longrightarrow> (\<forall>j. i \<le> j \<and> j < n \<longrightarrow> P j) \<longleftrightarrow> P i \<and> (\<forall>j. i + 1 \<le> j \<and> j < n \<longrightarrow> P j)"
  using all_ge_split [of i "\<lambda>j. j < n \<longrightarrow> P j"] by auto

lemma take_drop_nth: "i < length xs \<Longrightarrow> 0 < n \<Longrightarrow> take n (drop i xs) ! 0 = xs ! i"
  by simp

lemma nth_append_shift: "length xs \<le> i \<Longrightarrow> (xs @ ys) ! i = ys ! (i - length xs)"
  by (simp add: nth_append)

lemma nth_append_off [simp]: "(xs @ ys) ! (length xs + k) = ys ! k"
  by (simp add: nth_append)

lemma drop_app_len: "length xs = n \<Longrightarrow> drop n (xs @ ys) = ys"
  by simp

lemma take_app_len: "length xs = n \<Longrightarrow> take n (xs @ ys) = xs"
  by simp

lemma last_nth: "xs \<noteq> [] \<Longrightarrow> last xs = xs ! (length xs - 1)"
  by (rule last_conv_nth)

section \<open>Bits of a byte\<close>

lemma u8_eq_iff: "(x :: u8) = y \<longleftrightarrow>
   (bit x 0 = bit y 0) \<and> (bit x 1 = bit y 1) \<and> (bit x 2 = bit y 2) \<and> (bit x 3 = bit y 3) \<and>
   (bit x 4 = bit y 4) \<and> (bit x 5 = bit y 5) \<and> (bit x 6 = bit y 6) \<and> (bit x 7 = bit y 7)"
  (is "_ \<longleftrightarrow> ?bits")
proof
  assume b: ?bits
  show "x = y"
  proof (rule bit_word_eqI)
    fix n :: nat
    assume "n < LENGTH(8)"
    then have "n \<in> {0, 1, 2, 3, 4, 5, 6, 7}" by auto
    with b show "bit x n \<longleftrightarrow> bit y n" by auto
  qed
qed simp

lemma bit_double_u8: "bit ((x :: u8) * 2) n \<longleftrightarrow> 0 < n \<and> n < 8 \<and> bit x (n - 1)"
  using bit_push_bit_iff [of 1 x n] by (simp add: Suc_le_eq)

lemmas byte_bits = u8_eq_iff bit_simps bit_double_u8 numeral_2_eq_2 numeral_3_eq_3


section \<open>Rings\<close>

text \<open>An array used as a ring: the \<open>n\<close> entries from position \<open>head\<close> on.\<close>

definition ring_list :: "'a list \<Rightarrow> nat \<Rightarrow> nat \<Rightarrow> 'a list" where
  "ring_list xs head n = map (\<lambda>i. xs ! ((head + i) mod length xs)) [0..<n]"

lemma length_ring_list [simp]: "length (ring_list xs head n) = n"
  by (simp add: ring_list_def)

lemma ring_list_0 [simp]: "ring_list xs head 0 = []"
  by (simp add: ring_list_def)

lemma ring_list_nth: "i < n \<Longrightarrow> ring_list xs head n ! i = xs ! ((head + i) mod length xs)"
  by (simp add: ring_list_def)

lemma ring_index_inj:
  fixes h i j n :: nat
  assumes "i < n" and "j < n" and "(h + i) mod n = (h + j) mod n"
  shows "i = j"
proof -
  have le: "i = j" if "i \<le> j" "j < n" "(h + i) mod n = (h + j) mod n" for i j
  proof -
    have "n dvd (h + j) - (h + i)" using mod_eq_dvd_iff_nat [of "h + i" "h + j" n] that by simp
    then have "n dvd j - i" by simp
    then have "j - i = 0" using that by (auto dest: dvd_imp_le)
    with that(1) show ?thesis by simp
  qed
  show ?thesis using le [of i j] le [of j i] assms by (cases "i \<le> j") auto
qed

lemma ring_list_push:
  assumes "n < length xs"
  shows "ring_list (xs[(head + n) mod length xs := x]) head (Suc n) = ring_list xs head n @ [x]"
proof -
  have "(head + n) mod length xs < length xs" using assms by (intro mod_less_divisor) linarith
  moreover have "(head + n) mod length xs \<noteq> (head + i) mod length xs" if "i < n" for i
    using ring_index_inj [of n "length xs" i head] that assms by auto
  ultimately show ?thesis by (simp add: ring_list_def)
qed

lemma ring_list_pop:
  assumes "n \<le> length xs" and "head < length xs" and "0 < n"
  shows "ring_list (xs[head := x]) ((head + 1) mod length xs) (n - 1) = tl (ring_list xs head n)"
proof (rule nth_equalityI)
  fix i assume "i < length (ring_list (xs[head := x]) ((head + 1) mod length xs) (n - 1))"
  then have i: "i < n - 1" by simp
  have "((head + 1) mod length xs + i) mod length xs = (head + Suc i) mod length xs"
    by (simp add: mod_simps)
  moreover have "(head + Suc i) mod length xs \<noteq> (head + 0) mod length xs"
  proof
    assume "(head + Suc i) mod length xs = (head + 0) mod length xs"
    then have "Suc i = 0" using i assms by (intro ring_index_inj [of "Suc i" "length xs" 0 head]) auto
    then show False by simp
  qed
  ultimately show "ring_list (xs[head := x]) ((head + 1) mod length xs) (n - 1) ! i = tl (ring_list xs head n) ! i"
    using i assms by (simp add: ring_list_nth nth_tl)
qed simp

end
