(* ===== verification/Byte_Writer.thy ===== *)
theory Byte_Writer
  imports Stream_Prelude
begin

text \<open>
  \<open>libs/infra/include/byte_writer.h\<close>: big-endian writers. \<open>AppendU*\<close> push bytes at the end
  of a string and take it as their first argument, \<open>WriteU*\<close> store into an existing buffer. The
  output pointers are non-null in every call of the modelled code, so the tests for a null output
  have no counterpart here.
\<close>

section \<open>The writers\<close>

definition AppendU8 :: "bytes \<Rightarrow> u8 \<Rightarrow> bytes" where
  "AppendU8 out value = out @ [value]"

definition AppendBytes :: "bytes \<Rightarrow> bytes option \<Rightarrow> bytes" where
  "AppendBytes out data = (case data of None \<Rightarrow> out | Some d \<Rightarrow> out @ d)"

definition AppendU16 :: "bytes \<Rightarrow> u16 \<Rightarrow> bytes" where
  "AppendU16 out value =
     AppendU8 (AppendU8 out (ucast (drop_bit 8 value AND 0xff))) (ucast (value AND 0xff))"

definition AppendU24 :: "bytes \<Rightarrow> u32 \<Rightarrow> bytes" where
  "AppendU24 out value =
     AppendU8 (AppendU8 (AppendU8 out (ucast (drop_bit 16 value AND 0xff)))
       (ucast (drop_bit 8 value AND 0xff))) (ucast (value AND 0xff))"

definition AppendU32 :: "bytes \<Rightarrow> u32 \<Rightarrow> bytes" where
  "AppendU32 out value =
     AppendU8 (AppendU8 (AppendU8 (AppendU8 out (ucast (drop_bit 24 value AND 0xff)))
       (ucast (drop_bit 16 value AND 0xff))) (ucast (drop_bit 8 value AND 0xff)))
       (ucast (value AND 0xff))"

text \<open>
  \<open>WriteU16\<close> and \<open>WriteU32\<close> at offset \<open>off\<close> of an array (\<open>header + off\<close> in the callers).
\<close>

definition WriteU16 :: "bytes \<Rightarrow> nat \<Rightarrow> u16 \<Rightarrow> bytes" where
  "WriteU16 buf off value =
     buf[off := ucast (drop_bit 8 value AND 0xff), off + 1 := ucast (value AND 0xff)]"

definition WriteU32 :: "bytes \<Rightarrow> nat \<Rightarrow> u32 \<Rightarrow> bytes" where
  "WriteU32 buf off value =
     buf[off := ucast (drop_bit 24 value AND 0xff), off + 1 := ucast (drop_bit 16 value AND 0xff),
         off + 2 := ucast (drop_bit 8 value AND 0xff), off + 3 := ucast (value AND 0xff)]"

section \<open>Big-endian reference encodings\<close>

text \<open>The number a sequence of bytes denotes, most significant byte first.\<close>

fun be_value :: "bytes \<Rightarrow> nat" where
  "be_value [] = 0"
| "be_value (b # bs) = unat b * 256 ^ length bs + be_value bs"

definition be16 :: "u16 \<Rightarrow> bytes" where
  "be16 v = [ucast (drop_bit 8 v), ucast v]"

definition be24 :: "u32 \<Rightarrow> bytes" where
  "be24 v = [ucast (drop_bit 16 v), ucast (drop_bit 8 v), ucast v]"

definition be32 :: "u32 \<Rightarrow> bytes" where
  "be32 v = [ucast (drop_bit 24 v), ucast (drop_bit 16 v), ucast (drop_bit 8 v), ucast v]"

lemma ucast_mask8_16 [simp]: "(ucast ((v :: u16) AND 255) :: u8) = ucast v"
proof -
  have "(ucast (v AND mask 8) :: u8) = ucast v"
    by (intro bit_word_eqI) (simp add: bit_simps bit_mask_iff del: mask_numeral)
  then show ?thesis by (simp add: mask_eq_exp_minus_1)
qed

lemma ucast_mask8_32 [simp]: "(ucast ((v :: u32) AND 255) :: u8) = ucast v"
proof -
  have "(ucast (v AND mask 8) :: u8) = ucast v"
    by (intro bit_word_eqI) (simp add: bit_simps bit_mask_iff del: mask_numeral)
  then show ?thesis by (simp add: mask_eq_exp_minus_1)
qed

lemma AppendU16_be16 [wire_simps]: "AppendU16 out v = out @ be16 v"
  by (simp add: AppendU16_def AppendU8_def be16_def)

lemma AppendU24_be24 [wire_simps]: "AppendU24 out v = out @ be24 v"
  by (simp add: AppendU24_def AppendU8_def be24_def)

lemma AppendU32_be32 [wire_simps]: "AppendU32 out v = out @ be32 v"
  by (simp add: AppendU32_def AppendU8_def be32_def)

lemma AppendU8_app [wire_simps]: "AppendU8 out v = out @ [v]"
  by (simp add: AppendU8_def)

lemma length_be [simp]: "length (be16 v) = 2" "length (be24 w) = 3" "length (be32 w) = 4"
  by (simp_all add: be16_def be24_def be32_def)

lemma be_not_Nil [simp]: "be16 v \<noteq> []" "be24 w \<noteq> []" "be32 w \<noteq> []"
  by (simp_all add: be16_def be24_def be32_def)

lemma be_value_append: "be_value (xs @ ys) = be_value xs * 256 ^ length ys + be_value ys"
  by (induction xs) (simp_all add: algebra_simps power_add)

lemma be_value_less: "be_value bs < 256 ^ length bs"
proof (induction bs)
  case (Cons b bs)
  have "Suc (unat b) \<le> 256" using unsigned_less [where ?'a = nat, of b] by simp
  then have "Suc (unat b) * 256 ^ length bs \<le> 256 * 256 ^ length bs"
    by (rule mult_le_mono1)
  then have "unat b * 256 ^ length bs + 256 ^ length bs \<le> 256 * 256 ^ length bs"
    by (simp only: mult_Suc add.commute)
  with Cons.IH show ?case by (simp only: be_value.simps length_Cons power_Suc)
qed simp

lemma unat_byte: "unat (ucast (drop_bit n v) :: u8) = unat v div 2 ^ n mod 256"
  by (simp only: unsigned_ucast_eq unat_drop_bit_eq) (simp add: drop_bit_eq_div take_bit_eq_mod)

lemma unat_drop: "unat (drop_bit n v) = unat v div 2 ^ n"
  by (simp only: unat_drop_bit_eq) (simp add: drop_bit_eq_div)

lemma unat_low_byte: "unat (ucast v :: u8) = unat v mod 256"
  using unat_byte [of 0 v] by simp

lemma be_value_be16 [simp]: "be_value (be16 v) = unat v"
proof -
  have "unat v < 65536" using unsigned_less [where ?'a = nat, of v] by simp
  then have "unat v div 256 mod 256 = unat v div 256" by simp
  then show ?thesis by (simp add: be16_def unat_drop unat_low_byte)
qed

lemma be_value_be24: "be_value (be24 v) = unat v mod 2 ^ 24"
proof -
  have "unat v div 65536 mod 256 * 65536 + (unat v div 256 mod 256 * 256 + unat v mod 256)
      = unat v mod (256 * (256 * 256))"
    unfolding mod_mult2_eq by (simp add: div_mult2_eq [symmetric])
  then show ?thesis by (simp add: be24_def unat_drop unat_low_byte)
qed

lemma be_value_be32 [simp]: "be_value (be32 v) = unat v"
proof -
  have lt: "unat v < 4294967296" using unsigned_less [where ?'a = nat, of v] by simp
  have "unat v div 16777216 mod 256 * 16777216 + (unat v div 65536 mod 256 * 65536
       + (unat v div 256 mod 256 * 256 + unat v mod 256)) = unat v mod (256 * (256 * (256 * 256)))"
    unfolding mod_mult2_eq by (simp add: div_mult2_eq [symmetric])
  also have "\<dots> = unat v" using lt by simp
  finally show ?thesis using lt by (simp add: be32_def unat_drop unat_low_byte)
qed

end
