(* ===== verification/Annexb_Reader.thy ===== *)
theory Annexb_Reader
  imports Stream_Prelude
begin

text \<open>
  \<open>libs/media_codec/src/annexb_reader.cpp\<close>: the scanner that splits one AnnexB frame into NAL
  units and hands them to a sink. The sink interface \<open>IAnnexBNalUnitSink\<close> is a state-passing
  function; the locale \<open>annexb_sink\<close> states what a sink may rely on.
\<close>

section \<open>Model\<close>

record AnnexBNalUnit =
  nal_view :: byte_view
  h264_type :: u8
  h265_type :: u8

text \<open>\<open>OnAnnexBNalUnit(unit, last)\<close> on a sink in state \<open>s\<close>: the new state and the result.\<close>

type_synonym 's nal_sink = "'s \<Rightarrow> AnnexBNalUnit \<Rightarrow> bool \<Rightarrow> 's \<times> bool"

text \<open>The \<open>for\<close> loop of \<open>FindStartCode\<close>; \<open>None\<close> is \<open>std::string::npos\<close>.\<close>

function FindStartCodeLoop :: "bytes \<Rightarrow> nat \<Rightarrow> nat option" where
  "FindStartCodeLoop data i =
     (if i + 3 \<le> length data then
        if data ! i \<noteq> 0 \<or> data ! (i + 1) \<noteq> 0 then FindStartCodeLoop data (i + 1)
        else if data ! (i + 2) = 1 then Some i
        else if i + 3 < length data \<and> data ! (i + 2) = 0 \<and> data ! (i + 3) = 1 then Some i
        else FindStartCodeLoop data (i + 1)
      else None)"
  by pat_completeness auto
termination
  by (relation "measure (\<lambda>(data, i). length data - i)") auto

declare FindStartCodeLoop.simps [simp del]

definition FindStartCode :: "bytes \<Rightarrow> nat \<Rightarrow> nat option" where
  "FindStartCode data offset =
     (if length data < 3 \<or> offset \<ge> length data then None else FindStartCodeLoop data offset)"

text \<open>The \<open>while\<close> loop that drops zero bytes before the next start code.\<close>

fun TrimTrailingZeros :: "bytes \<Rightarrow> nat \<Rightarrow> nat \<Rightarrow> nat" where
  "TrimTrailingZeros data nal_begin nal_end =
     (if nal_end > nal_begin \<and> data ! (nal_end - 1) = 0
      then TrimTrailingZeros data nal_begin (nal_end - 1) else nal_end)"

declare TrimTrailingZeros.simps [simp del]

definition StartCodeSize :: "bytes \<Rightarrow> nat \<Rightarrow> nat" where
  "StartCodeSize data start =
     (if start + 3 < length data \<and> data ! (start + 2) = 0 \<and> data ! (start + 3) = 1 then 4 else 3)"

definition MakeAnnexBNalUnit :: "byte_view \<Rightarrow> nat \<Rightarrow> nat \<Rightarrow> AnnexBNalUnit" where
  "MakeAnnexBNalUnit v nal_begin nal_end =
     \<lparr>nal_view = sub_view v nal_begin (nal_end - nal_begin),
      h264_type = (bv_bytes v ! nal_begin) AND 0x1f,
      h265_type = (if nal_end - nal_begin > 1
                   then drop_bit 1 (bv_bytes v ! nal_begin) AND 0x3f else 0)\<rparr>"

section \<open>What the scanner looks for\<close>

text \<open>A start code \<open>00 00 01\<close> or \<open>00 00 00 01\<close> begins at position \<open>i\<close>.\<close>

definition start_code_at :: "bytes \<Rightarrow> nat \<Rightarrow> bool" where
  "start_code_at data i \<longleftrightarrow> i + 3 \<le> length data \<and> data ! i = 0 \<and> data ! (i + 1) = 0
     \<and> (data ! (i + 2) = 1 \<or> i + 3 < length data \<and> data ! (i + 2) = 0 \<and> data ! (i + 3) = 1)"

lemma FindStartCodeLoop_None:
  "FindStartCodeLoop data off = None \<longleftrightarrow> (\<forall>j \<ge> off. \<not> start_code_at data j)"
proof (induction data off rule: FindStartCodeLoop.induct)
  case (1 data i)
  show ?case
    by (subst FindStartCodeLoop.simps, subst all_ge_split)
      (use 1 in \<open>auto simp: start_code_at_def\<close>)
qed

lemma FindStartCodeLoop_Some:
  "FindStartCodeLoop data off = Some i \<Longrightarrow>
     off \<le> i \<and> start_code_at data i \<and> (\<forall>j. off \<le> j \<and> j < i \<longrightarrow> \<not> start_code_at data j)"
proof (induction data off rule: FindStartCodeLoop.induct)
  case (1 data k)
  show ?case
  proof (cases "start_code_at data k")
    case True
    then have "FindStartCodeLoop data k = Some k"
      by (subst FindStartCodeLoop.simps) (auto simp: start_code_at_def)
    with 1 True show ?thesis by auto
  next
    case False
    from "1.prems" have len: "k + 3 \<le> length data"
      by (subst (asm) FindStartCodeLoop.simps) (auto split: if_splits)
    with False "1.prems" have next_step: "FindStartCodeLoop data (k + 1) = Some i"
      by (subst (asm) FindStartCodeLoop.simps) (auto simp: start_code_at_def split: if_splits)
    from False len have "\<not> (\<not> (data ! k \<noteq> 0 \<or> data ! (k + 1) \<noteq> 0) \<and> data ! (k + 2) = 1)"
      by (auto simp: start_code_at_def)
    with "1.IH" len next_step False
    have "k + 1 \<le> i \<and> start_code_at data i \<and> (\<forall>j. k + 1 \<le> j \<and> j < i \<longrightarrow> \<not> start_code_at data j)"
      by (fastforce simp: start_code_at_def)
    with False show ?thesis
      using all_between_split [of k i "\<lambda>j. \<not> start_code_at data j"] by simp
  qed
qed

lemma start_code_at_bound: "start_code_at data i \<Longrightarrow> i + 3 \<le> length data"
  by (simp add: start_code_at_def)

lemma FindStartCode_None:
  "FindStartCode data off = None \<longleftrightarrow> (\<forall>j \<ge> off. \<not> start_code_at data j)"
  using FindStartCodeLoop_None [of data off]
  by (auto simp: FindStartCode_def dest: start_code_at_bound)

lemma FindStartCode_SomeD:
  assumes "FindStartCode data off = Some i"
  shows "off \<le> i" and "start_code_at data i"
    and "\<And>j. off \<le> j \<Longrightarrow> j < i \<Longrightarrow> \<not> start_code_at data j"
  using assms FindStartCodeLoop_Some [of data off i] by (auto simp: FindStartCode_def split: if_splits)

lemma FindStartCode_eq_Some:
  "FindStartCode data off = Some i \<longleftrightarrow>
     off \<le> i \<and> start_code_at data i \<and> (\<forall>j. off \<le> j \<and> j < i \<longrightarrow> \<not> start_code_at data j)"
proof
  assume "FindStartCode data off = Some i"
  from FindStartCode_SomeD [OF this]
  show "off \<le> i \<and> start_code_at data i \<and> (\<forall>j. off \<le> j \<and> j < i \<longrightarrow> \<not> start_code_at data j)"
    by blast
next
  assume *: "off \<le> i \<and> start_code_at data i \<and> (\<forall>j. off \<le> j \<and> j < i \<longrightarrow> \<not> start_code_at data j)"
  then obtain k where k: "FindStartCode data off = Some k"
    using FindStartCode_None [of data off] by (cases "FindStartCode data off") auto
  from FindStartCode_SomeD [OF k] * have "k = i" by (metis linorder_neqE_nat)
  with k show "FindStartCode data off = Some i" by simp
qed

lemma StartCodeSize_bounds: "3 \<le> StartCodeSize data i" "StartCodeSize data i \<le> 4"
  by (simp_all add: StartCodeSize_def)

lemma FindStartCode_progress:
  assumes "FindStartCode data off = Some i" and "i + StartCodeSize data i < sz"
    and "Some n = FindStartCode data (i + StartCodeSize data i)"
  shows "sz - n < sz - off"
  using assms(1) assms(3) [symmetric] assms(2) StartCodeSize_bounds(1) [of data i]
  by (auto dest!: FindStartCode_SomeD(1))

section \<open>The scanning loop\<close>

text \<open>
  The \<open>while (true)\<close> loop of \<open>ForEachAnnexBNalUnit\<close> from a given \<open>offset\<close>, with the state of
  the sink and \<open>emitted_unit\<close> threaded through. It terminates because the next start code is
  searched from behind the current one.
\<close>

function ForEachLoop :: "'s nal_sink \<Rightarrow> byte_view \<Rightarrow> nat \<Rightarrow> bool \<Rightarrow> 's \<Rightarrow> 's \<times> bool" where
  "ForEachLoop on_unit v offset emitted_unit s =
     (let data = bv_bytes v; size = bv_size v in
      case FindStartCode data offset of
        None \<Rightarrow> (s, emitted_unit)
      | Some start \<Rightarrow>
          let nal_begin = start + StartCodeSize data start in
          if nal_begin \<ge> size then (s, False)
          else
            let next = FindStartCode data nal_begin;
                nal_end = TrimTrailingZeros data nal_begin
                            (case next of None \<Rightarrow> size | Some n \<Rightarrow> n) in
            if nal_end \<le> nal_begin then (s, False)
            else
              case on_unit s (MakeAnnexBNalUnit v nal_begin nal_end) (next = None) of
                (s', ok) \<Rightarrow>
                  if \<not> ok then (s', False)
                  else (case next of None \<Rightarrow> (s', True)
                        | Some n \<Rightarrow> ForEachLoop on_unit v n True s'))"
  by pat_completeness auto
termination
  by (relation "measure (\<lambda>(on_unit, v, offset, e, s). bv_size v - offset)")
    (auto simp: not_le intro: FindStartCode_progress)

declare ForEachLoop.simps [simp del]

definition ForEachAnnexBNalUnit :: "'s nal_sink \<Rightarrow> byte_view option \<Rightarrow> 's \<Rightarrow> 's \<times> bool" where
  "ForEachAnnexBNalUnit on_unit data s =
     (case data of
        None \<Rightarrow> (s, False)
      | Some v \<Rightarrow> if bv_size v = 0 then (s, False) else ForEachLoop on_unit v 0 False s)"

text \<open>\<open>StripAnnexBStartCode\<close> advances the pointer past one leading start code.\<close>

definition StripAnnexBStartCode :: "byte_view option \<Rightarrow> byte_view option" where
  "StripAnnexBStartCode payload =
     (case payload of
        None \<Rightarrow> None
      | Some v \<Rightarrow>
          let p = bv_bytes v; n = bv_size v in
          if n \<ge> 4 \<and> p ! 0 = 0 \<and> p ! 1 = 0 \<and> p ! 2 = 0 \<and> p ! 3 = 1 then Some (sub_view v 4 (n - 4))
          else if n \<ge> 3 \<and> p ! 0 = 0 \<and> p ! 1 = 0 \<and> p ! 2 = 1 then Some (sub_view v 3 (n - 3))
          else payload)"

section \<open>What every sink may rely on\<close>

lemma TrimTrailingZeros_le: "TrimTrailingZeros data b e \<le> e"
proof (induction data b e rule: TrimTrailingZeros.induct)
  case (1 data b e)
  then show ?case by (subst TrimTrailingZeros.simps) (auto intro: le_trans)
qed

lemma TrimTrailingZeros_last:
  "b < TrimTrailingZeros data b e \<Longrightarrow> data ! (TrimTrailingZeros data b e - 1) \<noteq> 0"
proof (induction data b e rule: TrimTrailingZeros.induct)
  case (1 data b e)
  then show ?case by (subst TrimTrailingZeros.simps, subst (asm) TrimTrailingZeros.simps) auto
qed

lemma TrimTrailingZeros_id: "data ! (e - 1) \<noteq> 0 \<Longrightarrow> TrimTrailingZeros data b e = e"
  by (subst TrimTrailingZeros.simps) simp

text \<open>
  A NAL unit of the buffer \<open>v\<close>: a non-empty part of it that does not end in a zero byte and
  contains no start code, with both types read from its first byte.
\<close>

definition nal_unit_ok :: "byte_view \<Rightarrow> AnnexBNalUnit \<Rightarrow> bool" where
  "nal_unit_ok v u \<longleftrightarrow>
     view_within (nal_view u) v \<and> bv_bytes (nal_view u) \<noteq> [] \<and> last (bv_bytes (nal_view u)) \<noteq> 0
     \<and> (\<forall>i. \<not> start_code_at (bv_bytes (nal_view u)) i)
     \<and> h264_type u = hd (bv_bytes (nal_view u)) AND 0x1f
     \<and> h265_type u = (if bv_size (nal_view u) > 1
                     then drop_bit 1 (hd (bv_bytes (nal_view u))) AND 0x3f else 0)"

lemma start_code_at_part:
  assumes "start_code_at (take len (drop off data)) i"
  shows "start_code_at data (off + i) \<and> i + 3 \<le> len"
  using assms by (auto simp: start_code_at_def add.assoc)

lemma MakeAnnexBNalUnit_ok:
  assumes b: "nal_begin < nal_end" and e: "nal_end \<le> bv_size v"
    and nz: "bv_bytes v ! (nal_end - 1) \<noteq> 0"
    and free: "\<And>j. nal_begin \<le> j \<Longrightarrow> j < nal_end \<Longrightarrow> \<not> start_code_at (bv_bytes v) j"
  shows "nal_unit_ok v (MakeAnnexBNalUnit v nal_begin nal_end)"
proof -
  let ?p = "take (nal_end - nal_begin) (drop nal_begin (bv_bytes v))"
  have len: "length ?p = nal_end - nal_begin" using e by (simp add: bv_size_def)
  have ne: "?p \<noteq> []" using len b by auto
  have lst: "last ?p = bv_bytes v ! (nal_end - 1)"
    using b e by (simp add: last_conv_nth ne len nth_take bv_size_def)
  have fst: "hd ?p = bv_bytes v ! nal_begin"
    using b e by (simp add: hd_conv_nth ne bv_size_def)
  have "\<not> start_code_at ?p i" for i
    using start_code_at_part [of "nal_end - nal_begin" nal_begin "bv_bytes v" i] free [of "nal_begin + i"]
    by force
  with ne lst nz fst len b e show ?thesis
    by (simp add: nal_unit_ok_def MakeAnnexBNalUnit_def view_within_sub_view bv_size_def)
qed

text \<open>
  One round of the loop: it stops without a unit, or hands the sink one well-formed unit and
  goes on from a later start code.
\<close>

lemma ForEachLoop_step:
  obtains (stop) b where "ForEachLoop on_unit v offset emitted s = (s, b)"
  | (unit) u nxt where "nal_unit_ok v u" and "\<And>n. nxt = Some n \<Longrightarrow> offset < n \<and> n < bv_size v"
      and "ForEachLoop on_unit v offset emitted s =
        (case on_unit s u (nxt = None) of (s', ok) \<Rightarrow>
           if \<not> ok then (s', False)
           else (case nxt of None \<Rightarrow> (s', True) | Some n \<Rightarrow> ForEachLoop on_unit v n True s'))"
proof -
  let ?data = "bv_bytes v" and ?size = "bv_size v"
  show thesis
  proof (cases "FindStartCode ?data offset")
    case None
    then show thesis by (intro stop [of emitted]) (subst ForEachLoop.simps, simp)
  next
    case (Some start)
    let ?b = "start + StartCodeSize ?data start"
    let ?next = "FindStartCode ?data ?b"
    let ?lim = "case ?next of None \<Rightarrow> ?size | Some n \<Rightarrow> n"
    let ?e = "TrimTrailingZeros ?data ?b ?lim"
    show thesis
    proof (cases "?b \<ge> ?size \<or> ?e \<le> ?b")
      case True
      with Some show thesis
        by (intro stop [of False]) (subst ForEachLoop.simps, auto simp: Let_def)
    next
      case False
      have bounds: "\<And>n. ?next = Some n \<Longrightarrow> ?b \<le> n \<and> n < ?size"
        using FindStartCode_SomeD start_code_at_bound by (fastforce simp: bv_size_def)
      have e_le: "?e \<le> ?lim" by (rule TrimTrailingZeros_le)
      have free: "\<not> start_code_at ?data j" if "?b \<le> j" "j < ?e" for j
        using that e_le FindStartCode_SomeD(3) [of ?data ?b] FindStartCode_None [of ?data ?b]
        by (cases ?next) auto
      have "nal_unit_ok v (MakeAnnexBNalUnit v ?b ?e)"
      proof (rule MakeAnnexBNalUnit_ok)
        show "?b < ?e" using False by simp
        show "?e \<le> ?size" using e_le bounds by (cases ?next) force+
        show "?data ! (?e - 1) \<noteq> 0" using False by (intro TrimTrailingZeros_last) simp
      qed (rule free)
      moreover have "\<And>n. ?next = Some n \<Longrightarrow> offset < n \<and> n < ?size"
        using bounds FindStartCode_SomeD(1) [OF Some] StartCodeSize_bounds(1) [of ?data start]
        by fastforce
      moreover have "ForEachLoop on_unit v offset emitted s =
        (case on_unit s (MakeAnnexBNalUnit v ?b ?e) (?next = None) of (s', ok) \<Rightarrow>
           if \<not> ok then (s', False)
           else (case ?next of None \<Rightarrow> (s', True) | Some n \<Rightarrow> ForEachLoop on_unit v n True s'))"
        using False Some by (subst ForEachLoop.simps) (simp add: Let_def)
      ultimately show thesis by (rule unit)
    qed
  qed
qed

text \<open>
  The contract of \<open>IAnnexBNalUnitSink\<close>: a sink whose state invariant survives every well-formed
  unit keeps it through the scan of a whole frame, whether or not the scan succeeds.
\<close>

locale annexb_sink =
  fixes on_unit :: "'s nal_sink"
    and inv :: "byte_view \<Rightarrow> 's \<Rightarrow> bool"
  assumes inv_on_unit: "inv v s \<Longrightarrow> nal_unit_ok v u \<Longrightarrow> inv v (fst (on_unit s u is_last))"
begin

lemma inv_loop: "inv v s \<Longrightarrow> inv v (fst (ForEachLoop on_unit v offset emitted s))"
proof (induction "bv_size v - offset" arbitrary: offset emitted s rule: less_induct)
  case less
  show ?case
  proof (cases rule: ForEachLoop_step [of on_unit v offset emitted s])
    case (stop b)
    with less.prems show ?thesis by simp
  next
    case (unit u nxt)
    obtain s' ok where r: "on_unit s u (nxt = None) = (s', ok)" by fastforce
    with inv_on_unit [OF less.prems unit(1), of "nxt = None"] have inv': "inv v s'" by simp
    show ?thesis
    proof (cases nxt)
      case None
      with unit(3) r inv' show ?thesis by auto
    next
      case (Some n)
      with unit(2) have "bv_size v - n < bv_size v - offset" by fastforce
      with less.hyps inv' have "inv v (fst (ForEachLoop on_unit v n True s'))" by blast
      with unit(3) r Some inv' show ?thesis by auto
    qed
  qed
qed

lemma inv_scan: "inv v s \<Longrightarrow> inv v (fst (ForEachAnnexBNalUnit on_unit (Some v) s))"
  by (simp add: ForEachAnnexBNalUnit_def inv_loop)

end

section \<open>Scanning is the inverse of AnnexB framing\<close>

text \<open>
  NAL units as an encoder emits them: not empty, ending in the RBSP stop bit (so not in a zero
  byte), free of start codes. A frame is each unit behind a long or a short start code.
\<close>

definition wf_nal :: "bytes \<Rightarrow> bool" where
  "wf_nal n \<longleftrightarrow> n \<noteq> [] \<and> last n \<noteq> 0 \<and> (\<forall>i. \<not> start_code_at n i)"

definition wf_nals :: "(bool \<times> bytes) list \<Rightarrow> bool" where
  "wf_nals nals \<longleftrightarrow> nals \<noteq> [] \<and> (\<forall>x \<in> set nals. wf_nal (snd x))"

definition start_code :: "bool \<Rightarrow> bytes" where
  "start_code long = (if long then [0, 0, 0, 1] else [0, 0, 1])"

fun annexb_encode :: "(bool \<times> bytes) list \<Rightarrow> bytes" where
  "annexb_encode [] = []"
| "annexb_encode ((long, n) # rest) = start_code long @ n @ annexb_encode rest"

text \<open>The units of such a frame that starts at address \<open>a\<close>.\<close>

definition nal_unit_at :: "nat \<Rightarrow> bytes \<Rightarrow> AnnexBNalUnit" where
  "nal_unit_at a n = \<lparr>nal_view = \<lparr>bv_addr = a, bv_bytes = n\<rparr>, h264_type = hd n AND 0x1f,
     h265_type = (if length n > 1 then drop_bit 1 (hd n) AND 0x3f else 0)\<rparr>"

fun encoded_units :: "nat \<Rightarrow> (bool \<times> bytes) list \<Rightarrow> AnnexBNalUnit list" where
  "encoded_units a [] = []"
| "encoded_units a ((long, n) # rest) =
     nal_unit_at (a + length (start_code long)) n
     # encoded_units (a + length (start_code long) + length n) rest"

text \<open>Handing a list of units to a sink until it refuses one.\<close>

fun feed :: "'s nal_sink \<Rightarrow> AnnexBNalUnit list \<Rightarrow> 's \<Rightarrow> 's \<times> bool" where
  "feed on_unit [] s = (s, True)"
| "feed on_unit (u # us) s =
     (case on_unit s u (us = []) of (s', ok) \<Rightarrow> if ok then feed on_unit us s' else (s', False))"

lemma encoded_units_Nil [simp]: "encoded_units a nals = [] \<longleftrightarrow> nals = []"
  by (cases nals rule: annexb_encode.cases) auto

lemma length_encoded_units [simp]: "length (encoded_units a nals) = length nals"
  by (induction a nals rule: encoded_units.induct) auto

lemma no_start_code_in_nal:
  assumes n: "wf_nal n" and k: "k < length n"
  shows "\<not> start_code_at (p @ n @ q) (length p + k)"
proof
  assume sc: "start_code_at (p @ n @ q) (length p + k)"
  have at: "(p @ n @ q) ! (length p + k + d) = n ! (k + d)" if "k + d < length n" for d
    using that by (simp add: nth_append add.assoc)
  have lst: "n ! (length n - 1) \<noteq> 0" using n by (auto simp: wf_nal_def last_conv_nth)
  from sc k at [of 0] have z0: "n ! k = 0" by (simp add: start_code_at_def)
  with lst k have k1: "k + 1 < length n" by (metis Suc_eq_plus1 diff_Suc_1 Suc_lessI)
  with sc at [of 1] have z1: "n ! (k + 1) = 0" by (simp add: start_code_at_def)
  with lst k1 have k2: "k + 2 < length n" by (metis add_2_eq_Suc' Suc_eq_plus1 diff_Suc_1 Suc_lessI)
  show False
  proof (cases "n ! (k + 2) = 1")
    case True
    with z0 z1 k2 have "start_code_at n k" by (simp add: start_code_at_def)
    with n show False by (simp add: wf_nal_def)
  next
    case False
    with sc k2 at [of 2] have z2: "n ! (k + 2) = 0" by (simp add: start_code_at_def)
    with lst k2 have k3: "k + 3 < length n"
      by (metis add_Suc_right numeral_3_eq_3 numeral_2_eq_2 diff_Suc_1 Suc_lessI)
    with sc False k2 at [of 2] at [of 3] have "n ! (k + 3) = 1" by (simp add: start_code_at_def)
    with z0 z1 z2 k3 have "start_code_at n k" by (simp add: start_code_at_def)
    with n show False by (simp add: wf_nal_def)
  qed
qed

lemma start_code_at_start_code: "start_code_at (p @ start_code long @ q) (length p)"
  by (simp add: start_code_at_def start_code_def nth_append)

lemma StartCodeSize_start_code:
  "StartCodeSize (p @ start_code long @ q) (length p) = length (start_code long)"
  by (simp add: StartCodeSize_def start_code_def nth_append)

lemma FindStartCode_start_code:
  "FindStartCode (p @ start_code long @ q) (length p) = Some (length p)"
  by (auto simp: FindStartCode_eq_Some start_code_at_start_code)

lemma FindStartCode_after_nal:
  assumes n: "wf_nal n"
  shows "FindStartCode (p @ n @ annexb_encode rest) (length p)
       = (if rest = [] then None else Some (length p + length n))"
proof (cases "rest = []")
  case True
  have "\<not> start_code_at (p @ n) j" if "length p \<le> j" for j
    using that no_start_code_in_nal [OF n, of "j - length p" p "[]"] start_code_at_bound [of "p @ n" j]
    by (cases "j < length p + length n") auto
  with True show ?thesis by (simp add: FindStartCode_None)
next
  case False
  then obtain long m r where rest: "rest = (long, m) # r" by (cases rest) auto
  have "start_code_at (p @ n @ annexb_encode rest) (length p + length n)"
    using start_code_at_start_code [of "p @ n" long "m @ annexb_encode r"] rest by simp
  moreover have "\<not> start_code_at (p @ n @ annexb_encode rest) j"
    if "length p \<le> j \<and> j < length p + length n" for j
    using that no_start_code_in_nal [OF n, of "j - length p" p] by auto
  ultimately have "FindStartCode (p @ n @ annexb_encode rest) (length p) = Some (length p + length n)"
    by (subst FindStartCode_eq_Some) simp
  with False show ?thesis by simp
qed

lemma ForEachLoop_encoded:
  assumes "nals \<noteq> []" and "\<forall>x \<in> set nals. wf_nal (snd x)"
  shows "ForEachLoop on_unit \<lparr>bv_addr = a, bv_bytes = p @ annexb_encode nals\<rparr> (length p) e s
       = feed on_unit (encoded_units (a + length p) nals) s"
  using assms
proof (induction nals arbitrary: p e s)
  case Nil
  then show ?case by simp
next
  case (Cons x rest)
  obtain long n where x: "x = (long, n)" by fastforce
  let ?v = "\<lparr>bv_addr = a, bv_bytes = p @ annexb_encode (x # rest)\<rparr>"
  let ?q = "p @ start_code long"
  let ?b = "length ?q"
  have data: "bv_bytes ?v = ?q @ n @ annexb_encode rest" by (simp add: x)
  from Cons.prems have n: "wf_nal n" by (simp add: x)
  then have ne: "n \<noteq> []" and lst: "last n \<noteq> 0" by (simp_all add: wf_nal_def)
  have find: "FindStartCode (bv_bytes ?v) (length p) = Some (length p)"
    using FindStartCode_start_code [of p long "n @ annexb_encode rest"] by (simp add: x)
  have size: "length p + StartCodeSize (bv_bytes ?v) (length p) = ?b"
    using StartCodeSize_start_code [of p long "n @ annexb_encode rest"] by (simp add: x)
  have nxt: "FindStartCode (bv_bytes ?v) ?b = (if rest = [] then None else Some (?b + length n))"
    using FindStartCode_after_nal [OF n, of ?q rest] data by simp
  have "bv_bytes ?v ! (?b + (length n - 1)) = last n"
    using ne unfolding data nth_append_off by (simp add: nth_append last_conv_nth)
  moreover have "?b + length n - 1 = ?b + (length n - 1)" using ne by (cases n) auto
  ultimately have "bv_bytes ?v ! (?b + length n - 1) \<noteq> 0" using lst by simp
  then have trim: "TrimTrailingZeros (bv_bytes ?v) ?b (?b + length n) = ?b + length n"
    by (rule TrimTrailingZeros_id)
  have lim: "(case FindStartCode (bv_bytes ?v) ?b of None \<Rightarrow> bv_size ?v | Some m \<Rightarrow> m) = ?b + length n"
    unfolding nxt by (simp add: bv_size_def x)
  have unit: "MakeAnnexBNalUnit ?v ?b (?b + length n) = nal_unit_at (a + ?b) n"
    using ne unfolding MakeAnnexBNalUnit_def nal_unit_at_def sub_view_def data
    by (simp add: nth_append hd_conv_nth)
  have sz: "?b < bv_size ?v" using ne by (simp add: bv_size_def x)
  have step: "ForEachLoop on_unit ?v (length p) e s =
      (case on_unit s (nal_unit_at (a + ?b) n) (rest = []) of (s', ok) \<Rightarrow>
         if \<not> ok then (s', False)
         else if rest = [] then (s', True) else ForEachLoop on_unit ?v (?b + length n) True s')"
    using find size nxt lim trim unit sz ne
    by (subst ForEachLoop.simps) (simp add: Let_def split: prod.split)
  show ?case
  proof (cases "rest = []")
    case True
    with step show ?thesis by (auto simp: x add.assoc split: prod.split)
  next
    case False
    with Cons.IH [of "?q @ n"] Cons.prems
    have "ForEachLoop on_unit ?v (?b + length n) True s'
        = feed on_unit (encoded_units (a + ?b + length n) rest) s'" for s'
      by (simp add: x add.assoc)
    with step False show ?thesis by (auto simp: x add.assoc split: prod.split)
  qed
qed

end
