(* ===== verification/Nal_Parser.thy ===== *)
theory Nal_Parser
  imports Annexb_Reader
begin

text \<open>
  \<open>libs/media_codec/src/h264_parser.cpp\<close> and \<open>h265_parser.cpp\<close>: the fixed-capacity NAL lists,
  the two parsers built on the AnnexB scanner, the queries on a parsed frame and the extraction
  of parameter sets. The list builders are the two sinks of the scanner; both are
  interpretations of \<open>annexb_sink\<close>.
\<close>

section \<open>Model\<close>

definition kMaxNalUnitsPerFrame :: nat where "kMaxNalUnitsPerFrame = 64"

definition kH264NalTypeIdr :: u8 where "kH264NalTypeIdr = 5"
definition kH264NalTypeSps :: u8 where "kH264NalTypeSps = 7"
definition kH264NalTypePps :: u8 where "kH264NalTypePps = 8"
definition kH264NalTypeAud :: u8 where "kH264NalTypeAud = 9"
definition kH265NalTypeIdrWRadl :: u8 where "kH265NalTypeIdrWRadl = 19"
definition kH265NalTypeIdrNLp :: u8 where "kH265NalTypeIdrNLp = 20"
definition kH265NalTypeBlaW_LP :: u8 where "kH265NalTypeBlaW_LP = 16"
definition kH265NalTypeBlaW_RADL :: u8 where "kH265NalTypeBlaW_RADL = 17"
definition kH265NalTypeBlaN_LP :: u8 where "kH265NalTypeBlaN_LP = 18"
definition kH265NalTypeCra :: u8 where "kH265NalTypeCra = 21"
definition kH265NalTypeVps :: u8 where "kH265NalTypeVps = 32"
definition kH265NalTypeSps :: u8 where "kH265NalTypeSps = 33"
definition kH265NalTypePps :: u8 where "kH265NalTypePps = 34"
definition kH265NalTypeAud :: u8 where "kH265NalTypeAud = 35"

lemmas nal_type_defs =
  kH264NalTypeIdr_def kH264NalTypeSps_def kH264NalTypePps_def kH264NalTypeAud_def
  kH265NalTypeIdrWRadl_def kH265NalTypeIdrNLp_def kH265NalTypeBlaW_LP_def
  kH265NalTypeBlaW_RADL_def kH265NalTypeBlaN_LP_def kH265NalTypeCra_def
  kH265NalTypeVps_def kH265NalTypeSps_def kH265NalTypePps_def kH265NalTypeAud_def

text \<open>
  \<open>H264NalUnit\<close> and \<open>H265NalUnit\<close> have the same fields, as have the two lists; \<open>units\<close> holds the
  first \<open>unit_size\<close> entries of the array.
\<close>

record NalUnit =
  unit_view :: byte_view
  unit_type :: u8

record NalUnitList =
  units :: "NalUnit list"
  overflow :: bool

type_synonym H264NalUnitList = NalUnitList
type_synonym H265NalUnitList = NalUnitList

definition empty_units :: NalUnitList where
  "empty_units = \<lparr>units = [], overflow = False\<rparr>"

definition H264NalUnitList_Add :: "H264NalUnitList \<Rightarrow> NalUnit \<Rightarrow> H264NalUnitList \<times> bool" where
  "H264NalUnitList_Add l unit =
     (if length (units l) \<ge> kMaxNalUnitsPerFrame then (l\<lparr>overflow := True\<rparr>, False)
      else (l\<lparr>units := units l @ [unit]\<rparr>, True))"

definition H265NalUnitList_Add :: "H265NalUnitList \<Rightarrow> NalUnit \<Rightarrow> H265NalUnitList \<times> bool" where
  "H265NalUnitList_Add l unit =
     (if length (units l) \<ge> kMaxNalUnitsPerFrame then (l\<lparr>overflow := True\<rparr>, False)
      else (l\<lparr>units := units l @ [unit]\<rparr>, True))"

definition IsH264ParameterSetNal :: "u8 \<Rightarrow> bool" where
  "IsH264ParameterSetNal nal_type \<longleftrightarrow> nal_type = kH264NalTypeSps \<or> nal_type = kH264NalTypePps"

definition IsH264IdrNal :: "u8 \<Rightarrow> bool" where
  "IsH264IdrNal nal_type \<longleftrightarrow> nal_type = kH264NalTypeIdr"

definition IsH265ParameterSetNal :: "u8 \<Rightarrow> bool" where
  "IsH265ParameterSetNal nal_type \<longleftrightarrow>
     nal_type = kH265NalTypeVps \<or> nal_type = kH265NalTypeSps \<or> nal_type = kH265NalTypePps"

definition IsH265IdrNal :: "u8 \<Rightarrow> bool" where
  "IsH265IdrNal nal_type \<longleftrightarrow>
     nal_type = kH265NalTypeIdrWRadl \<or> nal_type = kH265NalTypeIdrNLp \<or>
     nal_type = kH265NalTypeBlaW_LP \<or> nal_type = kH265NalTypeBlaW_RADL \<or>
     nal_type = kH265NalTypeBlaN_LP \<or> nal_type = kH265NalTypeCra"

text \<open>The local classes \<open>H264ListBuilder\<close> and \<open>H265ListBuilder\<close>.\<close>

definition H264ListBuilder :: "H264NalUnitList nal_sink" where
  "H264ListBuilder l unit is_last =
     H264NalUnitList_Add l \<lparr>unit_view = nal_view unit, unit_type = h264_type unit\<rparr>"

definition H265ListBuilder :: "H265NalUnitList nal_sink" where
  "H265ListBuilder l unit is_last =
     (if bv_size (nal_view unit) \<le> 1 then (l, True)
      else H265NalUnitList_Add l \<lparr>unit_view = nal_view unit, unit_type = h265_type unit\<rparr>)"

definition ParseH264AnnexBNalUnits :: "byte_view option \<Rightarrow> H264NalUnitList \<times> bool" where
  "ParseH264AnnexBNalUnits data =
     (case ForEachAnnexBNalUnit H264ListBuilder data empty_units of
        (l, ok) \<Rightarrow> (l, ok \<and> \<not> overflow l \<and> units l \<noteq> []))"

definition ParseH265AnnexBNalUnits :: "byte_view option \<Rightarrow> H265NalUnitList \<times> bool" where
  "ParseH265AnnexBNalUnits data =
     (case ForEachAnnexBNalUnit H265ListBuilder data empty_units of
        (l, ok) \<Rightarrow> (l, ok \<and> \<not> overflow l \<and> units l \<noteq> []))"

fun AnyNalUnit :: "NalUnit list \<Rightarrow> (NalUnit \<Rightarrow> bool) \<Rightarrow> bool" where
  "AnyNalUnit [] predicate = False"
| "AnyNalUnit (unit # us) predicate = (if predicate unit then True else AnyNalUnit us predicate)"

definition ContainsH264ParameterSets :: "H264NalUnitList \<Rightarrow> bool" where
  "ContainsH264ParameterSets l = AnyNalUnit (units l) (\<lambda>unit. IsH264ParameterSetNal (unit_type unit))"

definition ContainsH265ParameterSets :: "H265NalUnitList \<Rightarrow> bool" where
  "ContainsH265ParameterSets l = AnyNalUnit (units l) (\<lambda>unit. IsH265ParameterSetNal (unit_type unit))"

definition ContainsH264Keyframe :: "H264NalUnitList \<Rightarrow> bool" where
  "ContainsH264Keyframe l = AnyNalUnit (units l) (\<lambda>unit. IsH264IdrNal (unit_type unit))"

definition ContainsH265Keyframe :: "H265NalUnitList \<Rightarrow> bool" where
  "ContainsH265Keyframe l = AnyNalUnit (units l) (\<lambda>unit. IsH265IdrNal (unit_type unit))"

fun CompleteH264Loop :: "NalUnit list \<Rightarrow> bool \<Rightarrow> bool \<Rightarrow> bool" where
  "CompleteH264Loop [] has_sps has_pps = False"
| "CompleteH264Loop (unit # us) has_sps has_pps =
     (let has_sps' = (if unit_type unit = kH264NalTypeSps then True else has_sps);
          has_pps' = (if unit_type unit = kH264NalTypeSps then has_pps
                      else if unit_type unit = kH264NalTypePps then True else has_pps)
      in if has_sps' \<and> has_pps' then True else CompleteH264Loop us has_sps' has_pps')"

definition ContainsCompleteH264ParameterSets :: "H264NalUnitList \<Rightarrow> bool" where
  "ContainsCompleteH264ParameterSets l = CompleteH264Loop (units l) False False"

fun CompleteH265Loop :: "NalUnit list \<Rightarrow> bool \<Rightarrow> bool \<Rightarrow> bool \<Rightarrow> bool" where
  "CompleteH265Loop [] has_vps has_sps has_pps = False"
| "CompleteH265Loop (unit # us) has_vps has_sps has_pps =
     (let t = unit_type unit;
          has_vps' = (if t = kH265NalTypeVps then True else has_vps);
          has_sps' = (if t = kH265NalTypeVps then has_sps
                      else if t = kH265NalTypeSps then True else has_sps);
          has_pps' = (if t = kH265NalTypeVps \<or> t = kH265NalTypeSps then has_pps
                      else if t = kH265NalTypePps then True else has_pps)
      in if has_vps' \<and> has_sps' \<and> has_pps' then True
         else CompleteH265Loop us has_vps' has_sps' has_pps')"

definition ContainsCompleteH265ParameterSets :: "H265NalUnitList \<Rightarrow> bool" where
  "ContainsCompleteH265ParameterSets l = CompleteH265Loop (units l) False False False"

text \<open>
  The extraction loops: the strings passed in are overwritten by each parameter set met, the
  flags report what the frame contained.
\<close>

record H264Extract =
  ex_sps :: bytes
  ex_pps :: bytes
  ex_has_sps :: bool
  ex_has_pps :: bool

fun ExtractH264Loop :: "NalUnit list \<Rightarrow> H264Extract \<Rightarrow> H264Extract" where
  "ExtractH264Loop [] e = e"
| "ExtractH264Loop (unit # us) e =
     ExtractH264Loop us
       (if unit_type unit = kH264NalTypeSps
        then e\<lparr>ex_sps := bv_bytes (unit_view unit), ex_has_sps := True\<rparr>
        else if unit_type unit = kH264NalTypePps
        then e\<lparr>ex_pps := bv_bytes (unit_view unit), ex_has_pps := True\<rparr>
        else e)"

definition ExtractH264ParameterSetsFromUnits ::
  "H264NalUnitList \<Rightarrow> bytes \<Rightarrow> bytes \<Rightarrow> H264Extract" where
  "ExtractH264ParameterSetsFromUnits l sps pps =
     ExtractH264Loop (units l)
       \<lparr>ex_sps = sps, ex_pps = pps, ex_has_sps = False, ex_has_pps = False\<rparr>"

record H265Extract =
  ex5_vps :: bytes
  ex5_sps :: bytes
  ex5_pps :: bytes
  ex5_has_vps :: bool
  ex5_has_sps :: bool
  ex5_has_pps :: bool

fun ExtractH265Loop :: "NalUnit list \<Rightarrow> H265Extract \<Rightarrow> H265Extract" where
  "ExtractH265Loop [] e = e"
| "ExtractH265Loop (unit # us) e =
     ExtractH265Loop us
       (if unit_type unit = kH265NalTypeVps
        then e\<lparr>ex5_vps := bv_bytes (unit_view unit), ex5_has_vps := True\<rparr>
        else if unit_type unit = kH265NalTypeSps
        then e\<lparr>ex5_sps := bv_bytes (unit_view unit), ex5_has_sps := True\<rparr>
        else if unit_type unit = kH265NalTypePps
        then e\<lparr>ex5_pps := bv_bytes (unit_view unit), ex5_has_pps := True\<rparr>
        else e)"

definition ExtractH265ParameterSetsFromUnits ::
  "H265NalUnitList \<Rightarrow> bytes \<Rightarrow> bytes \<Rightarrow> bytes \<Rightarrow> H265Extract" where
  "ExtractH265ParameterSetsFromUnits l vps sps pps =
     ExtractH265Loop (units l)
       \<lparr>ex5_vps = vps, ex5_sps = sps, ex5_pps = pps,
        ex5_has_vps = False, ex5_has_sps = False, ex5_has_pps = False\<rparr>"

text \<open>The overloads that start from empty strings and return the sets.\<close>

record H264ParameterSets =
  ps_sps :: bytes
  ps_pps :: bytes

definition H264ParameterSets_complete :: "H264ParameterSets \<Rightarrow> bool" where
  "H264ParameterSets_complete p \<longleftrightarrow> ps_sps p \<noteq> [] \<and> ps_pps p \<noteq> []"

definition ExtractH264ParameterSets :: "H264NalUnitList \<Rightarrow> H264ParameterSets" where
  "ExtractH264ParameterSets l =
     (let e = ExtractH264ParameterSetsFromUnits l [] [] in \<lparr>ps_sps = ex_sps e, ps_pps = ex_pps e\<rparr>)"

record H265ParameterSets =
  ps5_vps :: bytes
  ps5_sps :: bytes
  ps5_pps :: bytes

definition H265ParameterSets_complete :: "H265ParameterSets \<Rightarrow> bool" where
  "H265ParameterSets_complete p \<longleftrightarrow> ps5_vps p \<noteq> [] \<and> ps5_sps p \<noteq> [] \<and> ps5_pps p \<noteq> []"

definition ExtractH265ParameterSets :: "H265NalUnitList \<Rightarrow> H265ParameterSets" where
  "ExtractH265ParameterSets l =
     (let e = ExtractH265ParameterSetsFromUnits l [] [] [] in
      \<lparr>ps5_vps = ex5_vps e, ps5_sps = ex5_sps e, ps5_pps = ex5_pps e\<rparr>)"

section \<open>The builders as sinks\<close>

definition h264_units_ok :: "byte_view \<Rightarrow> H264NalUnitList \<Rightarrow> bool" where
  "h264_units_ok v l \<longleftrightarrow> length (units l) \<le> kMaxNalUnitsPerFrame
     \<and> (\<forall>u \<in> set (units l). view_within (unit_view u) v \<and> bv_bytes (unit_view u) \<noteq> []
          \<and> last (bv_bytes (unit_view u)) \<noteq> 0
          \<and> unit_type u = hd (bv_bytes (unit_view u)) AND 0x1f)"

definition h265_units_ok :: "byte_view \<Rightarrow> H265NalUnitList \<Rightarrow> bool" where
  "h265_units_ok v l \<longleftrightarrow> length (units l) \<le> kMaxNalUnitsPerFrame
     \<and> (\<forall>u \<in> set (units l). view_within (unit_view u) v \<and> bv_size (unit_view u) \<ge> 2
          \<and> last (bv_bytes (unit_view u)) \<noteq> 0
          \<and> unit_type u = drop_bit 1 (hd (bv_bytes (unit_view u))) AND 0x3f)"

interpretation h264_sink: annexb_sink H264ListBuilder h264_units_ok
  by unfold_locales
    (auto simp: H264ListBuilder_def H264NalUnitList_Add_def h264_units_ok_def nal_unit_ok_def)

interpretation h265_sink: annexb_sink H265ListBuilder h265_units_ok
  by unfold_locales
    (auto simp: H265ListBuilder_def H265NalUnitList_Add_def h265_units_ok_def nal_unit_ok_def)

lemma ok_empty_units [simp]: "h264_units_ok v empty_units" "h265_units_ok v empty_units"
  by (simp_all add: h264_units_ok_def h265_units_ok_def empty_units_def)

section \<open>Parsing inverts framing, up to the capacity of the list\<close>

definition h264_unit_of :: "AnnexBNalUnit \<Rightarrow> NalUnit" where
  "h264_unit_of u = \<lparr>unit_view = nal_view u, unit_type = h264_type u\<rparr>"

definition h265_unit_of :: "AnnexBNalUnit \<Rightarrow> NalUnit" where
  "h265_unit_of u = \<lparr>unit_view = nal_view u, unit_type = h265_type u\<rparr>"

definition has_h265_header :: "AnnexBNalUnit \<Rightarrow> bool" where
  "has_h265_header u \<longleftrightarrow> bv_size (nal_view u) > 1"

lemma feed_H264ListBuilder:
  assumes "length (units l) \<le> kMaxNalUnitsPerFrame"
  shows "feed H264ListBuilder us l =
     (l\<lparr>units := take kMaxNalUnitsPerFrame (units l @ map h264_unit_of us),
        overflow := overflow l \<or> kMaxNalUnitsPerFrame < length (units l) + length us\<rparr>,
      length (units l) + length us \<le> kMaxNalUnitsPerFrame)"
  using assms
proof (induction us arbitrary: l)
  case (Cons u us)
  show ?case
  proof (cases "length (units l) < kMaxNalUnitsPerFrame")
    case True
    with Cons.IH [of "l\<lparr>units := units l @ [h264_unit_of u]\<rparr>"] show ?thesis
      by (auto simp: H264ListBuilder_def H264NalUnitList_Add_def h264_unit_of_def)
  next
    case False
    with Cons.prems show ?thesis by (simp add: H264ListBuilder_def H264NalUnitList_Add_def)
  qed
qed simp

lemma feed_H265ListBuilder:
  assumes "length (units l) \<le> kMaxNalUnitsPerFrame"
  shows "feed H265ListBuilder us l =
     (l\<lparr>units := take kMaxNalUnitsPerFrame (units l @ map h265_unit_of (filter has_h265_header us)),
        overflow := overflow l
          \<or> kMaxNalUnitsPerFrame < length (units l) + length (filter has_h265_header us)\<rparr>,
      length (units l) + length (filter has_h265_header us) \<le> kMaxNalUnitsPerFrame)"
  using assms
proof (induction us arbitrary: l)
  case (Cons u us)
  show ?case
  proof (cases "has_h265_header u")
    case False
    with Cons show ?thesis by (simp add: H265ListBuilder_def has_h265_header_def)
  next
    case hdr: True
    show ?thesis
    proof (cases "length (units l) < kMaxNalUnitsPerFrame")
      case True
      with hdr Cons.IH [of "l\<lparr>units := units l @ [h265_unit_of u]\<rparr>"] show ?thesis
        by (auto simp: H265ListBuilder_def H265NalUnitList_Add_def h265_unit_of_def has_h265_header_def)
    next
      case False
      with hdr Cons.prems show ?thesis
        by (simp add: H265ListBuilder_def H265NalUnitList_Add_def has_h265_header_def)
    qed
  qed
qed simp

lemma ForEachAnnexBNalUnit_encoded:
  assumes "wf_nals nals"
  shows "ForEachAnnexBNalUnit on_unit (Some \<lparr>bv_addr = a, bv_bytes = annexb_encode nals\<rparr>) s
       = feed on_unit (encoded_units a nals) s"
proof -
  from assms have ne: "nals \<noteq> []" and wf: "\<forall>x \<in> set nals. wf_nal (snd x)"
    by (simp_all add: wf_nals_def)
  from ne have "annexb_encode nals \<noteq> []"
    by (cases nals rule: annexb_encode.cases) (auto simp: start_code_def)
  with ForEachLoop_encoded [OF ne wf, of on_unit a "[]" False s] show ?thesis
    by (simp add: ForEachAnnexBNalUnit_def bv_size_def)
qed

text \<open>
  Claim C36. The scanner is the inverse of AnnexB framing: for every sink, scanning a frame in
  which each NAL unit stands behind a 3- or 4-byte start code hands the sink exactly those
  units, in order, with their addresses and types, the last one marked.
\<close>

theorem annexb_scan_roundtrip:
  assumes "wf_nals nals"
  shows "ForEachAnnexBNalUnit on_unit (Some \<lparr>bv_addr = a, bv_bytes = annexb_encode nals\<rparr>) s
       = feed on_unit (encoded_units a nals) s"
  using assms by (rule ForEachAnnexBNalUnit_encoded)

text \<open>
  The frame of the repository's parser test: SPS behind a long start code, PPS and IDR slice
  behind short ones.
\<close>

definition sample_nals :: "(bool \<times> bytes) list" where
  "sample_nals = [(True, [0x67, 0x42, 0, 0x1f]), (False, [0x68, 0xce, 0x06]), (False, [0x65, 0x88, 0x84])]"

definition wf_nal_exec :: "bytes \<Rightarrow> bool" where
  "wf_nal_exec n \<longleftrightarrow> n \<noteq> [] \<and> last n \<noteq> 0 \<and> (\<forall>i \<in> set [0..<length n]. \<not> start_code_at n i)"

lemma wf_nal_exec: "wf_nal n \<longleftrightarrow> wf_nal_exec n"
proof -
  have "\<not> start_code_at n i" if "\<not> i < length n" for i
    using that start_code_at_bound [of n i] by linarith
  then show ?thesis unfolding wf_nal_def wf_nal_exec_def by auto
qed

lemma sample_nals_wf: "wf_nals sample_nals"
  unfolding wf_nals_def wf_nal_exec by code_simp

theorem annexb_scan_roundtrip_witness:
  "wf_nals sample_nals
   \<and> fst (ForEachAnnexBNalUnit (\<lambda>us u is_last. (us @ [(h264_type u, is_last)], True))
        (Some \<lparr>bv_addr = 4096, bv_bytes = annexb_encode sample_nals\<rparr>) [])
      = [(7, False), (8, False), (5, True)]"
proof -
  have "feed (\<lambda>us u is_last. (us @ [(h264_type u, is_last)], True)) (encoded_units 4096 sample_nals) []
      = ([(7, False), (8, False), (5, True)], True)"
    by (simp add: sample_nals_def nal_unit_at_def)
  then show ?thesis
    using sample_nals_wf by (simp add: annexb_scan_roundtrip [OF sample_nals_wf])
qed

lemma parse_h264_encoded:
  assumes "wf_nals nals"
  shows "ParseH264AnnexBNalUnits (Some \<lparr>bv_addr = a, bv_bytes = annexb_encode nals\<rparr>) =
     (\<lparr>units = take kMaxNalUnitsPerFrame (map h264_unit_of (encoded_units a nals)),
       overflow = kMaxNalUnitsPerFrame < length nals\<rparr>,
      length nals \<le> kMaxNalUnitsPerFrame)"
proof -
  from assms have "nals \<noteq> []" by (simp add: wf_nals_def)
  then show ?thesis
    unfolding ParseH264AnnexBNalUnits_def ForEachAnnexBNalUnit_encoded [OF assms]
    by (subst feed_H264ListBuilder) (auto simp: empty_units_def kMaxNalUnitsPerFrame_def)
qed

text \<open>
  \<open>ParseH264AnnexBNalUnits\<close> returns all NAL units of a well-formed frame with their
  types when there are at most 64 of them; a frame with more is refused and the overflow flag
  is set, so that no NAL unit is dropped silently.
\<close>

lemma ParseH264_encoded:
  assumes "wf_nals nals"
  shows "ParseH264AnnexBNalUnits (Some \<lparr>bv_addr = a, bv_bytes = annexb_encode nals\<rparr>) =
     (\<lparr>units = take kMaxNalUnitsPerFrame (map h264_unit_of (encoded_units a nals)),
       overflow = kMaxNalUnitsPerFrame < length nals\<rparr>,
      length nals \<le> kMaxNalUnitsPerFrame)"
  using assms by (rule parse_h264_encoded)

lemma parse_h265_encoded:
  assumes "wf_nals nals"
  shows "ParseH265AnnexBNalUnits (Some \<lparr>bv_addr = a, bv_bytes = annexb_encode nals\<rparr>) =
     (let us = filter has_h265_header (encoded_units a nals) in
      (\<lparr>units = take kMaxNalUnitsPerFrame (map h265_unit_of us),
        overflow = kMaxNalUnitsPerFrame < length us\<rparr>,
       us \<noteq> [] \<and> length us \<le> kMaxNalUnitsPerFrame))"
  unfolding ParseH265AnnexBNalUnits_def ForEachAnnexBNalUnit_encoded [OF assms]
  by (subst feed_H265ListBuilder) (auto simp: empty_units_def kMaxNalUnitsPerFrame_def Let_def)

text \<open>
  \<open>ParseH265AnnexBNalUnits\<close> returns all NAL units of a well-formed frame that are long
  enough for the two-byte HEVC header, and refuses the frame when they do not fit the list or
  none is left.
\<close>

lemma ParseH265_encoded:
  assumes "wf_nals nals"
  shows "ParseH265AnnexBNalUnits (Some \<lparr>bv_addr = a, bv_bytes = annexb_encode nals\<rparr>) =
     (let us = filter has_h265_header (encoded_units a nals) in
      (\<lparr>units = take kMaxNalUnitsPerFrame (map h265_unit_of us),
        overflow = kMaxNalUnitsPerFrame < length us\<rparr>,
       us \<noteq> [] \<and> length us \<le> kMaxNalUnitsPerFrame))"
  using assms by (rule parse_h265_encoded)

lemma parse_h264_units_ok:
  assumes "ParseH264AnnexBNalUnits (Some v) = (l, ok)"
  shows "h264_units_ok v l \<and> (ok \<longrightarrow> units l \<noteq> [] \<and> \<not> overflow l)"
proof -
  obtain l' ok' where r: "ForEachAnnexBNalUnit H264ListBuilder (Some v) empty_units = (l', ok')"
    by fastforce
  have "h264_units_ok v l'" using h264_sink.inv_scan [of v empty_units] r by simp
  with assms r show ?thesis by (auto simp: ParseH264AnnexBNalUnits_def)
qed

text \<open>
  On any input, however malformed, every unit \<open>ParseH264AnnexBNalUnits\<close> stores is a
  non-empty view of bytes inside the payload, not ending in a zero byte, typed by its first
  byte, and at most 64 are stored; success implies that at least one was found and none lost.
\<close>

lemma ParseH264_sound:
  assumes "ParseH264AnnexBNalUnits (Some v) = (l, ok)"
  shows "h264_units_ok v l \<and> (ok \<longrightarrow> units l \<noteq> [] \<and> \<not> overflow l)"
  using assms by (rule parse_h264_units_ok)

lemma parse_h265_units_ok:
  assumes "ParseH265AnnexBNalUnits (Some v) = (l, ok)"
  shows "h265_units_ok v l \<and> (ok \<longrightarrow> units l \<noteq> [] \<and> \<not> overflow l)"
proof -
  obtain l' ok' where r: "ForEachAnnexBNalUnit H265ListBuilder (Some v) empty_units = (l', ok')"
    by fastforce
  have "h265_units_ok v l'" using h265_sink.inv_scan [of v empty_units] r by simp
  with assms r show ?thesis by (auto simp: ParseH265AnnexBNalUnits_def)
qed

text \<open>
  On any input every unit \<open>ParseH265AnnexBNalUnits\<close> stores is a view of at least two
  bytes inside the payload, typed by bits 1 to 6 of its first byte, and at most 64 are stored.
\<close>

lemma ParseH265_sound:
  assumes "ParseH265AnnexBNalUnits (Some v) = (l, ok)"
  shows "h265_units_ok v l \<and> (ok \<longrightarrow> units l \<noteq> [] \<and> \<not> overflow l)"
  using assms by (rule parse_h265_units_ok)

section \<open>Parameter sets\<close>

abbreviation payloads_of :: "u8 \<Rightarrow> NalUnit list \<Rightarrow> bytes list" where
  "payloads_of t us \<equiv> map (\<lambda>u. bv_bytes (unit_view u)) (filter (\<lambda>u. unit_type u = t) us)"

lemma AnyNalUnit_iff: "AnyNalUnit us P \<longleftrightarrow> (\<exists>u \<in> set us. P u)"
  by (induction us) auto

lemma ExtractH264Loop_eq:
  "ExtractH264Loop us e =
     \<lparr>ex_sps = last (ex_sps e # payloads_of kH264NalTypeSps us),
      ex_pps = last (ex_pps e # payloads_of kH264NalTypePps us),
      ex_has_sps = (ex_has_sps e \<or> payloads_of kH264NalTypeSps us \<noteq> []),
      ex_has_pps = (ex_has_pps e \<or> payloads_of kH264NalTypePps us \<noteq> [])\<rparr>"
  by (induction us e rule: ExtractH264Loop.induct) (auto simp: nal_type_defs)

lemma ExtractH265Loop_eq:
  "ExtractH265Loop us e =
     \<lparr>ex5_vps = last (ex5_vps e # payloads_of kH265NalTypeVps us),
      ex5_sps = last (ex5_sps e # payloads_of kH265NalTypeSps us),
      ex5_pps = last (ex5_pps e # payloads_of kH265NalTypePps us),
      ex5_has_vps = (ex5_has_vps e \<or> payloads_of kH265NalTypeVps us \<noteq> []),
      ex5_has_sps = (ex5_has_sps e \<or> payloads_of kH265NalTypeSps us \<noteq> []),
      ex5_has_pps = (ex5_has_pps e \<or> payloads_of kH265NalTypePps us \<noteq> [])\<rparr>"
  by (induction us e rule: ExtractH265Loop.induct) (auto simp: nal_type_defs)

lemma CompleteH264Loop_iff:
  "\<not> (s \<and> p) \<Longrightarrow> CompleteH264Loop us s p \<longleftrightarrow>
     (s \<or> payloads_of kH264NalTypeSps us \<noteq> []) \<and> (p \<or> payloads_of kH264NalTypePps us \<noteq> [])"
  by (induction us s p rule: CompleteH264Loop.induct) (auto simp: nal_type_defs Let_def)

lemma CompleteH265Loop_iff:
  "\<not> (v \<and> s \<and> p) \<Longrightarrow> CompleteH265Loop us v s p \<longleftrightarrow>
     (v \<or> payloads_of kH265NalTypeVps us \<noteq> []) \<and> (s \<or> payloads_of kH265NalTypeSps us \<noteq> [])
     \<and> (p \<or> payloads_of kH265NalTypePps us \<noteq> [])"
  by (induction us v s p rule: CompleteH265Loop.induct) (auto simp: nal_type_defs Let_def)

text \<open>
  Parameter-set extraction keeps, per kind, the last set of the frame and leaves the
  caller's string untouched when the frame has none; the flags say which kinds occurred.
\<close>

lemma ExtractParameterSets_last:
  "ExtractH264ParameterSetsFromUnits l sps pps =
     \<lparr>ex_sps = last (sps # payloads_of kH264NalTypeSps (units l)),
      ex_pps = last (pps # payloads_of kH264NalTypePps (units l)),
      ex_has_sps = (payloads_of kH264NalTypeSps (units l) \<noteq> []),
      ex_has_pps = (payloads_of kH264NalTypePps (units l) \<noteq> [])\<rparr>
   \<and> ExtractH265ParameterSetsFromUnits l vps sps pps =
     \<lparr>ex5_vps = last (vps # payloads_of kH265NalTypeVps (units l)),
      ex5_sps = last (sps # payloads_of kH265NalTypeSps (units l)),
      ex5_pps = last (pps # payloads_of kH265NalTypePps (units l)),
      ex5_has_vps = (payloads_of kH265NalTypeVps (units l) \<noteq> []),
      ex5_has_sps = (payloads_of kH265NalTypeSps (units l) \<noteq> []),
      ex5_has_pps = (payloads_of kH265NalTypePps (units l) \<noteq> [])\<rparr>"
  by (simp add: ExtractH264ParameterSetsFromUnits_def ExtractH264Loop_eq
      ExtractH265ParameterSetsFromUnits_def ExtractH265Loop_eq)

lemma last_payload_nonempty:
  assumes "\<forall>u \<in> set us. bv_bytes (unit_view u) \<noteq> []"
  shows "last ([] # payloads_of t us) = [] \<longleftrightarrow> payloads_of t us = []"
proof (cases "payloads_of t us = []")
  case False
  then have "last (payloads_of t us) \<in> set (payloads_of t us)" by (rule last_in_set)
  with assms False show ?thesis by auto
qed simp

text \<open>
  The early-exit check for complete parameter sets agrees with extraction: on every
  list the parsers produce, the check succeeds exactly when all extracted sets are non-empty,
  which is when a decoder configuration record can be built.
\<close>

lemma ContainsComplete_iff_extract:
  assumes "h264_units_ok v l4" and "h265_units_ok v l5"
  shows "ContainsCompleteH264ParameterSets l4
           = H264ParameterSets_complete (ExtractH264ParameterSets l4)
       \<and> ContainsCompleteH265ParameterSets l5
           = H265ParameterSets_complete (ExtractH265ParameterSets l5)"
proof -
  have n4: "\<forall>u \<in> set (units l4). bv_bytes (unit_view u) \<noteq> []"
    using assms(1) by (simp add: h264_units_ok_def)
  have n5: "\<forall>u \<in> set (units l5). bv_bytes (unit_view u) \<noteq> []"
    using assms(2) by (fastforce simp: h265_units_ok_def bv_size_def)
  show ?thesis
    using last_payload_nonempty [OF n4] last_payload_nonempty [OF n5]
    by (simp add: ContainsCompleteH264ParameterSets_def CompleteH264Loop_iff
        ContainsCompleteH265ParameterSets_def CompleteH265Loop_iff
        ExtractH264ParameterSets_def ExtractH264ParameterSetsFromUnits_def ExtractH264Loop_eq
        ExtractH265ParameterSets_def ExtractH265ParameterSetsFromUnits_def ExtractH265Loop_eq
        H264ParameterSets_complete_def H265ParameterSets_complete_def Let_def del: last.simps)
qed

end
