(* ===== verification/Avcc_Writer.thy ===== *)
theory Avcc_Writer
  imports Byte_Writer Nal_Parser
begin

text \<open>
  \<open>libs/media_codec/src/avcc_writer.cpp\<close>: length-prefixed NAL units and the decoder
  configuration records \<open>avcC\<close> (H.264) and \<open>hvcC\<close> (H.265) with the RFC 6381 codec string.
  A function that returns \<open>false\<close> without touching its output is modelled by \<open>None\<close>.
\<close>

section \<open>Model\<close>

record H265ProfileTierLevel =
  profile_byte :: u8
  compatibility_flags :: bytes
  constraint_flags :: bytes
  level_idc :: u8
  max_sub_layers_minus1 :: u8
  temporal_id_nested :: bool

definition DefaultH265MainProfile :: H265ProfileTierLevel where
  "DefaultH265MainProfile =
     \<lparr>profile_byte = 0x01, compatibility_flags = (replicate 4 0)[0 := 0x60],
      constraint_flags = (replicate 6 0)[0 := 0xb0], level_idc = 0x5d,
      max_sub_layers_minus1 = 0, temporal_id_nested = True\<rparr>"

text \<open>The \<open>for\<close> loop of \<open>H265NalRbsp\<close>; \<open>zero_count\<close> is an 8-bit counter.\<close>

fun H265NalRbspLoop :: "bytes \<Rightarrow> u8 \<Rightarrow> bytes \<Rightarrow> bytes" where
  "H265NalRbspLoop [] zero_count rbsp = rbsp"
| "H265NalRbspLoop (byte # rest) zero_count rbsp =
     (if zero_count \<ge> 2 \<and> byte = 0x03 then H265NalRbspLoop rest 0 rbsp
      else H265NalRbspLoop rest (if byte = 0 then zero_count + 1 else 0) (rbsp @ [byte]))"

definition H265NalRbsp :: "bytes \<Rightarrow> bytes" where
  "H265NalRbsp nal_unit =
     (if length nal_unit \<le> 2 then [] else H265NalRbspLoop (drop 2 nal_unit) 0 [])"

definition ExtractH265ProfileFromVps ::
  "bytes \<Rightarrow> H265ProfileTierLevel \<Rightarrow> H265ProfileTierLevel option" where
  "ExtractH265ProfileFromVps vps profile =
     (let rbsp = H265NalRbsp vps in
      if length rbsp < 16 then None
      else Some (profile\<lparr>max_sub_layers_minus1 := drop_bit 1 (rbsp ! 1) AND 0x07,
                         temporal_id_nested := (rbsp ! 1 AND 0x01) \<noteq> 0,
                         profile_byte := rbsp ! 4,
                         compatibility_flags := take 4 (drop 5 rbsp),
                         constraint_flags := take 6 (drop 9 rbsp),
                         level_idc := rbsp ! 15\<rparr>))"

definition AppendH265ProfileTierLevel :: "H265ProfileTierLevel \<Rightarrow> bytes \<Rightarrow> bytes" where
  "AppendH265ProfileTierLevel profile rec =
     AppendU8 (AppendU8 rec (profile_byte profile) @ compatibility_flags profile
               @ constraint_flags profile) (level_idc profile)"

definition H265HvccTemporalByte :: "H265ProfileTierLevel \<Rightarrow> u8" where
  "H265HvccTemporalByte profile =
     (let temporal_layers = max_sub_layers_minus1 profile + 1 in
      push_bit 3 (temporal_layers AND 0x07)
      OR (if temporal_id_nested profile then 0x04 else 0x00) OR 0x03)"

definition ReadU32 :: "bytes \<Rightarrow> u32" where
  "ReadU32 data =
     (if length data < 4 then 0
      else push_bit 24 (ucast (data ! 0)) OR push_bit 16 (ucast (data ! 1))
           OR push_bit 8 (ucast (data ! 2)) OR ucast (data ! 3))"

fun ReverseBits32Loop :: "nat \<Rightarrow> nat \<Rightarrow> u32 \<Rightarrow> u32 \<Rightarrow> u32" where
  "ReverseBits32Loop 0 i value reversed = reversed"
| "ReverseBits32Loop (Suc n) i value reversed =
     ReverseBits32Loop n (i + 1) value (reversed OR push_bit (31 - i) (drop_bit i value AND 1))"

definition ReverseBits32 :: "u32 \<Rightarrow> u32" where
  "ReverseBits32 value = ReverseBits32Loop 32 0 value 0"

text \<open>\<open>snprintf "%X"\<close> and \<open>std::to_string\<close> on unsigned values.\<close>

fun radix_string :: "nat \<Rightarrow> nat \<Rightarrow> string" where
  "radix_string b n =
     (if n < b \<or> b < 2 then [''0123456789ABCDEF'' ! (n mod 16)]
      else radix_string b (n div b) @ [''0123456789ABCDEF'' ! (n mod b)])"

declare radix_string.simps [simp del]

definition HexNoLeadingZero :: "u32 \<Rightarrow> string" where
  "HexNoLeadingZero value = radix_string 16 (unat value)"

definition to_string_u8 :: "u8 \<Rightarrow> string" where
  "to_string_u8 value = radix_string 10 (unat value)"

text \<open>\<open>last_constraint_index + 1\<close>: the number of constraint bytes up to the last non-zero one.\<close>

fun ConstraintCount :: "bytes \<Rightarrow> nat \<Rightarrow> nat" where
  "ConstraintCount flags 0 = 0"
| "ConstraintCount flags (Suc n) = (if flags ! n = 0 then ConstraintCount flags n else Suc n)"

definition H265CodecString :: "H265ProfileTierLevel \<Rightarrow> string" where
  "H265CodecString profile =
     (let profile_space = drop_bit 6 (profile_byte profile) AND 0x03;
          profile_idc = profile_byte profile AND 0x1f;
          tier_high = (profile_byte profile AND 0x20) \<noteq> 0;
          flags = constraint_flags profile
      in ''hvc1.''
         @ (if profile_space = 1 then ''A'' else if profile_space = 2 then ''B''
            else if profile_space = 3 then ''C'' else [])
         @ to_string_u8 profile_idc @ ''.''
         @ HexNoLeadingZero (ReverseBits32 (ReadU32 (compatibility_flags profile))) @ ''.''
         @ (if tier_high then ''H'' else ''L'') @ to_string_u8 (level_idc profile)
         @ concat (map (\<lambda>i. ''.'' @ HexNoLeadingZero (ucast (flags ! i)))
                       [0..<ConstraintCount flags (length flags)]))"

definition AppendHvccArray :: "bytes \<Rightarrow> u8 \<Rightarrow> bytes \<Rightarrow> bytes" where
  "AppendHvccArray rec nal_type nal_unit =
     (if nal_unit = [] then rec
      else AppendU16 (AppendU16 (AppendU8 rec (0x80 OR (nal_type AND 0x3f))) 1)
             (word_of_nat (length nal_unit)) @ nal_unit)"

definition WriteNalLengthPrefix :: "nat \<Rightarrow> bytes option" where
  "WriteNalLengthPrefix nal_size =
     (if nal_size > UINT32_MAX then None
      else Some [word_of_nat (drop_bit 24 nal_size AND 0xff), word_of_nat (drop_bit 16 nal_size AND 0xff),
                 word_of_nat (drop_bit 8 nal_size AND 0xff), word_of_nat (nal_size AND 0xff)])"

definition AppendLengthPrefixedNal :: "bytes option \<Rightarrow> bytes \<Rightarrow> bytes option" where
  "AppendLengthPrefixedNal data out =
     (case data of
        None \<Rightarrow> None
      | Some d \<Rightarrow>
          if length d = 0 then None
          else (case WriteNalLengthPrefix (length d) of
                  None \<Rightarrow> None | Some prefix \<Rightarrow> Some (out @ prefix @ d)))"

definition BuildH264AvccRecord :: "bytes \<Rightarrow> bytes \<Rightarrow> bytes option" where
  "BuildH264AvccRecord sps pps =
     (if sps = [] \<or> pps = [] \<or> length sps > UINT16_MAX \<or> length pps > UINT16_MAX then None
      else Some
        (let r = AppendU8 [] 1;
             r = AppendU8 r (if length sps > 1 then sps ! 1 else 0x64);
             r = AppendU8 r (if length sps > 2 then sps ! 2 else 0x00);
             r = AppendU8 r (if length sps > 3 then sps ! 3 else 0x1f);
             r = AppendU8 r 0xff;
             r = AppendU8 r 0xe1;
             r = AppendU16 r (word_of_nat (length sps)) @ sps;
             r = AppendU8 r 1;
             r = AppendU16 r (word_of_nat (length pps)) @ pps
         in r))"

definition BuildH265HvccRecord :: "bytes \<Rightarrow> bytes \<Rightarrow> bytes \<Rightarrow> (bytes \<times> string) option" where
  "BuildH265HvccRecord vps sps pps =
     (if vps = [] \<or> sps = [] \<or> pps = [] \<or> length vps > UINT16_MAX
         \<or> length sps > UINT16_MAX \<or> length pps > UINT16_MAX then None
      else
        let profile = (case ExtractH265ProfileFromVps vps DefaultH265MainProfile of
                         None \<Rightarrow> DefaultH265MainProfile | Some p \<Rightarrow> p);
            r = AppendH265ProfileTierLevel profile (AppendU8 [] 1);
            r = AppendU16 r 0xf000;
            r = AppendU8 (AppendU8 (AppendU8 (AppendU8 r 0xfc) 0xfd) 0xf8) 0xf8;
            r = AppendU16 r 0;
            r = AppendU8 r (H265HvccTemporalByte profile);
            r = AppendU8 r 3;
            r = AppendHvccArray r kH265NalTypeVps vps;
            r = AppendHvccArray r kH265NalTypeSps sps;
            r = AppendHvccArray r kH265NalTypePps pps
        in Some (r, H265CodecString profile))"

section \<open>Length prefixes\<close>

lemma WriteNalLengthPrefix_be32:
  "n \<le> UINT32_MAX \<Longrightarrow> WriteNalLengthPrefix n = Some (be32 (word_of_nat n))"
proof -
  assume n: "n \<le> UINT32_MAX"
  then have u: "unat (word_of_nat n :: u32) = n" by (simp add: unat_of_nat)
  have m: "k AND 0xff = k mod 256" for k :: nat
    using take_bit_eq_mask [of 8 k] by (simp add: take_bit_eq_mod mask_eq_exp_minus_1)
  have "word_of_nat (drop_bit k n AND 0xff) = (ucast (drop_bit k (word_of_nat n :: u32)) :: u8)" for k
    by (rule word_unat_eq_iff [THEN iffD2])
      (simp only: unat_byte u, simp add: m unat_of_nat drop_bit_eq_div)
  from this [of 0] this [of 8] this [of 16] this [of 24] n show ?thesis
    by (simp add: WriteNalLengthPrefix_def be32_def)
qed

text \<open>A reader of 4-byte length-prefixed NAL units, as AVCC and FLV players use it.\<close>

function avcc_split :: "bytes \<Rightarrow> bytes list option" where
  "avcc_split bs =
     (if bs = [] then Some []
      else if length bs < 4 then None
      else let n = be_value (take 4 bs) in
        if length bs < 4 + n then None
        else map_option (Cons (take n (drop 4 bs))) (avcc_split (drop (4 + n) bs)))"
  by pat_completeness auto
termination
  by (relation "measure length") auto

declare avcc_split.simps [simp del]

fun AppendAll :: "bytes list \<Rightarrow> bytes \<Rightarrow> bytes option" where
  "AppendAll [] out = Some out"
| "AppendAll (n # ns) out =
     (case AppendLengthPrefixedNal (Some n) out of None \<Rightarrow> None | Some o' \<Rightarrow> AppendAll ns o')"

definition nal_sized :: "bytes \<Rightarrow> bool" where
  "nal_sized n \<longleftrightarrow> n \<noteq> [] \<and> length n \<le> UINT32_MAX"

lemma AppendLengthPrefixedNal_sized:
  "nal_sized n \<Longrightarrow> AppendLengthPrefixedNal (Some n) out = Some (out @ be32 (word_of_nat (length n)) @ n)"
  by (simp add: AppendLengthPrefixedNal_def nal_sized_def WriteNalLengthPrefix_be32)

lemma AppendAll_sized:
  "list_all nal_sized ns \<Longrightarrow>
     AppendAll ns out = Some (out @ concat (map (\<lambda>n. be32 (word_of_nat (length n)) @ n) ns))"
  by (induction ns arbitrary: out) (simp_all add: AppendLengthPrefixedNal_sized)

lemma unat_of_nat_u32: "n \<le> UINT32_MAX \<Longrightarrow> unat (word_of_nat n :: u32) = n"
  by (simp add: unat_of_nat)

lemma unat_of_nat_u16: "n \<le> UINT16_MAX \<Longrightarrow> unat (word_of_nat n :: u16) = n"
  by (simp add: unat_of_nat)

lemma avcc_split_cons:
  assumes "nal_sized n"
  shows "avcc_split (be32 (word_of_nat (length n)) @ n @ rest) = map_option (Cons n) (avcc_split rest)"
proof -
  let ?p = "be32 (word_of_nat (length n))"
  have "be_value (take 4 (?p @ n @ rest)) = length n"
    using assms by (simp add: nal_sized_def unat_of_nat_u32)
  then show ?thesis
    by (subst avcc_split.simps) (simp add: Let_def)
qed

lemma avcc_split_concat:
  "list_all nal_sized ns \<Longrightarrow>
     avcc_split (concat (map (\<lambda>n. be32 (word_of_nat (length n)) @ n) ns)) = Some ns"
proof (induction ns)
  case Nil
  show ?case by (simp add: avcc_split.simps)
next
  case (Cons n ns)
  then show ?case using avcc_split_cons [of n] by simp
qed

text \<open>
  Length-prefixed framing is lossless: appending any sequence of NAL units of at most
  \<open>2 ^ 32 - 1\<close> bytes with \<open>AppendLengthPrefixedNal\<close> succeeds, and a reader of 4-byte length
  prefixes recovers exactly that sequence.
\<close>

lemma length_prefixed_roundtrip:
  assumes "list_all nal_sized ns"
  shows "\<exists>out. AppendAll ns [] = Some out \<and> avcc_split out = Some ns"
  using AppendAll_sized [OF assms, of "[]"] avcc_split_concat [OF assms] by simp

section \<open>Decoder configuration records\<close>

text \<open>A reader of the \<open>avcC\<close> layout: profile, compatibility, level, the SPS and the PPS.\<close>

definition avcc_parse :: "bytes \<Rightarrow> (u8 \<times> u8 \<times> u8 \<times> bytes \<times> bytes) option" where
  "avcc_parse r =
     (if length r < 8 \<or> r ! 0 \<noteq> 1 \<or> r ! 4 AND 3 \<noteq> 3 \<or> r ! 5 AND 0x1f \<noteq> 1 then None
      else let n = be_value (take 2 (drop 6 r)); t = drop (8 + n) r in
        if length r < 8 + n + 3 \<or> t ! 0 \<noteq> 1 then None
        else let m = be_value (take 2 (drop 1 t)) in
          if length t \<noteq> 3 + m then None
          else Some (r ! 1, r ! 2, r ! 3, take n (drop 8 r), drop 3 t))"

definition byte_or :: "bytes \<Rightarrow> nat \<Rightarrow> u8 \<Rightarrow> u8" where
  "byte_or bs i d = (if i < length bs then bs ! i else d)"

lemma BuildH264AvccRecord_eq:
  assumes "sps \<noteq> []" "pps \<noteq> []" "length sps \<le> UINT16_MAX" "length pps \<le> UINT16_MAX"
  shows "BuildH264AvccRecord sps pps = Some
    ([1, byte_or sps 1 0x64, byte_or sps 2 0, byte_or sps 3 0x1f, 0xff, 0xe1]
      @ be16 (word_of_nat (length sps)) @ sps @ [1] @ be16 (word_of_nat (length pps)) @ pps)"
  using assms by (simp add: BuildH264AvccRecord_def Let_def wire_simps byte_or_def)

lemma avcc_parse_layout:
  assumes "length sps \<le> UINT16_MAX" and "length pps \<le> UINT16_MAX"
  shows "avcc_parse ([1, a, b, c, 0xff, 0xe1] @ be16 (word_of_nat (length sps)) @ sps
           @ [1] @ be16 (word_of_nat (length pps)) @ pps) = Some (a, b, c, sps, pps)"
proof -
  let ?s = "be16 (word_of_nat (length sps))" and ?p = "be16 (word_of_nat (length pps))"
  let ?t = "1 # ?p @ pps"
  let ?r = "[1, a, b, c, 0xff, 0xe1] @ ?s @ sps @ ?t"
  have n: "be_value (take 2 (drop 6 ?r)) = length sps"
    using assms(1) by (simp add: unat_of_nat_u16)
  have m: "be_value (take 2 (drop 1 ?t)) = length pps"
    using assms(2) by (simp add: unat_of_nat_u16)
  have "length ([1, a, b, c, 0xff, 0xe1] @ ?s @ sps) = 8 + length sps" by simp
  from drop_app_len [OF this, of ?t] have t: "drop (8 + length sps) ?r = ?t"
    by (simp only: append.assoc)
  have sps: "take (length sps) (drop 8 ?r) = sps" by simp
  have len: "length ?r = 11 + length sps + length pps" by simp
  have hd: "?r ! 0 = 1" "?r ! 1 = a" "?r ! 2 = b" "?r ! 3 = c" "?r ! 4 = 0xff" "?r ! 5 = 0xe1"
    by simp_all
  have "avcc_parse ?r = Some (a, b, c, sps, pps)"
    unfolding avcc_parse_def Let_def n t m hd sps len by simp
  then show ?thesis by simp
qed

text \<open>
  \<open>BuildH264AvccRecord\<close> writes a record from which an \<open>avcC\<close> reader recovers the SPS,
  the PPS and the profile, compatibility and level bytes of the SPS (defaults where the SPS is
  too short), for all non-empty parameter sets of up to 65535 bytes; it refuses all others.
\<close>

lemma avcc_record_roundtrip:
  "case BuildH264AvccRecord sps pps of
     None \<Rightarrow> sps = [] \<or> pps = [] \<or> length sps > UINT16_MAX \<or> length pps > UINT16_MAX
   | Some r \<Rightarrow> sps \<noteq> [] \<and> pps \<noteq> [] \<and> length sps \<le> UINT16_MAX \<and> length pps \<le> UINT16_MAX
       \<and> avcc_parse r = Some (byte_or sps 1 0x64, byte_or sps 2 0, byte_or sps 3 0x1f, sps, pps)"
proof (cases "sps \<noteq> [] \<and> pps \<noteq> [] \<and> length sps \<le> UINT16_MAX \<and> length pps \<le> UINT16_MAX")
  case True
  then show ?thesis
    using avcc_parse_layout [of sps pps] by (simp add: BuildH264AvccRecord_eq)
next
  case False
  then show ?thesis by (auto simp: BuildH264AvccRecord_def)
qed

section \<open>HEVC records\<close>

text \<open>Emulation prevention as the encoder applies it (H.265, 7.4.2), after \<open>z\<close> zero bytes.\<close>

fun emulation_prevent :: "nat \<Rightarrow> bytes \<Rightarrow> bytes" where
  "emulation_prevent z [] = []"
| "emulation_prevent z (b # bs) =
     (if z \<ge> 2 \<and> b \<le> 3 then 3 # b # emulation_prevent (if b = 0 then 1 else 0) bs
      else b # emulation_prevent (if b = 0 then z + 1 else 0) bs)"

lemma H265NalRbspLoop_prevent:
  "z \<le> 2 \<Longrightarrow> H265NalRbspLoop (emulation_prevent z bs) (word_of_nat z) acc = acc @ bs"
proof (induction z bs arbitrary: acc rule: emulation_prevent.induct)
  case (2 z b bs)
  show ?case
  proof (cases "z \<ge> 2 \<and> b \<le> 3")
    case True
    with "2.prems" have "z = 2" by simp
    with True "2.IH"(1) [of "acc @ [b]"] show ?thesis by (cases "b = 0") simp_all
  next
    case False
    then have z: "b = 0 \<longrightarrow> z \<le> 1" by auto
    have no_drop: "\<not> ((2 :: u8) \<le> word_of_nat z \<and> b = 3)"
      using False "2.prems" by (auto simp: word_le_nat_alt unat_of_nat)
    show ?thesis
    proof (cases "b = 0")
      case True
      with False "2.IH"(2) [of "acc @ [b]"] z no_drop show ?thesis by (auto simp: add.commute)
    next
      case nz: False
      with False "2.IH"(2) [of "acc @ [b]"] no_drop show ?thesis by auto
    qed
  qed
qed simp

text \<open>
  \<open>H265NalRbsp\<close> undoes emulation prevention: for every payload, removing the escape
  bytes from the escaped NAL unit behind its two header bytes gives the payload back, and the
  8-bit zero counter never wraps on such input.
\<close>

lemma H265NalRbsp_inverse:
  "H265NalRbsp (h0 # h1 # emulation_prevent 0 rbsp) = rbsp"
proof (cases rbsp)
  case Nil
  then show ?thesis by (simp add: H265NalRbsp_def)
next
  case (Cons b bs)
  have "H265NalRbspLoop (emulation_prevent 0 rbsp) 0 [] = rbsp"
    using H265NalRbspLoop_prevent [of 0 rbsp "[]"] by simp
  with Cons show ?thesis by (simp add: H265NalRbsp_def)
qed

lemma ReverseBits32Loop_bit:
  "i + n \<le> 32 \<Longrightarrow> j < 32 \<Longrightarrow>
     bit (ReverseBits32Loop n i v r) j \<longleftrightarrow> bit r j \<or> (31 - j \<in> {i..<i + n} \<and> bit v (31 - j))"
proof (induction n arbitrary: i r)
  case (Suc n)
  define t where "t = push_bit (31 - i) (drop_bit i v AND 1)"
  have "bit t j \<longleftrightarrow> 31 - j = i \<and> bit v i"
    unfolding t_def using Suc.prems by (auto simp only: bit_push_bit_iff bit_and_iff bit_drop_bit_eq bit_1_iff) auto
  moreover have "ReverseBits32Loop (Suc n) i v r = ReverseBits32Loop n (i + 1) v (r OR t)"
    by (simp add: t_def)
  moreover have "31 - j \<in> {i..<i + Suc n} \<longleftrightarrow> 31 - j = i \<or> 31 - j \<in> {i + 1..<i + 1 + n}" by auto
  ultimately show ?case
    using Suc.IH [of "i + 1" "r OR t"] Suc.prems by (auto simp only: bit_or_iff)
qed simp

lemma ReverseBits32_bit: "j < 32 \<Longrightarrow> bit (ReverseBits32 v) j \<longleftrightarrow> bit v (31 - j)"
  unfolding ReverseBits32_def by (subst ReverseBits32Loop_bit) auto

lemma ReverseBits32_involution: "ReverseBits32 (ReverseBits32 v) = v"
  by (rule bit_word_eqI) (simp add: ReverseBits32_bit)

text \<open>A reader of the array part of an \<open>hvcC\<close> record: (type, NAL unit) pairs.\<close>

fun hvcc_arrays :: "nat \<Rightarrow> bytes \<Rightarrow> (u8 \<times> bytes) list option" where
  "hvcc_arrays 0 r = (if r = [] then Some [] else None)"
| "hvcc_arrays (Suc k) r =
     (if length r < 5 \<or> be_value (take 2 (drop 1 r)) \<noteq> 1 then None
      else let n = be_value (take 2 (drop 3 r)) in
        if length r < 5 + n then None
        else map_option (Cons (r ! 0 AND 0x3f, take n (drop 5 r))) (hvcc_arrays k (drop (5 + n) r)))"

definition hvcc_parse :: "bytes \<Rightarrow> (u8 \<times> bytes) list option" where
  "hvcc_parse r =
     (if length r < 23 \<or> r ! 0 \<noteq> 1 then None else hvcc_arrays (unat (r ! 22)) (drop 23 r))"

definition hvcc_profile :: "bytes \<Rightarrow> H265ProfileTierLevel" where
  "hvcc_profile vps = (case ExtractH265ProfileFromVps vps DefaultH265MainProfile of
                         None \<Rightarrow> DefaultH265MainProfile | Some p \<Rightarrow> p)"

lemma hvcc_profile_lengths:
  "length (compatibility_flags (hvcc_profile vps)) = 4" "length (constraint_flags (hvcc_profile vps)) = 6"
  by (auto simp: hvcc_profile_def ExtractH265ProfileFromVps_def DefaultH265MainProfile_def Let_def)

lemma AppendHvccArray_eq:
  "n \<noteq> [] \<Longrightarrow> AppendHvccArray r t n =
     r @ [0x80 OR (t AND 0x3f)] @ be16 1 @ be16 (word_of_nat (length n)) @ n"
  by (simp add: AppendHvccArray_def wire_simps)

lemma hvcc_arrays_step:
  assumes "length n \<le> UINT16_MAX"
  shows "hvcc_arrays (Suc k) (t # be16 1 @ be16 (word_of_nat (length n)) @ n @ rest)
       = map_option (Cons (t AND 0x3f, n)) (hvcc_arrays k rest)"
proof -
  let ?r = "t # be16 1 @ be16 (word_of_nat (length n)) @ n @ rest"
  let ?h = "t # be16 1 @ be16 (word_of_nat (length n))"
  have c: "be_value (take 2 (drop 1 ?r)) = 1" by simp
  have l: "be_value (take 2 (drop 3 ?r)) = length n"
    using assms by (simp add: unat_of_nat_u16)
  have "length (?h @ n) = 5 + length n" by simp
  from drop_app_len [OF this, of rest] have d: "drop (5 + length n) ?r = rest" by simp
  have p: "take (length n) (drop 5 ?r) = n" by simp
  have z: "?r ! 0 = t" by simp
  have len: "length ?r = 5 + length n + length rest" by simp
  show ?thesis unfolding hvcc_arrays.simps Let_def c l d p z len by simp
qed

text \<open>
  \<open>BuildH265HvccRecord\<close> writes a 23-byte header (version 1, 4-byte NAL lengths, three
  arrays) and arrays from which an \<open>hvcC\<close> reader recovers VPS, SPS and PPS in this order, for
  all non-empty sets of up to 65535 bytes; it refuses all others. The codec string it returns
  is that of the profile it wrote.
\<close>

lemma hvcc_record_roundtrip:
  "case BuildH265HvccRecord vps sps pps of
     None \<Rightarrow> vps = [] \<or> sps = [] \<or> pps = [] \<or> length vps > UINT16_MAX
       \<or> length sps > UINT16_MAX \<or> length pps > UINT16_MAX
   | Some (r, codec) \<Rightarrow>
       hvcc_parse r = Some [(kH265NalTypeVps, vps), (kH265NalTypeSps, sps), (kH265NalTypePps, pps)]
       \<and> length r = 38 + length vps + length sps + length pps
       \<and> r ! 1 = profile_byte (hvcc_profile vps) \<and> r ! 12 = level_idc (hvcc_profile vps)
       \<and> r ! 21 = H265HvccTemporalByte (hvcc_profile vps)
       \<and> codec = H265CodecString (hvcc_profile vps)"
proof (cases "BuildH265HvccRecord vps sps pps")
  case None
  then show ?thesis by (auto simp: BuildH265HvccRecord_def Let_def split: if_splits)
next
  case (Some rc)
  then have ok: "vps \<noteq> []" "sps \<noteq> []" "pps \<noteq> []" "length vps \<le> UINT16_MAX"
      "length sps \<le> UINT16_MAX" "length pps \<le> UINT16_MAX"
    by (auto simp: BuildH265HvccRecord_def Let_def split: if_splits)
  let ?p = "hvcc_profile vps"
  let ?arr = "\<lambda>t n. (0x80 OR (t AND 0x3f)) # be16 1 @ be16 (word_of_nat (length n)) @ n"
  let ?tail = "?arr kH265NalTypeVps vps @ ?arr kH265NalTypeSps sps @ ?arr kH265NalTypePps pps"
  obtain c0 c1 c2 c3 where c: "compatibility_flags ?p = [c0, c1, c2, c3]"
    using hvcc_profile_lengths(1) [of vps] by (auto simp: length_Suc_conv numeral_eq_Suc)
  obtain f0 f1 f2 f3 f4 f5 where f: "constraint_flags ?p = [f0, f1, f2, f3, f4, f5]"
    using hvcc_profile_lengths(2) [of vps] by (auto simp: length_Suc_conv numeral_eq_Suc)
  let ?head = "[1, profile_byte ?p, c0, c1, c2, c3, f0, f1, f2, f3, f4, f5, level_idc ?p,
      0xf0, 0, 0xfc, 0xfd, 0xf8, 0xf8, 0, 0, H265HvccTemporalByte ?p, 3]"
  have be: "be16 0xf000 = [0xf0, 0]" "be16 0 = [0, 0]" by (simp_all add: be16_def drop_bit_eq_div)
  have "BuildH265HvccRecord vps sps pps = Some (?head @ ?tail, H265CodecString ?p)"
    using ok unfolding BuildH265HvccRecord_def hvcc_profile_def [symmetric] Let_def
    by (simp add: AppendHvccArray_eq AppendH265ProfileTierLevel_def wire_simps c f be)
  moreover have "hvcc_parse (?head @ ?tail)
      = Some [(kH265NalTypeVps, vps), (kH265NalTypeSps, sps), (kH265NalTypePps, pps)]"
  proof -
    have "hvcc_arrays (Suc (Suc (Suc 0))) ?tail
        = Some [(kH265NalTypeVps, vps), (kH265NalTypeSps, sps), (kH265NalTypePps, pps)]"
      using ok hvcc_arrays_step [of pps 0 _ "[]"]
      by (simp add: hvcc_arrays_step nal_type_defs del: hvcc_arrays.simps(2))
    moreover have "unat (3 :: u8) = Suc (Suc (Suc 0))" by simp
    moreover have "(?head @ ?tail) ! 22 = 3" "(?head @ ?tail) ! 0 = 1" "drop 23 (?head @ ?tail) = ?tail"
        "\<not> length (?head @ ?tail) < 23" by simp_all
    ultimately show ?thesis unfolding hvcc_parse_def by (simp only:) simp
  qed
  ultimately show ?thesis by simp
qed

lemma main_compatibility: "ReverseBits32 (ReadU32 [0x60, 0, 0, 0]) = 6"
proof -
  have "ReadU32 [0x60, 0, 0, 0] = push_bit 29 (mask 2)"
    by (simp add: ReadU32_def push_bit_eq_mult mask_eq_exp_minus_1)
  moreover have "(6 :: u32) = push_bit 1 (mask 2)"
    by (simp add: push_bit_eq_mult mask_eq_exp_minus_1)
  moreover have "ReverseBits32 (push_bit 29 (mask 2)) = push_bit 1 (mask 2)"
  proof (rule bit_word_eqI)
    fix n :: nat
    assume "n < LENGTH(32)"
    then have n: "n < 32" by simp
    show "bit (ReverseBits32 (push_bit 29 (mask 2))) n \<longleftrightarrow> bit (push_bit 1 (mask 2) :: u32) n"
      unfolding ReverseBits32_bit [OF n] bit_push_bit_iff bit_mask_iff using n by auto
  qed
  ultimately show ?thesis by (simp only:)
qed

lemma main_profile_eq:
  "DefaultH265MainProfile =
     \<lparr>profile_byte = 0x01, compatibility_flags = [0x60, 0, 0, 0],
      constraint_flags = [0xb0, 0, 0, 0, 0, 0], level_idc = 0x5d,
      max_sub_layers_minus1 = 0, temporal_id_nested = True\<rparr>"
  by (simp add: DefaultH265MainProfile_def numeral_eq_Suc)

lemma main_constraints: "ConstraintCount [0xb0, 0, 0, 0, 0, 0] 6 = 1"
  by code_simp

lemma main_strings:
  "to_string_u8 1 = ''1''" "to_string_u8 93 = ''93''" "HexNoLeadingZero 6 = ''6''"
  "HexNoLeadingZero 176 = ''B0''"
  by (simp_all add: to_string_u8_def HexNoLeadingZero_def radix_string.simps)

text \<open>
  When the VPS is too short to carry a profile, the record falls back to HEVC Main,
  level 3.1, and announces \<open>hvc1.1.6.L93.B0\<close>.
\<close>

lemma hvcc_default_codec_string:
  assumes "length (H265NalRbsp vps) < 16"
  shows "H265CodecString (hvcc_profile vps) = ''hvc1.1.6.L93.B0''"
proof -
  have "hvcc_profile vps = DefaultH265MainProfile"
    using assms by (simp add: hvcc_profile_def ExtractH265ProfileFromVps_def)
  moreover have "H265CodecString DefaultH265MainProfile = ''hvc1.1.6.L93.B0''"
    unfolding H265CodecString_def main_profile_eq Let_def
    by (simp add: main_compatibility main_strings main_constraints drop_bit_eq_div)
  ultimately show ?thesis by simp
qed

end
