(* ===== verification/Rtp_Packetizer.thy ===== *)
theory Rtp_Packetizer
  imports Byte_Writer Nal_Parser
begin

text \<open>
  \<open>libs/media_codec/include/rtp.h\<close> and \<open>src/rtp_packetizer.cpp\<close>: one encoded frame is cut into RTP
  packets, each NAL unit alone or as FU-A (H.264) / FU (H.265) fragments. The sink
  \<open>IRtpPacketSink\<close> and the caller's sequence counter are threaded through as state.
\<close>

section \<open>Packets\<close>

definition kMaxRtpPacketSlices :: nat where "kMaxRtpPacketSlices = 4"
definition kRtpPayloadTypeH264 :: u8 where "kRtpPayloadTypeH264 = 96"
definition kRtpPayloadTypeH265 :: u8 where "kRtpPayloadTypeH265 = 98"
definition kRtpClockRate :: nat where "kRtpClockRate = 90000"
definition kRtpHeaderSize :: nat where "kRtpHeaderSize = 12"
definition kMaxRtpPayloadHeaderSize :: nat where "kMaxRtpPayloadHeaderSize = 3"
definition kMinRtpMtuBytes :: nat where "kMinRtpMtuBytes = 64"
definition kH264FuOverhead :: nat where "kH264FuOverhead = kRtpHeaderSize + 2"
definition kH265FuOverhead :: nat where "kH265FuOverhead = kRtpHeaderSize + 3"
definition kH264FuANalType :: u8 where "kH264FuANalType = 28"
definition kH265FuNalType :: u8 where "kH265FuNalType = 49"

datatype RtpCodec = RtpH264 | RtpH265

record RtpPacketView =
  pk_slices :: "data_slice list"
  pk_marker :: bool
  pk_payload_type :: u8
  pk_sequence :: u16
  pk_timestamp :: u32
  pk_ssrc :: u32
  pk_rtp_header :: bytes
  pk_payload_header :: bytes

definition RtpPacketView_Add ::
  "RtpPacketView \<Rightarrow> nat option \<Rightarrow> bytes \<Rightarrow> bool \<Rightarrow> RtpPacketView \<times> bool" where
  "RtpPacketView_Add pk addr data media_payload =
     (if length data = 0 then (pk, True)
      else if length (pk_slices pk) \<ge> kMaxRtpPacketSlices then (pk, False)
      else (pk\<lparr>pk_slices := pk_slices pk
                 @ [\<lparr>sl_addr = addr, sl_bytes = data, sl_media = media_payload\<rparr>]\<rparr>, True))"

definition SetRtpHeader :: "RtpPacketView \<Rightarrow> bytes \<Rightarrow> RtpPacketView \<times> bool" where
  "SetRtpHeader pk data =
     (if length data \<noteq> kRtpHeaderSize then (pk, False)
      else RtpPacketView_Add (pk\<lparr>pk_rtp_header := data\<rparr>) None data False)"

definition SetPayloadHeader :: "RtpPacketView \<Rightarrow> bytes \<Rightarrow> RtpPacketView \<times> bool" where
  "SetPayloadHeader pk data =
     (if length data = 0 then (pk, True)
      else if length data > kMaxRtpPayloadHeaderSize then (pk, False)
      else RtpPacketView_Add
             (pk\<lparr>pk_payload_header := data @ drop (length data) (pk_payload_header pk)\<rparr>)
             None data False)"

definition SetPayload :: "RtpPacketView \<Rightarrow> byte_view \<Rightarrow> RtpPacketView \<times> bool" where
  "SetPayload pk v = RtpPacketView_Add pk (Some (bv_addr v)) (bv_bytes v) True"

definition RtpPacketView_Size :: "RtpPacketView \<Rightarrow> nat" where
  "RtpPacketView_Size pk = sum_list (map (\<lambda>s. length (sl_bytes s)) (pk_slices pk))"

definition empty_packet :: RtpPacketView where
  "empty_packet = \<lparr>pk_slices = [], pk_marker = False, pk_payload_type = 0, pk_sequence = 0,
     pk_timestamp = 0, pk_ssrc = 0, pk_rtp_header = replicate kRtpHeaderSize 0,
     pk_payload_header = replicate kMaxRtpPayloadHeaderSize 0\<rparr>"

section \<open>The packetizer\<close>

definition RtpTimestampFromPtsUs :: "int \<Rightarrow> nat \<Rightarrow> u32" where
  "RtpTimestampFromPtsUs pts_us clock_rate =
     (if pts_us \<le> 0 \<or> clock_rate = 0 then 0
      else word_of_nat ((nat pts_us * clock_rate) mod 2 ^ 64 div 1000000))"

definition IsRtpTimestampBackwards :: "u32 \<Rightarrow> u32 \<Rightarrow> bool" where
  "IsRtpTimestampBackwards timestamp previous_timestamp \<longleftrightarrow> sint (timestamp - previous_timestamp) < 0"

record RtpPacketizerOptions =
  mtu_bytes :: nat
  h264_payload_type :: u8
  h265_payload_type :: u8

definition RtpPayloadTypeForCodec_default :: "RtpCodec \<Rightarrow> u8" where
  "RtpPayloadTypeForCodec_default codec = (if codec = RtpH265 then kRtpPayloadTypeH265 else kRtpPayloadTypeH264)"

definition RtpPayloadTypeForCodec :: "RtpPacketizerOptions \<Rightarrow> RtpCodec \<Rightarrow> u8" where
  "RtpPayloadTypeForCodec options codec =
     (if codec = RtpH265 then h265_payload_type options else h264_payload_type options)"

record RtpPacketizerInput =
  in_codec :: RtpCodec
  in_payload :: "byte_view option"
  in_pts_us :: int
  in_ssrc :: u32
  in_payload_type :: u8

type_synonym 's rtp_sink = "'s \<Rightarrow> RtpPacketView \<Rightarrow> 's \<times> bool"

text \<open>The two constructors: an MTU below 64 bytes is raised to 64.\<close>

definition NewRtpPacketizer :: "RtpPacketizerOptions \<Rightarrow> RtpPacketizerOptions" where
  "NewRtpPacketizer options =
     (if mtu_bytes options < kMinRtpMtuBytes then options\<lparr>mtu_bytes := kMinRtpMtuBytes\<rparr> else options)"

definition NewRtpPacketizerMtu :: "nat \<Rightarrow> RtpPacketizerOptions" where
  "NewRtpPacketizerMtu mtu =
     \<lparr>mtu_bytes = (if mtu < kMinRtpMtuBytes then kMinRtpMtuBytes else mtu),
      h264_payload_type = kRtpPayloadTypeH264, h265_payload_type = kRtpPayloadTypeH265\<rparr>"

definition RtpTimestamp :: "RtpPacketizerInput \<Rightarrow> u32" where
  "RtpTimestamp input = RtpTimestampFromPtsUs (in_pts_us input) kRtpClockRate"

definition WriteRtpHeader :: "RtpPacketizerInput \<Rightarrow> bool \<Rightarrow> u16 \<Rightarrow> u32 \<Rightarrow> bytes \<Rightarrow> bytes" where
  "WriteRtpHeader input marker sequence timestamp header =
     WriteU32 (WriteU32 (WriteU16
       (header[0 := 0x80, 1 := (if marker then 0x80 else 0x00) OR in_payload_type input])
       2 sequence) 4 timestamp) 8 (in_ssrc input)"

definition NormalizeRtpInput :: "RtpPacketizerInput \<Rightarrow> RtpPacketizerOptions \<Rightarrow> RtpPacketizerInput" where
  "NormalizeRtpInput input options =
     (if in_payload_type input = 0
      then input\<lparr>in_payload_type := RtpPayloadTypeForCodec options (in_codec input)\<rparr> else input)"

text \<open>
  \<open>SendRtpPacket\<close> for a payload part \<open>v\<close> behind the payload header \<open>prefix\<close>. The state is the
  caller's sequence counter and the sink.
\<close>

definition SendRtpPacket ::
  "'s rtp_sink \<Rightarrow> RtpPacketizerInput \<Rightarrow> bytes \<Rightarrow> byte_view \<Rightarrow> bool \<Rightarrow> u16 \<times> 's \<Rightarrow> (u16 \<times> 's) \<times> bool" where
  "SendRtpPacket on_packet input prefix v marker st =
     (if bv_size v = 0 then (st, False)
      else
        let sequence = fst st;
            timestamp = RtpTimestamp input;
            header = WriteRtpHeader input marker sequence timestamp (replicate kRtpHeaderSize 0);
            packet = empty_packet\<lparr>pk_marker := marker, pk_payload_type := in_payload_type input,
                       pk_sequence := sequence, pk_timestamp := timestamp, pk_ssrc := in_ssrc input\<rparr>;
            (packet, ok1) = SetRtpHeader packet header;
            (packet, ok2) = (if ok1 then SetPayloadHeader packet prefix else (packet, False));
            (packet, ok3) = (if ok2 then SetPayload packet v else (packet, False))
        in if \<not> ok3 then ((sequence + 1, snd st), False)
           else case on_packet (snd st) packet of (s', ok) \<Rightarrow> ((sequence + 1, s'), ok))"

lemma SendRtpPacket_empty: "bv_size v = 0 \<Longrightarrow> SendRtpPacket on_packet input prefix v marker st = (st, False)"
  by (simp add: SendRtpPacket_def)

text \<open>
  The \<open>while (offset < size)\<close> loop that \<open>PacketizeH264\<close> and \<open>PacketizeH265\<close> share; \<open>fu\<close> gives the
  payload header for a given FU header byte.
\<close>

function FuLoop ::
  "'s rtp_sink \<Rightarrow> RtpPacketizerInput \<Rightarrow> (u8 \<Rightarrow> bytes) \<Rightarrow> u8 \<Rightarrow> nat \<Rightarrow> byte_view \<Rightarrow> bool \<Rightarrow> nat \<Rightarrow> bool
     \<Rightarrow> u16 \<times> 's \<Rightarrow> (u16 \<times> 's) \<times> bool" where
  "FuLoop on_packet input fu nal_type max_fragment v marker offset start st =
     (if offset < bv_size v then
        let chunk = min max_fragment (bv_size v - offset);
            fu_header = nal_type;
            fu_header = (if start then fu_header OR 0x80 else fu_header);
            fu_header = (if offset + chunk \<ge> bv_size v then fu_header OR 0x40 else fu_header)
        in case SendRtpPacket on_packet input (fu fu_header) (sub_view v offset chunk)
                  (marker \<and> offset + chunk \<ge> bv_size v) st of
             (st', ok) \<Rightarrow>
               if \<not> ok then (st', False)
               else FuLoop on_packet input fu nal_type max_fragment v marker (offset + chunk) False st'
      else (st, True))"
  by pat_completeness auto
termination
proof (relation "measure (\<lambda>(on_packet, input, fu, nal_type, m, v, marker, offset, start, st). bv_size v - offset)",
    goal_cases)
  case 1
  show ?case by simp
next
  case (2 on_packet input fu nal_type m v marker offset start st chunk)
  have "bv_size (sub_view v offset chunk) \<noteq> 0"
  proof
    assume "bv_size (sub_view v offset chunk) = 0"
    then have "SendRtpPacket on_packet input p (sub_view v offset chunk) b st = (st, False)" for p b
      by (rule SendRtpPacket_empty)
    with 2 show False by simp
  qed
  then have "0 < chunk" by (auto simp: bv_size_def)
  with 2 show ?case by simp
qed

declare FuLoop.simps [simp del]

definition PacketizeH264 ::
  "'s rtp_sink \<Rightarrow> RtpPacketizerOptions \<Rightarrow> RtpPacketizerInput \<Rightarrow> byte_view \<Rightarrow> bool
     \<Rightarrow> u16 \<times> 's \<Rightarrow> (u16 \<times> 's) \<times> bool" where
  "PacketizeH264 on_packet options input v marker st =
     (if bv_size v \<le> 1 then (st, False)
      else
        let nal = bv_bytes v ! 0;
            fu_indicator = (nal AND 0xe0) OR kH264FuANalType;
            nal_type = nal AND 0x1f;
            max_fragment = u32_sub (mtu_bytes options) kH264FuOverhead
        in FuLoop on_packet input (\<lambda>fu_header. [fu_indicator, fu_header]) nal_type max_fragment
             v marker 1 True st)"

definition PacketizeH265 ::
  "'s rtp_sink \<Rightarrow> RtpPacketizerOptions \<Rightarrow> RtpPacketizerInput \<Rightarrow> byte_view \<Rightarrow> bool
     \<Rightarrow> u16 \<times> 's \<Rightarrow> (u16 \<times> 's) \<times> bool" where
  "PacketizeH265 on_packet options input v marker st =
     (if bv_size v \<le> 2 then (st, False)
      else
        let nal0 = bv_bytes v ! 0;
            nal1 = bv_bytes v ! 1;
            nal_type = drop_bit 1 nal0 AND 0x3f;
            max_fragment = u32_sub (mtu_bytes options) kH265FuOverhead
        in FuLoop on_packet input
             (\<lambda>fu_header. [(nal0 AND 0x81) OR push_bit 1 kH265FuNalType, nal1, fu_header]) nal_type
             max_fragment v marker 2 True st)"

definition PacketizeNal ::
  "'s rtp_sink \<Rightarrow> RtpPacketizerOptions \<Rightarrow> RtpPacketizerInput \<Rightarrow> byte_view \<Rightarrow> bool
     \<Rightarrow> u16 \<times> 's \<Rightarrow> (u16 \<times> 's) \<times> bool" where
  "PacketizeNal on_packet options input v marker st =
     (if bv_size v = 0 then (st, False)
      else if bv_size v + kRtpHeaderSize \<le> mtu_bytes options
      then SendRtpPacket on_packet input [] v marker st
      else if in_codec input = RtpH265 then PacketizeH265 on_packet options input v marker st
      else PacketizeH264 on_packet options input v marker st)"

text \<open>The loop over the units of a frame; the last unit carries the marker.\<close>

fun PacketizeUnits ::
  "'s rtp_sink \<Rightarrow> RtpPacketizerOptions \<Rightarrow> RtpPacketizerInput \<Rightarrow> NalUnit list \<Rightarrow> u16 \<times> 's \<Rightarrow> (u16 \<times> 's) \<times> bool" where
  "PacketizeUnits on_packet options input [] st = (st, True)"
| "PacketizeUnits on_packet options input (unit # us) st =
     (if bv_size (unit_view unit) > UINT32_MAX then (st, False)
      else case PacketizeNal on_packet options input (unit_view unit) (us = []) st of
        (st', ok) \<Rightarrow> if \<not> ok then (st', False) else PacketizeUnits on_packet options input us st')"

definition Packetize ::
  "'s rtp_sink \<Rightarrow> RtpPacketizerOptions \<Rightarrow> RtpPacketizerInput \<Rightarrow> u16 \<times> 's \<Rightarrow> (u16 \<times> 's) \<times> bool" where
  "Packetize on_packet options input st =
     (let input = NormalizeRtpInput input options in
      case in_payload input of
        None \<Rightarrow> (st, False)
      | Some v \<Rightarrow>
          if bv_size v = 0 \<or> in_ssrc input = 0 \<or> in_payload_type input = 0 \<or> bv_size v > UINT32_MAX
          then (st, False)
          else
            case (if in_codec input = RtpH265 then ParseH265AnnexBNalUnits (in_payload input)
                  else ParseH264AnnexBNalUnits (in_payload input)) of
              (l, parsed) \<Rightarrow>
                if \<not> parsed then (st, False)
                else case PacketizeUnits on_packet options input (units l) st of
                  (st', ok) \<Rightarrow>
                    if \<not> ok then (st', False)
                    else if units l \<noteq> [] then (st', True)
                    else PacketizeNal on_packet options input v True st')"

section \<open>One packet on the wire\<close>

lemmas rtp_consts =
  kMaxRtpPacketSlices_def kRtpHeaderSize_def kMaxRtpPayloadHeaderSize_def kMinRtpMtuBytes_def
  kH264FuOverhead_def kH265FuOverhead_def

definition rtp_header_bytes :: "RtpPacketizerInput \<Rightarrow> bool \<Rightarrow> u16 \<Rightarrow> bytes" where
  "rtp_header_bytes input marker seq =
     [0x80, (if marker then 0x80 else 0) OR in_payload_type input] @ be16 seq
     @ be32 (RtpTimestamp input) @ be32 (in_ssrc input)"

definition packet_bytes :: "RtpPacketView \<Rightarrow> bytes" where
  "packet_bytes pk = concat (map sl_bytes (pk_slices pk))"

text \<open>The packet \<open>SendRtpPacket\<close> hands to the sink.\<close>

definition rtp_packet ::
  "RtpPacketizerInput \<Rightarrow> bytes \<Rightarrow> byte_view \<Rightarrow> bool \<Rightarrow> u16 \<Rightarrow> RtpPacketView" where
  "rtp_packet input prefix v marker seq =
     \<lparr>pk_slices =
        [\<lparr>sl_addr = None, sl_bytes = rtp_header_bytes input marker seq, sl_media = False\<rparr>]
        @ (if prefix = [] then [] else [\<lparr>sl_addr = None, sl_bytes = prefix, sl_media = False\<rparr>])
        @ [\<lparr>sl_addr = Some (bv_addr v), sl_bytes = bv_bytes v, sl_media = True\<rparr>],
      pk_marker = marker, pk_payload_type = in_payload_type input, pk_sequence = seq,
      pk_timestamp = RtpTimestamp input, pk_ssrc = in_ssrc input,
      pk_rtp_header = rtp_header_bytes input marker seq,
      pk_payload_header = prefix @ replicate (3 - length prefix) 0\<rparr>"

lemma length_rtp_header_bytes [simp]: "length (rtp_header_bytes input marker seq) = 12"
  by (simp add: rtp_header_bytes_def)

lemma WriteRtpHeader_bytes:
  "WriteRtpHeader input marker seq (RtpTimestamp input) (replicate kRtpHeaderSize 0)
     = rtp_header_bytes input marker seq"
proof -
  have "replicate kRtpHeaderSize (0 :: u8) = [0, 0, 0, 0, 0, 0, 0, 0, 0, 0, 0, 0]"
    by (simp add: kRtpHeaderSize_def numeral_eq_Suc)
  then show ?thesis
    by (simp add: WriteRtpHeader_def WriteU16_def WriteU32_def rtp_header_bytes_def be16_def be32_def)
qed

lemma SendRtpPacket_eq:
  assumes "bv_size v \<noteq> 0" and "length prefix \<le> 3"
  shows "SendRtpPacket on_packet input prefix v marker st =
     (case on_packet (snd st) (rtp_packet input prefix v marker (fst st)) of
        (s', ok) \<Rightarrow> ((fst st + 1, s'), ok))"
  using assms unfolding SendRtpPacket_def WriteRtpHeader_bytes Let_def
  by (auto simp: SetRtpHeader_def SetPayloadHeader_def SetPayload_def RtpPacketView_Add_def
      empty_packet_def rtp_packet_def bv_size_def rtp_consts split: prod.split)

lemma packet_bytes_rtp_packet [simp]:
  "packet_bytes (rtp_packet input prefix v marker seq)
     = rtp_header_bytes input marker seq @ prefix @ bv_bytes v"
  by (simp add: packet_bytes_def rtp_packet_def)

lemma RtpPacketView_Size_bytes: "RtpPacketView_Size pk = length (packet_bytes pk)"
  by (simp add: RtpPacketView_Size_def packet_bytes_def length_concat comp_def)

section \<open>Packetizing is sending a list of fragments\<close>

text \<open>A fragment: payload header, part of the NAL unit, marker.\<close>

type_synonym frag = "bytes \<times> byte_view \<times> bool"

fun send_all :: "'s rtp_sink \<Rightarrow> RtpPacketizerInput \<Rightarrow> frag list \<Rightarrow> u16 \<times> 's \<Rightarrow> (u16 \<times> 's) \<times> bool" where
  "send_all on_packet input [] st = (st, True)"
| "send_all on_packet input ((prefix, v, marker) # fs) st =
     (case SendRtpPacket on_packet input prefix v marker st of
        (st', ok) \<Rightarrow> if ok then send_all on_packet input fs st' else (st', False))"

lemma send_all_append:
  "send_all on_packet input (fs @ gs) st =
     (case send_all on_packet input fs st of
        (st', ok) \<Rightarrow> if ok then send_all on_packet input gs st' else (st', False))"
  by (induction on_packet input fs st rule: send_all.induct) (auto split: prod.split)

text \<open>The header byte of a fragment and the fragments of one NAL unit.\<close>

definition fu_byte :: "u8 \<Rightarrow> bool \<Rightarrow> bool \<Rightarrow> u8" where
  "fu_byte nal_type start fin =
     (let h = (if start then nal_type OR 0x80 else nal_type) in if fin then h OR 0x40 else h)"

function fu_frags ::
  "(u8 \<Rightarrow> bytes) \<Rightarrow> u8 \<Rightarrow> nat \<Rightarrow> byte_view \<Rightarrow> bool \<Rightarrow> nat \<Rightarrow> bool \<Rightarrow> frag list" where
  "fu_frags fu nal_type m v marker offset start =
     (if offset < bv_size v \<and> 0 < m then
        let chunk = min m (bv_size v - offset); fin = (offset + chunk \<ge> bv_size v) in
        (fu (fu_byte nal_type start fin), sub_view v offset chunk, marker \<and> fin)
        # fu_frags fu nal_type m v marker (offset + chunk) False
      else [])"
  by pat_completeness auto
termination
  by (relation "measure (\<lambda>(fu, t, m, v, marker, offset, start). bv_size v - offset)") auto

declare fu_frags.simps [simp del]

lemma fu_frags_end: "bv_size v \<le> offset \<Longrightarrow> fu_frags fu nal_type m v marker offset start = []"
  by (subst fu_frags.simps) simp

lemma FuLoop_frags:
  assumes "0 < m"
  shows "FuLoop on_packet input fu nal_type m v marker offset start st
       = send_all on_packet input (fu_frags fu nal_type m v marker offset start) st"
  using assms
proof (induction "bv_size v - offset" arbitrary: offset start st rule: less_induct)
  case less
  show ?case
  proof (cases "offset < bv_size v")
    case False
    then show ?thesis by (subst FuLoop.simps, subst fu_frags.simps) simp
  next
    case True
    let ?chunk = "min m (bv_size v - offset)"
    have "bv_size v - (offset + ?chunk) < bv_size v - offset" using True less.prems by simp
    with less.hyps less.prems
    have "FuLoop on_packet input fu nal_type m v marker (offset + ?chunk) False st'
        = send_all on_packet input (fu_frags fu nal_type m v marker (offset + ?chunk) False) st'" for st'
      by blast
    with True less.prems show ?thesis
      by (subst FuLoop.simps, subst fu_frags.simps) (auto simp: Let_def fu_byte_def split: prod.split)
  qed
qed

definition h264_fu :: "u8 \<Rightarrow> u8 \<Rightarrow> bytes" where
  "h264_fu nal fu_header = [(nal AND 0xe0) OR kH264FuANalType, fu_header]"

definition h265_fu :: "u8 \<Rightarrow> u8 \<Rightarrow> u8 \<Rightarrow> bytes" where
  "h265_fu nal0 nal1 fu_header = [(nal0 AND 0x81) OR push_bit 1 kH265FuNalType, nal1, fu_header]"

definition nal_frags :: "nat \<Rightarrow> RtpCodec \<Rightarrow> byte_view \<Rightarrow> bool \<Rightarrow> frag list" where
  "nal_frags mtu codec v marker =
     (if bv_size v + 12 \<le> mtu then [([], v, marker)]
      else case codec of
        RtpH265 \<Rightarrow> fu_frags (h265_fu (bv_bytes v ! 0) (bv_bytes v ! 1))
                     (drop_bit 1 (bv_bytes v ! 0) AND 0x3f) (mtu - 15) v marker 2 True
      | RtpH264 \<Rightarrow> fu_frags (h264_fu (bv_bytes v ! 0)) (bv_bytes v ! 0 AND 0x1f) (mtu - 14) v marker 1 True)"

fun frame_frags :: "nat \<Rightarrow> RtpCodec \<Rightarrow> byte_view list \<Rightarrow> frag list" where
  "frame_frags mtu codec [] = []"
| "frame_frags mtu codec (v # vs) = nal_frags mtu codec v (vs = []) @ frame_frags mtu codec vs"

definition valid_options :: "RtpPacketizerOptions \<Rightarrow> bool" where
  "valid_options options \<longleftrightarrow> kMinRtpMtuBytes \<le> mtu_bytes options \<and> mtu_bytes options \<le> UINT32_MAX"

lemma NewRtpPacketizer_valid:
  "mtu_bytes options \<le> UINT32_MAX \<Longrightarrow> valid_options (NewRtpPacketizer options)"
  "mtu \<le> UINT32_MAX \<Longrightarrow> valid_options (NewRtpPacketizerMtu mtu)"
  by (simp_all add: valid_options_def NewRtpPacketizer_def NewRtpPacketizerMtu_def rtp_consts)

lemma PacketizeNal_frags:
  assumes "valid_options options" and "bv_size v \<noteq> 0"
  shows "PacketizeNal on_packet options input v marker st
       = send_all on_packet input (nal_frags (mtu_bytes options) (in_codec input) v marker) st"
proof (cases "bv_size v + 12 \<le> mtu_bytes options")
  case True
  with assms(2) show ?thesis
    by (simp add: PacketizeNal_def nal_frags_def kRtpHeaderSize_def split: prod.split)
next
  case False
  with assms have mtu: "64 \<le> mtu_bytes options" "mtu_bytes options \<le> UINT32_MAX" "2 < bv_size v"
    by (simp_all add: valid_options_def kMinRtpMtuBytes_def)
  then have sub: "u32_sub (mtu_bytes options) 14 = mtu_bytes options - 14"
      "u32_sub (mtu_bytes options) 15 = mtu_bytes options - 15"
    by (simp_all add: u32_sub_exact)
  show ?thesis
    using False mtu sub
    by (cases "in_codec input") (simp_all add: PacketizeNal_def PacketizeH264_def PacketizeH265_def
        nal_frags_def rtp_consts h264_fu_def [abs_def] h265_fu_def [abs_def] Let_def FuLoop_frags)
qed

lemma PacketizeUnits_frags:
  assumes "valid_options options"
    and "\<forall>u \<in> set us. bv_size (unit_view u) \<noteq> 0 \<and> bv_size (unit_view u) \<le> UINT32_MAX"
  shows "PacketizeUnits on_packet options input us st
       = send_all on_packet input (frame_frags (mtu_bytes options) (in_codec input) (map unit_view us)) st"
  using assms(2)
  by (induction us arbitrary: st)
    (auto simp: PacketizeNal_frags [OF assms(1)] send_all_append not_less split: prod.split)

section \<open>Size of the packets\<close>

definition frag_ok :: "nat \<Rightarrow> frag \<Rightarrow> bool" where
  "frag_ok mtu f \<longleftrightarrow> (case f of (prefix, v, marker) \<Rightarrow>
     length prefix \<le> 3 \<and> bv_size v \<noteq> 0 \<and> 12 + length prefix + bv_size v \<le> mtu)"

lemma fu_frags_ok:
  assumes "\<And>h. length (fu h) = k" and "k \<le> 3" and "m + 12 + k \<le> mtu"
  shows "list_all (frag_ok mtu) (fu_frags fu t m v marker offset start)"
proof (induction "bv_size v - offset" arbitrary: offset start rule: less_induct)
  case less
  show ?case
  proof (cases "offset < bv_size v \<and> 0 < m")
    case True
    let ?chunk = "min m (bv_size v - offset)"
    have "bv_size v - (offset + ?chunk) < bv_size v - offset" using True by auto
    from less.hyps [OF this] True assms show ?thesis
      by (subst fu_frags.simps) (simp add: Let_def frag_ok_def bv_size_def)
  qed (subst fu_frags.simps, auto)
qed

lemma nal_frags_ok:
  assumes "64 \<le> mtu" and "bv_size v \<noteq> 0"
  shows "list_all (frag_ok mtu) (nal_frags mtu codec v marker)"
proof (cases codec)
  case RtpH264
  have "list_all (frag_ok mtu) (fu_frags (h264_fu n) t (mtu - 14) v marker 1 True)" for n t
    using assms(1) by (intro fu_frags_ok [where k = 2]) (simp_all add: h264_fu_def)
  with assms RtpH264 show ?thesis by (simp add: nal_frags_def frag_ok_def)
next
  case RtpH265
  have "list_all (frag_ok mtu) (fu_frags (h265_fu n n') t (mtu - 15) v marker 2 True)" for n n' t
    using assms(1) by (intro fu_frags_ok [where k = 3]) (simp_all add: h265_fu_def)
  with assms RtpH265 show ?thesis by (simp add: nal_frags_def frag_ok_def)
qed

lemma frame_frags_ok:
  assumes "64 \<le> mtu"
  shows "\<forall>v \<in> set vs. bv_size v \<noteq> 0 \<Longrightarrow> list_all (frag_ok mtu) (frame_frags mtu codec vs)"
  by (induction vs) (simp_all add: nal_frags_ok [OF assms])

text \<open>The packets of a list of fragments, numbered from \<open>seq\<close>, and a sink that keeps them.\<close>

fun packets_from :: "RtpPacketizerInput \<Rightarrow> u16 \<Rightarrow> frag list \<Rightarrow> RtpPacketView list" where
  "packets_from input seq [] = []"
| "packets_from input seq ((prefix, v, marker) # fs) =
     rtp_packet input prefix v marker seq # packets_from input (seq + 1) fs"

definition collect_packets :: "RtpPacketView list rtp_sink" where
  "collect_packets ps pk = (ps @ [pk], True)"

lemma send_all_collect:
  "list_all (frag_ok mtu) fs \<Longrightarrow>
     send_all collect_packets input fs (seq, ps)
       = ((seq + word_of_nat (length fs), ps @ packets_from input seq fs), True)"
  by (induction fs arbitrary: seq ps)
    (auto simp: SendRtpPacket_eq frag_ok_def collect_packets_def algebra_simps)

lemma packets_from_size:
  "list_all (frag_ok mtu) fs \<Longrightarrow> list_all (\<lambda>pk. RtpPacketView_Size pk \<le> mtu) (packets_from input seq fs)"
  by (induction input seq fs rule: packets_from.induct)
    (auto simp: RtpPacketView_Size_bytes frag_ok_def bv_size_def)

lemma length_packets_from [simp]: "length (packets_from input seq fs) = length fs"
  by (induction input seq fs rule: packets_from.induct) auto

lemma packets_from_Nil [simp]: "packets_from input seq fs = [] \<longleftrightarrow> fs = []"
  by (metis length_0_conv length_packets_from)

lemma packets_from_nth:
  "i < length fs \<Longrightarrow> packets_from input seq fs ! i =
     (case fs ! i of (prefix, v, marker) \<Rightarrow> rtp_packet input prefix v marker (seq + word_of_nat i))"
proof (induction input seq fs arbitrary: i rule: packets_from.induct)
  case (2 input seq prefix v marker fs)
  then show ?case by (cases i) (auto simp: algebra_simps split: prod.splits)
qed simp

section \<open>Reassembly\<close>

text \<open>
  A receiver of the RTP payloads of one stream (RFC 6184, RFC 7798 without aggregation): \<open>is_fu\<close>
  recognises a fragmentation unit, whose payload header has \<open>k\<close> bytes and from which \<open>rebuild\<close>
  restores the NAL header. \<open>None\<close> is a protocol error.
\<close>

fun depacketize ::
  "(bytes \<Rightarrow> bool) \<Rightarrow> nat \<Rightarrow> (bytes \<Rightarrow> bytes) \<Rightarrow> bytes option \<Rightarrow> bytes list \<Rightarrow> bytes list option" where
  "depacketize is_fu k rebuild part [] = (if part = None then Some [] else None)"
| "depacketize is_fu k rebuild part (p # ps) =
     (if is_fu p then
        (let fu = p ! (k - 1);
             cur = (if bit fu 7 then (if part = None then Some (rebuild p @ drop k p) else None)
                    else map_option (\<lambda>n. n @ drop k p) part)
         in case cur of
              None \<Rightarrow> None
            | Some n \<Rightarrow> if bit fu 6 then map_option (Cons n) (depacketize is_fu k rebuild None ps)
                        else depacketize is_fu k rebuild (Some n) ps)
      else if part = None then map_option (Cons p) (depacketize is_fu k rebuild None ps) else None)"

definition frag_payload :: "frag \<Rightarrow> bytes" where
  "frag_payload f = fst f @ bv_bytes (fst (snd f))"

text \<open>What a fragmentation scheme must satisfy for reassembly to work.\<close>

locale fu_scheme =
  fixes is_fu :: "bytes \<Rightarrow> bool" and k :: nat and rebuild :: "bytes \<Rightarrow> bytes"
    and fu :: "'h \<Rightarrow> u8 \<Rightarrow> bytes" and nal_type :: "'h \<Rightarrow> u8" and header :: "'h \<Rightarrow> bytes"
  assumes fu_length: "length (fu h b) = k" and k_pos: "0 < k"
    and fu_last: "fu h b ! (k - 1) = b"
    and fu_is_fu: "is_fu (fu h b @ x)"
    and rebuild_fu: "rebuild (fu h (fu_byte (nal_type h) s e) @ x) = header h"
    and type_bits: "\<not> bit (nal_type h) 7" "\<not> bit (nal_type h) 6"
begin

lemma fu_byte_bits: "bit (fu_byte (nal_type h) s e) 7 = s" "bit (fu_byte (nal_type h) s e) 6 = e"
  using type_bits [of h] by (simp_all add: fu_byte_def bit_simps Let_def)

lemma fu_at: "(fu h b @ x) ! (k - 1) = b" "drop k (fu h b @ x) = x"
  using fu_length [of h b] fu_last [of h b] k_pos by (simp_all add: nth_append)

lemma depacketize_fu:
  "depacketize is_fu k rebuild part ((fu h (fu_byte (nal_type h) s e) @ x) # ps) =
     (case (if s then (if part = None then Some (header h @ x) else None)
            else map_option (\<lambda>n. n @ x) part) of
        None \<Rightarrow> None
      | Some n \<Rightarrow> if e then map_option (Cons n) (depacketize is_fu k rebuild None ps)
                  else depacketize is_fu k rebuild (Some n) ps)"
  by (simp only: depacketize.simps fu_is_fu fu_at fu_byte_bits rebuild_fu Let_def if_True)

lemma depacketize_rest:
  assumes "0 < m" and "offset < bv_size v"
  shows "depacketize is_fu k rebuild (Some acc)
           (map frag_payload (fu_frags (fu h) (nal_type h) m v marker offset False) @ ps)
       = map_option (Cons (acc @ drop offset (bv_bytes v))) (depacketize is_fu k rebuild None ps)"
  using assms
proof (induction "bv_size v - offset" arbitrary: offset acc rule: less_induct)
  case less
  let ?chunk = "min m (bv_size v - offset)"
  let ?part = "take ?chunk (drop offset (bv_bytes v))"
  show ?case
  proof (cases "offset + ?chunk \<ge> bv_size v")
    case True
    then have "?part = drop offset (bv_bytes v)" by (simp add: bv_size_def)
    moreover have "fu_frags (fu h) (nal_type h) m v marker (offset + ?chunk) False = []"
      using True by (rule fu_frags_end)
    ultimately show ?thesis
      using less.prems True
      by (subst fu_frags.simps)
        (simp add: Let_def frag_payload_def depacketize_fu del: depacketize.simps)
  next
    case False
    then have "offset + ?chunk < bv_size v" and "bv_size v - (offset + ?chunk) < bv_size v - offset"
      using less.prems by auto
    note IH = less.hyps [OF this(2) less.prems(1) this(1), of "acc @ ?part"]
    have "?part @ drop (offset + ?chunk) (bv_bytes v) = drop offset (bv_bytes v)"
      by (metis add.commute append_take_drop_id drop_drop)
    then show ?thesis
      using less.prems False IH
      by (subst fu_frags.simps)
        (auto simp: Let_def frag_payload_def depacketize_fu simp del: depacketize.simps)
  qed
qed

lemma depacketize_fragments:
  assumes "0 < m" and "offset < bv_size v"
  shows "depacketize is_fu k rebuild None
           (map frag_payload (fu_frags (fu h) (nal_type h) m v marker offset True) @ ps)
       = map_option (Cons (header h @ drop offset (bv_bytes v))) (depacketize is_fu k rebuild None ps)"
proof -
  let ?chunk = "min m (bv_size v - offset)"
  let ?part = "take ?chunk (drop offset (bv_bytes v))"
  show ?thesis
  proof (cases "offset + ?chunk \<ge> bv_size v")
    case True
    then have "?part = drop offset (bv_bytes v)" by (simp add: bv_size_def)
    moreover have "fu_frags (fu h) (nal_type h) m v marker (offset + ?chunk) False = []"
      using True by (rule fu_frags_end)
    ultimately show ?thesis
      using assms True
      by (subst fu_frags.simps)
        (simp add: Let_def frag_payload_def depacketize_fu del: depacketize.simps)
  next
    case False
    then have lt: "offset + ?chunk < bv_size v" by simp
    have "?part @ drop (offset + ?chunk) (bv_bytes v) = drop offset (bv_bytes v)"
      by (metis add.commute append_take_drop_id drop_drop)
    then show ?thesis
      using assms False depacketize_rest [OF assms(1) lt, of "header h @ ?part" h marker ps]
      by (subst fu_frags.simps)
        (auto simp: Let_def frag_payload_def depacketize_fu simp del: depacketize.simps)
  qed
qed

end

text \<open>Reassembly of whole frames, for a codec whose fragments follow such a scheme.\<close>

locale rtp_codec = fu_scheme is_fu k rebuild fu nal_type header
  for is_fu :: "bytes \<Rightarrow> bool" and k :: nat and rebuild :: "bytes \<Rightarrow> bytes"
    and fu :: "'h \<Rightarrow> u8 \<Rightarrow> bytes" and nal_type :: "'h \<Rightarrow> u8" and header :: "'h \<Rightarrow> bytes" +
  fixes codec :: RtpCodec and head_of :: "bytes \<Rightarrow> 'h"
  assumes k_le: "k \<le> 3"
    and head_of: "k - 1 \<le> length b \<Longrightarrow> header (head_of b) @ drop (k - 1) b = b"
    and nal_frags_fu: "mtu < bv_size v + 12 \<Longrightarrow> nal_frags mtu codec v marker =
          fu_frags (fu (head_of (bv_bytes v))) (nal_type (head_of (bv_bytes v))) (mtu - 12 - k) v marker (k - 1) True"
begin

lemma depacketize_nal:
  assumes "64 \<le> mtu" and "k - 1 \<le> bv_size v" and "\<not> is_fu (bv_bytes v)"
  shows "depacketize is_fu k rebuild None (map frag_payload (nal_frags mtu codec v marker) @ ps)
       = map_option (Cons (bv_bytes v)) (depacketize is_fu k rebuild None ps)"
proof (cases "bv_size v + 12 \<le> mtu")
  case True
  then have "nal_frags mtu codec v marker = [([], v, marker)]" by (simp add: nal_frags_def)
  with assms(3) show ?thesis by (simp add: frag_payload_def)
next
  case False
  with assms k_le have "0 < mtu - 12 - k" and "k - 1 < bv_size v" by auto
  from depacketize_fragments [OF this] head_of [of "bv_bytes v"] False assms(2)
  show ?thesis by (simp add: nal_frags_fu bv_size_def)
qed

lemma depacketize_frame:
  assumes "64 \<le> mtu" and "\<forall>v \<in> set vs. k - 1 \<le> bv_size v \<and> \<not> is_fu (bv_bytes v)"
  shows "depacketize is_fu k rebuild None (map frag_payload (frame_frags mtu codec vs))
       = Some (map bv_bytes vs)"
  using assms(2) by (induction vs) (simp_all add: depacketize_nal [OF assms(1)])

end

definition h264_is_fu :: "bytes \<Rightarrow> bool" where
  "h264_is_fu p \<longleftrightarrow> hd p AND 0x1f = 28"

definition h264_rebuild :: "bytes \<Rightarrow> bytes" where
  "h264_rebuild p = [(p ! 0 AND 0xe0) OR (p ! 1 AND 0x1f)]"

definition h265_is_fu :: "bytes \<Rightarrow> bool" where
  "h265_is_fu p \<longleftrightarrow> drop_bit 1 (hd p) AND 0x3f = 49"

definition h265_rebuild :: "bytes \<Rightarrow> bytes" where
  "h265_rebuild p = [(p ! 0 AND 0x81) OR push_bit 1 (p ! 2 AND 0x3f), p ! 1]"

lemma h264_fu_bytes:
  fixes h :: u8
  shows "((h AND 0xe0) OR kH264FuANalType) AND 0x1f = 28"
    and "(((h AND 0xe0) OR kH264FuANalType) AND 0xe0) OR (fu_byte (h AND 0x1f) s e AND 0x1f) = h"
  unfolding u8_eq_iff by (auto simp: byte_bits kH264FuANalType_def fu_byte_def Let_def)

lemma h265_fu_bytes:
  fixes h :: u8
  shows "drop_bit 1 ((h AND 0x81) OR push_bit 1 kH265FuNalType) AND 0x3f = 49"
    and "(((h AND 0x81) OR push_bit 1 kH265FuNalType) AND 0x81)
           OR push_bit 1 (fu_byte (drop_bit 1 h AND 0x3f) s e AND 0x3f) = h"
  unfolding u8_eq_iff by (auto simp: byte_bits bit_simps kH265FuNalType_def fu_byte_def Let_def eval_nat_numeral(3) numeral_eq_Suc)

lemma h265_type_bits: "\<not> bit (drop_bit 1 (a :: u8) AND 0x3f) 7" "\<not> bit (drop_bit 1 (a :: u8) AND 0x3f) 6"
  by (simp_all add: byte_bits bit_simps)

interpretation rtp_h264: rtp_codec h264_is_fu 2 h264_rebuild h264_fu "\<lambda>h. h AND 0x1f" "\<lambda>h. [h]"
  RtpH264 "\<lambda>b. b ! 0"
proof (unfold_locales, goal_cases)
  case (9 b)
  then show ?case by (cases b) auto
next
  case (10 mtu v marker)
  then show ?case by (simp add: nal_frags_def h264_fu_def)
qed (simp_all add: h264_fu_def h264_is_fu_def h264_rebuild_def h264_fu_bytes byte_bits bit_simps)

interpretation rtp_h265: rtp_codec h265_is_fu 3 h265_rebuild "\<lambda>(a, b). h265_fu a b"
  "\<lambda>(a, b). drop_bit 1 a AND 0x3f" "\<lambda>(a, b). [a, b]" RtpH265 "\<lambda>b. (b ! 0, b ! 1)"
proof (unfold_locales, goal_cases)
  case (9 b)
  then show ?case by (cases b; cases "tl b") auto
next
  case (10 mtu v marker)
  then show ?case by (simp add: nal_frags_def h265_fu_def)
qed (auto simp: h265_fu_def h265_is_fu_def h265_rebuild_def h265_fu_bytes [simplified]
    h265_type_bits [simplified]
    split: prod.split)

section \<open>Markers\<close>

definition markers :: "frag list \<Rightarrow> bool list" where
  "markers fs = map (\<lambda>f. snd (snd f)) fs"

lemma markers_simps [simp]:
  "markers [] = []" "markers (f # fs) = snd (snd f) # markers fs" "markers (fs @ gs) = markers fs @ markers gs"
  "length (markers fs) = length fs"
  by (simp_all add: markers_def)

text \<open>Only the last of several fragments can carry the marker.\<close>

definition marker_last :: "bool \<Rightarrow> bool list \<Rightarrow> bool" where
  "marker_last m bs \<longleftrightarrow> bs = replicate (length bs - 1) False @ [m]"

lemma marker_last_single [simp]: "marker_last m [b] \<longleftrightarrow> b = m"
  by (auto simp: marker_last_def)

lemma marker_last_Cons: "marker_last m bs \<Longrightarrow> marker_last m (False # bs)"
  unfolding marker_last_def
  by (metis Suc_diff_1 append_Cons append_is_Nil_conv diff_Suc_1 length_Cons length_greater_0_conv
      list.distinct(1) replicate_Suc)

lemma marker_last_append: "marker_last False as \<Longrightarrow> marker_last m bs \<Longrightarrow> marker_last m (as @ bs)"
proof (induction as)
  case (Cons a as)
  then have "a = False \<and> (as \<noteq> [] \<longrightarrow> marker_last False as)"
    by (cases as) (auto simp: marker_last_def)
  with Cons show ?case by (cases "as = []") (auto intro: marker_last_Cons)
qed (simp add: marker_last_def)

lemma marker_last_nth: "marker_last m bs \<Longrightarrow> i < length bs \<Longrightarrow> bs ! i \<longleftrightarrow> m \<and> i = length bs - 1"
  unfolding marker_last_def by (metis append_Nil2 length_append_singleton length_replicate
      less_Suc_eq nth_append nth_append_length nth_replicate less_irrefl)

lemma fu_frags_markers:
  "0 < m \<Longrightarrow> offset < bv_size v \<Longrightarrow> marker_last marker (markers (fu_frags fu t m v marker offset start))"
proof (induction "bv_size v - offset" arbitrary: offset start rule: less_induct)
  case less
  let ?chunk = "min m (bv_size v - offset)"
  show ?case
  proof (cases "offset + ?chunk \<ge> bv_size v")
    case True
    then have "fu_frags fu t m v marker (offset + ?chunk) False = []" by (rule fu_frags_end)
    with less.prems True show ?thesis by (subst fu_frags.simps) (simp add: Let_def)
  next
    case False
    with less.prems have "bv_size v - (offset + ?chunk) < bv_size v - offset"
        "offset + ?chunk < bv_size v" by auto
    from less.hyps [OF this(1) less.prems(1) this(2), of False]
    have "marker_last marker (False # markers (fu_frags fu t m v marker (offset + ?chunk) False))"
      by (rule marker_last_Cons)
    moreover from False have "\<not> bv_size v \<le> offset + m" by linarith
    ultimately show ?thesis using less.prems by (subst fu_frags.simps) (simp add: Let_def)
  qed
qed

lemma nal_frags_markers:
  "64 \<le> mtu \<Longrightarrow> bv_size v \<noteq> 0 \<Longrightarrow> marker_last marker (markers (nal_frags mtu codec v marker))"
  by (auto simp: nal_frags_def intro!: fu_frags_markers split: RtpCodec.split)

lemma frame_frags_markers:
  assumes "64 \<le> mtu"
  shows "\<lbrakk>vs \<noteq> []; \<forall>v \<in> set vs. bv_size v \<noteq> 0\<rbrakk> \<Longrightarrow> marker_last True (markers (frame_frags mtu codec vs))"
proof (induction vs)
  case (Cons v vs)
  then show ?case
    using nal_frags_markers [OF assms, of v "vs = []" codec]
    by (cases "vs = []") (auto intro: marker_last_append)
qed simp

section \<open>Whole frames\<close>

definition parse_units :: "RtpCodec \<Rightarrow> byte_view \<Rightarrow> NalUnitList \<times> bool" where
  "parse_units codec v =
     (if codec = RtpH265 then ParseH265AnnexBNalUnits (Some v) else ParseH264AnnexBNalUnits (Some v))"

text \<open>The frames that pass the guards of \<open>Packetize\<close>.\<close>

definition frame_accepted :: "RtpPacketizerOptions \<Rightarrow> RtpPacketizerInput \<Rightarrow> byte_view \<Rightarrow> bool" where
  "frame_accepted options input v \<longleftrightarrow>
     in_payload input = Some v \<and> bv_size v \<noteq> 0 \<and> bv_size v \<le> UINT32_MAX \<and> in_ssrc input \<noteq> 0
     \<and> in_payload_type (NormalizeRtpInput input options) \<noteq> 0"

lemma Normalize_simps [simp]:
  "in_payload (NormalizeRtpInput input options) = in_payload input"
  "in_codec (NormalizeRtpInput input options) = in_codec input"
  "in_ssrc (NormalizeRtpInput input options) = in_ssrc input"
  "in_pts_us (NormalizeRtpInput input options) = in_pts_us input"
  by (simp_all add: NormalizeRtpInput_def)

lemma Packetize_rejected:
  "\<not> (\<exists>v. frame_accepted options input v) \<Longrightarrow> Packetize on_packet options input st = (st, False)"
  by (auto simp: Packetize_def frame_accepted_def Let_def split: option.split)

lemma parse_units_ok:
  assumes "parse_units codec v = (l, True)"
  shows "units l \<noteq> []" and "\<forall>u \<in> set (units l). bv_size (unit_view u) \<noteq> 0 \<and> bv_size (unit_view u) \<le> bv_size v"
  using assms parse_h264_units_ok [of v l True] parse_h265_units_ok [of v l True]
  by (auto simp: parse_units_def h264_units_ok_def h265_units_ok_def view_within_def bv_size_def
      split: if_splits)

lemma Packetize_accepted:
  assumes "valid_options options" and "frame_accepted options input v"
  shows "Packetize on_packet options input st =
     (case parse_units (in_codec input) v of (l, parsed) \<Rightarrow>
        if parsed then send_all on_packet (NormalizeRtpInput input options)
          (frame_frags (mtu_bytes options) (in_codec input) (map unit_view (units l))) st
        else (st, False))"
proof -
  obtain l parsed where p: "parse_units (in_codec input) v = (l, parsed)" by fastforce
  then have parse: "in_codec input = RtpH265 \<Longrightarrow> ParseH265AnnexBNalUnits (Some v) = (l, parsed)"
      "in_codec input \<noteq> RtpH265 \<Longrightarrow> ParseH264AnnexBNalUnits (Some v) = (l, parsed)"
    by (simp_all add: parse_units_def)
  show ?thesis
  proof (cases parsed)
    case False
    with parse p assms(2) show ?thesis by (simp add: Packetize_def frame_accepted_def Let_def)
  next
    case True
    with p have "parse_units (in_codec input) v = (l, True)" by simp
    from parse_units_ok [OF this] assms(2)
    have units: "units l \<noteq> []"
      "\<forall>u \<in> set (units l). bv_size (unit_view u) \<noteq> 0 \<and> bv_size (unit_view u) \<le> UINT32_MAX"
      by (auto simp: frame_accepted_def)
    show ?thesis
      using True parse p assms(2) units(1)
      by (simp add: Packetize_def frame_accepted_def Let_def PacketizeUnits_frags [OF assms(1) units(2)]
          split: prod.split)
  qed
qed

text \<open>The packets a frame is cut into.\<close>

definition frame_packets :: "RtpPacketizerOptions \<Rightarrow> RtpPacketizerInput \<Rightarrow> u16 \<Rightarrow> RtpPacketView list \<times> bool" where
  "frame_packets options input seq =
     (case Packetize collect_packets options input (seq, []) of ((seq', ps), ok) \<Rightarrow> (ps, ok))"

lemma Packetize_collect:
  assumes "valid_options options"
  obtains fs where
    "Packetize collect_packets options input (seq, ps) =
       ((seq + word_of_nat (length fs), ps @ packets_from (NormalizeRtpInput input options) seq fs), fs \<noteq> [])"
    "list_all (frag_ok (mtu_bytes options)) fs" "fs \<noteq> [] \<longrightarrow> marker_last True (markers fs)"
proof (cases "\<exists>v. frame_accepted options input v")
  case False
  from that [of "[]"] show ?thesis by (simp add: Packetize_rejected [OF False])
next
  case True
  then obtain v where acc: "frame_accepted options input v" ..
  from assms have mtu: "64 \<le> mtu_bytes options" by (simp add: valid_options_def kMinRtpMtuBytes_def)
  obtain l parsed where p: "parse_units (in_codec input) v = (l, parsed)" by fastforce
  show ?thesis
  proof (cases parsed)
    case False
    from that [of "[]"] show ?thesis by (simp add: Packetize_accepted [OF assms acc] p False)
  next
    case True
    let ?fs = "frame_frags (mtu_bytes options) (in_codec input) (map unit_view (units l))"
    from p True have "parse_units (in_codec input) v = (l, True)" by simp
    from parse_units_ok [OF this] have mk: "marker_last True (markers ?fs)" and fok: "list_all (frag_ok (mtu_bytes options)) ?fs"
      by (auto intro!: frame_frags_markers [OF mtu] frame_frags_ok [OF mtu])
    from mk have "?fs \<noteq> []" by (auto simp: marker_last_def)
    then show ?thesis
      by (intro that [of ?fs]) (simp_all add: Packetize_accepted [OF assms acc] p True
          send_all_collect [OF fok] mk fok)
  qed
qed

text \<open>The payload of a packet is what follows the fixed header.\<close>

definition rtp_payload :: "RtpPacketView \<Rightarrow> bytes" where
  "rtp_payload pk = drop kRtpHeaderSize (packet_bytes pk)"

lemma rtp_payload_packets: "map rtp_payload (packets_from input seq fs) = map frag_payload fs"
  by (induction input seq fs rule: packets_from.induct)
    (auto simp: rtp_payload_def frag_payload_def kRtpHeaderSize_def)

lemma frame_packets_parsed:
  assumes "valid_options options" and "frame_accepted options input v"
    and "parse_units (in_codec input) v = (l, True)"
  shows "snd (frame_packets options input seq)"
    and "map rtp_payload (fst (frame_packets options input seq)) =
       map frag_payload (frame_frags (mtu_bytes options) (in_codec input) (map unit_view (units l)))"
proof -
  from assms(1) have mtu: "64 \<le> mtu_bytes options" by (simp add: valid_options_def kMinRtpMtuBytes_def)
  from parse_units_ok [OF assms(3)]
  have "list_all (frag_ok (mtu_bytes options))
      (frame_frags (mtu_bytes options) (in_codec input) (map unit_view (units l)))"
    by (auto intro!: frame_frags_ok [OF mtu])
  then show "snd (frame_packets options input seq)"
    "map rtp_payload (fst (frame_packets options input seq)) =
       map frag_payload (frame_frags (mtu_bytes options) (in_codec input) (map unit_view (units l)))"
    by (simp_all add: frame_packets_def Packetize_accepted [OF assms(1,2)] assms(3) send_all_collect
        rtp_payload_packets)
qed

lemma encoded_units_bytes: "map bv_bytes (map nal_view (encoded_units a nals)) = map snd nals"
  by (induction a nals rule: encoded_units.induct) (auto simp: nal_unit_at_def)

text \<open>A test frame: a large H.264 slice behind a small parameter set, and an H.265 slice.\<close>

definition sample_options :: RtpPacketizerOptions where
  "sample_options = NewRtpPacketizerMtu 10"

definition sample_h264 :: "(bool \<times> bytes) list" where
  "sample_h264 = [(True, [0x67, 0x42]), (True, 0x65 # replicate 90 7)]"

definition sample_h265 :: "(bool \<times> bytes) list" where
  "sample_h265 = [(True, 0x26 # 0x01 # replicate 90 7)]"

definition sample_input :: "RtpCodec \<Rightarrow> (bool \<times> bytes) list \<Rightarrow> RtpPacketizerInput" where
  "sample_input codec nals =
     \<lparr>in_codec = codec, in_payload = Some \<lparr>bv_addr = 0, bv_bytes = annexb_encode nals\<rparr>, in_pts_us = 1000000,
      in_ssrc = 7, in_payload_type = 0\<rparr>"

lemma sample_options_valid: "valid_options sample_options"
  by (simp add: sample_options_def NewRtpPacketizer_valid)

lemma sample_rtp_frames:
  "wf_nals sample_h264" "wf_nals sample_h265"
  "frame_accepted sample_options (sample_input RtpH264 sample_h264) \<lparr>bv_addr = 0, bv_bytes = annexb_encode sample_h264\<rparr>"
  "frame_accepted sample_options (sample_input RtpH265 sample_h265) \<lparr>bv_addr = 0, bv_bytes = annexb_encode sample_h265\<rparr>"
proof -
  show "wf_nals sample_h264" "wf_nals sample_h265" unfolding wf_nals_def wf_nal_exec by code_simp+
qed (simp_all add: frame_accepted_def sample_input_def sample_h264_def sample_h265_def sample_options_def
    NewRtpPacketizerMtu_def NormalizeRtpInput_def RtpPayloadTypeForCodec_def bv_size_def start_code_def
    kRtpPayloadTypeH264_def kRtpPayloadTypeH265_def)

text \<open>
  Whatever the payload of a frame, no RTP packet \<open>Packetize\<close> hands to its sink is larger than
  the configured MTU.
\<close>

lemma rtp_packets_fit_mtu:
  assumes "valid_options options"
  shows "list_all (\<lambda>pk. RtpPacketView_Size pk \<le> mtu_bytes options) (fst (frame_packets options input seq))"
proof -
  obtain fs where
    "Packetize collect_packets options input (seq, []) =
       ((seq + word_of_nat (length fs), packets_from (NormalizeRtpInput input options) seq fs), fs \<noteq> [])"
    "list_all (frag_ok (mtu_bytes options)) fs"
    using Packetize_collect [OF assms, of input seq "[]"] by auto
  then show ?thesis by (simp add: frame_packets_def packets_from_size)
qed

text \<open>
  Claim C27. The packets of one frame carry consecutive sequence numbers modulo 65536 starting at the
  caller's counter, which afterwards points behind the last one; all carry the same timestamp and
  SSRC, and the marker bit is set on exactly the last packet of the frame. The call succeeds
  exactly when a packet was produced.
\<close>

theorem rtp_packets_numbered:
  assumes "valid_options options"
    and "Packetize collect_packets options input (seq, []) = ((seq', ps), ok)"
  shows "seq' = seq + word_of_nat (length ps) \<and> (ok \<longleftrightarrow> ps \<noteq> [])
     \<and> (\<forall>i < length ps. pk_sequence (ps ! i) = seq + word_of_nat i \<and> pk_timestamp (ps ! i) = RtpTimestamp input
           \<and> pk_ssrc (ps ! i) = in_ssrc input \<and> (pk_marker (ps ! i) \<longleftrightarrow> i = length ps - 1))"
proof -
  obtain fs where fs:
    "Packetize collect_packets options input (seq, []) =
       ((seq + word_of_nat (length fs), packets_from (NormalizeRtpInput input options) seq fs), fs \<noteq> [])"
    "fs \<noteq> [] \<longrightarrow> marker_last True (markers fs)"
    using Packetize_collect [OF assms(1), of input seq "[]"] by auto
  then have ps: "ps = packets_from (NormalizeRtpInput input options) seq fs" using assms(2) by simp
  have "pk_sequence (ps ! i) = seq + word_of_nat i \<and> pk_timestamp (ps ! i) = RtpTimestamp input
       \<and> pk_ssrc (ps ! i) = in_ssrc input \<and> (pk_marker (ps ! i) \<longleftrightarrow> i = length ps - 1)" if "i < length ps" for i
  proof -
    from that ps fs(2) have "snd (snd (fs ! i)) \<longleftrightarrow> i = length ps - 1"
      using marker_last_nth [of True "markers fs" i] by (auto simp: markers_def)
    with that ps show ?thesis
      by (auto simp: packets_from_nth rtp_packet_def RtpTimestamp_def split: prod.split)
  qed
  with assms(2) fs(1) show ?thesis by auto
qed

theorem rtp_packets_numbered_witness:
  "map (\<lambda>pk. (pk_sequence pk, pk_marker pk)) (fst (frame_packets sample_options (sample_input RtpH264 sample_h264) 65535))
     = [(65535, False), (0, False), (1, True)]"
proof -
  have codec: "in_codec (sample_input RtpH264 sample_h264) = RtpH264"
    and fit: "length sample_h264 \<le> kMaxNalUnitsPerFrame" and mtu: "mtu_bytes sample_options = 64"
    by code_simp+
  have parse: "parse_units (in_codec (sample_input RtpH264 sample_h264))
      \<lparr>bv_addr = 0, bv_bytes = annexb_encode sample_h264\<rparr>
      = (\<lparr>units = map h264_unit_of (encoded_units 0 sample_h264), overflow = False\<rparr>, True)"
    using codec fit by (simp add: parse_units_def parse_h264_encoded [OF sample_rtp_frames(1)])
  have "length (frame_frags 64 RtpH264 (map unit_view (map h264_unit_of (encoded_units 0 sample_h264)))) = 3"
    by code_simp
  then have l: "length (fst (frame_packets sample_options (sample_input RtpH264 sample_h264) 65535)) = 3"
    using arg_cong [OF frame_packets_parsed(2) [OF sample_options_valid sample_rtp_frames(3) parse], of length]
    by (simp add: codec mtu)
  obtain seq' ps ok where r:
    "Packetize collect_packets sample_options (sample_input RtpH264 sample_h264) (65535, []) = ((seq', ps), ok)"
    by (metis prod.exhaust)
  with l have "length ps = 3" and ps: "fst (frame_packets sample_options (sample_input RtpH264 sample_h264) 65535) = ps"
    by (simp_all add: frame_packets_def)
  moreover from this obtain a b c where "ps = [a, b, c]"
    by (auto simp: numeral_3_eq_3 length_Suc_conv)
  ultimately show ?thesis
    using rtp_packets_numbered [OF sample_options_valid r]
    by (auto simp: less_Suc_eq numeral_3_eq_3 all_conj_distrib)
qed


text \<open>
  Claim C1. A receiver gets back what was sent: for an H.264 frame of well-formed NAL units (none of the
  reserved type 28, at most 64 of them) and any MTU, reassembling the payloads of the packets
  as RFC 6184 prescribes yields exactly the NAL units of the frame, in order.
\<close>

theorem rtp_h264_reassembly:
  assumes "valid_options options" and "frame_accepted options input \<lparr>bv_addr = a, bv_bytes = annexb_encode nals\<rparr>"
    and "in_codec input = RtpH264" and "wf_nals nals" and "length nals \<le> kMaxNalUnitsPerFrame"
    and "list_all (\<lambda>n. \<not> h264_is_fu (snd n)) nals"
  shows "snd (frame_packets options input seq)
     \<and> depacketize h264_is_fu 2 h264_rebuild None (map rtp_payload (fst (frame_packets options input seq)))
         = Some (map snd nals)"
proof -
  let ?us = "encoded_units a nals"
  let ?vs = "map nal_view ?us"
  have parse: "parse_units (in_codec input) \<lparr>bv_addr = a, bv_bytes = annexb_encode nals\<rparr> =
      (\<lparr>units = map h264_unit_of ?us, overflow = False\<rparr>, True)"
    using assms(3,5) by (simp add: parse_units_def parse_h264_encoded [OF assms(4)])
  have bytes: "map bv_bytes ?vs = map snd nals" by (rule encoded_units_bytes)
  have "\<forall>b \<in> set (map bv_bytes ?vs). b \<noteq> [] \<and> \<not> h264_is_fu b"
    unfolding bytes using assms(4,6) by (auto simp: wf_nals_def wf_nal_def list_all_iff)
  then have "\<forall>v \<in> set ?vs. 2 - 1 \<le> bv_size v \<and> \<not> h264_is_fu (bv_bytes v)"
    by (auto simp: bv_size_def Suc_le_eq)
  moreover have "64 \<le> mtu_bytes options" using assms(1) by (simp add: valid_options_def kMinRtpMtuBytes_def)
  ultimately show ?thesis
    using frame_packets_parsed [OF assms(1,2) parse] rtp_h264.depacketize_frame [of "mtu_bytes options" ?vs] bytes
    by (simp add: assms(3) h264_unit_of_def comp_def)
qed

theorem rtp_h264_reassembly_witness:
  "depacketize h264_is_fu 2 h264_rebuild None
      (map rtp_payload (fst (frame_packets sample_options (sample_input RtpH264 sample_h264) 65535)))
     = Some [[0x67, 0x42], 0x65 # replicate 90 7]"
proof -
  have "in_codec (sample_input RtpH264 sample_h264) = RtpH264"
    and "length sample_h264 \<le> kMaxNalUnitsPerFrame" and "list_all (\<lambda>n. \<not> h264_is_fu (snd n)) sample_h264"
    by code_simp+
  from rtp_h264_reassembly [OF sample_options_valid sample_rtp_frames(3) this(1) sample_rtp_frames(1) this(2,3)]
  show ?thesis by (simp add: sample_h264_def)
qed

text \<open>
  The same for H.265 and RFC 7798 (NAL units of at least the two header bytes, none of the
  reserved type 49).
\<close>

lemma rtp_h265_reassembly:
  assumes "valid_options options" and "frame_accepted options input \<lparr>bv_addr = a, bv_bytes = annexb_encode nals\<rparr>"
    and "in_codec input = RtpH265" and "wf_nals nals" and "length nals \<le> kMaxNalUnitsPerFrame"
    and "list_all (\<lambda>n. 2 \<le> length (snd n) \<and> \<not> h265_is_fu (snd n)) nals"
  shows "snd (frame_packets options input seq)
     \<and> depacketize h265_is_fu 3 h265_rebuild None (map rtp_payload (fst (frame_packets options input seq)))
         = Some (map snd nals)"
proof -
  let ?us = "encoded_units a nals"
  let ?vs = "map nal_view ?us"
  have bytes: "map bv_bytes ?vs = map snd nals" by (rule encoded_units_bytes)
  have "\<forall>b \<in> set (map bv_bytes ?vs). 2 \<le> length b \<and> \<not> h265_is_fu b"
    unfolding bytes using assms(6) by (auto simp: list_all_iff)
  then have vs: "\<forall>v \<in> set ?vs. 3 - 1 \<le> bv_size v \<and> \<not> h265_is_fu (bv_bytes v)"
    by (auto simp: bv_size_def)
  then have flt: "filter has_h265_header ?us = ?us"
    by (intro filter_True) (auto simp: has_h265_header_def)
  have "nals \<noteq> []" using assms(4) by (simp add: wf_nals_def)
  with assms(3,5) have parse: "parse_units (in_codec input) \<lparr>bv_addr = a, bv_bytes = annexb_encode nals\<rparr> =
      (\<lparr>units = map h265_unit_of ?us, overflow = False\<rparr>, True)"
    by (simp add: parse_units_def parse_h265_encoded [OF assms(4)] flt Let_def)
  have "64 \<le> mtu_bytes options" using assms(1) by (simp add: valid_options_def kMinRtpMtuBytes_def)
  with vs show ?thesis
    using frame_packets_parsed [OF assms(1,2) parse] rtp_h265.depacketize_frame [of "mtu_bytes options" ?vs] bytes
    by (simp add: assms(3) h265_unit_of_def comp_def)
qed

section \<open>Timestamps\<close>

definition rtp_ticks :: "int \<Rightarrow> nat" where
  "rtp_ticks pts_us = nat pts_us * kRtpClockRate div 1000000"

lemma IsRtpTimestampBackwards_iff: "IsRtpTimestampBackwards t p \<longleftrightarrow> 2 ^ 31 \<le> unat (t - p)"
proof -
  have "sint (t - p) < 0 \<longleftrightarrow> bit (t - p) 31"
    using bit_last_iff [of "t - p"] by simp
  also have "\<dots> \<longleftrightarrow> 2 ^ 31 \<le> unat (t - p)"
  proof -
    have "bit (t - p) 31 \<longleftrightarrow> odd (unat (t - p) div 2 ^ 31)"
      using bit_unsigned_iff [where ?'a = nat, of "t - p" 31] by (simp add: bit_iff_odd [of "unat (t - p)"])
    moreover have "odd (n div 2 ^ 31) \<longleftrightarrow> 2 ^ 31 \<le> n" if "n < 2 ^ 32" for n :: nat
      using that by (cases "2 ^ 31 \<le> n") (simp_all add: div_nat_eqI [where q = 1])
    ultimately show ?thesis using unsigned_less [where ?'a = nat, of "t - p"] by simp
  qed
  finally show ?thesis by (simp add: IsRtpTimestampBackwards_def)
qed

lemma RtpTimestamp_ticks:
  assumes "0 \<le> pts" and "nat pts * kRtpClockRate < 2 ^ 64"
  shows "RtpTimestampFromPtsUs pts kRtpClockRate = word_of_nat (rtp_ticks pts)"
  using assms by (auto simp: RtpTimestampFromPtsUs_def rtp_ticks_def kRtpClockRate_def)

text \<open>
  RTP timestamps keep the order of the presentation times across the 32-bit wrap-around:
  for two times less than \<open>2 ^ 31\<close> ticks (about 6.6 hours) apart, the timestamp of the earlier
  one is \<open>IsRtpTimestampBackwards\<close> of the later one exactly when they lie in different ticks,
  and the later one is never backwards.
\<close>

lemma rtp_timestamp_order:
  assumes "0 \<le> a" and "a \<le> b" and "nat b * kRtpClockRate < 2 ^ 64" and "rtp_ticks b - rtp_ticks a < 2 ^ 31"
  shows "\<not> IsRtpTimestampBackwards (RtpTimestampFromPtsUs b kRtpClockRate) (RtpTimestampFromPtsUs a kRtpClockRate)
     \<and> (IsRtpTimestampBackwards (RtpTimestampFromPtsUs a kRtpClockRate) (RtpTimestampFromPtsUs b kRtpClockRate)
        \<longleftrightarrow> rtp_ticks a < rtp_ticks b)"
proof -
  define d where "d = rtp_ticks b - rtp_ticks a"
  have "nat a \<le> nat b" using assms by simp
  then have le: "rtp_ticks a \<le> rtp_ticks b" and "nat a * kRtpClockRate < 2 ^ 64"
    using assms(3) by (auto simp: rtp_ticks_def kRtpClockRate_def div_le_mono)
  with assms have ts: "RtpTimestampFromPtsUs a kRtpClockRate = word_of_nat (rtp_ticks a)"
      "RtpTimestampFromPtsUs b kRtpClockRate = word_of_nat (rtp_ticks b)"
    by (simp_all add: RtpTimestamp_ticks)
  have b: "rtp_ticks b = rtp_ticks a + d" using le by (simp add: d_def)
  have diff: "(word_of_nat (rtp_ticks b) :: u32) - word_of_nat (rtp_ticks a) = word_of_nat d"
    by (simp add: b)
  have small: "unat (word_of_nat d :: u32) = d"
    using assms(4) by (simp add: d_def unat_of_nat)
  have neg: "(word_of_nat (rtp_ticks a) :: u32) - word_of_nat (rtp_ticks b) = - word_of_nat d"
    by (simp add: b)
  have "unat (- word_of_nat d :: u32) = (if d = 0 then 0 else 2 ^ 32 - d)"
  proof (cases "d = 0")
    case False
    have "- word_of_nat d = (word_of_nat (2 ^ 32 - d) :: u32)"
      using assms(4) by (simp add: d_def of_nat_diff)
    with False show ?thesis by (simp add: unat_of_nat)
  qed simp
  then show ?thesis
    using assms(4) small by (auto simp: ts IsRtpTimestampBackwards_iff diff neg b)
qed

section \<open>Frames that cannot be packetized\<close>

lemma parse_units_no_start_code:
  assumes "\<And>i. \<not> start_code_at (bv_bytes v) i"
  shows "\<not> snd (parse_units codec v)"
proof -
  have "FindStartCode (bv_bytes v) 0 = None" using assms by (simp add: FindStartCode_None)
  then have "ForEachLoop on_unit v 0 False s = (s, False)" for on_unit :: "NalUnitList nal_sink" and s
    by (subst ForEachLoop.simps) simp
  then show ?thesis
    by (simp add: parse_units_def ParseH264AnnexBNalUnits_def ParseH265AnnexBNalUnits_def
        ForEachAnnexBNalUnit_def empty_units_def)
qed



end
