(* ===== verification/Timestamp_Corrector.thy ===== *)
theory Timestamp_Corrector
  imports Stream_Prelude
begin

text \<open>
  \<open>libs/media/src/timestamp_corrector.{h,cpp}\<close>: the raw decoding and presentation times of the
  encoder become a monotone time line starting at zero. Times are \<open>int64_t\<close> microseconds in the
  code and \<open>int\<close> here; the last section shows that no intermediate value leaves 64 bits.
\<close>

section \<open>The corrector\<close>

record CorrectedTimestamp =
  ct_dts_us :: int
  ct_pts_us :: int

datatype TimestampCorrectionReset = ResetNone | ResetRollback | ResetJump

record TimestampCorrectionResult =
  tr_timestamp :: CorrectedTimestamp
  tr_reset :: TimestampCorrectionReset
  tr_raw_delta_us :: int

record TimestampCorrector =
  initialized :: bool
  last_raw_dts_us :: int
  last_raw_pts_us :: int
  last_dts_us :: int
  last_pts_us :: int
  last_delta_us :: int

definition kMaxLiveTimestampJumpUs :: int where "kMaxLiveTimestampJumpUs = 3 * 1000 * 1000"

definition TimestampCorrector_Reset :: TimestampCorrector where
  "TimestampCorrector_Reset =
     \<lparr>initialized = False, last_raw_dts_us = 0, last_raw_pts_us = 0, last_dts_us = 0, last_pts_us = 0,
      last_delta_us = 33333\<rparr>"

text \<open>The three input adjustments at the start of \<open>CorrectWithReset\<close>.\<close>

definition NormalizeRaw :: "int \<Rightarrow> int \<Rightarrow> int \<times> int" where
  "NormalizeRaw dts_us pts_us =
     (let pts_us = (if pts_us = 0 then dts_us else pts_us);
          dts_us = (if dts_us < 0 then 0 else dts_us);
          pts_us = (if pts_us < 0 then dts_us else pts_us)
      in (dts_us, pts_us))"

text \<open>The choice of the interval: the reset signal, the interval used and the interval remembered.\<close>

definition SelectDelta :: "TimestampCorrector \<Rightarrow> int \<Rightarrow> TimestampCorrectionReset \<times> int \<times> int" where
  "SelectDelta c raw_delta_us =
     (if raw_delta_us < 0 then (ResetRollback, last_delta_us c, last_delta_us c)
      else if raw_delta_us > kMaxLiveTimestampJumpUs then (ResetJump, last_delta_us c, last_delta_us c)
      else if raw_delta_us = 0 then (ResetNone, 1, last_delta_us c)
      else (ResetNone, raw_delta_us, raw_delta_us))"

definition CorrectWithReset ::
  "TimestampCorrector \<Rightarrow> int \<Rightarrow> int \<Rightarrow> TimestampCorrector \<times> TimestampCorrectionResult" where
  "CorrectWithReset c raw_dts raw_pts =
     (case NormalizeRaw raw_dts raw_pts of (dts_us, pts_us) \<Rightarrow>
      if \<not> initialized c then
        let pts_dts_diff_us = pts_us - dts_us;
            pts_dts_diff_us = (if \<bar>pts_dts_diff_us\<bar> > 500000 \<or> pts_dts_diff_us < 0 then 0 else pts_dts_diff_us)
        in (c\<lparr>initialized := True, last_raw_dts_us := dts_us, last_raw_pts_us := pts_us,
              last_dts_us := 0, last_pts_us := pts_dts_diff_us\<rparr>,
            \<lparr>tr_timestamp = \<lparr>ct_dts_us = 0, ct_pts_us = pts_dts_diff_us\<rparr>, tr_reset = ResetNone,
             tr_raw_delta_us = 0\<rparr>)
      else
        let raw_delta_us = dts_us - last_raw_dts_us c in
        case SelectDelta c raw_delta_us of (reset, corrected_delta_us, delta) \<Rightarrow>
        let corrected_delta_us = (if corrected_delta_us \<le> 0 then 1 else corrected_delta_us);
            corrected_dts_us = last_dts_us c + corrected_delta_us;
            pts_dts_diff_us = pts_us - dts_us;
            pts_dts_diff_us = (if \<bar>pts_dts_diff_us\<bar> > 500000 then 0 else pts_dts_diff_us);
            corrected_pts_us = corrected_dts_us + pts_dts_diff_us;
            corrected_pts_us = (if corrected_pts_us < corrected_dts_us then corrected_dts_us else corrected_pts_us);
            corrected_pts_us = (if corrected_pts_us < last_pts_us c then last_pts_us c else corrected_pts_us)
        in (c\<lparr>last_raw_dts_us := dts_us, last_raw_pts_us := pts_us, last_dts_us := corrected_dts_us,
              last_pts_us := corrected_pts_us, last_delta_us := delta\<rparr>,
            \<lparr>tr_timestamp = \<lparr>ct_dts_us = corrected_dts_us, ct_pts_us = corrected_pts_us\<rparr>, tr_reset = reset,
             tr_raw_delta_us = raw_delta_us\<rparr>))"

definition Correct :: "TimestampCorrector \<Rightarrow> int \<Rightarrow> int \<Rightarrow> TimestampCorrector \<times> CorrectedTimestamp" where
  "Correct c dts_us pts_us =
     (case CorrectWithReset c dts_us pts_us of (c', result) \<Rightarrow> (c', tr_timestamp result))"

text \<open>A stream of frames through the corrector.\<close>

fun correct_all ::
  "TimestampCorrector \<Rightarrow> (int \<times> int) list \<Rightarrow> TimestampCorrector \<times> TimestampCorrectionResult list" where
  "correct_all c [] = (c, [])"
| "correct_all c ((dts, pts) # frames) =
     (case CorrectWithReset c dts pts of (c', r) \<Rightarrow>
        case correct_all c' frames of (c'', rs) \<Rightarrow> (c'', r # rs))"

abbreviation out_dts :: "TimestampCorrectionResult \<Rightarrow> int" where
  "out_dts r \<equiv> ct_dts_us (tr_timestamp r)"

abbreviation out_pts :: "TimestampCorrectionResult \<Rightarrow> int" where
  "out_pts r \<equiv> ct_pts_us (tr_timestamp r)"

section \<open>The invariant\<close>

definition corrector_inv :: "TimestampCorrector \<Rightarrow> bool" where
  "corrector_inv c \<longleftrightarrow> 0 < last_delta_us c \<and> last_delta_us c \<le> kMaxLiveTimestampJumpUs
     \<and> 0 \<le> last_raw_dts_us c \<and> 0 \<le> last_raw_pts_us c \<and> 0 \<le> last_dts_us c
     \<and> last_dts_us c \<le> last_pts_us c \<and> last_pts_us c \<le> last_dts_us c + 500000"

lemma corrector_inv_Reset: "corrector_inv TimestampCorrector_Reset"
  by (simp add: corrector_inv_def TimestampCorrector_Reset_def kMaxLiveTimestampJumpUs_def)

lemma NormalizeRaw_nonneg:
  "NormalizeRaw dts pts = (d, p) \<Longrightarrow> 0 \<le> d \<and> 0 \<le> p"
  by (auto simp: NormalizeRaw_def Let_def split: if_splits)

text \<open>The first frame, and the fields of every later result.\<close>

lemma CorrectWithReset_first:
  assumes "\<not> initialized c" and "CorrectWithReset c dts pts = (c', r)" and "NormalizeRaw dts pts = (d, p)"
  defines "off \<equiv> (if 0 \<le> p - d \<and> p - d \<le> 500000 then p - d else 0)"
  shows "c' = c\<lparr>initialized := True, last_raw_dts_us := d, last_raw_pts_us := p, last_dts_us := 0, last_pts_us := off\<rparr>"
    and "r = \<lparr>tr_timestamp = \<lparr>ct_dts_us = 0, ct_pts_us = off\<rparr>, tr_reset = ResetNone, tr_raw_delta_us = 0\<rparr>"
  using assms(1-3) by (auto simp: CorrectWithReset_def Let_def off_def)

lemma CorrectWithReset_fields:
  assumes "initialized c" and "CorrectWithReset c dts pts = (c', r)" and "NormalizeRaw dts pts = (d, p)"
  defines "delta \<equiv> d - last_raw_dts_us c"
    and "off \<equiv> (if \<bar>p - d\<bar> \<le> 500000 then max 0 (p - d) else 0)"
  shows "tr_raw_delta_us r = delta"
    and "tr_reset r = (if delta < 0 then ResetRollback else if delta > kMaxLiveTimestampJumpUs then ResetJump
           else ResetNone)"
    and "out_dts r = last_dts_us c
           + max 1 (if delta < 0 \<or> delta > kMaxLiveTimestampJumpUs then last_delta_us c else delta)"
    and "out_pts r = max (last_pts_us c) (out_dts r + off)"
    and "c' = c\<lparr>last_raw_dts_us := d, last_raw_pts_us := p, last_dts_us := out_dts r, last_pts_us := out_pts r,
           last_delta_us := (if 0 < delta \<and> delta \<le> kMaxLiveTimestampJumpUs then delta else last_delta_us c)\<rparr>"
proof -
  obtain reset cd dl where sel: "SelectDelta c delta = (reset, cd, dl)" by (metis prod.exhaust)
  have eq: "c' = c\<lparr>last_raw_dts_us := d, last_raw_pts_us := p, last_dts_us := out_dts r,
               last_pts_us := out_pts r, last_delta_us := dl\<rparr>"
    "tr_raw_delta_us r = delta" "tr_reset r = reset" "out_dts r = last_dts_us c + max 1 cd"
    "out_pts r = max (last_pts_us c) (out_dts r + off)"
    using assms(1-3) sel by (auto simp: CorrectWithReset_def Let_def delta_def off_def max_def)
  then show "tr_raw_delta_us r = delta" "out_pts r = max (last_pts_us c) (out_dts r + off)" by simp_all
  show "tr_reset r = (if delta < 0 then ResetRollback else if delta > kMaxLiveTimestampJumpUs then ResetJump
           else ResetNone)"
    using eq(3) sel by (auto simp: SelectDelta_def split: if_splits)
  show "out_dts r = last_dts_us c
           + max 1 (if delta < 0 \<or> delta > kMaxLiveTimestampJumpUs then last_delta_us c else delta)"
    using eq(4) sel by (auto simp: SelectDelta_def max_def split: if_splits)
  show "c' = c\<lparr>last_raw_dts_us := d, last_raw_pts_us := p, last_dts_us := out_dts r, last_pts_us := out_pts r,
           last_delta_us := (if 0 < delta \<and> delta \<le> kMaxLiveTimestampJumpUs then delta else last_delta_us c)\<rparr>"
    using eq(1) sel by (auto simp: SelectDelta_def split: if_splits)
qed

lemma CorrectWithReset_inv:
  assumes "corrector_inv c" and "CorrectWithReset c dts pts = (c', r)"
  shows "corrector_inv c' \<and> initialized c' \<and> last_dts_us c' = out_dts r \<and> last_pts_us c' = out_pts r"
proof -
  obtain d p where n: "NormalizeRaw dts pts = (d, p)" by fastforce
  note n' = NormalizeRaw_nonneg [OF n]
  show ?thesis
  proof (cases "initialized c")
    case False
    from CorrectWithReset_first [OF this assms(2) n] assms(1) n' show ?thesis
      by (simp add: corrector_inv_def)
  next
    case True
    note f = CorrectWithReset_fields [OF this assms(2) n]
    have "last_dts_us c \<le> out_dts r" using f(3) by simp
    then have "out_dts r \<le> out_pts r \<and> out_pts r \<le> out_dts r + 500000"
      using f(4) assms(1) by (simp add: corrector_inv_def max_def split: if_splits)
    then show ?thesis
      using True f(5) n' assms(1) \<open>last_dts_us c \<le> out_dts r\<close> by (simp add: corrector_inv_def)
  qed
qed

text \<open>One step advances the time line by at least 1 and at most 3,000,000 microseconds.\<close>

lemma CorrectWithReset_advance:
  assumes "corrector_inv c" and "initialized c" and "CorrectWithReset c dts pts = (c', r)"
  shows "last_dts_us c < out_dts r" and "out_dts r \<le> last_dts_us c + kMaxLiveTimestampJumpUs"
    and "last_pts_us c \<le> out_pts r"
proof -
  obtain d p where n: "NormalizeRaw dts pts = (d, p)" by fastforce
  note f = CorrectWithReset_fields [OF assms(2,3) n]
  show "last_dts_us c < out_dts r" "last_pts_us c \<le> out_pts r" using f(3,4) by simp_all
  show "out_dts r \<le> last_dts_us c + kMaxLiveTimestampJumpUs"
    using f(3) assms(1) by (auto simp: corrector_inv_def kMaxLiveTimestampJumpUs_def max_def)
qed

lemma correct_all_inv:
  "corrector_inv c \<Longrightarrow> correct_all c frames = (c', rs) \<Longrightarrow> corrector_inv c'"
  by (induction c frames arbitrary: rs rule: correct_all.induct)
    (auto split: prod.splits dest: CorrectWithReset_inv)

lemma length_correct_all: "correct_all c frames = (c', rs) \<Longrightarrow> length rs = length frames"
  by (induction c frames arbitrary: rs rule: correct_all.induct) (auto split: prod.splits)

lemma correct_all_after:
  assumes "corrector_inv c" and "initialized c" and "correct_all c frames = (c', rs)"
  shows "sorted_wrt (\<lambda>a b. out_dts a < out_dts b \<and> out_pts a \<le> out_pts b) rs
     \<and> (\<forall>r \<in> set rs. last_dts_us c < out_dts r \<and> last_pts_us c \<le> out_pts r
          \<and> out_dts r \<le> out_pts r \<and> out_pts r \<le> out_dts r + 500000
          \<and> out_dts r \<le> last_dts_us c + kMaxLiveTimestampJumpUs * int (length frames))"
  using assms
proof (induction c frames arbitrary: c' rs rule: correct_all.induct)
  case (1 c)
  then show ?case by simp
next
  case (2 c dts pts frames)
  obtain d r where step: "CorrectWithReset c dts pts = (d, r)" by fastforce
  obtain d' qs where rest: "correct_all d frames = (d', qs)" by fastforce
  from CorrectWithReset_inv [OF 2(2) step]
  have inv: "corrector_inv d" "initialized d" "last_dts_us d = out_dts r" "last_pts_us d = out_pts r" by auto
  note adv = CorrectWithReset_advance [OF 2(2,3) step]
  have pos: "0 \<le> kMaxLiveTimestampJumpUs * int (length frames)" by (simp add: kMaxLiveTimestampJumpUs_def)
  have "out_dts r \<le> out_pts r" "out_pts r \<le> out_dts r + 500000"
    using inv(1) unfolding corrector_inv_def inv(3,4) by auto
  moreover have "out_dts q \<le> last_dts_us c + kMaxLiveTimestampJumpUs * (1 + int (length frames))"
    if "out_dts q \<le> out_dts r + kMaxLiveTimestampJumpUs * int (length frames)" for q
    using that adv(2) by (simp add: algebra_simps)
  moreover have "out_dts r \<le> last_dts_us c + kMaxLiveTimestampJumpUs * (1 + int (length frames))"
    using adv(2) pos by (simp add: algebra_simps)
  ultimately show ?case
    using 2(1) [OF step [symmetric] inv(1,2) rest] step rest 2(4) adv inv(3,4) by fastforce
qed



text \<open>
  A reset is signalled exactly when the raw decoding time falls back, or jumps ahead by more than
  three seconds; the time line then advances by the last regular frame interval, which is kept.
  Otherwise it advances by the raw interval, or by one microsecond when that is zero.
\<close>

lemma corrector_reset_exact:
  assumes "corrector_inv c" and "initialized c" and "CorrectWithReset c dts pts = (c', r)"
  shows "tr_raw_delta_us r = max 0 dts - last_raw_dts_us c
     \<and> (tr_reset r = ResetRollback \<longleftrightarrow> tr_raw_delta_us r < 0)
     \<and> (tr_reset r = ResetJump \<longleftrightarrow> kMaxLiveTimestampJumpUs < tr_raw_delta_us r)
     \<and> out_dts r - last_dts_us c
         = (if tr_reset r = ResetNone then max 1 (tr_raw_delta_us r) else last_delta_us c)
     \<and> (tr_reset r \<noteq> ResetNone \<longrightarrow> last_delta_us c' = last_delta_us c)"
proof -
  obtain d p where n: "NormalizeRaw dts pts = (d, p)" by fastforce
  have d: "d = max 0 dts" using n by (auto simp: NormalizeRaw_def Let_def)
  note f = CorrectWithReset_fields [OF assms(2,3) n, folded d]
  have ld: "last_delta_us c' = (if 0 < d - last_raw_dts_us c \<and> d - last_raw_dts_us c \<le> kMaxLiveTimestampJumpUs
      then d - last_raw_dts_us c else last_delta_us c)"
    by (subst f(5)) simp
  have "0 < last_delta_us c" "0 < kMaxLiveTimestampJumpUs"
    using assms(1) by (simp_all add: corrector_inv_def kMaxLiveTimestampJumpUs_def)
  then show ?thesis unfolding d [symmetric] f(1,2,3) ld by simp
qed

section \<open>Regular streams pass through unchanged\<close>

definition regular_frame :: "int \<times> int \<Rightarrow> bool" where
  "regular_frame f \<longleftrightarrow> (case f of (dts, pts) \<Rightarrow> 0 \<le> dts \<and> dts \<le> pts \<and> pts \<le> dts + 500000)"

definition regular_step :: "int \<times> int \<Rightarrow> int \<times> int \<Rightarrow> bool" where
  "regular_step f g \<longleftrightarrow> (case (f, g) of ((dts, pts), (dts', pts')) \<Rightarrow>
     dts < dts' \<and> dts' \<le> dts + kMaxLiveTimestampJumpUs \<and> pts \<le> pts')"

lemma NormalizeRaw_regular: "regular_frame (dts, pts) \<Longrightarrow> NormalizeRaw dts pts = (dts, pts)"
  by (auto simp: regular_frame_def NormalizeRaw_def Let_def)

definition shifted :: "int \<Rightarrow> int \<times> int \<Rightarrow> int \<times> int \<times> TimestampCorrectionReset" where
  "shifted base f = (fst f - base, snd f - base, ResetNone)"

definition result_view :: "TimestampCorrectionResult \<Rightarrow> int \<times> int \<times> TimestampCorrectionReset" where
  "result_view r = (out_dts r, out_pts r, tr_reset r)"

text \<open>The corrector after a regular frame \<open>f\<close> of a stream that began at \<open>base\<close>.\<close>

definition in_step :: "int \<Rightarrow> int \<times> int \<Rightarrow> TimestampCorrector \<Rightarrow> bool" where
  "in_step base f c \<longleftrightarrow> initialized c \<and> last_raw_dts_us c = fst f
     \<and> last_dts_us c = fst f - base \<and> last_pts_us c = snd f - base"

lemma CorrectWithReset_regular:
  assumes "in_step base f c" and "regular_frame g" and "regular_step f g"
    and "CorrectWithReset c (fst g) (snd g) = (c', r)"
  shows "in_step base g c'" and "result_view r = shifted base g"
proof -
  obtain dts pts where g: "g = (dts, pts)" by fastforce
  have n: "NormalizeRaw dts pts = (dts, pts)" using assms(2) g by (simp add: NormalizeRaw_regular)
  have c: "initialized c" "last_raw_dts_us c = fst f" "last_dts_us c = fst f - base" "last_pts_us c = snd f - base"
    using assms(1) by (simp_all add: in_step_def)
  have diff: "0 \<le> pts - dts" "\<bar>pts - dts\<bar> \<le> 500000" using assms(2) g by (auto simp: regular_frame_def)
  have delta: "0 < dts - fst f" "dts - fst f \<le> kMaxLiveTimestampJumpUs" "snd f \<le> pts"
    using assms(3) g by (auto simp: regular_step_def split: prod.splits)
  have eq: "CorrectWithReset c dts pts = (c', r)" using assms(4) g by simp
  note f = CorrectWithReset_fields [OF c(1) eq n, unfolded c]
  have d: "out_dts r = dts - base" using f(3) delta by simp
  then have p: "out_pts r = pts - base" using f(4) delta diff by simp
  show "result_view r = shifted base g"
    using f(2) delta by (simp add: result_view_def shifted_def d p g)
  show "in_step base g c'" using f(5) c(1) by (simp add: in_step_def d p g)
qed

lemma correct_all_regular:
  "\<lbrakk>in_step base f c; list_all regular_frame frames; successively regular_step (f # frames);
    correct_all c frames = (c', rs)\<rbrakk> \<Longrightarrow> map result_view rs = map (shifted base) frames"
proof (induction frames arbitrary: f c c' rs)
  case (Cons g frames)
  obtain d r where step: "CorrectWithReset c (fst g) (snd g) = (d, r)" by fastforce
  obtain d' qs where rest: "correct_all d frames = (d', qs)" by fastforce
  have g: "regular_frame g" "regular_step f g" using Cons.prems by auto
  note s = CorrectWithReset_regular [OF Cons.prems(1) g step]
  have "map result_view qs = map (shifted base) frames"
    using Cons.IH [OF s(1) _ _ rest] Cons.prems(2,3) by simp
  moreover have "rs = r # qs"
    using Cons.prems(4) step rest by (cases g) simp
  ultimately show ?case using s(2) by simp
qed simp

text \<open>
  A regular stream (increasing decoding times at most three seconds apart, presentation times
  non-decreasing and at most half a second behind) is only shifted so that it begins at zero: no
  interval is changed and no reset is signalled.
\<close>

lemma corrector_regular_stream:
  assumes "list_all regular_frame frames" and "successively regular_step frames"
    and "correct_all TimestampCorrector_Reset frames = (c, rs)"
  shows "map result_view rs = map (shifted (fst (hd frames))) frames"
proof (cases frames)
  case Nil
  with assms show ?thesis by simp
next
  case (Cons f fs)
  obtain dts pts where f: "f = (dts, pts)" by fastforce
  have reg: "regular_frame (dts, pts)" using assms(1) Cons f by simp
  obtain d r where step: "CorrectWithReset TimestampCorrector_Reset dts pts = (d, r)" by fastforce
  obtain d' qs where rest: "correct_all d fs = (d', qs)" by fastforce
  have first: "in_step dts f d" "result_view r = shifted dts f"
    using step reg NormalizeRaw_regular [OF reg]
    by (auto simp: CorrectWithReset_def TimestampCorrector_Reset_def in_step_def result_view_def shifted_def
        regular_frame_def f Let_def)
  have "map result_view qs = map (shifted dts) fs"
    using correct_all_regular [OF first(1) _ _ rest] assms(1,2) Cons by simp
  with first(2) assms(3) step rest Cons f show ?thesis by auto
qed

end
