(* ===== verification/Media_Types.thy ===== *)
theory Media_Types
  imports Stream_Prelude
begin

text \<open>
  \<open>libs/media/include/media/stream_types.h\<close>, \<open>media_frame.h\<close> and \<open>media_streams.h\<close>: stream identifiers,
  codecs, encoded frames and the subscription types. The payload of a frame is a \<open>MediaBufferRef\<close>; what the consumers of a frame see
  of it is \<open>None\<close> for an invalid reference and otherwise the view \<open>Data(), Size()\<close>.
\<close>

datatype StreamId = StreamMain | StreamSub | StreamSnapshot

datatype Codec = CodecH264 | CodecH265 | CodecMjpeg | CodecJpeg

datatype FrameType = FrameIdr | FrameI | FrameP | FrameB | FrameJpeg

record MediaFrame =
  stream_id :: StreamId
  codec :: Codec
  frame_type :: FrameType
  frame_sequence :: nat
  width :: u32
  height :: u32
  pts_us :: int
  dts_us :: int
  duration_us :: int
  payload :: "byte_view option"

definition empty_media_frame :: MediaFrame where
  "empty_media_frame = \<lparr>stream_id = StreamMain, codec = CodecH264, frame_type = FrameP, frame_sequence = 0,
     width = 0, height = 0, pts_us = 0, dts_us = 0, duration_us = 0, payload = None\<rparr>"

definition IsMediaFramePayloadValid :: "MediaFrame \<Rightarrow> bool" where
  "IsMediaFramePayloadValid frame = (case payload frame of None \<Rightarrow> False | Some v \<Rightarrow> bv_size v \<noteq> 0)"

definition MediaFramePayloadData :: "MediaFrame \<Rightarrow> byte_view option" where
  "MediaFramePayloadData frame = (if IsMediaFramePayloadValid frame then payload frame else None)"

text \<open>The \<open>Size()\<close> of the payload reference: 0 when it is not valid.\<close>

definition PayloadSize :: "MediaFrame \<Rightarrow> nat" where
  "PayloadSize frame = (case payload frame of None \<Rightarrow> 0 | Some v \<Rightarrow> bv_size v)"

lemma MediaFramePayloadData_Some:
  "MediaFramePayloadData frame = Some v \<longleftrightarrow> payload frame = Some v \<and> bv_size v \<noteq> 0"
  by (auto simp: MediaFramePayloadData_def IsMediaFramePayloadValid_def split: option.splits if_splits)

section \<open>Subscriptions\<close>

datatype SubscriptionClose =
  CloseNone | CloseUnsubscribed | CloseStreamStopped | CloseCodecChanged | CloseTimestampReset | CloseCacheOverflow

record SubscriptionOptions =
  so_stream_id :: StreamId
  so_keyframe_first :: bool

record MediaStreamInfo =
  si_running :: bool
  si_track_ready :: bool
  si_preview_codec :: bool
  si_hls_ready :: bool
  si_flv_ready :: bool
  si_mjpeg_ready :: bool
  si_codec :: Codec
  si_clock_rate :: u32
  si_codec_generation :: nat
  si_vps :: bytes
  si_sps :: bytes
  si_pps :: bytes
  si_hls_codec :: bytes
  si_hls_segment_size :: nat
  si_hls_first_segment_sequence :: nat
  si_hls_last_segment_sequence :: nat
  si_hls_missing_segments :: nat
  si_hls_evicted_segments :: nat
  si_flv_sequence_header_size :: nat
  si_flv_last_keyframe_size :: nat
  si_hls_current_segment_size :: nat
  si_last_dts_us :: int
  si_last_reset_reason :: bytes
  si_hls_supported :: bool
  si_flv_supported :: bool
  si_mjpeg_supported :: bool

record SubscriptionStart =
  ss_track_ready :: bool
  ss_gop_complete :: bool
  ss_generation :: nat
  ss_stream_info :: "MediaStreamInfo option"
  ss_gop_frames :: "MediaFrame list"

record SubscriptionFrame =
  sf_subscription_id :: nat
  sf_generation :: nat
  sf_starts_on_keyframe :: bool
  sf_frame :: MediaFrame

record SubscriptionInfo =
  sn_open :: bool
  sn_stream_id :: StreamId
  sn_generation :: nat
  sn_close_reason :: SubscriptionClose
  sn_wait_keyframe :: bool
  sn_slow :: bool
  sn_pending_frames :: nat

end
