(* ===== verification/Flv_Muxer.thy ===== *)
theory Flv_Muxer
  imports Media_Types Avcc_Writer Nal_Parser
begin

text \<open>
  \<open>libs/media/src/flv_muxer.{h,cpp}\<close> with \<open>frame_payload.h\<close> and the tag views of
  \<open>media_streams.h\<close>: FLV file header, the AVC sequence header tag, and video tags as lists of slices
  that refer to the frame's payload. \<open>size_t\<close> has 32 bits on the target, so sums of sizes are taken
  modulo \<open>2 ^ 32\<close>.
\<close>

section \<open>Tags as slices\<close>

definition kMaxFlvVideoTagSlices :: nat where
  "kMaxFlvVideoTagSlices = kMaxNalUnitsPerFrame * 2 + 2"

definition kFlvCodecIdAvc :: u8 where "kFlvCodecIdAvc = 7"
definition kFlvMaxBodySize :: nat where "kFlvMaxBodySize = 0x00ffffff"
definition kFlvPacketTypeSequenceStart :: u8 where "kFlvPacketTypeSequenceStart = 0"
definition kFlvPacketTypeCodedFrames :: u8 where "kFlvPacketTypeCodedFrames = 1"

text \<open>
  A slice is a \<open>data_slice\<close>: its bytes, with an address when it points into the media payload, and
  without one when it points into the small arrays of the tag itself.
\<close>

record FlvVideoTagBuild =
  tag_slices :: "data_slice list"
  tag_timestamp_ms :: u32
  tag_total_size :: nat
  tag_header :: bytes
  tag_nal_lengths :: "bytes list"
  tag_previous_tag_size :: bytes

definition empty_tag :: FlvVideoTagBuild where
  "empty_tag = \<lparr>tag_slices = [], tag_timestamp_ms = 0, tag_total_size = 0, tag_header = replicate 24 0,
     tag_nal_lengths = replicate kMaxFlvVideoTagSlices (replicate 4 0), tag_previous_tag_size = replicate 4 0\<rparr>"

definition FlvTag_Add ::
  "FlvVideoTagBuild \<Rightarrow> nat option \<Rightarrow> bytes \<Rightarrow> bool \<Rightarrow> FlvVideoTagBuild \<times> bool" where
  "FlvTag_Add tag addr data media_payload =
     (if length data = 0 then (tag, True)
      else if length (tag_slices tag) \<ge> kMaxFlvVideoTagSlices \<or> length data > SIZE_MAX - tag_total_size tag
      then (tag, False)
      else (tag\<lparr>tag_slices := tag_slices tag
                  @ [\<lparr>sl_addr = addr, sl_bytes = data, sl_media = media_payload\<rparr>],
                tag_total_size := tag_total_size tag + length data\<rparr>, True))"

definition AddHeader :: "FlvVideoTagBuild \<Rightarrow> bytes \<Rightarrow> FlvVideoTagBuild \<times> bool" where
  "AddHeader tag data = FlvTag_Add tag None data False"

definition AddPayload :: "FlvVideoTagBuild \<Rightarrow> byte_view \<Rightarrow> FlvVideoTagBuild \<times> bool" where
  "AddPayload tag v = FlvTag_Add tag (Some (bv_addr v)) (bv_bytes v) True"

section \<open>The muxer\<close>

definition WriteU24Bytes :: "u32 \<Rightarrow> bytes \<Rightarrow> nat \<Rightarrow> bytes" where
  "WriteU24Bytes value target off =
     target[off := ucast (drop_bit 16 value AND 0xff), off + 1 := ucast (drop_bit 8 value AND 0xff),
            off + 2 := ucast (value AND 0xff)]"

definition WriteU32Bytes :: "u32 \<Rightarrow> bytes \<Rightarrow> nat \<Rightarrow> bytes" where
  "WriteU32Bytes value target off =
     target[off := ucast (drop_bit 24 value AND 0xff), off + 1 := ucast (drop_bit 16 value AND 0xff),
            off + 2 := ucast (drop_bit 8 value AND 0xff), off + 3 := ucast (value AND 0xff)]"

definition AppendFlvTimestamp :: "bytes \<Rightarrow> u32 \<Rightarrow> bytes" where
  "AppendFlvTimestamp out timestamp_ms =
     AppendU8 (AppendU24 out (timestamp_ms AND 0x00ffffff)) (ucast (drop_bit 24 timestamp_ms AND 0xff))"

definition IsH264FlvVideoNal :: "NalUnit \<Rightarrow> bool" where
  "IsH264FlvVideoNal unit \<longleftrightarrow>
     bv_size (unit_view unit) > 0 \<and> \<not> IsH264ParameterSetNal (unit_type unit) \<and> unit_type unit \<noteq> kH264NalTypeAud"

fun FlvPayloadSizeLoop :: "NalUnit list \<Rightarrow> nat \<Rightarrow> nat" where
  "FlvPayloadSizeLoop [] payload_size = payload_size"
| "FlvPayloadSizeLoop (unit # us) payload_size =
     FlvPayloadSizeLoop us
       (if IsH264FlvVideoNal unit then size_t_add payload_size (size_t_add 4 (bv_size (unit_view unit)))
        else payload_size)"

definition H264FlvVideoPayloadSize :: "H264NalUnitList \<Rightarrow> nat" where
  "H264FlvVideoPayloadSize l = FlvPayloadSizeLoop (units l) 0"

definition BuildH264FlvSequenceHeaderTagBody :: "u32 \<Rightarrow> bytes \<Rightarrow> bytes" where
  "BuildH264FlvSequenceHeaderTagBody timestamp_ms data =
     (if length data > kFlvMaxBodySize - 5 then []
      else
        let body_size = 5 + word_of_nat (length data);
            tag = AppendU8 [] 9;
            tag = AppendU24 tag body_size;
            tag = AppendFlvTimestamp tag timestamp_ms;
            tag = AppendU24 tag 0;
            tag = AppendU8 tag (push_bit 4 1 OR kFlvCodecIdAvc);
            tag = AppendU8 tag kFlvPacketTypeSequenceStart;
            tag = AppendU24 tag 0;
            tag = tag @ data
        in AppendU32 tag (body_size + 11))"

definition BuildH264FlvSequenceHeaderTag :: "bytes \<Rightarrow> bytes \<Rightarrow> u32 \<Rightarrow> bytes" where
  "BuildH264FlvSequenceHeaderTag sps pps timestamp_ms =
     (case BuildH264AvccRecord sps pps of
        None \<Rightarrow> [] | Some record \<Rightarrow> BuildH264FlvSequenceHeaderTagBody timestamp_ms record)"

text \<open>The loop over the units of \<open>BuildH264FlvVideoTag\<close>; \<open>nal_index\<close> counts the units written.\<close>

fun FlvNalLoop :: "NalUnit list \<Rightarrow> nat \<Rightarrow> FlvVideoTagBuild \<Rightarrow> FlvVideoTagBuild \<times> bool" where
  "FlvNalLoop [] nal_index tag = (tag, True)"
| "FlvNalLoop (unit # us) nal_index tag =
     (if \<not> IsH264FlvVideoNal unit then FlvNalLoop us nal_index tag
      else if nal_index \<ge> kMaxNalUnitsPerFrame then (tag, False)
      else case WriteNalLengthPrefix (bv_size (unit_view unit)) of
        None \<Rightarrow> (tag, False)
      | Some prefix \<Rightarrow>
          let tag = tag\<lparr>tag_nal_lengths := (tag_nal_lengths tag)[nal_index := prefix]\<rparr>;
              (tag, ok) = AddHeader tag prefix
          in if \<not> ok then (tag, False)
             else case AddPayload tag (unit_view unit) of
               (tag, ok) \<Rightarrow> if \<not> ok then (tag, False) else FlvNalLoop us (nal_index + 1) tag)"

definition BuildH264FlvVideoTag ::
  "bool \<Rightarrow> 32 word \<Rightarrow> u32 \<Rightarrow> H264NalUnitList \<Rightarrow> FlvVideoTagBuild \<times> bool" where
  "BuildH264FlvVideoTag keyframe composition_time_ms timestamp_ms l =
     (let tag = empty_tag; payload_size = H264FlvVideoPayloadSize l in
      if payload_size = 0 \<or> payload_size > kFlvMaxBodySize - 5 then (tag, False)
      else
        let body_size = 5 + word_of_nat payload_size;
            header = (tag_header tag)[0 := 9];
            header = WriteU24Bytes body_size header 1;
            header = WriteU24Bytes (timestamp_ms AND 0x00ffffff) header 4;
            header = header[7 := ucast (drop_bit 24 timestamp_ms AND 0xff)];
            header = WriteU24Bytes 0 header 8;
            header = header[11 := push_bit 4 (if keyframe then 1 else 2) OR kFlvCodecIdAvc];
            header = header[12 := kFlvPacketTypeCodedFrames];
            header = WriteU24Bytes (composition_time_ms AND 0x00ffffff) header 13;
            (tag, ok) = AddHeader (tag\<lparr>tag_header := header\<rparr>) (take 16 header)
        in if \<not> ok then (tag, False)
           else case FlvNalLoop (units l) 0 tag of
             (tag, ok) \<Rightarrow>
               if \<not> ok then (tag, False)
               else
                 let tag = tag\<lparr>tag_previous_tag_size :=
                              WriteU32Bytes (body_size + 11) (tag_previous_tag_size tag) 0\<rparr>;
                     (tag, ok) = AddHeader tag (tag_previous_tag_size tag)
                 in if \<not> ok then (tag, False) else (tag\<lparr>tag_timestamp_ms := timestamp_ms\<rparr>, True))"

definition BuildFileHeader :: bytes where
  "BuildFileHeader =
     (let header = [0x46, 0x4c, 0x56];
          header = AppendU8 header 1;
          header = AppendU8 header 1;
          header = AppendU32 header 9
      in AppendU32 header 0)"

definition BuildSequenceHeader :: "Codec \<Rightarrow> bytes \<Rightarrow> bytes \<Rightarrow> bytes \<Rightarrow> u32 \<Rightarrow> bytes" where
  "BuildSequenceHeader cdc vps sps pps timestamp_ms =
     (if cdc = CodecH264
      then if sps = [] \<or> pps = [] then [] else BuildH264FlvSequenceHeaderTag sps pps timestamp_ms
      else [])"

record FramePayload =
  fp_frame :: MediaFrame
  fp_has_nal_units :: bool
  fp_h264_units :: H264NalUnitList
  fp_h265_units :: H265NalUnitList

definition empty_frame_payload :: FramePayload where
  "empty_frame_payload = \<lparr>fp_frame = empty_media_frame, fp_has_nal_units = False, fp_h264_units = empty_units,
     fp_h265_units = empty_units\<rparr>"

definition BuildVideoTagView :: "MediaFrame \<Rightarrow> FramePayload \<Rightarrow> bool \<Rightarrow> (FlvVideoTagBuild \<times> bool) option" where
  "BuildVideoTagView frame fp keyframe =
     (if codec frame \<noteq> codec (fp_frame fp) then None
      else
        let composition_time_ms = trunc_div (pts_us frame - dts_us frame) 1000;
            timestamp_ms = word_of_int (trunc_div (dts_us frame) 1000)
        in if codec frame = CodecH264
           then Some (BuildH264FlvVideoTag keyframe (word_of_int composition_time_ms) timestamp_ms (fp_h264_units fp))
           else None)"

section \<open>The video tag on the wire\<close>

definition tag_bytes :: "FlvVideoTagBuild \<Rightarrow> bytes" where
  "tag_bytes tag = concat (map sl_bytes (tag_slices tag))"

abbreviation video_units :: "NalUnit list \<Rightarrow> NalUnit list" where
  "video_units us \<equiv> filter IsH264FlvVideoNal us"

definition unit_slices :: "NalUnit \<Rightarrow> data_slice list" where
  "unit_slices u =
     [\<lparr>sl_addr = None, sl_bytes = be32 (word_of_nat (bv_size (unit_view u))), sl_media = False\<rparr>,
      \<lparr>sl_addr = Some (bv_addr (unit_view u)), sl_bytes = bv_bytes (unit_view u), sl_media = True\<rparr>]"

definition video_size :: "NalUnit list \<Rightarrow> nat" where
  "video_size us = sum_list (map (\<lambda>u. 4 + bv_size (unit_view u)) (video_units us))"

lemma FlvPayloadSizeLoop_eq:
  "acc \<le> SIZE_MAX \<Longrightarrow> FlvPayloadSizeLoop us acc = (acc + video_size us) mod (SIZE_MAX + 1)"
proof (induction us acc rule: FlvPayloadSizeLoop.induct)
  case (2 u us acc)
  have "size_t_add acc (size_t_add 4 n) = (acc + 4 + n) mod (SIZE_MAX + 1)" for n
    by (simp add: size_t_add_def mod_simps add.assoc)
  moreover have "m mod (SIZE_MAX + 1) \<le> SIZE_MAX" for m :: nat
    using mod_less_divisor [of "SIZE_MAX + 1" m] by linarith
  ultimately show ?case
    using 2 by (simp add: video_size_def mod_simps algebra_simps)
qed (simp add: video_size_def)

lemma FlvTag_Add_True:
  assumes "FlvTag_Add tag addr data media = (tag', True)" and "data \<noteq> []"
  shows "tag' = tag\<lparr>tag_slices := tag_slices tag @ [\<lparr>sl_addr = addr, sl_bytes = data, sl_media = media\<rparr>],
                     tag_total_size := tag_total_size tag + length data\<rparr>"
    and "tag_total_size tag \<le> SIZE_MAX \<Longrightarrow> tag_total_size tag' \<le> SIZE_MAX"
  using assms by (auto simp: FlvTag_Add_def split: if_splits)

lemma WriteNalLengthPrefix_SomeD:
  assumes "WriteNalLengthPrefix n = Some prefix"
  shows "n \<le> UINT32_MAX" and "prefix = be32 (word_of_nat n)"
proof -
  show n: "n \<le> UINT32_MAX" using assms by (simp add: WriteNalLengthPrefix_def split: if_splits)
  show "prefix = be32 (word_of_nat n)" using assms WriteNalLengthPrefix_be32 [OF n] by simp
qed

lemma video_unit_not_Nil: "IsH264FlvVideoNal u \<Longrightarrow> bv_bytes (unit_view u) \<noteq> []"
  by (auto simp: IsH264FlvVideoNal_def bv_size_def)

text \<open>When the loop succeeds it has appended the slices of all video units, and the total fits.\<close>

definition tag_extends :: "NalUnit list \<Rightarrow> FlvVideoTagBuild \<Rightarrow> FlvVideoTagBuild \<Rightarrow> bool" where
  "tag_extends us tag tag' \<longleftrightarrow>
     tag_slices tag' = tag_slices tag @ concat (map unit_slices (video_units us))
     \<and> tag_total_size tag' = tag_total_size tag + video_size us
     \<and> (tag_total_size tag \<le> SIZE_MAX \<longrightarrow> tag_total_size tag' \<le> SIZE_MAX)
     \<and> tag_header tag' = tag_header tag \<and> tag_previous_tag_size tag' = tag_previous_tag_size tag
     \<and> list_all (\<lambda>u. nal_sized (bv_bytes (unit_view u))) (video_units us)"

lemma FlvNalLoop_sound: "FlvNalLoop us i tag = (tag', True) \<Longrightarrow> tag_extends us tag tag'"
proof (induction us i tag arbitrary: tag' rule: FlvNalLoop.induct)
  case (1 i tag)
  then show ?case by (simp add: tag_extends_def video_size_def)
next
  case (2 u us i tag)
  show ?case
  proof (cases "IsH264FlvVideoNal u")
    case False
    with 2(1) 2(3) show ?thesis by (auto simp: tag_extends_def video_size_def)
  next
    case True
    with 2(3) obtain prefix where i: "\<not> kMaxNalUnitsPerFrame \<le> i"
      and pre: "WriteNalLengthPrefix (bv_size (unit_view u)) = Some prefix"
      by (auto split: if_splits option.splits)
    define tag0 where "tag0 = tag\<lparr>tag_nal_lengths := (tag_nal_lengths tag)[i := prefix]\<rparr>"
    obtain tag1 ok1 where a1: "AddHeader tag0 prefix = (tag1, ok1)" by fastforce
    obtain tag2 ok2 where a2: "AddPayload tag1 (unit_view u) = (tag2, ok2)" by fastforce
    from 2(3) True i pre a1 a2 have ok: "ok1" "ok2" and rest: "FlvNalLoop us (i + 1) tag2 = (tag', True)"
      by (auto simp: tag0_def [symmetric] Let_def split: if_splits)
    note p = WriteNalLengthPrefix_SomeD [OF pre]
    have ne: "prefix \<noteq> []" "bv_bytes (unit_view u) \<noteq> []" using p True by (auto simp: video_unit_not_Nil)
    note t1 = FlvTag_Add_True [OF a1 [unfolded AddHeader_def ok(1) [THEN eqTrueI]] ne(1)]
    note t2 = FlvTag_Add_True [OF a2 [unfolded AddPayload_def ok(2) [THEN eqTrueI]] ne(2)]
    have "tag_extends us tag2 tag'"
      using 2(2) [OF _ _ pre tag0_def a1 [symmetric] _ _ a2 [symmetric]] True i ok rest by auto
    then show ?thesis
      using True p ne t1 t2
      by (auto simp: tag_extends_def tag0_def unit_slices_def video_size_def nal_sized_def bv_size_def)
  qed
qed

lemma FlvTag_Add_ok:
  assumes "length (tag_slices tag) < kMaxFlvVideoTagSlices" and "tag_total_size tag + length data \<le> SIZE_MAX"
  shows "snd (FlvTag_Add tag addr data media)"
    and "tag_total_size (fst (FlvTag_Add tag addr data media)) = tag_total_size tag + length data"
    and "length (tag_slices (fst (FlvTag_Add tag addr data media))) \<le> Suc (length (tag_slices tag))"
  using assms by (auto simp: FlvTag_Add_def)

lemma FlvNalLoop_complete:
  "\<lbrakk>i + length (video_units us) \<le> kMaxNalUnitsPerFrame;
    length (tag_slices tag) + 2 * length (video_units us) \<le> kMaxFlvVideoTagSlices;
    tag_total_size tag + video_size us \<le> SIZE_MAX\<rbrakk> \<Longrightarrow> snd (FlvNalLoop us i tag)"
proof (induction us i tag rule: FlvNalLoop.induct)
  case (2 u us i tag)
  show ?case
  proof (cases "IsH264FlvVideoNal u")
    case False
    with 2 show ?thesis by (simp add: video_size_def)
  next
    case True
    with 2(5) have size: "bv_size (unit_view u) \<le> UINT32_MAX" by (simp add: video_size_def)
    define prefix where "prefix = be32 (word_of_nat (bv_size (unit_view u)))"
    have pre: "WriteNalLengthPrefix (bv_size (unit_view u)) = Some prefix"
      unfolding prefix_def using size by (rule WriteNalLengthPrefix_be32)
    define tag0 where "tag0 = tag\<lparr>tag_nal_lengths := (tag_nal_lengths tag)[i := prefix]\<rparr>"
    obtain tag1 ok1 where a1: "AddHeader tag0 prefix = (tag1, ok1)" by fastforce
    obtain tag2 ok2 where a2: "AddPayload tag1 (unit_view u) = (tag2, ok2)" by fastforce
    have l: "length prefix = 4" by (simp add: prefix_def)
    have t1: "ok1" "tag_total_size tag1 = tag_total_size tag + 4"
        "length (tag_slices tag1) \<le> Suc (length (tag_slices tag))"
      using FlvTag_Add_ok [of tag0 prefix None False] a1 2(4,5) True l
      by (auto simp: AddHeader_def tag0_def video_size_def)
    have t2: "ok2" "tag_total_size tag2 = tag_total_size tag1 + bv_size (unit_view u)"
        "length (tag_slices tag2) \<le> Suc (length (tag_slices tag1))"
      using FlvTag_Add_ok [of tag1 "bv_bytes (unit_view u)" "Some (bv_addr (unit_view u))" True] a2 2(4,5) True t1
      by (auto simp: AddPayload_def bv_size_def video_size_def)
    have "snd (FlvNalLoop us (i + 1) tag2)"
      using 2(2) [OF _ _ pre tag0_def a1 [symmetric] _ _ a2 [symmetric]] 2(3-5) True t1 t2
      by (auto simp: video_size_def)
    moreover have "\<not> kMaxNalUnitsPerFrame \<le> i" using 2(3) True by simp
    ultimately show ?thesis using True pre a1 a2 t1(1) t2(1) by (simp add: tag0_def Let_def)
  qed
qed simp

section \<open>Reading a tag back\<close>

record FlvTag =
  ft_type :: u8
  ft_timestamp :: nat
  ft_frame :: u8
  ft_packet_type :: u8
  ft_composition :: nat
  ft_data :: bytes

text \<open>
  A reader of one FLV tag with an AVC video body and the size field behind it; it returns the
  tag and the rest of the stream.
\<close>

definition parse_flv_tag :: "bytes \<Rightarrow> (FlvTag \<times> bytes) option" where
  "parse_flv_tag bs =
     (if length bs < 16 then None
      else let n = be_value (take 3 (drop 1 bs)) in
        if n < 5 \<or> length bs < 15 + n \<or> be_value (take 4 (drop (11 + n) bs)) \<noteq> n + 11 then None
        else Some (\<lparr>ft_type = bs ! 0,
                    ft_timestamp = be_value (drop 7 (take 8 bs) @ take 3 (drop 4 bs)),
                    ft_frame = bs ! 11, ft_packet_type = bs ! 12,
                    ft_composition = be_value (take 3 (drop 13 bs)),
                    ft_data = take (n - 5) (drop 16 bs)\<rparr>, drop (15 + n) bs))"

definition flv_wire :: "nat \<Rightarrow> u32 \<Rightarrow> u8 \<Rightarrow> u8 \<Rightarrow> u32 \<Rightarrow> bytes \<Rightarrow> bytes" where
  "flv_wire body_size timestamp frame packet composition data =
     [9] @ be24 (word_of_nat body_size) @ be24 timestamp @ [ucast (drop_bit 24 timestamp)] @ be24 0
     @ [frame, packet] @ be24 composition @ data @ be32 (word_of_nat (body_size + 11))"

lemma be_value_timestamp: "be_value (ucast (drop_bit 24 t) # be24 t) = unat t"
  using be_value_be32 [of t] by (simp add: be32_def be24_def)

lemma parse_flv_wire:
  assumes "length data \<le> kFlvMaxBodySize - 5"
  shows "parse_flv_tag (flv_wire (5 + length data) t f p c data @ rest) =
    Some (\<lparr>ft_type = 9, ft_timestamp = unat t, ft_frame = f, ft_packet_type = p,
           ft_composition = unat c mod 2 ^ 24, ft_data = data\<rparr>, rest)"
proof -
  let ?n = "5 + length data"
  let ?bs = "flv_wire ?n t f p c data @ rest"
  have len: "length data < 16777211" using assms by (simp add: kFlvMaxBodySize_def)
  have n: "be_value (be24 (word_of_nat ?n)) = ?n"
    using len by (simp only: be_value_be24 unat_of_nat) simp
  have prev: "be_value (be32 (word_of_nat (?n + 11))) = ?n + 11"
    using len by (simp only: be_value_be32 unat_of_nat) simp
  obtain b1 b2 b3 where b: "be24 (word_of_nat ?n) = [b1, b2, b3]" by (simp add: be24_def)
  obtain t1 t2 t3 where tt: "be24 t = [t1, t2, t3]" by (simp add: be24_def)
  obtain c1 c2 c3 where cc: "be24 c = [c1, c2, c3]" by (simp add: be24_def)
  define H where "H = [9, b1, b2, b3, t1, t2, t3, ucast (drop_bit 24 t), 0, 0, 0, f, p, c1, c2, c3]"
  have H: "length H = 16" by (simp add: H_def)
  have bs: "?bs = H @ data @ be32 (word_of_nat (?n + 11)) @ rest"
    unfolding flv_wire_def b tt cc H_def by (simp add: be24_def)
  have field1: "take 3 (drop 1 ?bs) = be24 (word_of_nat ?n)" unfolding bs b H_def by simp
  have field2: "drop (11 + ?n) ?bs = be32 (word_of_nat (?n + 11)) @ rest" unfolding bs by (simp add: H)
  have field3: "drop 7 (take 8 ?bs) @ take 3 (drop 4 ?bs) = ucast (drop_bit 24 t) # be24 t"
    unfolding bs tt H_def by simp
  have field4: "take 3 (drop 13 ?bs) = be24 c" unfolding bs cc H_def by simp
  have field5: "take (?n - 5) (drop 16 ?bs) = data" "drop (15 + ?n) ?bs = rest"
      "length ?bs = 20 + length data + length rest"
    unfolding bs by (simp_all add: H)
  have field6: "?bs ! 0 = 9" "?bs ! 11 = f" "?bs ! 12 = p" unfolding bs H_def by simp_all
  show ?thesis
    unfolding parse_flv_tag_def field1 field2 field3 field4 field5 field6 n Let_def
    by (simp only: be_value_timestamp be_value_be24 take_app_len length_be prev) simp
qed

lemma be24_low [simp]: "be24 (v AND 16777215) = be24 v"
proof -
  have "v AND 16777215 = take_bit 24 v" by (simp add: take_bit_eq_mask mask_eq_exp_minus_1)
  moreover have "be24 (take_bit 24 v) = be24 v"
    unfolding be24_def list.inject
    by (intro conjI bit_word_eqI refl) (auto simp: bit_simps)
  ultimately show ?thesis by simp
qed

definition flv_frame_byte :: "bool \<Rightarrow> u8" where
  "flv_frame_byte keyframe = (if keyframe then 0x17 else 0x27)"

lemma flv_frame_byte: "push_bit 4 (if keyframe then 1 else 2) OR kFlvCodecIdAvc = flv_frame_byte keyframe"
  by (simp add: flv_frame_byte_def kFlvCodecIdAvc_def)

text \<open>The tag header written by \<open>BuildH264FlvVideoTag\<close>.\<close>

definition flv_header :: "bool \<Rightarrow> u32 \<Rightarrow> u32 \<Rightarrow> u32 \<Rightarrow> bytes" where
  "flv_header keyframe body_size timestamp composition =
     [9] @ be24 body_size @ be24 timestamp @ [ucast (drop_bit 24 timestamp)] @ be24 0
     @ [flv_frame_byte keyframe, 1] @ be24 composition"

lemma length_flv_header [simp]: "length (flv_header k b t c) = 16"
  by (simp add: flv_header_def)

lemma flv_header_writes:
  "take 16 (WriteU24Bytes (composition AND 0xffffff) ((WriteU24Bytes 0 ((WriteU24Bytes (timestamp AND 0xffffff)
      (WriteU24Bytes body_size ((replicate 24 0)[0 := 9]) 1) 4)[7 := ucast (drop_bit 24 timestamp AND 0xff)])
      8)[11 := push_bit 4 (if keyframe then 1 else 2) OR kFlvCodecIdAvc, 12 := kFlvPacketTypeCodedFrames]) 13)
   = flv_header keyframe body_size timestamp composition"
proof -
  have z: "replicate 24 (0 :: u8) = [0, 0, 0, 0, 0, 0, 0, 0, 0, 0, 0, 0, 0, 0, 0, 0, 0, 0, 0, 0, 0, 0, 0, 0]"
    by (simp add: numeral_eq_Suc)
  have w: "WriteU24Bytes v target off = target[off := ucast (drop_bit 16 v), off + 1 := ucast (drop_bit 8 v),
      off + 2 := ucast v]" for v target off
    by (simp add: WriteU24Bytes_def)
  have low: "[ucast (drop_bit 16 (v AND 16777215)), ucast (drop_bit 8 (v AND 16777215)), ucast (v AND 16777215)]
      = [ucast (drop_bit 16 v), ucast (drop_bit 8 v), ucast v :: u8]" for v :: u32
    using be24_low [of v] by (simp add: be24_def)
  then have l: "(ucast (drop_bit 16 (v AND 16777215)) :: u8) = ucast (drop_bit 16 v)"
      "(ucast (drop_bit 8 (v AND 16777215)) :: u8) = ucast (drop_bit 8 v)"
      "(ucast (v AND 16777215) :: u8) = ucast v" for v :: u32
    by simp_all
  show ?thesis
    unfolding flv_frame_byte z w flv_header_def be24_def
    by (simp only: l) (simp add: kFlvPacketTypeCodedFrames_def)
qed

definition video_nals :: "H264NalUnitList \<Rightarrow> bytes list" where
  "video_nals l = map (\<lambda>u. bv_bytes (unit_view u)) (video_units (units l))"

lemma concat_unit_slices:
  "concat (map sl_bytes (concat (map unit_slices us)))
     = concat (map (\<lambda>n. be32 (word_of_nat (length n)) @ n) (map (\<lambda>u. bv_bytes (unit_view u)) us))"
  by (induction us) (simp_all add: unit_slices_def bv_size_def)

lemma length_video_nals:
  "length (concat (map (\<lambda>n. be32 (word_of_nat (length n)) @ n) (video_nals l))) = video_size (units l)"
  by (simp add: video_nals_def video_size_def length_concat comp_def bv_size_def)

definition header_slice :: "bytes \<Rightarrow> data_slice" where
  "header_slice data = \<lparr>sl_addr = None, sl_bytes = data, sl_media = False\<rparr>"

text \<open>The tag before the units are added: the header is its only slice.\<close>

lemma AddHeader_first:
  "AddHeader (empty_tag\<lparr>tag_header := h\<rparr>) (flv_header k b t c) =
     (empty_tag\<lparr>tag_header := h, tag_slices := [header_slice (flv_header k b t c)], tag_total_size := 16\<rparr>, True)"
  by (simp add: AddHeader_def FlvTag_Add_def empty_tag_def kMaxFlvVideoTagSlices_def header_slice_def
      flv_header_def)

lemma WriteU32Bytes_replicate: "WriteU32Bytes v (replicate 4 0) 0 = be32 v"
  by (simp add: WriteU32Bytes_def be32_def numeral_eq_Suc)

lemma BuildH264FlvVideoTag_unfold:
  obtains h where
  "BuildH264FlvVideoTag keyframe c t l =
     (if H264FlvVideoPayloadSize l = 0 \<or> H264FlvVideoPayloadSize l > kFlvMaxBodySize - 5 then (empty_tag, False)
      else
        let b = 5 + word_of_nat (H264FlvVideoPayloadSize l);
            tag0 = empty_tag\<lparr>tag_header := h, tag_slices := [header_slice (flv_header keyframe b t c)],
                     tag_total_size := 16\<rparr>
        in case FlvNalLoop (units l) 0 tag0 of
             (tag, ok) \<Rightarrow>
               if \<not> ok then (tag, False)
               else
                 let tag = tag\<lparr>tag_previous_tag_size := WriteU32Bytes (b + 11) (tag_previous_tag_size tag) 0\<rparr>;
                     (tag, ok) = AddHeader tag (tag_previous_tag_size tag)
                 in if \<not> ok then (tag, False) else (tag\<lparr>tag_timestamp_ms := t\<rparr>, True))"
proof -
  have e: "tag_header empty_tag = replicate 24 0" by (simp add: empty_tag_def)
  show ?thesis
    by (rule that, unfold BuildH264FlvVideoTag_def Let_def e flv_header_writes AddHeader_first prod.case
        not_True_eq_False if_False)
      (rule refl)
qed

lemma BuildH264FlvVideoTag_sound:
  assumes "BuildH264FlvVideoTag keyframe c t l = (tag, True)"
  defines "n \<equiv> video_size (units l)"
  shows "0 < n" and "n \<le> kFlvMaxBodySize - 5"
    and "tag_slices tag = header_slice (flv_header keyframe (word_of_nat (5 + n)) t c)
           # concat (map unit_slices (video_units (units l))) @ [header_slice (be32 (word_of_nat (5 + n + 11)))]"
    and "tag_total_size tag = 20 + n" and "tag_timestamp_ms tag = t" and "list_all nal_sized (video_nals l)"
proof -
  let ?m = "H264FlvVideoPayloadSize l"
  obtain h where unfold: "BuildH264FlvVideoTag keyframe c t l =
     (if ?m = 0 \<or> ?m > kFlvMaxBodySize - 5 then (empty_tag, False)
      else
        let b = 5 + word_of_nat ?m;
            tag0 = empty_tag\<lparr>tag_header := h, tag_slices := [header_slice (flv_header keyframe b t c)],
                     tag_total_size := 16\<rparr>
        in case FlvNalLoop (units l) 0 tag0 of
             (tag, ok) \<Rightarrow>
               if \<not> ok then (tag, False)
               else
                 let tag = tag\<lparr>tag_previous_tag_size := WriteU32Bytes (b + 11) (tag_previous_tag_size tag) 0\<rparr>;
                     (tag, ok) = AddHeader tag (tag_previous_tag_size tag)
                 in if \<not> ok then (tag, False) else (tag\<lparr>tag_timestamp_ms := t\<rparr>, True))"
    by (rule BuildH264FlvVideoTag_unfold)
  define b :: u32 where "b = 5 + word_of_nat ?m"
  define tag0 where "tag0 = empty_tag\<lparr>tag_header := h, tag_slices := [header_slice (flv_header keyframe b t c)],
                       tag_total_size := 16\<rparr>"
  have m: "?m = n mod (SIZE_MAX + 1)"
    by (simp add: H264FlvVideoPayloadSize_def FlvPayloadSizeLoop_eq n_def)
  from assms(1) unfold have size: "?m \<noteq> 0" "?m \<le> kFlvMaxBodySize - 5" by (auto split: if_splits)
  obtain tag1 ok1 where loop: "FlvNalLoop (units l) 0 tag0 = (tag1, ok1)" by fastforce
  from assms(1) unfold size loop have ok1: "ok1"
    by (auto simp: Let_def b_def [symmetric] tag0_def [symmetric] split: if_splits)
  from FlvNalLoop_sound [OF loop [unfolded ok1 [THEN eqTrueI]]]
  have ext: "tag_extends (units l) tag0 tag1" .
  have prev1: "tag_previous_tag_size tag1 = replicate 4 0"
    using ext by (simp add: tag_extends_def tag0_def empty_tag_def)
  define tag2 where "tag2 = tag1\<lparr>tag_previous_tag_size := be32 (b + 11)\<rparr>"
  have prev2: "tag_previous_tag_size tag2 = be32 (b + 11)" by (simp add: tag2_def)
  obtain tag3 ok3 where add: "AddHeader tag2 (be32 (b + 11)) = (tag3, ok3)" by fastforce
  from assms(1) unfold size loop ok1 add have ok3: "ok3" and tag: "tag = tag3\<lparr>tag_timestamp_ms := t\<rparr>"
    by (auto simp: Let_def b_def [symmetric] tag0_def [symmetric] prev1 WriteU32Bytes_replicate
        tag2_def [symmetric] prev2 split: if_splits)
  note t3 = FlvTag_Add_True [OF add [unfolded AddHeader_def ok3 [THEN eqTrueI]]]
  have "tag_total_size tag1 \<le> SIZE_MAX" "tag_total_size tag1 = 16 + n"
    using ext by (simp_all add: tag_extends_def tag0_def n_def)
  then have nm: "?m = n" unfolding m by simp
  with size show "0 < n" "n \<le> kFlvMaxBodySize - 5" by simp_all
  have b: "b = word_of_nat (5 + n)" "b + 11 = word_of_nat (5 + n + 11)" by (simp_all add: b_def nm)
  show "tag_slices tag = header_slice (flv_header keyframe (word_of_nat (5 + n)) t c)
      # concat (map unit_slices (video_units (units l))) @ [header_slice (be32 (word_of_nat (5 + n + 11)))]"
    using ext t3(1) unfolding tag b [symmetric]
    by (simp add: tag_extends_def tag0_def tag2_def header_slice_def)
  show "tag_total_size tag = 20 + n" "tag_timestamp_ms tag = t" "list_all nal_sized (video_nals l)"
    using ext t3(1) unfolding tag
    by (simp_all add: tag_extends_def tag0_def tag2_def n_def video_nals_def list_all_iff)
qed

text \<open>Conversely, nothing stops the construction when the units fit.\<close>

abbreviation first_tag :: "bytes \<Rightarrow> bytes \<Rightarrow> FlvVideoTagBuild" where
  "first_tag h header \<equiv> empty_tag\<lparr>tag_header := h, tag_slices := [header_slice header], tag_total_size := 16\<rparr>"

lemma previous_size_fits:
  assumes "tag_extends us (first_tag h header) tag" and "length (video_units us) \<le> kMaxNalUnitsPerFrame"
    and "video_size us \<le> SIZE_MAX - 20"
  shows "snd (AddHeader (tag\<lparr>tag_previous_tag_size := p\<rparr>) (be32 v))"
proof -
  have "length (concat (map unit_slices us)) = 2 * length us" for us
    by (induction us) (simp_all add: unit_slices_def)
  with assms(1,2) have "length (tag_slices tag) \<le> 1 + 2 * kMaxNalUnitsPerFrame"
    and "tag_total_size tag = 16 + video_size us"
    by (simp_all add: tag_extends_def)
  then show ?thesis
    using assms(3) by (auto simp: AddHeader_def FlvTag_Add_def kMaxFlvVideoTagSlices_def)
qed

lemma BuildH264FlvVideoTag_complete:
  assumes "length (units l) \<le> kMaxNalUnitsPerFrame" and "video_units (units l) \<noteq> []"
    and "5 + video_size (units l) \<le> kFlvMaxBodySize"
  shows "snd (BuildH264FlvVideoTag keyframe c t l)"
proof -
  let ?n = "video_size (units l)"
  have "0 < ?n" using assms(2) by (cases "video_units (units l)") (simp_all add: video_size_def)
  with assms(3) have n: "0 < ?n" "?n \<le> kFlvMaxBodySize - 5" "?n \<le> SIZE_MAX - 20"
    by (simp_all add: kFlvMaxBodySize_def)
  have vle: "length (video_units (units l)) \<le> kMaxNalUnitsPerFrame"
    using assms(1) length_filter_le [of IsH264FlvVideoNal "units l"] by linarith
  have m: "H264FlvVideoPayloadSize l = ?n"
    using n(3) by (simp add: H264FlvVideoPayloadSize_def FlvPayloadSizeLoop_eq)
  define b :: u32 where "b = 5 + word_of_nat ?n"
  let ?h = "flv_header keyframe b t c"
  show ?thesis
  proof (rule BuildH264FlvVideoTag_unfold [of keyframe c t l])
    fix h
    have "snd (FlvNalLoop (units l) 0 (first_tag h ?h))"
      using vle n(3) by (intro FlvNalLoop_complete) (simp_all add: kMaxFlvVideoTagSlices_def)
    then obtain tag where loop: "FlvNalLoop (units l) 0 (first_tag h ?h) = (tag, True)"
      by (metis (full_types) prod.collapse)
    note ext = FlvNalLoop_sound [OF loop]
    then have prev: "tag_previous_tag_size tag = replicate 4 0"
      by (simp add: tag_extends_def empty_tag_def)
    assume "BuildH264FlvVideoTag keyframe c t l =
     (if H264FlvVideoPayloadSize l = 0 \<or> H264FlvVideoPayloadSize l > kFlvMaxBodySize - 5 then (empty_tag, False)
      else
        let b = 5 + word_of_nat (H264FlvVideoPayloadSize l);
            tag0 = first_tag h (flv_header keyframe b t c)
        in case FlvNalLoop (units l) 0 tag0 of
             (tag, ok) \<Rightarrow>
               if \<not> ok then (tag, False)
               else
                 let tag = tag\<lparr>tag_previous_tag_size := WriteU32Bytes (b + 11) (tag_previous_tag_size tag) 0\<rparr>;
                     (tag, ok) = AddHeader tag (tag_previous_tag_size tag)
                 in if \<not> ok then (tag, False) else (tag\<lparr>tag_timestamp_ms := t\<rparr>, True))"
    moreover obtain tag' where
      "AddHeader (tag\<lparr>tag_previous_tag_size := be32 (b + 11)\<rparr>) (be32 (b + 11)) = (tag', True)"
      using previous_size_fits [OF ext vle n(3)] by (metis (full_types) prod.collapse)
    ultimately show ?thesis
      using n(1,2) loop by (simp add: m Let_def b_def [symmetric] prev WriteU32Bytes_replicate)
  qed
qed

definition sample_flv_units :: H264NalUnitList where
  "sample_flv_units = \<lparr>units =
     [\<lparr>unit_view = \<lparr>bv_addr = 4, bv_bytes = [0x67, 0x42]\<rparr>, unit_type = 7\<rparr>,
      \<lparr>unit_view = \<lparr>bv_addr = 10, bv_bytes = [0x65, 0x88, 0x84]\<rparr>, unit_type = 5\<rparr>], overflow = False\<rparr>"

lemma sample_flv_tag: "snd (BuildH264FlvVideoTag True 40 70000 sample_flv_units)"
proof (rule BuildH264FlvVideoTag_complete)
  show "length (units sample_flv_units) \<le> kMaxNalUnitsPerFrame" "video_units (units sample_flv_units) \<noteq> []"
    by code_simp+
  have "video_size (units sample_flv_units) = 7" by code_simp
  then show "5 + video_size (units sample_flv_units) \<le> kFlvMaxBodySize" by (simp add: kFlvMaxBodySize_def)
qed



text \<open>
  For a unit list as the parser builds it (at most 64 units, all of one payload), a video tag
  is built exactly when the frame has at least one picture NAL unit and the tag body fits the 24-bit
  size field of FLV.
\<close>

lemma flv_video_tag_accepted:
  assumes "length (units l) \<le> kMaxNalUnitsPerFrame" and "video_size (units l) \<le> SIZE_MAX - 20"
  shows "snd (BuildH264FlvVideoTag keyframe c t l) \<longleftrightarrow>
     video_units (units l) \<noteq> [] \<and> 5 + video_size (units l) \<le> kFlvMaxBodySize"
proof
  assume "snd (BuildH264FlvVideoTag keyframe c t l)"
  then obtain tag where "BuildH264FlvVideoTag keyframe c t l = (tag, True)"
    by (metis (full_types) prod.collapse)
  from BuildH264FlvVideoTag_sound(1,2) [OF this]
  show "video_units (units l) \<noteq> [] \<and> 5 + video_size (units l) \<le> kFlvMaxBodySize"
    by (auto simp: video_size_def kFlvMaxBodySize_def)
next
  assume "video_units (units l) \<noteq> [] \<and> 5 + video_size (units l) \<le> kFlvMaxBodySize"
  with assms show "snd (BuildH264FlvVideoTag keyframe c t l)"
    by (intro BuildH264FlvVideoTag_complete) simp_all
qed

section \<open>The sequence header\<close>

lemma SequenceHeaderTagBody_wire:
  assumes "length data \<le> kFlvMaxBodySize - 5"
  shows "BuildH264FlvSequenceHeaderTagBody t data = flv_wire (5 + length data) t 0x17 0 0 data"
  using assms
  by (simp add: BuildH264FlvSequenceHeaderTagBody_def AppendFlvTimestamp_def Let_def wire_simps flv_wire_def
      kFlvCodecIdAvc_def kFlvPacketTypeSequenceStart_def)

text \<open>
  The sequence header of an H.264 stream whose parameter sets fit 16-bit lengths is one FLV tag
  of packet type 0 carrying the \<open>avcC\<close> record, from which a player recovers SPS and PPS; without
  parameter sets, or for another codec, nothing is written.
\<close>

lemma flv_sequence_header_roundtrip:
  "if cdc = CodecH264 \<and> sps \<noteq> [] \<and> pps \<noteq> [] \<and> length sps \<le> UINT16_MAX \<and> length pps \<le> UINT16_MAX
   then \<exists>rec. parse_flv_tag (BuildSequenceHeader cdc vps sps pps t @ rest) =
          Some (\<lparr>ft_type = 9, ft_timestamp = unat t, ft_frame = 0x17, ft_packet_type = 0, ft_composition = 0,
                 ft_data = rec\<rparr>, rest)
        \<and> avcc_parse rec = Some (byte_or sps 1 0x64, byte_or sps 2 0, byte_or sps 3 0x1f, sps, pps)
   else BuildSequenceHeader cdc vps sps pps t = []"
proof (cases "cdc = CodecH264 \<and> sps \<noteq> [] \<and> pps \<noteq> [] \<and> length sps \<le> UINT16_MAX \<and> length pps \<le> UINT16_MAX")
  case True
  then obtain rec where r: "BuildH264AvccRecord sps pps = Some rec"
      "avcc_parse rec = Some (byte_or sps 1 0x64, byte_or sps 2 0, byte_or sps 3 0x1f, sps, pps)"
      "length rec \<le> kFlvMaxBodySize - 5"
    using avcc_parse_layout [of sps pps] by (auto simp: BuildH264AvccRecord_eq kFlvMaxBodySize_def)
  with True have "BuildSequenceHeader cdc vps sps pps t = flv_wire (5 + length rec) t 0x17 0 0 rec"
    by (simp add: BuildSequenceHeader_def BuildH264FlvSequenceHeaderTag_def SequenceHeaderTagBody_wire)
  with True r parse_flv_wire [of rec t "0x17" 0 0 rest] show ?thesis by simp
next
  case False
  then show ?thesis
    by (auto simp: BuildSequenceHeader_def BuildH264FlvSequenceHeaderTag_def BuildH264AvccRecord_def)
qed

end
