(* ===== verification/Gop_Cache.thy ===== *)
theory Gop_Cache
  imports Flv_Muxer
begin

text \<open>
  \<open>libs/media/src/gop_cache.{h,cpp}\<close>: the FLV tags since the last keyframe, kept in a ring of 128
  entries so that a new HTTP-FLV client can start on a keyframe. The ring is a list of 128
  entries addressed modulo its length, as in the code.
\<close>

section \<open>Cached tags\<close>

definition kMaxMediaFlvVideoTagSlices :: nat where "kMaxMediaFlvVideoTagSlices = 130"
definition kMaxMediaFlvHeaderSliceBytes :: nat where "kMaxMediaFlvHeaderSliceBytes = 24"
definition kMaxMediaFlvCachedVideoTags :: nat where "kMaxMediaFlvCachedVideoTags = 128"

text \<open>A header slice is copied into the entry, a media slice is an address inside the frame's payload.\<close>

record MediaFlvCachedVideoTagSlice =
  cs_media_data :: "nat option"
  cs_header_data :: bytes
  cs_size :: nat
  cs_media_payload :: bool

record MediaFlvCachedVideoTag =
  ct_frame :: MediaFrame
  ct_slices :: "MediaFlvCachedVideoTagSlice list"
  ct_total_size :: nat
  ct_timestamp_ms :: u32

definition empty_cached_tag :: MediaFlvCachedVideoTag where
  "empty_cached_tag = \<lparr>ct_frame = empty_media_frame, ct_slices = [], ct_total_size = 0, ct_timestamp_ms = 0\<rparr>"

text \<open>The body of the loop of \<open>CopyFlvTagView\<close>: one source slice becomes one cached slice.\<close>

definition CopySlice :: "MediaFrame \<Rightarrow> data_slice \<Rightarrow> MediaFlvCachedVideoTagSlice option" where
  "CopySlice frame source_slice =
     (if length (sl_bytes source_slice) = 0 then None
      else if sl_media source_slice then
        (case (MediaFramePayloadData frame, sl_addr source_slice) of
           (Some p, Some source_addr) \<Rightarrow>
             let payload_addr = bv_addr p; payload_offset = source_addr - payload_addr in
             if source_addr < payload_addr \<or> payload_offset > PayloadSize frame
                \<or> length (sl_bytes source_slice) > PayloadSize frame - payload_offset
             then None
             else Some \<lparr>cs_media_data = Some source_addr, cs_header_data = replicate kMaxMediaFlvHeaderSliceBytes 0,
                        cs_size = length (sl_bytes source_slice), cs_media_payload = True\<rparr>
         | _ \<Rightarrow> None)
      else if length (sl_bytes source_slice) > kMaxMediaFlvHeaderSliceBytes then None
      else Some \<lparr>cs_media_data = None,
                 cs_header_data = sl_bytes source_slice
                   @ replicate (kMaxMediaFlvHeaderSliceBytes - length (sl_bytes source_slice)) 0,
                 cs_size = length (sl_bytes source_slice), cs_media_payload = False\<rparr>)"

fun CopySlices :: "MediaFrame \<Rightarrow> data_slice list \<Rightarrow> MediaFlvCachedVideoTagSlice list option" where
  "CopySlices frame [] = Some []"
| "CopySlices frame (s # ss) =
     (case CopySlice frame s of
        None \<Rightarrow> None
      | Some c \<Rightarrow> (case CopySlices frame ss of None \<Rightarrow> None | Some cs \<Rightarrow> Some (c # cs)))"

definition CopyFlvTagView :: "MediaFrame \<Rightarrow> FlvVideoTagBuild \<Rightarrow> MediaFlvCachedVideoTag option" where
  "CopyFlvTagView frame source =
     (if \<not> IsMediaFramePayloadValid frame \<or> length (tag_slices source) = 0
         \<or> length (tag_slices source) > kMaxMediaFlvVideoTagSlices then None
      else case CopySlices frame (tag_slices source) of
        None \<Rightarrow> None
      | Some cs \<Rightarrow> Some \<lparr>ct_frame = frame, ct_slices = cs, ct_total_size = tag_total_size source,
                       ct_timestamp_ms = tag_timestamp_ms source\<rparr>)"

section \<open>The cache\<close>

record GopCache =
  gc_frames :: "MediaFlvCachedVideoTag list"
  gc_max_flv_cached_tags :: nat
  gc_max_flv_cached_bytes :: nat
  gc_head :: nat
  gc_size :: nat
  gc_bytes :: nat
  gc_drop_size :: nat
  gc_complete :: bool

definition new_GopCache :: GopCache where
  "new_GopCache = \<lparr>gc_frames = replicate kMaxMediaFlvCachedVideoTags empty_cached_tag,
     gc_max_flv_cached_tags = 128, gc_max_flv_cached_bytes = 4 * 1024 * 1024, gc_head = 0, gc_size = 0,
     gc_bytes = 0, gc_drop_size = 0, gc_complete = False\<rparr>"

fun ClearLoop :: "nat \<Rightarrow> nat \<Rightarrow> MediaFlvCachedVideoTag list \<Rightarrow> MediaFlvCachedVideoTag list" where
  "ClearLoop head 0 frames = frames"
| "ClearLoop head (Suc n) frames =
     (ClearLoop head n frames)[(head + n) mod length frames := empty_cached_tag]"

definition GopCache_Clear :: "GopCache \<Rightarrow> GopCache" where
  "GopCache_Clear c =
     c\<lparr>gc_frames := ClearLoop (gc_head c) (min (gc_size c) (length (gc_frames c))) (gc_frames c),
       gc_head := 0, gc_size := 0, gc_bytes := 0, gc_complete := False\<rparr>"

definition GopCache_Configure :: "nat \<Rightarrow> nat \<Rightarrow> GopCache \<Rightarrow> GopCache" where
  "GopCache_Configure max_tags max_bytes c =
     c\<lparr>gc_max_flv_cached_tags := max_tags, gc_max_flv_cached_bytes := max_bytes, gc_drop_size := 0\<rparr>"

definition FirstFlvTagSize :: "GopCache \<Rightarrow> nat" where
  "FirstFlvTagSize c =
     (if \<not> gc_complete c \<or> gc_size c = 0 then 0
      else ct_total_size (gc_frames c ! gc_head c) mod 2 ^ 32)"

definition AppendFlvTag :: "MediaFrame \<Rightarrow> bool \<Rightarrow> FlvVideoTagBuild \<Rightarrow> GopCache \<Rightarrow> GopCache \<times> bool" where
  "AppendFlvTag frame keyframe flv_tag_view c =
     (let c = (if keyframe then (GopCache_Clear c)\<lparr>gc_complete := True\<rparr> else c) in
      if gc_size c = 0 \<and> \<not> keyframe then (c, True)
      else
        let max_flv_cached_tags = min (gc_max_flv_cached_tags c) (length (gc_frames c));
            tag_bytes = min (tag_total_size flv_tag_view) UINT32_MAX
        in if max_flv_cached_tags = 0 \<or> gc_size c \<ge> max_flv_cached_tags
              \<or> tag_total_size flv_tag_view > gc_max_flv_cached_bytes c
              \<or> gc_bytes c > u32_sub (gc_max_flv_cached_bytes c) tag_bytes
           then (GopCache_Clear (c\<lparr>gc_drop_size := gc_drop_size c + 1\<rparr>), False)
           else case CopyFlvTagView frame flv_tag_view of
             None \<Rightarrow> (GopCache_Clear c, False)
           | Some tag \<Rightarrow>
               let index = (gc_head c + gc_size c) mod length (gc_frames c) in
               (c\<lparr>gc_frames := (gc_frames c)[index := tag], gc_bytes := u32_add (gc_bytes c) tag_bytes,
                  gc_size := gc_size c + 1\<rparr>, True))"

fun CopyToLoop :: "GopCache \<Rightarrow> nat \<Rightarrow> MediaFlvCachedVideoTag list" where
  "CopyToLoop c 0 = []"
| "CopyToLoop c (Suc i) =
     CopyToLoop c i
     @ (let tag = gc_frames c ! ((gc_head c + i) mod length (gc_frames c))
        in if length (ct_slices tag) = 0 then [] else [tag])"

definition GopCache_CopyTo :: "GopCache \<Rightarrow> MediaFlvCachedVideoTag list" where
  "GopCache_CopyTo c = (if \<not> gc_complete c then [] else CopyToLoop c (gc_size c))"

section \<open>Invariant and abstraction\<close>

definition gop_tags :: "GopCache \<Rightarrow> MediaFlvCachedVideoTag list" where
  "gop_tags c = ring_list (gc_frames c) (gc_head c) (gc_size c)"

definition gop_inv :: "GopCache \<Rightarrow> bool" where
  "gop_inv c \<longleftrightarrow> length (gc_frames c) = kMaxMediaFlvCachedVideoTags \<and> gc_head c < kMaxMediaFlvCachedVideoTags
     \<and> gc_size c \<le> min (gc_max_flv_cached_tags c) kMaxMediaFlvCachedVideoTags
     \<and> gc_bytes c = sum_list (map ct_total_size (gop_tags c))
     \<and> gc_bytes c \<le> gc_max_flv_cached_bytes c \<and> gc_max_flv_cached_bytes c \<le> UINT32_MAX
     \<and> (gc_complete c \<longleftrightarrow> gc_size c \<noteq> 0) \<and> list_all (\<lambda>t. ct_slices t \<noteq> []) (gop_tags c)"

lemma length_ClearLoop [simp]: "length (ClearLoop head n frames) = length frames"
  by (induction n) simp_all

lemma length_gop_tags [simp]: "length (gop_tags c) = gc_size c"
  by (simp add: gop_tags_def)

lemma gop_inv_Clear: "gop_inv c \<Longrightarrow> gop_inv (GopCache_Clear c) \<and> gop_tags (GopCache_Clear c) = []"
  by (simp add: gop_inv_def GopCache_Clear_def gop_tags_def kMaxMediaFlvCachedVideoTags_def)

lemma gop_inv_new: "gop_inv new_GopCache" and gop_tags_new: "gop_tags new_GopCache = []"
  by (simp_all add: gop_inv_def new_GopCache_def gop_tags_def kMaxMediaFlvCachedVideoTags_def)

text \<open>Writing behind the last entry appends to the sequence of tags.\<close>

lemma gop_tags_push:
  assumes "gc_size c < length (gc_frames c)"
  shows "gop_tags (c\<lparr>gc_frames := (gc_frames c)[(gc_head c + gc_size c) mod length (gc_frames c) := tag],
                     gc_bytes := b, gc_size := gc_size c + 1\<rparr>) = gop_tags c @ [tag]"
  using ring_list_push [OF assms, of "gc_head c" tag] by (simp add: gop_tags_def)

lemma CopyFlvTagView_Some:
  "CopyFlvTagView frame source = Some tag \<Longrightarrow>
     ct_slices tag \<noteq> [] \<and> ct_total_size tag = tag_total_size source \<and> ct_frame tag = frame"
  by (auto simp: CopyFlvTagView_def split: if_splits option.splits elim: CopySlices.elims)

section \<open>Refinement of a list of tags\<close>

type_synonym gop_event = "MediaFrame \<times> bool \<times> FlvVideoTagBuild"

text \<open>
  The contract of \<open>AppendFlvTag\<close> on the sequence of cached tags: a keyframe starts afresh, other
  frames extend a started sequence, and a tag that does not fit empties the cache.
\<close>

definition gop_spec ::
  "nat \<Rightarrow> nat \<Rightarrow> gop_event \<Rightarrow> MediaFlvCachedVideoTag list \<Rightarrow> MediaFlvCachedVideoTag list \<times> bool" where
  "gop_spec max_tags max_bytes e tags =
     (case e of (frame, keyframe, t) \<Rightarrow>
        let base = (if keyframe then [] else tags) in
        if base = [] \<and> \<not> keyframe then ([], True)
        else if length base < min max_tags kMaxMediaFlvCachedVideoTags
             \<and> sum_list (map ct_total_size base) + tag_total_size t \<le> max_bytes
        then (case CopyFlvTagView frame t of None \<Rightarrow> ([], False) | Some tag \<Rightarrow> (base @ [tag], True))
        else ([], False))"

lemma gop_size_zero: "gc_size c = 0 \<longleftrightarrow> gop_tags c = []"
  by (metis length_gop_tags length_0_conv)

text \<open>Everything after the treatment of a keyframe, on a cache that satisfies the invariant up to \<open>complete\<close>.\<close>

lemma append_started:
  assumes inv: "gop_inv (c\<lparr>gc_complete := b\<rparr>)" and started: "gc_complete c"
    and fit: "gc_size c < min (gc_max_flv_cached_tags c) kMaxMediaFlvCachedVideoTags"
      "gc_bytes c + tag_total_size t \<le> gc_max_flv_cached_bytes c"
    and copy: "CopyFlvTagView frame t = Some tag"
  defines "c' \<equiv> c\<lparr>gc_frames := (gc_frames c)[(gc_head c + gc_size c) mod length (gc_frames c) := tag],
                  gc_bytes := u32_add (gc_bytes c) (min (tag_total_size t) UINT32_MAX), gc_size := gc_size c + 1\<rparr>"
  shows "gop_inv c'" and "gop_tags c' = gop_tags c @ [tag]"
proof -
  have len: "gc_size c < length (gc_frames c)" using inv fit(1) by (simp add: gop_inv_def)
  then show tags: "gop_tags c' = gop_tags c @ [tag]" unfolding c'_def by (rule gop_tags_push)
  have "gop_tags (c\<lparr>gc_complete := b\<rparr>) = gop_tags c" by (simp add: gop_tags_def)
  with inv fit have bytes: "gc_bytes c' = gc_bytes c + tag_total_size t"
    by (simp add: c'_def gop_inv_def u32_add_exact)
  show "gop_inv c'"
    using inv fit started bytes tags CopyFlvTagView_Some [OF copy]
      \<open>gop_tags (c\<lparr>gc_complete := b\<rparr>) = gop_tags c\<close>
    unfolding gop_inv_def by (simp add: c'_def)
qed

lemma Clear_after_reset:
  assumes "gop_inv (c\<lparr>gc_complete := b\<rparr>)"
  shows "gop_inv (GopCache_Clear c)" and "gop_tags (GopCache_Clear c) = []"
    and "gop_inv (GopCache_Clear (c\<lparr>gc_drop_size := k\<rparr>))" and "gop_tags (GopCache_Clear (c\<lparr>gc_drop_size := k\<rparr>)) = []"
  using assms by (simp_all add: gop_inv_def GopCache_Clear_def gop_tags_def kMaxMediaFlvCachedVideoTags_def)

text \<open>The two byte tests of the code are one comparison without wrap-around.\<close>

lemma gop_bytes_full:
  assumes "bytes \<le> max_bytes" and "max_bytes \<le> UINT32_MAX"
  shows "max_bytes < sz \<or> u32_sub max_bytes (min sz UINT32_MAX) < bytes \<longleftrightarrow> \<not> bytes + sz \<le> max_bytes"
  using assms by (cases "sz \<le> max_bytes") (auto simp: u32_sub_exact)

lemma AppendFlvTag_spec:
  assumes inv: "gop_inv c" and app: "AppendFlvTag frame keyframe t c = (c', ok)"
  shows "gop_inv c'
     \<and> (gop_tags c', ok) = gop_spec (gc_max_flv_cached_tags c) (gc_max_flv_cached_bytes c) (frame, keyframe, t) (gop_tags c)"
proof -
  define d where "d = (if keyframe then (GopCache_Clear c)\<lparr>gc_complete := True\<rparr> else c)"
  have opt: "gc_max_flv_cached_tags d = gc_max_flv_cached_tags c" "gc_max_flv_cached_bytes d = gc_max_flv_cached_bytes c"
    by (simp_all add: d_def GopCache_Clear_def)
  have tags: "gop_tags d = (if keyframe then [] else gop_tags c)"
    using gop_inv_Clear [OF inv] by (simp add: d_def gop_tags_def)
  obtain b where dinv: "gop_inv (d\<lparr>gc_complete := b\<rparr>)"
    using inv gop_inv_Clear [OF inv] that [of "gc_complete c"] that [of False]
    by (cases keyframe) (auto simp: d_def gop_inv_def gop_tags_def GopCache_Clear_def)
  have dtags: "gop_tags (d\<lparr>gc_complete := b\<rparr>) = gop_tags d" by (simp add: gop_tags_def)
  from dinv have bytes: "gc_bytes d = sum_list (map ct_total_size (gop_tags d))"
      "length (gc_frames d) = kMaxMediaFlvCachedVideoTags"
      "gc_bytes d \<le> gc_max_flv_cached_bytes d" "gc_max_flv_cached_bytes d \<le> UINT32_MAX"
    by (auto simp: gop_inv_def dtags)
  have started: "gc_complete d" if "keyframe \<or> gop_tags c \<noteq> []"
    using that inv gop_size_zero [of c] by (auto simp: d_def gop_inv_def)
  show ?thesis
  proof (cases "gop_tags d = [] \<and> \<not> keyframe")
    case True
    with tags have nk: "\<not> keyframe" "gop_tags c = []" by auto
    then have "gc_size c = 0" by (simp add: gop_size_zero)
    with nk app have "c' = c \<and> ok" by (simp add: AppendFlvTag_def)
    with nk inv show ?thesis by (simp add: gop_spec_def)
  next
    case False
    let ?fit = "gc_size d < min (gc_max_flv_cached_tags d) kMaxMediaFlvCachedVideoTags
        \<and> gc_bytes d + tag_total_size t \<le> gc_max_flv_cached_bytes d"
    from False have app': "(c', ok) = (if \<not> ?fit then (GopCache_Clear (d\<lparr>gc_drop_size := gc_drop_size d + 1\<rparr>), False)
        else case CopyFlvTagView frame t of None \<Rightarrow> (GopCache_Clear d, False)
          | Some tag \<Rightarrow> (d\<lparr>gc_frames := (gc_frames d)[(gc_head d + gc_size d) mod length (gc_frames d) := tag],
                gc_bytes := u32_add (gc_bytes d) (min (tag_total_size t) UINT32_MAX), gc_size := gc_size d + 1\<rparr>, True))"
      using app gop_size_zero [of d] gop_bytes_full [OF bytes(3,4), of "tag_total_size t"] bytes(2)
      unfolding AppendFlvTag_def Let_def d_def [symmetric] by (auto split: if_splits)
    have spec: "gop_spec (gc_max_flv_cached_tags c) (gc_max_flv_cached_bytes c) (frame, keyframe, t) (gop_tags c) =
        (if \<not> ?fit then ([], False)
         else case CopyFlvTagView frame t of None \<Rightarrow> ([], False) | Some tag \<Rightarrow> (gop_tags d @ [tag], True))"
      unfolding gop_spec_def prod.case Let_def tags [symmetric] if_not_P [OF False]
      by (auto simp: bytes(1) opt)
    show ?thesis
    proof (cases "?fit \<and> CopyFlvTagView frame t \<noteq> None")
      case True
      then obtain tag where copy: "CopyFlvTagView frame t = Some tag" by auto
      have "gc_complete d" using False tags started by (auto split: if_splits)
      from append_started [OF dinv this _ _ copy] True copy app' spec show ?thesis by simp
    next
      case no_fit: False
      with app' spec Clear_after_reset [OF dinv] show ?thesis by (auto split: option.splits)
    qed
  qed
qed

lemma AppendFlvTag_options:
  "AppendFlvTag frame keyframe t c = (c', ok) \<Longrightarrow>
     gc_max_flv_cached_tags c' = gc_max_flv_cached_tags c \<and> gc_max_flv_cached_bytes c' = gc_max_flv_cached_bytes c"
  by (auto simp: AppendFlvTag_def Let_def GopCache_Clear_def split: if_splits option.splits)

text \<open>
  Claim C12. \<open>AppendFlvTag\<close> implements its contract on the sequence of cached tags: a keyframe starts the
  sequence afresh, another frame extends a started sequence, a tag beyond the configured number of
  tags or bytes (or one that cannot be copied) empties it, and the byte counter, the completeness flag
  and the limits stay consistent. The ring arithmetic and the 32-bit counters never lose an entry.
\<close>

theorem gop_append_refines:
  assumes "gop_inv c"
  shows "case AppendFlvTag frame keyframe t c of (c', ok) \<Rightarrow>
     gop_inv c' \<and> (gop_tags c', ok)
       = gop_spec (gc_max_flv_cached_tags c) (gc_max_flv_cached_bytes c) (frame, keyframe, t) (gop_tags c)"
  using AppendFlvTag_spec [OF assms] by (auto split: prod.split)

definition sample_frame :: MediaFrame where
  "sample_frame = \<lparr>stream_id = StreamMain, codec = CodecH264, frame_type = FrameIdr, frame_sequence = 1,
     width = 1920, height = 1080, pts_us = 0, dts_us = 0, duration_us = 40000,
     payload = Some \<lparr>bv_addr = 100, bv_bytes = [0, 0, 1, 0x65, 0x88]\<rparr>\<rparr>"

definition sample_tag :: FlvVideoTagBuild where
  "sample_tag = empty_tag\<lparr>tag_slices := [header_slice [9, 0, 0, 2],
     \<lparr>sl_addr = Some 103, sl_bytes = [0x65, 0x88], sl_media = True\<rparr>], tag_total_size := 6\<rparr>"

lemma sample_tag_copied: "\<exists>tag. CopyFlvTagView sample_frame sample_tag = Some tag"
  by (simp add: CopyFlvTagView_def sample_tag_def sample_frame_def CopySlice_def header_slice_def PayloadSize_def
      MediaFramePayloadData_def IsMediaFramePayloadValid_def bv_size_def kMaxMediaFlvVideoTagSlices_def
      kMaxMediaFlvHeaderSliceBytes_def Let_def)

theorem gop_append_refines_witness:
  "\<exists>tag. CopyFlvTagView sample_frame sample_tag = Some tag
     \<and> gop_tags (fst (AppendFlvTag sample_frame True sample_tag new_GopCache)) = [tag]"
proof -
  obtain tag where copy: "CopyFlvTagView sample_frame sample_tag = Some tag" using sample_tag_copied ..
  obtain c' ok where app: "AppendFlvTag sample_frame True sample_tag new_GopCache = (c', ok)" by fastforce
  from gop_append_refines [OF gop_inv_new, of sample_frame True sample_tag] copy app
  have "gop_tags c' = [tag]"
    by (simp add: gop_spec_def new_GopCache_def kMaxMediaFlvCachedVideoTags_def sample_tag_def)
  with copy app show ?thesis by auto
qed

section \<open>The cache holds the current group of pictures\<close>

fun append_all :: "gop_event list \<Rightarrow> GopCache \<Rightarrow> GopCache" where
  "append_all [] c = c"
| "append_all ((frame, keyframe, t) # es) c = append_all es (fst (AppendFlvTag frame keyframe t c))"

text \<open>The events from the last keyframe on.\<close>

fun last_gop :: "gop_event list \<Rightarrow> gop_event list" where
  "last_gop [] = []"
| "last_gop (e # es) =
     (if list_ex (\<lambda>(frame, keyframe, t). keyframe) es then last_gop es
      else if fst (snd e) then e # es else last_gop es)"

lemma last_gop_snoc:
  "last_gop (es @ [e]) = (if fst (snd e) then [e] else if last_gop es = [] then [] else last_gop es @ [e])"
proof (induction es)
  case Nil
  then show ?case by (cases e) auto
next
  case (Cons a es)
  have none: "last_gop es = []" if "\<not> list_ex (\<lambda>(frame, keyframe, t). keyframe) es" for es
    using that by (induction es) (auto split: prod.splits)
  have some: "last_gop es \<noteq> []" if "list_ex (\<lambda>(frame, keyframe, t). keyframe) es" for es
    using that by (induction es) (auto split: prod.splits)
  show ?case using Cons none [of es] some [of es] by (auto split: prod.splits)
qed

definition cached_event :: "gop_event \<Rightarrow> MediaFlvCachedVideoTag option" where
  "cached_event e = (case e of (frame, keyframe, t) \<Rightarrow> CopyFlvTagView frame t)"

definition holds_last_gop :: "gop_event list \<Rightarrow> GopCache \<Rightarrow> bool" where
  "holds_last_gop es c \<longleftrightarrow> gop_inv c \<and> (gop_tags c \<noteq> [] \<longrightarrow> map Some (gop_tags c) = map cached_event (last_gop es))"

lemma append_holds:
  assumes "holds_last_gop es c"
  shows "holds_last_gop (es @ [e]) (append_all [e] c)"
proof -
  obtain frame keyframe t where e: "e = (frame, keyframe, t)" by (metis prod.exhaust)
  obtain c' ok where app: "AppendFlvTag frame keyframe t c = (c', ok)" by fastforce
  from assms have inv: "gop_inv c" by (simp add: holds_last_gop_def)
  note spec = AppendFlvTag_spec [OF inv app]
  have gop: "last_gop es \<noteq> []" if "gop_tags c \<noteq> []"
    using assms that by (auto simp: holds_last_gop_def)
  have "map Some (gop_tags c') = map cached_event (last_gop (es @ [e]))" if "gop_tags c' \<noteq> []"
    using that spec assms gop
    by (auto simp: gop_spec_def Let_def last_gop_snoc e holds_last_gop_def cached_event_def
        split: if_splits option.splits)
  with spec app show ?thesis by (simp add: holds_last_gop_def e)
qed

lemma append_all_append: "append_all (es @ fs) c = append_all fs (append_all es c)"
  by (induction es c rule: append_all.induct) auto

lemma append_all_holds: "holds_last_gop es (append_all es new_GopCache)"
proof (induction es rule: rev_induct)
  case Nil
  then show ?case by (simp add: holds_last_gop_def gop_inv_new gop_tags_new)
next
  case (snoc e es)
  then show ?case unfolding append_all_append by (rule append_holds)
qed

lemma CopyToLoop_eq: "CopyToLoop c n = filter (\<lambda>t. ct_slices t \<noteq> [])
    (map (\<lambda>i. gc_frames c ! ((gc_head c + i) mod length (gc_frames c))) [0..<n])"
  by (induction n) (simp_all add: Let_def)

lemma GopCache_CopyTo_tags: "gop_inv c \<Longrightarrow> GopCache_CopyTo c = gop_tags c"
proof -
  have "CopyToLoop c (gc_size c) = filter (\<lambda>t. ct_slices t \<noteq> []) (gop_tags c)"
    by (simp only: CopyToLoop_eq gop_tags_def ring_list_def)
  then show "gop_inv c \<Longrightarrow> GopCache_CopyTo c = gop_tags c"
    using gop_size_zero [of c] by (auto simp: GopCache_CopyTo_def gop_inv_def list_all_iff)
qed

text \<open>
  Claim C34. Whatever sequence of frames was pushed, a new client is given either nothing or exactly the
  tags of all frames from the last keyframe on, in order and starting with that keyframe; so it
  never starts on a picture that cannot be decoded.
\<close>

theorem gop_cache_is_last_gop:
  "let c = append_all es new_GopCache in
     GopCache_CopyTo c = [] \<or> map Some (GopCache_CopyTo c) = map cached_event (last_gop es)
       \<and> fst (snd (hd (last_gop es)))"
proof -
  have key: "fst (snd (hd (last_gop es)))" if "last_gop es \<noteq> []"
    using that by (induction es rule: rev_induct) (auto simp: last_gop_snoc split: if_splits)
  show ?thesis
    using append_all_holds [of es] key by (cases "last_gop es = []") (auto simp:
        holds_last_gop_def GopCache_CopyTo_tags Let_def)
qed

section \<open>A cached tag is a faithful copy\<close>

text \<open>
  What a client reads from a cached tag: header bytes from the entry, media bytes from memory, where
  the payload of the frame it holds still is.
\<close>

definition cached_slice_bytes :: "byte_view \<Rightarrow> MediaFlvCachedVideoTagSlice \<Rightarrow> bytes" where
  "cached_slice_bytes p s =
     (case cs_media_data s of
        Some a \<Rightarrow> take (cs_size s) (drop (a - bv_addr p) (bv_bytes p))
      | None \<Rightarrow> take (cs_size s) (cs_header_data s))"

definition cached_tag_bytes :: "byte_view \<Rightarrow> MediaFlvCachedVideoTag \<Rightarrow> bytes" where
  "cached_tag_bytes p tag = concat (map (cached_slice_bytes p) (ct_slices tag))"

definition slice_in_payload :: "byte_view \<Rightarrow> MediaFlvCachedVideoTagSlice \<Rightarrow> bool" where
  "slice_in_payload p s =
     (case cs_media_data s of
        Some a \<Rightarrow> cs_media_payload s \<and> bv_addr p \<le> a \<and> a + cs_size s \<le> bv_addr p + bv_size p
      | None \<Rightarrow> \<not> cs_media_payload s \<and> cs_size s \<le> kMaxMediaFlvHeaderSliceBytes)"

text \<open>A media slice of a tag describes the memory of the payload \<open>p\<close> wherever it lies inside it.\<close>

definition slice_reads :: "byte_view \<Rightarrow> data_slice \<Rightarrow> bool" where
  "slice_reads p s \<longleftrightarrow> sl_media s \<longrightarrow>
     (\<forall>a. sl_addr s = Some a \<and> bv_addr p \<le> a \<and> a + length (sl_bytes s) \<le> bv_addr p + bv_size p \<longrightarrow>
        sl_bytes s = take (length (sl_bytes s)) (drop (a - bv_addr p) (bv_bytes p)))"

lemma CopySlice_Some:
  assumes "CopySlice frame s = Some c" and "payload frame = Some p"
  shows "slice_in_payload p c" and "slice_reads p s \<Longrightarrow> cached_slice_bytes p c = sl_bytes s"
  using assms
  by (auto simp: CopySlice_def slice_in_payload_def slice_reads_def cached_slice_bytes_def PayloadSize_def
      MediaFramePayloadData_Some Let_def split: if_splits option.splits)

lemma CopySlices_Some:
  assumes "payload frame = Some p"
  shows "CopySlices frame ss = Some cs \<Longrightarrow> list_all (slice_in_payload p) cs
     \<and> (list_all (slice_reads p) ss \<longrightarrow> concat (map (cached_slice_bytes p) cs) = concat (map sl_bytes ss))"
proof (induction ss arbitrary: cs)
  case (Cons s ss)
  then obtain c ds where c: "CopySlice frame s = Some c" "CopySlices frame ss = Some ds" "cs = c # ds"
    by (auto split: option.splits)
  with Cons.IH [of ds] CopySlice_Some [OF c(1) assms] show ?case by simp
qed simp

text \<open>
  A cached tag never refers to memory outside the payload of the frame it keeps alive: every media
  slice lies within it and every header slice within the 24 bytes copied. Read from the cache, the
  tag has the same bytes as the tag that was cached.
\<close>

lemma gop_cached_tag_faithful:
  assumes "CopyFlvTagView frame source = Some tag" and "payload frame = Some p"
  shows "ct_frame tag = frame \<and> list_all (slice_in_payload p) (ct_slices tag)
     \<and> (list_all (slice_reads p) (tag_slices source) \<longrightarrow> cached_tag_bytes p tag = tag_bytes source)"
  using assms CopySlices_Some [OF assms(2), of "tag_slices source"]
  by (auto simp: CopyFlvTagView_def cached_tag_bytes_def tag_bytes_def split: if_splits option.splits)

text \<open>
  With fixed limits the cache never holds more than the configured number of tags or bytes (at most
  128 tags), and its byte counter is the sum of the sizes of the tags it holds.
\<close>

lemma gop_cache_bounds:
  assumes "max_bytes \<le> UINT32_MAX"
  shows "let c = append_all es (GopCache_Configure max_tags max_bytes new_GopCache) in
     gc_size c \<le> max_tags \<and> gc_size c \<le> 128 \<and> gc_bytes c = sum_list (map ct_total_size (GopCache_CopyTo c))
     \<and> gc_bytes c \<le> max_bytes"
proof -
  define c0 where "c0 = GopCache_Configure max_tags max_bytes new_GopCache"
  have "gop_inv c0 \<and> gc_max_flv_cached_tags c0 = max_tags \<and> gc_max_flv_cached_bytes c0 = max_bytes"
    using assms gop_inv_new by (simp add: c0_def gop_inv_def GopCache_Configure_def gop_tags_def new_GopCache_def)
  then have "gop_inv (append_all es c0) \<and> gc_max_flv_cached_tags (append_all es c0) = max_tags
      \<and> gc_max_flv_cached_bytes (append_all es c0) = max_bytes"
  proof (induction es c0 rule: append_all.induct)
    case (2 frame keyframe t es c)
    obtain c' ok where app: "AppendFlvTag frame keyframe t c = (c', ok)" by fastforce
    with 2 AppendFlvTag_spec [OF _ app] AppendFlvTag_options [OF app] show ?case by simp
  qed simp
  then show ?thesis
    unfolding c0_def [symmetric] Let_def
    by (simp add: GopCache_CopyTo_tags) (simp add: gop_inv_def kMaxMediaFlvCachedVideoTags_def)
qed

end
