(* ===== verification/Multi_Reader_Queue.thy ===== *)
theory Multi_Reader_Queue
  imports Stream_Prelude
begin

text \<open>
  \<open>libs/event/include/multi_reader_queue.h\<close>: a bounded ring written by one producer and read by
  any number of readers that each remember a sequence number. The template parameter \<open>Value\<close> is a
  type variable, its default \<open>Value{}\<close> the argument \<open>dflt\<close>; \<open>kCapacity\<close> is the length of the arrays.
\<close>

section \<open>Interface\<close>

text \<open>
  What a reader relies on: the queue holds a run of consecutively numbered values, reading returns
  the value of a number in that run, and pushing gives the new value the next number and can only
  forget values from the front.
\<close>

locale sequenced_log =
  fixes inv :: "'q \<Rightarrow> bool" and items :: "'q \<Rightarrow> 'v list" and first_no next_no :: "'q \<Rightarrow> nat"
    and push :: "'v \<Rightarrow> nat \<Rightarrow> 'q \<Rightarrow> 'q" and read :: "nat \<Rightarrow> 'q \<Rightarrow> 'v option"
  assumes span: "inv q \<Longrightarrow> next_no q = first_no q + length (items q)"
    and read_item: "inv q \<Longrightarrow> read s q =
          (if first_no q \<le> s \<and> s < next_no q then Some (items q ! (s - first_no q)) else None)"
    and push_inv: "inv q \<Longrightarrow> inv (push v b q)"
    and push_next: "inv q \<Longrightarrow> next_no (push v b q) = Suc (next_no q)"
    and push_items: "inv q \<Longrightarrow> \<exists>k. items (push v b q) = drop k (items q @ [v])"
begin

lemma push_first:
  assumes "inv q"
  shows "first_no q \<le> first_no (push v b q)"
    and "items (push v b q) = drop (first_no (push v b q) - first_no q) (items q @ [v])"
proof -
  obtain k where k: "items (push v b q) = drop k (items q @ [v])" using push_items [OF assms] by blast
  let ?n = "length (items q @ [v])"
  have len: "length (items (push v b q)) = ?n - k" by (simp add: k)
  have "first_no (push v b q) + (?n - k) = first_no q + ?n"
    using span [OF push_inv [OF assms], of v b] span [OF assms] push_next [OF assms, of v b] len by simp
  then have "first_no (push v b q) = first_no q + min k ?n" by simp
  then show "first_no q \<le> first_no (push v b q)"
    "items (push v b q) = drop (first_no (push v b q) - first_no q) (items q @ [v])"
    using k by (cases "k \<le> ?n"; simp)+
qed

text \<open>Values that carry their own number keep carrying it.\<close>

definition numbered :: "('v \<Rightarrow> nat) \<Rightarrow> 'q \<Rightarrow> bool" where
  "numbered num q \<longleftrightarrow> (\<forall>i < length (items q). num (items q ! i) = first_no q + i)"

lemma push_numbered:
  assumes "inv q" and "numbered num q" and "num v = next_no q"
  shows "numbered num (push v b q)"
proof -
  let ?q = "push v b q"
  note pf = push_first [OF assms(1), of v b]
  have all: "num ((items q @ [v]) ! j) = first_no q + j" if "j < length (items q @ [v])" for j
    using that assms(2,3) span [OF assms(1)] by (auto simp: numbered_def nth_append)
  have "num (items ?q ! i) = first_no ?q + i" if i: "i < length (items ?q)" for i
  proof -
    have "length (items ?q) = length (items q @ [v]) - (first_no ?q - first_no q)"
      using pf(2) by (metis length_drop)
    with i have j: "first_no ?q - first_no q + i < length (items q @ [v])" by linarith
    have "items ?q ! i = (items q @ [v]) ! (first_no ?q - first_no q + i)"
      by (subst pf(2), rule nth_drop) (use j in linarith)
    then show ?thesis using all [OF j] pf(1) by simp
  qed
  then show ?thesis by (simp add: numbered_def)
qed

text \<open>A push never changes what a later read of an earlier number can return.\<close>

lemma read_push:
  assumes "inv q" and "read s (push v b q) = Some w"
  shows "if s = next_no q then w = v else read s q = Some w"
proof -
  let ?q = "push v b q"
  have s: "first_no ?q \<le> s" "s < next_no ?q" and w: "w = items ?q ! (s - first_no ?q)"
    using assms(2) read_item [OF push_inv [OF assms(1)], of s v b] by (auto split: if_splits)
  note pf = push_first [OF assms(1), of v b]
  have "w = (items q @ [v]) ! (s - first_no q)"
  proof -
    have "s - first_no ?q < length (items ?q)" using s span [OF push_inv [OF assms(1)], of v b] by simp
    then have "first_no ?q - first_no q + (s - first_no ?q) < length (items q @ [v])"
      using pf(2) by (metis length_drop less_diff_conv add.commute)
    then have "drop (first_no ?q - first_no q) (items q @ [v]) ! (s - first_no ?q)
        = (items q @ [v]) ! (first_no ?q - first_no q + (s - first_no ?q))"
      by (intro nth_drop) linarith
    then show ?thesis unfolding w by (subst pf(2)) (use s pf(1) in simp)
  qed
  moreover have "s \<le> next_no q" using s push_next [OF assms(1), of v b] by simp
  ultimately show ?thesis
    using s pf(1) span [OF assms(1)] read_item [OF assms(1), of s] by (auto simp: nth_append)
qed

end

section \<open>The queue\<close>

record 'v MultiReaderQueue =
  q_values :: "'v list"
  q_value_bytes :: "nat list"
  q_head :: nat
  q_size :: nat
  q_bytes :: nat
  q_max_items :: nat
  q_max_bytes :: nat
  q_first_sequence :: nat
  q_next_sequence :: nat
  q_evicted_size :: nat

definition new_queue :: "'v \<Rightarrow> nat \<Rightarrow> 'v MultiReaderQueue" where
  "new_queue dflt capacity =
     \<lparr>q_values = replicate capacity dflt, q_value_bytes = replicate capacity 0, q_head = 0, q_size = 0,
      q_bytes = 0, q_max_items = capacity mod 2 ^ 32, q_max_bytes = UINT32_MAX, q_first_sequence = 1,
      q_next_sequence = 1, q_evicted_size = 0\<rparr>"

definition Queue_Configure :: "nat \<Rightarrow> nat \<Rightarrow> 'v MultiReaderQueue \<Rightarrow> 'v MultiReaderQueue" where
  "Queue_Configure max_items max_bytes q = q\<lparr>q_max_items := max_items, q_max_bytes := max_bytes\<rparr>"

definition Queue_Clear :: "'v \<Rightarrow> 'v MultiReaderQueue \<Rightarrow> 'v MultiReaderQueue" where
  "Queue_Clear dflt q =
     q\<lparr>q_values := map (\<lambda>_. dflt) (q_values q), q_value_bytes := map (\<lambda>_. 0) (q_value_bytes q), q_head := 0,
       q_size := 0, q_bytes := 0, q_first_sequence := q_next_sequence q\<rparr>"

definition ActiveCapacity :: "'v MultiReaderQueue \<Rightarrow> nat" where
  "ActiveCapacity q = (if q_max_items q < length (q_values q) then q_max_items q else length (q_values q))"

definition DropOldest :: "'v \<Rightarrow> 'v MultiReaderQueue \<Rightarrow> 'v MultiReaderQueue" where
  "DropOldest dflt q =
     q\<lparr>q_bytes := (if q_value_bytes q ! q_head q > q_bytes q then 0 else q_bytes q - q_value_bytes q ! q_head q),
       q_values := (q_values q)[q_head q := dflt],
       q_value_bytes := (q_value_bytes q)[q_head q := 0],
       q_head := (q_head q + 1) mod length (q_values q),
       q_size := q_size q - 1,
       q_first_sequence := q_first_sequence q + 1,
       q_evicted_size := q_evicted_size q + 1\<rparr>"

function PushDropLoop :: "'v \<Rightarrow> nat \<Rightarrow> 'v MultiReaderQueue \<Rightarrow> 'v MultiReaderQueue" where
  "PushDropLoop dflt bytes q =
     (if q_size q > 0 \<and> (q_size q \<ge> ActiveCapacity q \<or> q_bytes q > u32_sub (q_max_bytes q) bytes)
      then PushDropLoop dflt bytes (DropOldest dflt q) else q)"
  by pat_completeness auto
termination
  by (relation "measure (\<lambda>(dflt, bytes, q). q_size q)") (auto simp: DropOldest_def)

declare PushDropLoop.simps [simp del]

definition Queue_Push :: "'v \<Rightarrow> 'v \<Rightarrow> nat \<Rightarrow> 'v MultiReaderQueue \<Rightarrow> 'v MultiReaderQueue \<times> nat \<times> bool" where
  "Queue_Push dflt v bytes q =
     (let write_sequence = q_next_sequence q;
          q = q\<lparr>q_next_sequence := q_next_sequence q + 1\<rparr>
      in if ActiveCapacity q = 0 \<or> bytes > q_max_bytes q
         then ((Queue_Clear dflt q)\<lparr>q_first_sequence := q_next_sequence q\<rparr>, write_sequence, False)
         else
           let q = PushDropLoop dflt bytes q;
               q = (if q_size q = 0 then q\<lparr>q_head := 0, q_first_sequence := write_sequence\<rparr> else q);
               index = (q_head q + q_size q) mod length (q_values q)
           in (q\<lparr>q_values := (q_values q)[index := v], q_value_bytes := (q_value_bytes q)[index := bytes],
                 q_bytes := u32_add (q_bytes q) bytes, q_size := q_size q + 1\<rparr>, write_sequence, True))"

definition Queue_Read :: "nat \<Rightarrow> 'v MultiReaderQueue \<Rightarrow> 'v option" where
  "Queue_Read sequence q =
     (if sequence < q_first_sequence q \<or> sequence \<ge> q_next_sequence q then None
      else let offset = sequence - q_first_sequence q in
        if offset \<ge> q_size q then None
        else Some (q_values q ! ((q_head q + offset) mod length (q_values q))))"

section \<open>Invariant and abstraction\<close>

definition queue_items :: "'v MultiReaderQueue \<Rightarrow> 'v list" where
  "queue_items q = ring_list (q_values q) (q_head q) (q_size q)"

definition queue_sizes :: "'v MultiReaderQueue \<Rightarrow> nat list" where
  "queue_sizes q = ring_list (q_value_bytes q) (q_head q) (q_size q)"

text \<open>The ring part of the invariant, and all of it.\<close>

definition queue_ring :: "'v MultiReaderQueue \<Rightarrow> bool" where
  "queue_ring q \<longleftrightarrow> length (q_value_bytes q) = length (q_values q) \<and> q_head q < length (q_values q)
     \<and> q_size q \<le> length (q_values q) \<and> q_bytes q = sum_list (queue_sizes q) \<and> q_bytes q \<le> UINT32_MAX
     \<and> q_max_bytes q \<le> UINT32_MAX"

definition queue_inv :: "'v MultiReaderQueue \<Rightarrow> bool" where
  "queue_inv q \<longleftrightarrow> queue_ring q \<and> q_next_sequence q = q_first_sequence q + q_size q"

lemma length_queue [simp]: "length (queue_items q) = q_size q" "length (queue_sizes q) = q_size q"
  by (simp_all add: queue_items_def queue_sizes_def)

lemma queue_inv_new: "0 < capacity \<Longrightarrow> queue_inv (new_queue dflt capacity)"
  by (simp add: queue_inv_def queue_ring_def new_queue_def queue_sizes_def)

lemma queue_inv_Configure:
  "queue_inv q \<Longrightarrow> max_bytes \<le> UINT32_MAX \<Longrightarrow> queue_inv (Queue_Configure max_items max_bytes q)"
  by (simp add: queue_inv_def queue_ring_def Queue_Configure_def queue_sizes_def)

lemma queue_inv_Clear:
  "queue_ring q \<Longrightarrow> queue_inv (Queue_Clear dflt q) \<and> queue_items (Queue_Clear dflt q) = []
     \<and> q_first_sequence (Queue_Clear dflt q) = q_next_sequence q \<and> q_next_sequence (Queue_Clear dflt q) = q_next_sequence q"
  by (auto simp: queue_inv_def queue_ring_def Queue_Clear_def queue_sizes_def queue_items_def)

text \<open>Values and their sizes together; dropping the oldest removes the head.\<close>

definition queue_entries :: "'v MultiReaderQueue \<Rightarrow> ('v \<times> nat) list" where
  "queue_entries q = zip (queue_items q) (queue_sizes q)"

lemma queue_entries_map [simp]:
  "map fst (queue_entries q) = queue_items q" "map snd (queue_entries q) = queue_sizes q"
  "length (queue_entries q) = q_size q"
  by (simp_all add: queue_entries_def)

lemma DropOldest_ring:
  assumes "queue_ring q" and "0 < q_size q"
  shows "queue_ring (DropOldest dflt q)" and "queue_entries (DropOldest dflt q) = tl (queue_entries q)"
proof -
  note q = assms(1) [unfolded queue_ring_def]
  have items: "queue_items (DropOldest dflt q) = tl (queue_items q)"
    using q assms(2) ring_list_pop [of "q_size q" "q_values q" "q_head q" dflt]
    by (simp add: queue_items_def DropOldest_def)
  have sizes: "queue_sizes (DropOldest dflt q) = tl (queue_sizes q)"
    using q assms(2) ring_list_pop [of "q_size q" "q_value_bytes q" "q_head q" 0]
    by (simp add: queue_sizes_def DropOldest_def)
  have "q_value_bytes q ! q_head q = hd (queue_sizes q)"
    using q assms(2) ring_list_nth [of 0 "q_size q" "q_value_bytes q" "q_head q"]
    by (simp add: queue_sizes_def hd_conv_nth ring_list_def)
  moreover have "queue_sizes q = hd (queue_sizes q) # tl (queue_sizes q)"
    using assms(2) by (metis length_queue(2) length_greater_0_conv list.collapse)
  then have "sum_list (queue_sizes q) = hd (queue_sizes q) + sum_list (tl (queue_sizes q))"
    by (metis sum_list.Cons)
  ultimately have bytes: "q_bytes (DropOldest dflt q) = sum_list (tl (queue_sizes q))"
    using q by (simp add: DropOldest_def)
  show "queue_ring (DropOldest dflt q)"
    unfolding queue_ring_def bytes sizes
    using q \<open>sum_list (queue_sizes q) = _\<close> order_le_less_trans [OF zero_le, of "q_head q" "length (q_values q)"]
    by (auto simp: DropOldest_def)
  show "queue_entries (DropOldest dflt q) = tl (queue_entries q)"
    by (simp add: queue_entries_def items sizes) (metis drop_Suc drop_0 drop_zip)
qed

text \<open>The reference for the eviction loop: drop from the front while too many or too large.\<close>

fun evict :: "nat \<Rightarrow> nat \<Rightarrow> ('v \<times> nat) list \<Rightarrow> ('v \<times> nat) list" where
  "evict cap room [] = []"
| "evict cap room (x # xs) =
     (if length (x # xs) \<ge> cap \<or> sum_list (map snd (x # xs)) > room then evict cap room xs else x # xs)"

definition evicted :: "nat \<Rightarrow> 'v MultiReaderQueue \<Rightarrow> 'v MultiReaderQueue \<Rightarrow> bool" where
  "evicted bytes q q' \<longleftrightarrow>
     queue_ring q' \<and> queue_entries q' = evict (ActiveCapacity q) (q_max_bytes q - bytes) (queue_entries q)
     \<and> q_first_sequence q' + q_size q' = q_first_sequence q + q_size q
     \<and> q_next_sequence q' = q_next_sequence q \<and> q_max_bytes q' = q_max_bytes q
     \<and> ActiveCapacity q' = ActiveCapacity q \<and> length (q_values q') = length (q_values q)"

lemma PushDropLoop_evict:
  "queue_ring q \<Longrightarrow> bytes \<le> q_max_bytes q \<Longrightarrow> evicted bytes q (PushDropLoop dflt bytes q)"
proof (induction dflt bytes q rule: PushDropLoop.induct)
  case (1 dflt bytes q)
  show ?case
  proof (cases "queue_entries q")
    case Nil
    then have "q_size q = 0" by (metis list.size(3) queue_entries_map(3))
    with Nil 1 show ?thesis by (subst PushDropLoop.simps) (simp add: evicted_def)
  next
    case (Cons x xs)
    let ?full = "q_size q \<ge> ActiveCapacity q \<or> q_bytes q > u32_sub (q_max_bytes q) bytes"
    have size: "q_size q = Suc (length xs)" by (metis Cons length_Cons queue_entries_map(3))
    have bytes: "q_bytes q = sum_list (map snd (x # xs))"
      using 1(2) unfolding queue_ring_def by (metis Cons queue_entries_map(2))
    have full: "?full \<longleftrightarrow> length (x # xs) \<ge> ActiveCapacity q \<or> sum_list (map snd (x # xs)) > q_max_bytes q - bytes"
      using 1(2,3) size bytes by (simp add: queue_ring_def u32_sub_exact)
    show ?thesis
    proof (cases ?full)
      case False
      with full have "evict (ActiveCapacity q) (q_max_bytes q - bytes) (queue_entries q) = queue_entries q"
        by (simp add: Cons)
      with False 1(2) show ?thesis by (subst PushDropLoop.simps) (simp add: evicted_def)
    next
      case True
      note d = DropOldest_ring [OF 1(2), of dflt]
      have same: "q_max_bytes (DropOldest dflt q) = q_max_bytes q" "ActiveCapacity (DropOldest dflt q) = ActiveCapacity q"
        "q_first_sequence (DropOldest dflt q) + q_size (DropOldest dflt q) = q_first_sequence q + q_size q"
        "q_next_sequence (DropOldest dflt q) = q_next_sequence q"
        "length (q_values (DropOldest dflt q)) = length (q_values q)"
        using size by (simp_all add: DropOldest_def ActiveCapacity_def)
      have step: "PushDropLoop dflt bytes q = PushDropLoop dflt bytes (DropOldest dflt q)"
        using True size by (subst PushDropLoop.simps) simp
      have "evict (ActiveCapacity q) (q_max_bytes q - bytes) (queue_entries q)
          = evict (ActiveCapacity q) (q_max_bytes q - bytes) xs"
        using True full by (simp add: Cons)
      with 1(1) [OF _ d(1)] 1(3) d(2) True size same show ?thesis
        unfolding step by (simp add: Cons evicted_def)
    qed
  qed
qed

text \<open>Writing behind the last entry.\<close>

lemma queue_write:
  fixes q :: "'v MultiReaderQueue" and v :: 'v
  assumes ring: "queue_ring q" and room: "q_size q < length (q_values q)" and fit: "q_bytes q + bytes \<le> UINT32_MAX"
  defines "index \<equiv> (q_head q + q_size q) mod length (q_values q)"
  defines "q' \<equiv> q\<lparr>q_values := (q_values q)[index := v], q_value_bytes := (q_value_bytes q)[index := bytes],
                  q_bytes := u32_add (q_bytes q) bytes, q_size := q_size q + 1\<rparr>"
  shows "queue_ring q'" and "queue_entries q' = queue_entries q @ [(v, bytes)]"
proof -
  have items: "queue_items q' = queue_items q @ [v]"
    using ring_list_push [OF room, of "q_head q" v] by (simp add: queue_items_def q'_def index_def)
  have len: "length (q_value_bytes q) = length (q_values q)" using ring by (simp add: queue_ring_def)
  then have sizes: "queue_sizes q' = queue_sizes q @ [bytes]"
    using ring_list_push [of "q_size q" "q_value_bytes q" "q_head q" bytes] room
    by (simp add: queue_sizes_def q'_def index_def)
  show "queue_ring q'"
    using ring room fit sizes by (auto simp: queue_ring_def) (auto simp: q'_def u32_add_exact)
  show "queue_entries q' = queue_entries q @ [(v, bytes)]"
    by (simp add: queue_entries_def items sizes)
qed

lemma evict_suffix: "\<exists>k \<le> length xs. evict cap room xs = drop k xs"
proof (induction xs)
  case (Cons x xs)
  then obtain k where "k \<le> length xs" "evict cap room xs = drop k xs" by blast
  then show ?case
    by (cases "evict cap room (x # xs) = x # xs") (auto intro: exI [of _ "Suc k"] exI [of _ 0])
qed simp

lemma evict_fits:
  "evict cap room xs \<noteq> [] \<Longrightarrow> length (evict cap room xs) < cap \<and> sum_list (map snd (evict cap room xs)) \<le> room"
  by (induction xs) (auto split: if_splits)

text \<open>The whole push, on the entries of the queue.\<close>

definition push_spec :: "'v \<Rightarrow> nat \<Rightarrow> 'v MultiReaderQueue \<Rightarrow> ('v \<times> nat) list" where
  "push_spec v bytes q =
     (if ActiveCapacity q = 0 \<or> bytes > q_max_bytes q then []
      else evict (ActiveCapacity q) (q_max_bytes q - bytes) (queue_entries q) @ [(v, bytes)])"

lemma Queue_Push_spec:
  assumes "queue_inv q" and "Queue_Push dflt v bytes q = (q', n, ok)"
  shows "queue_inv q' \<and> queue_entries q' = push_spec v bytes q \<and> n = q_next_sequence q
     \<and> q_next_sequence q' = Suc (q_next_sequence q) \<and> (ok \<longleftrightarrow> ActiveCapacity q \<noteq> 0 \<and> bytes \<le> q_max_bytes q)
     \<and> q_max_bytes q' = q_max_bytes q \<and> ActiveCapacity q' = ActiveCapacity q"
proof -
  define q0 where "q0 = q\<lparr>q_next_sequence := q_next_sequence q + 1\<rparr>"
  have ring: "queue_ring q0" using assms(1) by (simp add: q0_def queue_inv_def queue_ring_def queue_sizes_def)
  have same: "ActiveCapacity q0 = ActiveCapacity q" "q_max_bytes q0 = q_max_bytes q" "queue_entries q0 = queue_entries q"
      "q_next_sequence q0 = Suc (q_next_sequence q)" "q_first_sequence q0 + q_size q0 = q_next_sequence q"
    using assms(1)
    by (simp_all add: q0_def ActiveCapacity_def queue_entries_def queue_items_def queue_sizes_def queue_inv_def)
  show ?thesis
  proof (cases "ActiveCapacity q = 0 \<or> bytes > q_max_bytes q")
    case True
    define c where "c = Queue_Clear dflt q0"
    from True assms(2) have res: "q' = c\<lparr>q_first_sequence := q_next_sequence q0\<rparr>" "n = q_next_sequence q" "\<not> ok"
      by (auto simp: Queue_Push_def Let_def same c_def q0_def [symmetric] simp flip: One_nat_def)
    from queue_inv_Clear [OF ring, of dflt] have c: "queue_inv c" "queue_items c = []"
        "q_first_sequence c = q_next_sequence q0" "q_next_sequence c = q_next_sequence q0"
      by (auto simp: c_def)
    have "q' = c" unfolding res(1) c(3) [symmetric] by simp
    moreover have "q_max_bytes c = q_max_bytes q" "ActiveCapacity c = ActiveCapacity q"
      by (simp_all add: c_def Queue_Clear_def q0_def ActiveCapacity_def)
    ultimately show ?thesis using True c res(2,3) same(4) by (auto simp: push_spec_def queue_entries_def)
  next
    case False
    define q1 where "q1 = PushDropLoop dflt bytes q0"
    have ev: "evicted bytes q0 q1"
      unfolding q1_def using False ring by (intro PushDropLoop_evict) (simp_all add: same)
    define q2 where "q2 = (if q_size q1 = 0 then q1\<lparr>q_head := 0, q_first_sequence := q_next_sequence q\<rparr> else q1)"
    have first: "q_first_sequence q1 + q_size q1 = q_next_sequence q" using ev same by (simp add: evicted_def)
    have q2: "queue_ring q2" "queue_entries q2 = queue_entries q1" "q_size q2 = q_size q1"
        "q_first_sequence q2 + q_size q2 = q_next_sequence q" "q_next_sequence q2 = Suc (q_next_sequence q)"
        "q_max_bytes q2 = q_max_bytes q" "ActiveCapacity q2 = ActiveCapacity q" "q_bytes q2 = q_bytes q1"
        "length (q_values q2) = length (q_values q0)"
      using ev first same
      by (auto simp: q2_def evicted_def queue_ring_def queue_sizes_def queue_entries_def queue_items_def
          ActiveCapacity_def)
    have ent: "queue_entries q1 = evict (ActiveCapacity q) (q_max_bytes q - bytes) (queue_entries q)"
      using ev same by (simp add: evicted_def)
    have fits: "q_size q2 < ActiveCapacity q" "q_bytes q2 + bytes \<le> q_max_bytes q"
    proof -
      have len: "length (queue_entries q1) = q_size q1" by simp
      have sum: "sum_list (map snd (queue_entries q1)) = q_bytes q1"
        using ev unfolding queue_entries_map by (simp add: evicted_def queue_ring_def)
      show "q_size q2 < ActiveCapacity q" "q_bytes q2 + bytes \<le> q_max_bytes q"
        using evict_fits [of "ActiveCapacity q" "q_max_bytes q - bytes" "queue_entries q"] False q2(3,8) len sum
        unfolding ent [symmetric] by (cases "queue_entries q1 = []"; fastforce)+
    qed
    have room: "q_size q2 < length (q_values q2)"
      using fits(1) q2(7) by (auto simp: ActiveCapacity_def split: if_splits)
    have lim: "q_bytes q2 + bytes \<le> UINT32_MAX" using fits(2) q2(1,6) by (simp add: queue_ring_def)
    note w = queue_write [OF q2(1) room lim, of v]
    from False assms(2) have res: "q' = q2\<lparr>q_values := (q_values q2)[(q_head q2 + q_size q2) mod length (q_values q2) := v],
        q_value_bytes := (q_value_bytes q2)[(q_head q2 + q_size q2) mod length (q_values q2) := bytes],
        q_bytes := u32_add (q_bytes q2) bytes, q_size := q_size q2 + 1\<rparr>" "n = q_next_sequence q" "ok"
      unfolding Queue_Push_def Let_def q0_def [symmetric] same q1_def [symmetric] q2_def [symmetric] by auto
    have "ActiveCapacity q' = ActiveCapacity q" unfolding res(1) q2(7) [symmetric] by (simp add: ActiveCapacity_def)
    then show ?thesis
      using w q2 ent res(2,3) False unfolding res(1) by (simp add: queue_inv_def push_spec_def)
  qed
qed

section \<open>The queue implements the interface\<close>

definition push_queue :: "'v \<Rightarrow> 'v \<Rightarrow> nat \<Rightarrow> 'v MultiReaderQueue \<Rightarrow> 'v MultiReaderQueue" where
  "push_queue dflt v bytes q = fst (Queue_Push dflt v bytes q)"

lemma Queue_Read_item:
  assumes "queue_inv q"
  shows "Queue_Read s q = (if q_first_sequence q \<le> s \<and> s < q_next_sequence q
     then Some (queue_items q ! (s - q_first_sequence q)) else None)"
  using assms by (auto simp: Queue_Read_def queue_items_def ring_list_nth queue_inv_def Let_def)

lemma push_queue_spec:
  assumes "queue_inv q"
  shows "queue_inv (push_queue dflt v b q)" and "queue_entries (push_queue dflt v b q) = push_spec v b q"
    and "q_next_sequence (push_queue dflt v b q) = Suc (q_next_sequence q)"
  using Queue_Push_spec [OF assms, of dflt v b]
  by (metis push_queue_def prod.collapse)+

interpretation reader_queue: sequenced_log queue_inv queue_items q_first_sequence q_next_sequence
  "push_queue dflt" Queue_Read for dflt :: 'v
proof (unfold_locales, goal_cases)
  case (1 q)
  then show ?case by (simp add: queue_inv_def)
next
  case (2 q s)
  then show ?case by (rule Queue_Read_item)
next
  case (3 q v b)
  then show ?case by (rule push_queue_spec)
next
  case (4 q v b)
  then show ?case by (rule push_queue_spec)
next
  case (5 q v b)
  obtain k where k: "k \<le> length (queue_entries q)"
      "evict (ActiveCapacity q) (q_max_bytes q - b) (queue_entries q) = drop k (queue_entries q)"
    using evict_suffix by blast
  then have "queue_entries (push_queue dflt v b q) = [] \<or>
      queue_entries (push_queue dflt v b q) = drop k (queue_entries q @ [(v, b)])"
    using push_queue_spec(2) [OF 5, of dflt v b] by (auto simp: push_spec_def)
  then have "queue_items (push_queue dflt v b q) = [] \<or>
      queue_items (push_queue dflt v b q) = drop k (queue_items q @ [v])"
    by (metis drop_map fst_conv list.map(1) list.map(2) map_append queue_entries_map(1))
  then show ?case by (metis drop_all order_refl)
qed

text \<open>
  Claim C11. \<open>Push\<close> implements its contract on the sequence of stored entries: it drops the shortest run of
  oldest entries that makes room within the item and byte limits, then appends the new one, or
  empties the queue when the value alone exceeds the limits; numbering and counters stay consistent.
\<close>

theorem queue_push_refines:
  assumes "queue_inv q"
  shows "case Queue_Push dflt v bytes q of (q', n, ok) \<Rightarrow>
     queue_inv q' \<and> queue_entries q' = push_spec v bytes q \<and> n = q_next_sequence q
     \<and> (ok \<longleftrightarrow> ActiveCapacity q \<noteq> 0 \<and> bytes \<le> q_max_bytes q)"
proof -
  obtain q' n ok where push: "Queue_Push dflt v bytes q = (q', n, ok)" by (metis prod.exhaust)
  from Queue_Push_spec [OF assms push] show ?thesis by (simp add: push)
qed

theorem queue_push_refines_witness:
  "case Queue_Push (0 :: nat) 5 10 (new_queue 0 2) of (q', n, ok) \<Rightarrow> queue_entries q' = [(5, 10)] \<and> n = 1 \<and> ok"
proof -
  have inv: "queue_inv (new_queue (0 :: nat) 2)" by (simp add: queue_inv_new)
  have new: "queue_entries (new_queue (0 :: nat) 2) = []" "ActiveCapacity (new_queue (0 :: nat) 2) = 2"
    "q_max_bytes (new_queue (0 :: nat) 2) = UINT32_MAX" "q_next_sequence (new_queue (0 :: nat) 2) = 1"
    by (simp_all add: queue_entries_def queue_items_def new_queue_def ActiveCapacity_def)
  obtain q' n ok where push: "Queue_Push 0 5 10 (new_queue (0 :: nat) 2) = (q', n, ok)" by (metis prod.exhaust)
  from queue_push_refines [OF inv, where dflt = 0 and v = 5 and bytes = 10] show ?thesis by (simp add: push push_spec_def new)
qed

fun push_all :: "'v \<Rightarrow> ('v \<times> nat) list \<Rightarrow> 'v MultiReaderQueue \<Rightarrow> 'v MultiReaderQueue" where
  "push_all dflt [] q = q"
| "push_all dflt ((v, b) # vs) q = push_all dflt vs (push_queue dflt v b q)"

lemma push_all_snoc: "push_all dflt (vs @ [(v, b)]) q = push_queue dflt v b (push_all dflt vs q)"
  by (induction dflt vs q rule: push_all.induct) auto

lemma push_all_inv:
  "queue_inv q \<Longrightarrow> queue_inv (push_all dflt vs q) \<and> q_next_sequence (push_all dflt vs q) = q_next_sequence q + length vs"
  by (induction dflt vs q rule: push_all.induct) (auto simp: push_queue_spec)

text \<open>
  Claim C33. Readers never see a wrong value: whatever has been pushed and evicted in between, a read of
  sequence number \<open>s\<close> either fails or returns the value of the \<open>s\<close>-th push, and it succeeds for
  exactly the numbers between the first retained and the next one.
\<close>

theorem queue_read_history:
  assumes "0 < capacity" and "max_bytes \<le> UINT32_MAX"
  shows "let q = push_all dflt vs (Queue_Configure max_items max_bytes (new_queue dflt capacity)) in
     (\<forall>v. Queue_Read s q = Some v \<longrightarrow> 1 \<le> s \<and> s \<le> length vs \<and> v = fst (vs ! (s - 1)))
     \<and> (Queue_Read s q \<noteq> None \<longleftrightarrow> q_first_sequence q \<le> s \<and> s < q_next_sequence q)"
proof -
  let ?q0 = "Queue_Configure max_items max_bytes (new_queue dflt capacity)"
  have inv0: "queue_inv ?q0" using assms(1,2) by (simp add: queue_inv_Configure queue_inv_new)
  have n0: "q_next_sequence ?q0 = 1" "q_first_sequence ?q0 = 1" by (simp_all add: Queue_Configure_def new_queue_def)
  have "1 \<le> s \<and> s \<le> length vs \<and> v = fst (vs ! (s - 1))" if "Queue_Read s (push_all dflt vs ?q0) = Some v" for v
    using that
  proof (induction vs rule: rev_induct)
    case Nil
    with n0 show ?case by (auto simp: Queue_Read_item [OF inv0] split: if_splits)
  next
    case (snoc x vs)
    obtain w b where x: "x = (w, b)" by fastforce
    note inv = push_all_inv [OF inv0, of dflt vs]
    have "if s = length vs + 1 then v = w else Queue_Read s (push_all dflt vs ?q0) = Some v"
      using reader_queue.read_push [OF inv [THEN conjunct1], of s dflt w b v] snoc.prems inv n0
      by (simp add: x push_all_snoc)
    with snoc.IH show ?case by (auto simp: x nth_append split: if_splits)
  qed
  moreover have "queue_inv (push_all dflt vs ?q0)" using push_all_inv [OF inv0] by blast
  ultimately show ?thesis unfolding Let_def by (auto simp: Queue_Read_item)
qed

theorem queue_read_history_witness:
  "Queue_Read 2 (push_all 0 [(7 :: nat, 1), (8, 1), (9, 1)] (Queue_Configure 2 10 (new_queue 0 4))) = Some 8"
proof -
  let ?q = "push_all 0 [(7 :: nat, 1), (8, 1), (9, 1)] (Queue_Configure 2 10 (new_queue 0 4))"
  have "Queue_Read 2 ?q \<noteq> None"
    by (simp add: push_queue_def Queue_Push_def Let_def ActiveCapacity_def PushDropLoop.simps DropOldest_def
        u32_sub_def u32_add_def Queue_Read_def Queue_Configure_def new_queue_def)
  with queue_read_history [where capacity = 4 and max_bytes = 10 and max_items = 2 and dflt = 0
      and vs = "[(7, 1), (8, 1), (9, 1)]" and s = 2] show ?thesis by (auto simp: Let_def)
qed

text \<open>
  After every push the queue holds at most the configured number of items and bytes.
\<close>

lemma queue_bounds:
  assumes "queue_inv q"
  shows "case Queue_Push dflt v bytes q of (q', n, ok) \<Rightarrow>
     q_size q' \<le> min (q_max_items q) (length (q_values q)) \<and> q_bytes q' \<le> q_max_bytes q
     \<and> q_bytes q' = sum_list (queue_sizes q')"
proof -
  obtain q' n ok where push: "Queue_Push dflt v bytes q = (q', n, ok)" by (metis prod.exhaust)
  note spec = Queue_Push_spec [OF assms push]
  let ?e = "evict (ActiveCapacity q) (q_max_bytes q - bytes) (queue_entries q)"
  have bytes: "q_bytes q' = sum_list (queue_sizes q')" using spec by (simp add: queue_inv_def queue_ring_def)
  have "length (push_spec v bytes q) \<le> ActiveCapacity q \<and> sum_list (map snd (push_spec v bytes q)) \<le> q_max_bytes q"
    using evict_fits [of "ActiveCapacity q" "q_max_bytes q - bytes" "queue_entries q"]
    by (cases "?e = []") (auto simp: push_spec_def)
  then have "q_size q' \<le> ActiveCapacity q" "q_bytes q' \<le> q_max_bytes q"
    using spec bytes by (metis queue_entries_map(3), metis queue_entries_map(2))
  then show ?thesis using push bytes by (auto simp: ActiveCapacity_def split: if_splits)
qed

end
