(* ===== verification/Frame_Subscribers.thy ===== *)
theory Frame_Subscribers
  imports Flv_Muxer Multi_Reader_Queue "HOL-Library.AList"
begin

text \<open>
  \<open>libs/media/src/frame_subscribers.{h,cpp}\<close>: the frames of each stream go into a shared queue that
  all subscribers read at their own position, and into a cache of the current group of pictures
  for new subscribers. The \<open>std::map\<close> of subscribers is an association list.
\<close>

section \<open>State\<close>

record FrameSubscribersOptions =
  fo_max_gop_frames :: nat
  fo_max_gop_bytes :: nat
  fo_max_shared_frames :: nat
  fo_max_shared_bytes :: nat

definition kMaxCachedGopFrames :: nat where "kMaxCachedGopFrames = 128"
definition kMaxSharedFrames :: nat where "kMaxSharedFrames = 32"

record CachedFrame =
  cf_sequence :: nat
  cf_payload :: FramePayload
  cf_keyframe :: bool
  cf_starts_on_keyframe :: bool
  cf_duration_us :: int
  cf_bytes :: nat

definition empty_frame :: CachedFrame where
  "empty_frame = \<lparr>cf_sequence = 0, cf_payload = empty_frame_payload, cf_keyframe = False, cf_starts_on_keyframe = False,
     cf_duration_us = 0, cf_bytes = 0\<rparr>"

record StreamCache =
  sc_frames :: "CachedFrame list"
  sc_size :: nat
  sc_bytes :: nat
  sc_complete :: bool
  sc_last_frame_timestamp_us :: int
  sc_last_dts_us :: int
  sc_gop_version :: nat
  sc_stream_reset_version :: nat

definition new_cache :: StreamCache where
  "new_cache = \<lparr>sc_frames = replicate kMaxCachedGopFrames empty_frame, sc_size = 0, sc_bytes = 0,
     sc_complete = False, sc_last_frame_timestamp_us = 0, sc_last_dts_us = -1, sc_gop_version = 0,
     sc_stream_reset_version = 0\<rparr>"

type_synonym SharedFrames = "CachedFrame MultiReaderQueue"

record FrameSubscriber =
  sub_stream_id :: StreamId
  sub_keyframe_first :: bool
  sub_wait_keyframe :: bool
  sub_slow :: bool
  sub_start_sequence :: nat
  sub_start_gop_version :: nat
  sub_next_sequence :: nat
  sub_stream_reset_version :: nat
  sub_close_reason :: SubscriptionClose

record FrameSubscribers =
  fs_options :: FrameSubscribersOptions
  fs_subscribers :: "(nat \<times> FrameSubscriber) list"
  fs_next_subscription_id :: nat
  fs_main_cache :: StreamCache
  fs_sub_cache :: StreamCache
  fs_main_shared_frames :: SharedFrames
  fs_sub_shared_frames :: SharedFrames
  fs_main_cache_drops :: nat
  fs_sub_cache_drops :: nat
  fs_main_subscriber_drops :: nat
  fs_sub_subscriber_drops :: nat

definition new_subscribers :: FrameSubscribers where
  "new_subscribers = \<lparr>fs_options = \<lparr>fo_max_gop_frames = 128, fo_max_gop_bytes = 4 * 1024 * 1024,
       fo_max_shared_frames = 32, fo_max_shared_bytes = 2 * 1024 * 1024\<rparr>,
     fs_subscribers = [], fs_next_subscription_id = 1, fs_main_cache = new_cache, fs_sub_cache = new_cache,
     fs_main_shared_frames = new_queue empty_frame kMaxSharedFrames,
     fs_sub_shared_frames = new_queue empty_frame kMaxSharedFrames,
     fs_main_cache_drops = 0, fs_sub_cache_drops = 0, fs_main_subscriber_drops = 0, fs_sub_subscriber_drops = 0\<rparr>"

text \<open>\<open>CacheFor\<close> and \<open>SharedFramesFor\<close>: every stream but the main one uses the second set.\<close>

definition CacheFor :: "StreamId \<Rightarrow> FrameSubscribers \<Rightarrow> StreamCache" where
  "CacheFor stream fs = (if stream = StreamMain then fs_main_cache fs else fs_sub_cache fs)"

definition SetCache :: "StreamId \<Rightarrow> StreamCache \<Rightarrow> FrameSubscribers \<Rightarrow> FrameSubscribers" where
  "SetCache stream c fs = (if stream = StreamMain then fs\<lparr>fs_main_cache := c\<rparr> else fs\<lparr>fs_sub_cache := c\<rparr>)"

definition SharedFramesFor :: "StreamId \<Rightarrow> FrameSubscribers \<Rightarrow> SharedFrames" where
  "SharedFramesFor stream fs = (if stream = StreamMain then fs_main_shared_frames fs else fs_sub_shared_frames fs)"

definition SetSharedFrames :: "StreamId \<Rightarrow> SharedFrames \<Rightarrow> FrameSubscribers \<Rightarrow> FrameSubscribers" where
  "SetSharedFrames stream q fs =
     (if stream = StreamMain then fs\<lparr>fs_main_shared_frames := q\<rparr> else fs\<lparr>fs_sub_shared_frames := q\<rparr>)"

definition FindCache :: "StreamId \<Rightarrow> FrameSubscribers \<Rightarrow> StreamCache option" where
  "FindCache stream fs =
     (if stream = StreamMain then Some (fs_main_cache fs)
      else if stream = StreamSub then Some (fs_sub_cache fs) else None)"

definition FindSharedFrames :: "StreamId \<Rightarrow> FrameSubscribers \<Rightarrow> SharedFrames option" where
  "FindSharedFrames stream fs =
     (if stream = StreamMain then Some (fs_main_shared_frames fs)
      else if stream = StreamSub then Some (fs_sub_shared_frames fs) else None)"

section \<open>Writing frames\<close>

definition FrameBytes :: "FramePayload \<Rightarrow> nat" where
  "FrameBytes frame = PayloadSize (fp_frame frame)"

definition CachedFrameBytes :: "CachedFrame \<Rightarrow> nat" where
  "CachedFrameBytes frame = cf_bytes frame"

definition EstimateFrameDuration :: "StreamCache \<Rightarrow> FramePayload \<Rightarrow> int" where
  "EstimateFrameDuration cache frame =
     (if sc_last_dts_us cache \<ge> 0 \<and> dts_us (fp_frame frame) > sc_last_dts_us cache
      then dts_us (fp_frame frame) - sc_last_dts_us cache else 0)"

definition CopyFrameForSubscription :: "FramePayload \<Rightarrow> int \<Rightarrow> MediaFrame" where
  "CopyFrameForSubscription fp duration = (fp_frame fp)\<lparr>duration_us := duration\<rparr>"

definition ClearCache :: "StreamCache \<Rightarrow> StreamCache" where
  "ClearCache cache =
     cache\<lparr>sc_frames := map (\<lambda>_. empty_frame) (sc_frames cache), sc_size := 0, sc_bytes := 0, sc_complete := False,
           sc_last_frame_timestamp_us := 0, sc_last_dts_us := -1\<rparr>"

definition DropCache :: "StreamId \<Rightarrow> FrameSubscribers \<Rightarrow> FrameSubscribers" where
  "DropCache stream fs =
     (let fs = (if stream = StreamMain then fs\<lparr>fs_main_cache_drops := fs_main_cache_drops fs + 1\<rparr>
                else fs\<lparr>fs_sub_cache_drops := fs_sub_cache_drops fs + 1\<rparr>);
          cache = ClearCache (CacheFor stream fs)
      in SetCache stream (cache\<lparr>sc_gop_version := sc_gop_version cache + 1\<rparr>) fs)"

definition AppendToCache ::
  "StreamId \<Rightarrow> nat \<Rightarrow> bool \<Rightarrow> int \<Rightarrow> FramePayload \<Rightarrow> FrameSubscribers \<Rightarrow> FrameSubscribers \<times> bool" where
  "AppendToCache stream sequence keyframe duration frame fs =
     (let cache = CacheFor stream fs;
          cache = (if keyframe
                   then (ClearCache cache)\<lparr>sc_complete := True, sc_gop_version := sc_gop_version cache + 1\<rparr>
                   else cache);
          fs = SetCache stream cache fs
      in if \<not> sc_complete cache then (fs, True)
         else
           let max_gop_frames = min (fo_max_gop_frames (fs_options fs)) (length (sc_frames cache));
               frame_bytes = FrameBytes frame;
               max_bytes = fo_max_gop_bytes (fs_options fs)
           in if max_gop_frames = 0 \<or> sc_size cache \<ge> max_gop_frames \<or> frame_bytes > max_bytes
                 \<or> sc_bytes cache > u32_sub max_bytes frame_bytes
              then (DropCache stream fs, False)
              else
                let cell = sc_frames cache ! sc_size cache;
                    bytes = u32_sub (sc_bytes cache) (CachedFrameBytes cell);
                    cell = \<lparr>cf_sequence = sequence, cf_payload = frame, cf_keyframe = keyframe,
                            cf_starts_on_keyframe = False, cf_duration_us = duration, cf_bytes = frame_bytes\<rparr>
                in (SetCache stream
                      (cache\<lparr>sc_frames := (sc_frames cache)[sc_size cache := cell],
                             sc_bytes := u32_add bytes (cf_bytes cell), sc_size := sc_size cache + 1\<rparr>) fs,
                    True))"

definition PushSharedFrame :: "bool \<Rightarrow> int \<Rightarrow> FramePayload \<Rightarrow> SharedFrames \<Rightarrow> SharedFrames \<times> nat \<times> bool" where
  "PushSharedFrame keyframe duration frame frames =
     Queue_Push empty_frame
       \<lparr>cf_sequence = q_next_sequence frames, cf_payload = frame, cf_keyframe = keyframe,
        cf_starts_on_keyframe = False, cf_duration_us = duration, cf_bytes = FrameBytes frame\<rparr>
       (FrameBytes frame) frames"

definition Subscribers_Write :: "FramePayload \<Rightarrow> FrameSubscribers \<Rightarrow> FrameSubscribers" where
  "Subscribers_Write frame fs =
     (let encoded_frame = fp_frame frame; stream = stream_id encoded_frame in
      if \<not> IsMediaFramePayloadValid encoded_frame then fs
      else
        let keyframe = (frame_type encoded_frame = FrameIdr \<or> frame_type encoded_frame = FrameI);
            duration = EstimateFrameDuration (CacheFor stream fs) frame
        in case PushSharedFrame keyframe duration frame (SharedFramesFor stream fs) of
             (frames, sequence, pushed) \<Rightarrow>
               (case AppendToCache stream sequence keyframe duration frame (SetSharedFrames stream frames fs) of
                  (fs, appended) \<Rightarrow>
                    SetCache stream
                      ((CacheFor stream fs)\<lparr>sc_last_dts_us := dts_us encoded_frame,
                                            sc_last_frame_timestamp_us := dts_us encoded_frame\<rparr>) fs))"

section \<open>Subscribing and reading\<close>

definition Subscribers_Configure :: "FrameSubscribersOptions \<Rightarrow> FrameSubscribers \<Rightarrow> FrameSubscribers" where
  "Subscribers_Configure options fs =
     fs\<lparr>fs_options := options,
        fs_main_shared_frames := Queue_Configure (fo_max_shared_frames options) (fo_max_shared_bytes options)
                                   (fs_main_shared_frames fs),
        fs_sub_shared_frames := Queue_Configure (fo_max_shared_frames options) (fo_max_shared_bytes options)
                                  (fs_sub_shared_frames fs)\<rparr>"

definition ResetStats :: "FrameSubscribers \<Rightarrow> FrameSubscribers" where
  "ResetStats fs = fs\<lparr>fs_main_cache_drops := 0, fs_sub_cache_drops := 0, fs_main_subscriber_drops := 0,
     fs_sub_subscriber_drops := 0\<rparr>"

definition SubscribeFrames :: "SubscriptionOptions \<Rightarrow> nat \<Rightarrow> FrameSubscribers \<Rightarrow> FrameSubscribers \<times> nat" where
  "SubscribeFrames options max_subscriptions fs =
     (if length (fs_subscribers fs) \<ge> max_subscriptions then (fs, 0)
      else
        let cache = CacheFor (so_stream_id options) fs;
            frames = SharedFramesFor (so_stream_id options) fs;
            subscription_id = fs_next_subscription_id fs;
            subscriber = \<lparr>sub_stream_id = so_stream_id options, sub_keyframe_first = so_keyframe_first options,
                          sub_wait_keyframe = (so_keyframe_first options \<and> \<not> sc_complete cache), sub_slow = False,
                          sub_start_sequence = q_next_sequence frames, sub_start_gop_version = sc_gop_version cache,
                          sub_next_sequence = q_next_sequence frames,
                          sub_stream_reset_version = sc_stream_reset_version cache, sub_close_reason = CloseNone\<rparr>
        in (fs\<lparr>fs_next_subscription_id := subscription_id + 1,
               fs_subscribers := AList.update subscription_id subscriber (fs_subscribers fs)\<rparr>, subscription_id))"

definition UnsubscribeFrames :: "nat \<Rightarrow> SubscriptionClose \<Rightarrow> FrameSubscribers \<Rightarrow> FrameSubscribers \<times> bool" where
  "UnsubscribeFrames subscription_id reason fs =
     (case map_of (fs_subscribers fs) subscription_id of
        None \<Rightarrow> (fs, False)
      | Some subscriber \<Rightarrow> (fs\<lparr>fs_subscribers := AList.delete subscription_id (fs_subscribers fs)\<rparr>, True))"

definition PendingFrameSize :: "FrameSubscriber \<Rightarrow> SharedFrames \<Rightarrow> nat" where
  "PendingFrameSize subscriber frames =
     (if sub_next_sequence subscriber \<ge> q_next_sequence frames then 0
      else
        let first_available = max (sub_next_sequence subscriber) (q_first_sequence frames);
            pending = q_next_sequence frames - first_available
        in if pending > q_size frames then q_size frames else pending)"

definition GetSubscriptionInfo :: "nat \<Rightarrow> FrameSubscribers \<Rightarrow> SubscriptionInfo" where
  "GetSubscriptionInfo subscription_id fs =
     (case map_of (fs_subscribers fs) subscription_id of
        None \<Rightarrow> \<lparr>sn_open = False, sn_stream_id = StreamMain, sn_generation = 0, sn_close_reason = CloseNone,
                sn_wait_keyframe = False, sn_slow = False, sn_pending_frames = 0\<rparr>
      | Some s \<Rightarrow> \<lparr>sn_open = True, sn_stream_id = sub_stream_id s, sn_generation = sub_stream_reset_version s,
                   sn_close_reason = sub_close_reason s, sn_wait_keyframe = sub_wait_keyframe s, sn_slow = sub_slow s,
                   sn_pending_frames = PendingFrameSize s (SharedFramesFor (sub_stream_id s) fs)\<rparr>)"

text \<open>The frames of the cache that precede the subscriber's first live frame.\<close>

fun GopFramesLoop :: "nat \<Rightarrow> CachedFrame list \<Rightarrow> MediaFrame list" where
  "GopFramesLoop start_sequence [] = []"
| "GopFramesLoop start_sequence (f # fs) =
     (if cf_sequence f \<ge> start_sequence then GopFramesLoop start_sequence fs
      else CopyFrameForSubscription (cf_payload f) (cf_duration_us f) # GopFramesLoop start_sequence fs)"

definition GetSubscriptionStart :: "nat \<Rightarrow> MediaStreamInfo \<Rightarrow> FrameSubscribers \<Rightarrow> SubscriptionStart" where
  "GetSubscriptionStart subscription_id stream_info fs =
     (case map_of (fs_subscribers fs) subscription_id of
        None \<Rightarrow> \<lparr>ss_track_ready = False, ss_gop_complete = False, ss_generation = 0, ss_stream_info = None,
                ss_gop_frames = []\<rparr>
      | Some s \<Rightarrow>
          let cache = CacheFor (sub_stream_id s) fs;
              gop_complete = (sc_complete cache \<and> sub_start_gop_version s = sc_gop_version cache)
          in \<lparr>ss_track_ready = si_track_ready stream_info, ss_gop_complete = gop_complete,
              ss_generation = sub_stream_reset_version s, ss_stream_info = Some stream_info,
              ss_gop_frames = (if gop_complete
                then GopFramesLoop (sub_start_sequence s) (take (sc_size cache) (sc_frames cache)) else [])\<rparr>)"

definition MarkSubscriberSlow :: "SharedFrames \<Rightarrow> FrameSubscriber \<Rightarrow> FrameSubscriber" where
  "MarkSubscriberSlow frames subscriber =
     subscriber\<lparr>sub_slow := True, sub_wait_keyframe := True, sub_close_reason := CloseCacheOverflow,
                sub_next_sequence := q_first_sequence frames\<rparr>"

definition CountSlowSubscriber :: "FrameSubscriber \<Rightarrow> FrameSubscribers \<Rightarrow> FrameSubscribers" where
  "CountSlowSubscriber subscriber fs =
     (if sub_slow subscriber then fs
      else if sub_stream_id subscriber = StreamMain then fs\<lparr>fs_main_subscriber_drops := fs_main_subscriber_drops fs + 1\<rparr>
      else if sub_stream_id subscriber = StreamSub then fs\<lparr>fs_sub_subscriber_drops := fs_sub_subscriber_drops fs + 1\<rparr>
      else fs)"

function PullLoop :: "SharedFrames \<Rightarrow> nat \<Rightarrow> FrameSubscriber \<Rightarrow> FrameSubscriber \<times> CachedFrame option" where
  "PullLoop frames sequence subscriber =
     (if sequence < q_next_sequence frames then
        let sequence = max sequence (q_first_sequence frames) in
        (case Queue_Read sequence frames of
           None \<Rightarrow> (subscriber, None)
         | Some source \<Rightarrow>
             if sub_wait_keyframe subscriber \<and> \<not> cf_keyframe source
             then PullLoop frames (sequence + 1) (subscriber\<lparr>sub_next_sequence := sequence + 1\<rparr>)
             else (subscriber\<lparr>sub_wait_keyframe := False, sub_slow := False, sub_close_reason := CloseNone,
                              sub_next_sequence := sequence + 1\<rparr>,
                   Some (source\<lparr>cf_starts_on_keyframe := sub_wait_keyframe subscriber \<and> cf_keyframe source\<rparr>)))
      else (subscriber, None))"
  by pat_completeness auto
termination
  by (relation "measure (\<lambda>(frames, sequence, subscriber). q_next_sequence frames - sequence)") auto

declare PullLoop.simps [simp del]

definition PullSharedFrame :: "SharedFrames \<Rightarrow> FrameSubscriber \<Rightarrow> FrameSubscriber \<times> CachedFrame option" where
  "PullSharedFrame frames subscriber =
     (let subscriber = (if sub_next_sequence subscriber < q_first_sequence frames
                        then MarkSubscriberSlow frames subscriber else subscriber)
      in if q_size frames = 0 then (subscriber, None)
         else if sub_next_sequence subscriber \<ge> q_next_sequence frames then (subscriber, None)
         else PullLoop frames (sub_next_sequence subscriber) subscriber)"

definition PullFrame :: "nat \<Rightarrow> FrameSubscribers \<Rightarrow> FrameSubscribers \<times> SubscriptionFrame option" where
  "PullFrame subscription_id fs =
     (case map_of (fs_subscribers fs) subscription_id of
        None \<Rightarrow> (fs, None)
      | Some subscriber \<Rightarrow>
          let frames = SharedFramesFor (sub_stream_id subscriber) fs;
              fs = (if sub_next_sequence subscriber < q_first_sequence frames
                    then CountSlowSubscriber subscriber fs else fs)
          in case PullSharedFrame frames subscriber of
               (subscriber, result) \<Rightarrow>
                 (fs\<lparr>fs_subscribers := AList.update subscription_id subscriber (fs_subscribers fs)\<rparr>,
                  case result of
                    None \<Rightarrow> None
                  | Some cached_frame \<Rightarrow>
                      Some \<lparr>sf_subscription_id = subscription_id,
                            sf_generation = sub_stream_reset_version subscriber,
                            sf_starts_on_keyframe = cf_starts_on_keyframe cached_frame,
                            sf_frame = CopyFrameForSubscription (cf_payload cached_frame)
                                         (cf_duration_us cached_frame)\<rparr>))"

definition ResetSubscriberForStream ::
  "StreamCache \<Rightarrow> SharedFrames \<Rightarrow> SubscriptionClose \<Rightarrow> FrameSubscriber \<Rightarrow> FrameSubscriber" where
  "ResetSubscriberForStream cache frames reason subscriber =
     subscriber\<lparr>sub_wait_keyframe := True, sub_slow := False, sub_next_sequence := q_next_sequence frames,
                sub_stream_reset_version := sc_stream_reset_version cache, sub_close_reason := reason\<rparr>"

definition Subscribers_Clear :: "FrameSubscribers \<Rightarrow> FrameSubscribers" where
  "Subscribers_Clear fs =
     (ResetStats
       (fs\<lparr>fs_subscribers := [],
           fs_main_cache := ClearCache (fs_main_cache fs), fs_sub_cache := ClearCache (fs_sub_cache fs),
           fs_main_shared_frames := Queue_Clear empty_frame (fs_main_shared_frames fs),
           fs_sub_shared_frames := Queue_Clear empty_frame (fs_sub_shared_frames fs)\<rparr>))
     \<lparr>fs_next_subscription_id := 1\<rparr>"

definition ClearStream :: "StreamId \<Rightarrow> SubscriptionClose \<Rightarrow> FrameSubscribers \<Rightarrow> FrameSubscribers" where
  "ClearStream stream reason fs =
     (let cache = ClearCache (CacheFor stream fs);
          cache = cache\<lparr>sc_stream_reset_version := sc_stream_reset_version cache + 1\<rparr>;
          frames = Queue_Clear empty_frame (SharedFramesFor stream fs);
          fs = SetSharedFrames stream frames (SetCache stream cache fs)
      in fs\<lparr>fs_subscribers := map (\<lambda>(i, s). (i, if sub_stream_id s = stream
              then ResetSubscriberForStream cache frames reason s else s)) (fs_subscribers fs)\<rparr>)"

section \<open>Statistics\<close>

definition SubscriberSize :: "FrameSubscribers \<Rightarrow> nat" where
  "SubscriberSize fs = length (fs_subscribers fs)"

definition SlowSubscriberSize :: "FrameSubscribers \<Rightarrow> nat" where
  "SlowSubscriberSize fs = length (filter (\<lambda>(i, s). sub_slow s) (fs_subscribers fs))"

definition SlowSubscriberSizeOf :: "StreamId \<Rightarrow> FrameSubscribers \<Rightarrow> nat" where
  "SlowSubscriberSizeOf stream fs =
     length (filter (\<lambda>(i, s). sub_stream_id s = stream \<and> sub_slow s) (fs_subscribers fs))"

definition CachedFrameSize :: "FrameSubscribers \<Rightarrow> nat" where
  "CachedFrameSize fs = (sc_size (fs_main_cache fs) + sc_size (fs_sub_cache fs)
     + q_size (fs_main_shared_frames fs) + q_size (fs_sub_shared_frames fs)) mod 2 ^ 32"

definition CachedBytes :: "FrameSubscribers \<Rightarrow> nat" where
  "CachedBytes fs = u32_add (u32_add (u32_add (sc_bytes (fs_main_cache fs)) (sc_bytes (fs_sub_cache fs)))
     (q_bytes (fs_main_shared_frames fs))) (q_bytes (fs_sub_shared_frames fs))"

definition CachedBytesOf :: "StreamId \<Rightarrow> FrameSubscribers \<Rightarrow> nat" where
  "CachedBytesOf stream fs =
     (case (FindCache stream fs, FindSharedFrames stream fs) of
        (Some cache, Some frames) \<Rightarrow> u32_add (sc_bytes cache) (q_bytes frames) | _ \<Rightarrow> 0)"

definition SharedBytes :: "StreamId \<Rightarrow> FrameSubscribers \<Rightarrow> nat" where
  "SharedBytes stream fs = (case FindSharedFrames stream fs of None \<Rightarrow> 0 | Some frames \<Rightarrow> q_bytes frames)"

definition LastFrameTimestamp :: "StreamId \<Rightarrow> FrameSubscribers \<Rightarrow> int" where
  "LastFrameTimestamp stream fs =
     (case FindCache stream fs of None \<Rightarrow> 0 | Some cache \<Rightarrow> sc_last_frame_timestamp_us cache)"

definition CacheDropSize :: "StreamId \<Rightarrow> FrameSubscribers \<Rightarrow> nat" where
  "CacheDropSize stream fs =
     (if stream = StreamMain then fs_main_cache_drops fs
      else if stream = StreamSub then fs_sub_cache_drops fs else 0)"

definition SubscriberDropSize :: "StreamId \<Rightarrow> FrameSubscribers \<Rightarrow> nat" where
  "SubscriberDropSize stream fs =
     (if stream = StreamMain then fs_main_subscriber_drops fs
      else if stream = StreamSub then fs_sub_subscriber_drops fs else 0)"

section \<open>Reading the shared queue\<close>

lemma PullLoop_Some:
  assumes "queue_inv q" and "PullLoop q s sub = (sub', Some f)"
  shows "\<exists>n f0. max s (q_first_sequence q) \<le> n \<and> Queue_Read n q = Some f0
     \<and> f = f0\<lparr>cf_starts_on_keyframe := sub_wait_keyframe sub\<rparr>
     \<and> sub' = sub\<lparr>sub_wait_keyframe := False, sub_slow := False, sub_close_reason := CloseNone, sub_next_sequence := n + 1\<rparr>
     \<and> (if sub_wait_keyframe sub then cf_keyframe f0 else n = max s (q_first_sequence q))
     \<and> (\<forall>m g. max s (q_first_sequence q) \<le> m \<and> m < n \<and> Queue_Read m q = Some g \<longrightarrow> \<not> cf_keyframe g)"
  using assms(2)
proof (induction q s sub rule: PullLoop.induct)
  case (1 q s sub)
  let ?s = "max s (q_first_sequence q)"
  from 1(2) obtain f0 where lt: "s < q_next_sequence q" and read: "Queue_Read ?s q = Some f0"
    by (subst (asm) PullLoop.simps) (auto simp: Let_def split: if_splits option.splits)
  show ?case
  proof (cases "sub_wait_keyframe sub \<and> \<not> cf_keyframe f0")
    case False
    with 1(2) lt read have
      "sub' = sub\<lparr>sub_wait_keyframe := False, sub_slow := False, sub_close_reason := CloseNone, sub_next_sequence := ?s + 1\<rparr>"
      "f = f0\<lparr>cf_starts_on_keyframe := sub_wait_keyframe sub \<and> cf_keyframe f0\<rparr>"
      by (subst (asm) PullLoop.simps, simp add: Let_def)+
    with False read show ?thesis by (intro exI [of _ ?s] exI [of _ f0]) auto
  next
    case True
    let ?sub = "sub\<lparr>sub_next_sequence := ?s + 1\<rparr>"
    from 1(2) lt read True have "PullLoop q (?s + 1) ?sub = (sub', Some f)"
      by (subst (asm) PullLoop.simps) (simp add: Let_def)
    from 1(1) [OF lt refl read True this] obtain n g where
      n: "max (?s + 1) (q_first_sequence q) \<le> n" "Queue_Read n q = Some g"
        "f = g\<lparr>cf_starts_on_keyframe := sub_wait_keyframe ?sub\<rparr>"
        "sub' = ?sub\<lparr>sub_wait_keyframe := False, sub_slow := False, sub_close_reason := CloseNone, sub_next_sequence := n + 1\<rparr>"
        "if sub_wait_keyframe ?sub then cf_keyframe g else n = max (?s + 1) (q_first_sequence q)"
      and skip: "\<And>m g. max (?s + 1) (q_first_sequence q) \<le> m \<and> m < n \<and> Queue_Read m q = Some g \<Longrightarrow> \<not> cf_keyframe g"
      by blast
    have "\<not> cf_keyframe h" if "?s \<le> m" "m < n" "Queue_Read m q = Some h" for m h
    proof (cases "m = ?s")
      case False
      with that have "max (?s + 1) (q_first_sequence q) \<le> m" by linarith
      with that skip show ?thesis by blast
    qed (use that read True in simp)
    with n True show ?thesis by (intro exI [of _ n] exI [of _ g]) auto
  qed
qed

lemma PullLoop_None:
  assumes "queue_inv q" and "PullLoop q s sub = (sub', None)" and "s \<le> n" and "Queue_Read n q = Some g"
  shows "sub_wait_keyframe sub \<and> \<not> cf_keyframe g"
  using assms
proof (induction q s sub rule: PullLoop.induct)
  case (1 q s sub)
  let ?s = "max s (q_first_sequence q)"
  have n: "q_first_sequence q \<le> n" "n < q_next_sequence q"
    using 1(5) Queue_Read_item [OF 1(2), of n] by (auto split: if_splits)
  with 1(4) have lt: "s < q_next_sequence q" and "?s < q_next_sequence q" by auto
  then obtain f0 where read: "Queue_Read ?s q = Some f0"
    using Queue_Read_item [OF 1(2), of ?s] by simp
  have wait: "sub_wait_keyframe sub \<and> \<not> cf_keyframe f0"
    using 1(3) lt read by (subst (asm) PullLoop.simps) (auto simp: Let_def split: if_splits)
  let ?sub = "sub\<lparr>sub_next_sequence := ?s + 1\<rparr>"
  from 1(3) lt read wait have rest: "PullLoop q (?s + 1) ?sub = (sub', None)"
    by (subst (asm) PullLoop.simps) (simp add: Let_def)
  show ?case
  proof (cases "n = ?s")
    case False
    with n 1(4) have "?s + 1 \<le> n" by linarith
    from 1(1) [OF lt refl read wait 1(2) rest this 1(5)] show ?thesis by simp
  qed (use wait read 1(5) in simp)
qed


definition sample_queue :: "bool list \<Rightarrow> SharedFrames" where
  "sample_queue ks = push_all empty_frame (map (\<lambda>k. (empty_frame\<lparr>cf_keyframe := k\<rparr>, 1)) ks) (new_queue empty_frame 4)"

definition sample_subscriber :: FrameSubscriber where
  "sample_subscriber = \<lparr>sub_stream_id = StreamMain, sub_keyframe_first = True, sub_wait_keyframe = True,
     sub_slow = False, sub_start_sequence = 1, sub_start_gop_version = 0, sub_next_sequence = 1,
     sub_stream_reset_version = 0, sub_close_reason = CloseNone\<rparr>"


section \<open>The invariant of a stream\<close>

definition cached_frames :: "StreamCache \<Rightarrow> CachedFrame list" where
  "cached_frames c = take (sc_size c) (sc_frames c)"

definition cache_inv :: "nat \<Rightarrow> StreamCache \<Rightarrow> bool" where
  "cache_inv n c \<longleftrightarrow> length (sc_frames c) = kMaxCachedGopFrames \<and> sc_size c \<le> kMaxCachedGopFrames
     \<and> (sc_complete c \<longleftrightarrow> sc_size c \<noteq> 0) \<and> sc_size c \<le> n
     \<and> map cf_sequence (cached_frames c) = [n - sc_size c..<n]
     \<and> map cf_keyframe (cached_frames c) = map (\<lambda>i. i = 0) [0..<sc_size c]
     \<and> (\<forall>f \<in> set (drop (sc_size c) (sc_frames c)). cf_bytes f = 0)
     \<and> sc_bytes c = sum_list (map cf_bytes (cached_frames c)) \<and> sc_bytes c \<le> UINT32_MAX"

text \<open>The queue and the cache of a stream agree on the numbers: the cache ends where the queue ends.\<close>

definition lane_inv :: "SharedFrames \<Rightarrow> StreamCache \<Rightarrow> bool" where
  "lane_inv q c \<longleftrightarrow> queue_inv q \<and> reader_queue.numbered cf_sequence q \<and> cache_inv (q_next_sequence q) c"

definition subscribers_inv :: "FrameSubscribers \<Rightarrow> bool" where
  "subscribers_inv fs \<longleftrightarrow>
     lane_inv (fs_main_shared_frames fs) (fs_main_cache fs) \<and> lane_inv (fs_sub_shared_frames fs) (fs_sub_cache fs)
     \<and> fo_max_gop_bytes (fs_options fs) \<le> UINT32_MAX \<and> fo_max_shared_bytes (fs_options fs) \<le> UINT32_MAX"

lemma subscribers_inv_lane:
  "subscribers_inv fs \<longleftrightarrow> (\<forall>st. lane_inv (SharedFramesFor st fs) (CacheFor st fs))
     \<and> fo_max_gop_bytes (fs_options fs) \<le> UINT32_MAX \<and> fo_max_shared_bytes (fs_options fs) \<le> UINT32_MAX"
  by (auto simp: subscribers_inv_def SharedFramesFor_def CacheFor_def)

lemma lanes [simp]:
  "CacheFor st (SetCache st c fs) = c" "SharedFramesFor st (SetCache st' c fs) = SharedFramesFor st fs"
  "SharedFramesFor st (SetSharedFrames st q fs) = q" "CacheFor st (SetSharedFrames st' q fs) = CacheFor st fs"
  "fs_options (SetCache st c fs) = fs_options fs" "fs_options (SetSharedFrames st q fs) = fs_options fs"
  "SetCache st c (SetCache st c' fs) = SetCache st c fs"
  by (simp_all add: CacheFor_def SetCache_def SharedFramesFor_def SetSharedFrames_def)

lemma cache_inv_Clear: "length (sc_frames c) = kMaxCachedGopFrames \<Longrightarrow> cache_inv n (ClearCache c)"
  by (auto simp: cache_inv_def ClearCache_def cached_frames_def empty_frame_def)

lemma cache_inv_meta:
  "cache_inv n (c\<lparr>sc_gop_version := v\<rparr>) = cache_inv n c"
  "cache_inv n (c\<lparr>sc_stream_reset_version := v\<rparr>) = cache_inv n c"
  "cache_inv n (c\<lparr>sc_last_dts_us := d, sc_last_frame_timestamp_us := d'\<rparr>) = cache_inv n c"
  by (simp_all add: cache_inv_def cached_frames_def)

lemma cache_inv_idle: "cache_inv n c \<Longrightarrow> \<not> sc_complete c \<Longrightarrow> cache_inv m c"
  by (auto simp: cache_inv_def cached_frames_def)

lemma cache_inv_new: "cache_inv n new_cache"
  by (auto simp: cache_inv_def new_cache_def cached_frames_def empty_frame_def dest: in_set_dropD)

lemma lane_inv_new: "lane_inv (new_queue empty_frame kMaxSharedFrames) new_cache"
  using queue_inv_new [of kMaxSharedFrames empty_frame]
  by (simp add: lane_inv_def cache_inv_new kMaxSharedFrames_def reader_queue.numbered_def)
    (simp add: new_queue_def)

lemma subscribers_inv_new: "subscribers_inv new_subscribers"
  by (simp add: subscribers_inv_def new_subscribers_def lane_inv_new)

text \<open>Appending a frame with the next number keeps the cache consecutive.\<close>

lemma cache_inv_push:
  assumes len: "length (sc_frames c) = kMaxCachedGopFrames" and room: "sc_size c < kMaxCachedGopFrames"
    and complete: "sc_complete c" and size: "sc_size c \<le> n"
    and seqs: "map cf_sequence (cached_frames c) = [n - sc_size c..<n]"
    and keys: "map cf_keyframe (cached_frames c) = map (\<lambda>i. i = 0) [0..<sc_size c]"
    and unused: "\<forall>f \<in> set (drop (sc_size c) (sc_frames c)). cf_bytes f = 0"
    and bytes: "sc_bytes c = sum_list (map cf_bytes (cached_frames c))" "sc_bytes c + cf_bytes cell \<le> UINT32_MAX"
    and cell: "cf_sequence cell = n" "cf_keyframe cell \<longleftrightarrow> sc_size c = 0"
  shows "cache_inv (Suc n) (c\<lparr>sc_frames := (sc_frames c)[sc_size c := cell],
     sc_bytes := u32_add (u32_sub (sc_bytes c) (cf_bytes (sc_frames c ! sc_size c))) (cf_bytes cell),
     sc_size := sc_size c + 1\<rparr>)" (is "cache_inv _ ?c")
proof -
  have frames: "cached_frames ?c = cached_frames c @ [cell]"
    using room len by (simp add: cached_frames_def take_Suc_conv_app_nth)
  have lt: "sc_size c < length (sc_frames c)" using room len by simp
  then have "sc_frames c ! sc_size c \<in> set (drop (sc_size c) (sc_frames c))"
    by (metis Cons_nth_drop_Suc list.set_intros(1))
  with unused have zero: "cf_bytes (sc_frames c ! sc_size c) = 0" by blast
  have "drop (Suc (sc_size c)) ((sc_frames c)[sc_size c := cell]) = drop (Suc (sc_size c)) (sc_frames c)"
    by simp
  moreover have "set (drop (Suc (sc_size c)) (sc_frames c)) \<subseteq> set (drop (sc_size c) (sc_frames c))"
    by (simp add: set_drop_subset_set_drop)
  ultimately have rest: "\<forall>f \<in> set (drop (sc_size ?c) (sc_frames ?c)). cf_bytes f = 0" using unused by auto
  have sum: "sc_bytes ?c = sc_bytes c + cf_bytes cell"
    using bytes(2) zero by (simp add: u32_sub_exact u32_add_exact)
  have upt: "[Suc n - sc_size ?c..<Suc n] = [n - sc_size c..<n] @ [n]" using size by simp
  show ?thesis
    unfolding cache_inv_def frames
  proof (intro conjI)
    show "map cf_sequence (cached_frames c @ [cell]) = [Suc n - sc_size ?c..<Suc n]"
      unfolding upt map_append seqs by (simp add: cell)
    show "map cf_keyframe (cached_frames c @ [cell]) = map (\<lambda>i. i = 0) [0..<sc_size ?c]"
      unfolding map_append keys by (simp add: cell)
    show "sc_bytes ?c = sum_list (map cf_bytes (cached_frames c @ [cell]))" "sc_bytes ?c \<le> UINT32_MAX"
      unfolding sum using bytes by simp_all
    show "\<forall>f \<in> set (drop (sc_size ?c) (sc_frames ?c)). cf_bytes f = 0" by (rule rest)
  qed (use len room complete size in simp_all)
qed

text \<open>The two byte tests of the code are one comparison without wrap-around.\<close>

lemma gop_bytes_test:
  assumes "max_bytes \<le> UINT32_MAX" and "bytes \<le> UINT32_MAX"
  shows "max_bytes < fb \<or> u32_sub max_bytes fb < bytes \<longleftrightarrow> \<not> bytes + fb \<le> max_bytes"
  using assms by (cases "fb \<le> max_bytes") (auto simp: u32_sub_exact)

lemma AppendToCache_cache:
  assumes inv: "cache_inv n (CacheFor st fs)" and opt: "fo_max_gop_bytes (fs_options fs) \<le> UINT32_MAX"
  shows "cache_inv (Suc n) (CacheFor st (fst (AppendToCache st n keyframe duration frame fs)))"
proof -
  define c where "c = (if keyframe then (ClearCache (CacheFor st fs))\<lparr>sc_complete := True,
      sc_gop_version := sc_gop_version (CacheFor st fs) + 1\<rparr> else CacheFor st fs)"
  define cell where "cell = \<lparr>cf_sequence = n, cf_payload = frame, cf_keyframe = keyframe,
      cf_starts_on_keyframe = False, cf_duration_us = duration, cf_bytes = FrameBytes frame\<rparr>"
  let ?fit = "sc_size c < min (fo_max_gop_frames (fs_options fs)) (length (sc_frames c))
      \<and> sc_bytes c + FrameBytes frame \<le> fo_max_gop_bytes (fs_options fs)"
  have c: "length (sc_frames c) = kMaxCachedGopFrames" "sc_size c \<le> n"
      "map cf_sequence (cached_frames c) = [n - sc_size c..<n]"
      "map cf_keyframe (cached_frames c) = map (\<lambda>i. i = 0) [0..<sc_size c]"
      "\<forall>f \<in> set (drop (sc_size c) (sc_frames c)). cf_bytes f = 0"
      "sc_bytes c = sum_list (map cf_bytes (cached_frames c))" "sc_bytes c \<le> UINT32_MAX"
      "if keyframe then sc_complete c \<and> sc_size c = 0 else c = CacheFor st fs \<and> (sc_complete c \<longleftrightarrow> sc_size c \<noteq> 0)"
    using inv cache_inv_Clear [of "CacheFor st fs" n]
    by (auto simp: c_def cache_inv_def cached_frames_def ClearCache_def empty_frame_def)
  have app: "fst (AppendToCache st n keyframe duration frame fs) =
      (if \<not> sc_complete c then SetCache st c fs
       else if \<not> ?fit then DropCache st (SetCache st c fs)
       else SetCache st (c\<lparr>sc_frames := (sc_frames c)[sc_size c := cell],
         sc_bytes := u32_add (u32_sub (sc_bytes c) (cf_bytes (sc_frames c ! sc_size c))) (cf_bytes cell),
         sc_size := sc_size c + 1\<rparr>) fs)"
    using gop_bytes_test [OF opt c(7), of "FrameBytes frame"]
    by (auto simp: AppendToCache_def c_def [symmetric] cell_def CachedFrameBytes_def Let_def)
  consider "\<not> sc_complete c" | "sc_complete c" "\<not> ?fit" | "sc_complete c" "?fit" by blast
  then show ?thesis
  proof cases
    case 1
    with c(8) have "c = CacheFor st fs" by (auto split: if_splits)
    with 1 inv show ?thesis by (simp add: app cache_inv_idle)
  next
    case 2
    then show ?thesis
      by (simp add: app DropCache_def Let_def cache_inv_meta cache_inv_Clear c(1)) (simp add: CacheFor_def SetCache_def
          cache_inv_Clear c(1))
  next
    case 3
    have cell: "cf_sequence cell = n" "cf_keyframe cell \<longleftrightarrow> sc_size c = 0" "cf_bytes cell = FrameBytes frame"
      using c(8) 3(1) by (auto simp: cell_def split: if_splits)
    have "sc_size c < kMaxCachedGopFrames" and "sc_bytes c + cf_bytes cell \<le> UINT32_MAX"
      using 3(2) opt c(1) cell(3) by auto
    note push = cache_inv_push [OF c(1) this(1) 3(1) c(2-6) this(2) cell(1,2)]
    show ?thesis unfolding app using 3 push by simp
  qed
qed

lemma AppendToCache_frame:
  assumes "AppendToCache st n keyframe duration frame fs = (fs', ok)"
  shows "fs_options fs' = fs_options fs" and "SharedFramesFor st' fs' = SharedFramesFor st' fs"
    and "(st' = StreamMain) \<noteq> (st = StreamMain) \<Longrightarrow> CacheFor st' fs' = CacheFor st' fs"
  using assms
  by (auto simp: AppendToCache_def DropCache_def Let_def SetCache_def SharedFramesFor_def CacheFor_def
      split: if_splits)

lemma Write_inv:
  assumes "subscribers_inv fs" and "FrameBytes frame \<le> UINT32_MAX"
  shows "subscribers_inv (Subscribers_Write frame fs)"
proof (cases "IsMediaFramePayloadValid (fp_frame frame)")
  case False
  with assms(1) show ?thesis by (simp add: Subscribers_Write_def Let_def)
next
  case True
  define st where "st = stream_id (fp_frame frame)"
  define q where "q = SharedFramesFor st fs"
  define key where "key = (frame_type (fp_frame frame) = FrameIdr \<or> frame_type (fp_frame frame) = FrameI)"
  define dur where "dur = EstimateFrameDuration (CacheFor st fs) frame"
  define v where "v = \<lparr>cf_sequence = q_next_sequence q, cf_payload = frame, cf_keyframe = key,
      cf_starts_on_keyframe = False, cf_duration_us = dur, cf_bytes = FrameBytes frame\<rparr>"
  from assms(1) have lane: "lane_inv q (CacheFor st fs)" and opt: "fo_max_gop_bytes (fs_options fs) \<le> UINT32_MAX"
    by (simp_all add: subscribers_inv_lane q_def)
  then have qinv: "queue_inv q" and num: "reader_queue.numbered cf_sequence q"
    and cinv: "cache_inv (q_next_sequence q) (CacheFor st fs)"
    by (simp_all add: lane_inv_def)
  obtain q' n ok where push: "Queue_Push empty_frame v (FrameBytes frame) q = (q', n, ok)" by (metis prod.exhaust)
  have q': "q' = push_queue empty_frame v (FrameBytes frame) q" by (simp add: push_queue_def push)
  note spec = Queue_Push_spec [OF qinv push]
  define fs1 where "fs1 = SetSharedFrames st q' fs"
  obtain fs2 app where append: "AppendToCache st n key dur frame fs1 = (fs2, app)" by fastforce
  note fr = AppendToCache_frame [OF append]
  have c2: "cache_inv (q_next_sequence q') (CacheFor st fs2)"
    using AppendToCache_cache [of n st fs1 key dur frame] cinv opt spec append by (simp add: fs1_def)
  have "reader_queue.numbered cf_sequence q'"
    unfolding q' using reader_queue.push_numbered [OF qinv num, of v] by (simp add: v_def)
  with spec c2 have lane2: "lane_inv q' (CacheFor st fs2)" by (simp add: lane_inv_def)
  define d where "d = dts_us (fp_frame frame)"
  define fs3 where "fs3 = SetCache st ((CacheFor st fs2)\<lparr>sc_last_dts_us := d, sc_last_frame_timestamp_us := d\<rparr>) fs2"
  have res: "Subscribers_Write frame fs = fs3"
    using True push append
    by (simp add: Subscribers_Write_def PushSharedFrame_def Let_def st_def q_def key_def dur_def v_def fs1_def
        fs3_def d_def)
  have "lane_inv (SharedFramesFor st' fs3) (CacheFor st' fs3)" for st'
  proof (cases "(st' = StreamMain) = (st = StreamMain)")
    case True
    then have "SharedFramesFor st' fs3 = SharedFramesFor st fs3" "CacheFor st' fs3 = CacheFor st fs3"
      by (auto simp: SharedFramesFor_def CacheFor_def)
    with lane2 show ?thesis by (simp add: fs3_def fr(2) fs1_def lane_inv_def cache_inv_meta)
  next
    case False
    then have "SharedFramesFor st' fs3 = SharedFramesFor st' fs" "CacheFor st' fs3 = CacheFor st' fs"
      using fr(2,3) [of st'] by (auto simp: fs3_def fs1_def SharedFramesFor_def CacheFor_def SetCache_def SetSharedFrames_def)
    then show ?thesis using assms(1) by (simp add: subscribers_inv_lane)
  qed
  then show ?thesis using assms(1) fr(1) by (simp add: res subscribers_inv_lane) (simp add: fs3_def fs1_def)
qed

section \<open>All reachable states\<close>

text \<open>The calls of the public interface in any order; sizes and limits are \<open>uint32_t\<close> values.\<close>

inductive reachable :: "FrameSubscribers \<Rightarrow> bool" where
  step_start: "reachable new_subscribers"
| step_configure: "\<lbrakk>reachable fs; fo_max_gop_bytes options \<le> UINT32_MAX; fo_max_shared_bytes options \<le> UINT32_MAX\<rbrakk>
    \<Longrightarrow> reachable (Subscribers_Configure options fs)"
| step_write: "\<lbrakk>reachable fs; FrameBytes frame \<le> UINT32_MAX\<rbrakk> \<Longrightarrow> reachable (Subscribers_Write frame fs)"
| step_subscribe: "reachable fs \<Longrightarrow> reachable (fst (SubscribeFrames so max_subscriptions fs))"
| step_unsubscribe: "reachable fs \<Longrightarrow> reachable (fst (UnsubscribeFrames subscription_id reason fs))"
| step_pull: "reachable fs \<Longrightarrow> reachable (fst (PullFrame subscription_id fs))"
| step_clear: "reachable fs \<Longrightarrow> reachable (Subscribers_Clear fs)"
| step_clear_stream: "reachable fs \<Longrightarrow> reachable (ClearStream stream reason fs)"

text \<open>Two states with the same streams and limits.\<close>

definition same_streams :: "FrameSubscribers \<Rightarrow> FrameSubscribers \<Rightarrow> bool" where
  "same_streams fs fs' \<longleftrightarrow> fs_main_cache fs' = fs_main_cache fs \<and> fs_sub_cache fs' = fs_sub_cache fs
     \<and> fs_main_shared_frames fs' = fs_main_shared_frames fs \<and> fs_sub_shared_frames fs' = fs_sub_shared_frames fs
     \<and> fs_options fs' = fs_options fs"

lemma same_streams_inv: "same_streams fs fs' \<Longrightarrow> subscribers_inv fs \<Longrightarrow> subscribers_inv fs'"
  by (simp add: same_streams_def subscribers_inv_def)

lemma same_streams_ops:
  "same_streams fs (fst (SubscribeFrames so m fs))" "same_streams fs (fst (UnsubscribeFrames i r fs))"
  "same_streams fs (fst (PullFrame i fs))"
  by (auto simp: same_streams_def SubscribeFrames_def UnsubscribeFrames_def PullFrame_def CountSlowSubscriber_def
      Let_def split: option.split prod.split)

lemma lane_inv_Clear: "lane_inv q c \<Longrightarrow> lane_inv (Queue_Clear empty_frame q) (ClearCache c)"
  using queue_inv_Clear [of q empty_frame]
  by (auto simp: lane_inv_def queue_inv_def [of q] cache_inv_Clear cache_inv_def [of _ c] reader_queue.numbered_def)

lemma lane_inv_Configure:
  "lane_inv q c \<Longrightarrow> b \<le> UINT32_MAX \<Longrightarrow> lane_inv (Queue_Configure m b q) c"
  using queue_inv_Configure [of q b m]
  by (auto simp: lane_inv_def reader_queue.numbered_def queue_items_def) (simp_all add: Queue_Configure_def)

lemma ClearStream_inv: "subscribers_inv fs \<Longrightarrow> subscribers_inv (ClearStream stream reason fs)"
  using lane_inv_Clear [of "SharedFramesFor stream fs" "CacheFor stream fs"]
  by (auto simp: subscribers_inv_def ClearStream_def Let_def SetCache_def SetSharedFrames_def CacheFor_def
      SharedFramesFor_def lane_inv_def cache_inv_meta)

lemma reachable_inv: "reachable fs \<Longrightarrow> subscribers_inv fs"
proof (induction rule: reachable.induct)
  case step_start
  show ?case by (rule subscribers_inv_new)
next
  case (step_configure fs options)
  then show ?case by (simp add: subscribers_inv_def Subscribers_Configure_def lane_inv_Configure)
next
  case (step_write fs frame)
  then show ?case by (simp add: Write_inv)
next
  case (step_clear fs)
  then show ?case by (simp add: subscribers_inv_def Subscribers_Clear_def ResetStats_def lane_inv_Clear)
next
  case (step_clear_stream fs stream reason)
  then show ?case by (simp add: ClearStream_inv)
qed (auto intro: same_streams_inv same_streams_ops)

text \<open>
  Claim C28. In every state that the public interface of \<open>FrameSubscribers\<close> can reach, for both streams: the
  shared queue is well formed and its frames carry consecutive sequence numbers; the cached group of
  pictures is empty or starts with a keyframe and contains no other, its frames carry consecutive
  numbers ending where the queue ends, and the byte counter is exact.
\<close>

theorem subscribers_reachable_inv: "reachable fs \<Longrightarrow> subscribers_inv fs"
  by (rule reachable_inv)

theorem subscribers_reachable_inv_witness:
  "subscribers_inv (fst (SubscribeFrames \<lparr>so_stream_id = StreamMain, so_keyframe_first = True\<rparr> 8
     (ClearStream StreamSub CloseCodecChanged new_subscribers)))"
  by (intro subscribers_reachable_inv reachable.intros)

definition frame_of :: "FrameType \<Rightarrow> FramePayload" where
  "frame_of t = empty_frame_payload\<lparr>fp_frame := empty_media_frame\<lparr>frame_type := t,
     payload := Some \<lparr>bv_addr = 0, bv_bytes = [1]\<rparr>\<rparr>\<rparr>"

lemmas subscriber_eval =
  Subscribers_Write_def frame_of_def Let_def IsMediaFramePayloadValid_def bv_size_def PushSharedFrame_def
  Queue_Push_def ActiveCapacity_def PushDropLoop.simps u32_sub_def u32_add_def AppendToCache_def SetCache_def
  CacheFor_def SharedFramesFor_def SetSharedFrames_def new_subscribers_def new_queue_def new_cache_def
  ClearCache_def SubscribeFrames_def EstimateFrameDuration_def FrameBytes_def PayloadSize_def
  CachedFrameBytes_def empty_media_frame_def empty_frame_payload_def kMaxSharedFrames_def
  kMaxCachedGopFrames_def GetSubscriptionStart_def empty_frame_def PullFrame_def PullSharedFrame_def
  PullLoop.simps Queue_Read_def CopyFrameForSubscription_def

text \<open>A subscriber that joins after a keyframe; a P frame follows.\<close>

definition joined :: FrameSubscribers where
  "joined = Subscribers_Write (frame_of FrameP)
     (fst (SubscribeFrames \<lparr>so_stream_id = StreamMain, so_keyframe_first = True\<rparr> 8
       (Subscribers_Write (frame_of FrameI) new_subscribers)))"

lemma joined_reachable: "reachable joined"
  unfolding joined_def
  by (intro reachable.intros) (simp_all add: FrameBytes_def frame_of_def PayloadSize_def bv_size_def)

definition sample_info :: MediaStreamInfo where
  "sample_info = \<lparr>si_running = True, si_track_ready = True, si_preview_codec = True, si_hls_ready = False,
     si_flv_ready = True, si_mjpeg_ready = False, si_codec = CodecH264, si_clock_rate = 90000,
     si_codec_generation = 1, si_vps = [], si_sps = [], si_pps = [], si_hls_codec = [], si_hls_segment_size = 0,
     si_hls_first_segment_sequence = 0, si_hls_last_segment_sequence = 0, si_hls_missing_segments = 0,
     si_hls_evicted_segments = 0, si_flv_sequence_header_size = 0, si_flv_last_keyframe_size = 0,
     si_hls_current_segment_size = 0, si_last_dts_us = 0, si_last_reset_reason = [], si_hls_supported = False,
     si_flv_supported = True, si_mjpeg_supported = False\<rparr>"



section \<open>A subscriber that starts on a dependent picture\<close>

text \<open>A subscriber that asked for a keyframe first joins after a keyframe; a P and an I frame follow.\<close>

definition late_start :: FrameSubscribers where
  "late_start = Subscribers_Write (frame_of FrameI) (Subscribers_Write (frame_of FrameP)
     (fst (SubscribeFrames \<lparr>so_stream_id = StreamMain, so_keyframe_first = True\<rparr> 8
       (Subscribers_Write (frame_of FrameI) new_subscribers))))"

lemma late_start_reachable: "reachable late_start"
  unfolding late_start_def
  by (intro reachable.intros) (simp_all add: FrameBytes_def frame_of_def PayloadSize_def bv_size_def)

text \<open>
  The guarantee \<open>keyframe_first\<close> can be missed: in a reachable state, a subscriber that asked to
  start on a keyframe and has not pulled anything yet is told that no group of pictures is available
  (a newer keyframe has replaced the one it joined on), and its first \<open>PullFrame\<close> returns a P frame
  that is not marked as a restart.
\<close>

lemma subscriber_starts_on_delta_frame:
  "reachable late_start
   \<and> (\<exists>s. map_of (fs_subscribers late_start) 1 = Some s \<and> sub_keyframe_first s \<and> sub_next_sequence s = sub_start_sequence s)
   \<and> \<not> ss_gop_complete (GetSubscriptionStart 1 info late_start)
   \<and> (\<exists>f. snd (PullFrame 1 late_start) = Some f \<and> frame_type (sf_frame f) = FrameP \<and> \<not> sf_starts_on_keyframe f)"
proof (intro conjI)
  show "\<exists>s. map_of (fs_subscribers late_start) 1 = Some s \<and> sub_keyframe_first s
      \<and> sub_next_sequence s = sub_start_sequence s"
    by (simp add: late_start_def subscriber_eval)
  show "\<not> ss_gop_complete (GetSubscriptionStart 1 info late_start)"
    by (simp add: late_start_def subscriber_eval)
  show "\<exists>f. snd (PullFrame 1 late_start) = Some f \<and> frame_type (sf_frame f) = FrameP \<and> \<not> sf_starts_on_keyframe f"
    by (simp add: late_start_def subscriber_eval)
qed (rule late_start_reachable)

end
