(* ===== verification/Media_Buffer.thy ===== *)
theory Media_Buffer
  imports Stream_Prelude
begin

text \<open>
  \<open>libs/media/src/media_buffer.cpp\<close> and \<open>include/media/media_buffer.h\<close>: reference-counted media
  buffers. The control blocks \<open>MediaBuffer\<close> live in a heap indexed by their address; the
  \<open>MediaBufferRef\<close> objects of the program are the entries of a list of slots, a slot that holds no
  object or an empty one being the null reference. Results of \<open>malloc\<close> and \<open>new\<close> are arguments. The
  atomic counter is a \<open>nat\<close>: it counts objects in memory, of which there are fewer than \<open>2 ^ 32\<close>.
\<close>

section \<open>State\<close>

record MediaBuffer =
  mb_data :: nat
  mb_capacity :: nat
  mb_size :: nat
  mb_refs :: nat

record MediaBufferRef =
  mr_buffer :: "nat option"
  mr_offset :: nat
  mr_size :: nat

definition null_ref :: MediaBufferRef where
  "null_ref = \<lparr>mr_buffer = None, mr_offset = 0, mr_size = 0\<rparr>"

text \<open>\<open>bs_freed\<close> records the memory blocks handed to \<open>free_callback\<close> or \<open>free\<close>, in order.\<close>

record buffers =
  bs_heap :: "nat \<Rightarrow> MediaBuffer option"
  bs_slots :: "MediaBufferRef list"
  bs_freed :: "nat list"

section \<open>Operations\<close>

definition CreateMediaBuffer :: "nat option \<Rightarrow> nat \<Rightarrow> nat \<Rightarrow> nat option \<Rightarrow> buffers \<Rightarrow> buffers \<times> nat option" where
  "CreateMediaBuffer data capacity sz node st =
     (case data of
        None \<Rightarrow> (st, None)
      | Some d \<Rightarrow>
          if capacity = 0 \<or> sz > capacity then (st, None)
          else (case node of
                  None \<Rightarrow> (st, None)
                | Some b \<Rightarrow>
                    (st\<lparr>bs_heap := (bs_heap st)(b \<mapsto>
                        \<lparr>mb_data = d, mb_capacity = capacity, mb_size = sz, mb_refs = 1\<rparr>)\<rparr>, Some b)))"

definition AddMediaBufferRef :: "nat option \<Rightarrow> buffers \<Rightarrow> buffers" where
  "AddMediaBufferRef buffer st =
     (case buffer of
        None \<Rightarrow> st
      | Some b \<Rightarrow> (case bs_heap st b of
                    None \<Rightarrow> st
                  | Some mb \<Rightarrow> st\<lparr>bs_heap := (bs_heap st)(b \<mapsto> mb\<lparr>mb_refs := mb_refs mb + 1\<rparr>)\<rparr>))"

definition ReleaseMediaBuffer :: "nat option \<Rightarrow> buffers \<Rightarrow> buffers" where
  "ReleaseMediaBuffer buffer st =
     (case buffer of
        None \<Rightarrow> st
      | Some b \<Rightarrow> (case bs_heap st b of
                    None \<Rightarrow> st
                  | Some mb \<Rightarrow>
                      if mb_refs mb \<noteq> 1
                      then st\<lparr>bs_heap := (bs_heap st)(b \<mapsto> mb\<lparr>mb_refs := mb_refs mb - 1\<rparr>)\<rparr>
                      else st\<lparr>bs_heap := (bs_heap st)(b := None), bs_freed := bs_freed st @ [mb_data mb]\<rparr>))"

definition set_slot :: "nat \<Rightarrow> MediaBufferRef \<Rightarrow> buffers \<Rightarrow> buffers" where
  "set_slot i r st = st\<lparr>bs_slots := (bs_slots st)[i := r]\<rparr>"

text \<open>Copy construction into slot \<open>i\<close> and the four other special members.\<close>

definition CopyConstruct :: "nat \<Rightarrow> nat \<Rightarrow> buffers \<Rightarrow> buffers" where
  "CopyConstruct i j st = set_slot i (bs_slots st ! j) (AddMediaBufferRef (mr_buffer (bs_slots st ! j)) st)"

definition CopyAssign :: "nat \<Rightarrow> nat \<Rightarrow> buffers \<Rightarrow> buffers" where
  "CopyAssign i j st =
     (if i = j then st
      else
        let other = bs_slots st ! j;
            st' = AddMediaBufferRef (mr_buffer other) st;
            st' = ReleaseMediaBuffer (mr_buffer (bs_slots st ! i)) st'
        in set_slot i other st')"

definition MoveConstruct :: "nat \<Rightarrow> nat \<Rightarrow> buffers \<Rightarrow> buffers" where
  "MoveConstruct i j st = set_slot j null_ref (set_slot i (bs_slots st ! j) st)"

definition MoveAssign :: "nat \<Rightarrow> nat \<Rightarrow> buffers \<Rightarrow> buffers" where
  "MoveAssign i j st =
     (if i = j then st
      else set_slot j null_ref (set_slot i (bs_slots st ! j) (ReleaseMediaBuffer (mr_buffer (bs_slots st ! i)) st)))"

definition Destroy :: "nat \<Rightarrow> buffers \<Rightarrow> buffers" where
  "Destroy i st = set_slot i null_ref (ReleaseMediaBuffer (mr_buffer (bs_slots st ! i)) st)"

definition Ref_Reset :: "nat \<Rightarrow> buffers \<Rightarrow> buffers" where
  "Ref_Reset i st = set_slot i null_ref (ReleaseMediaBuffer (mr_buffer (bs_slots st ! i)) st)"

definition Ref_Valid :: "MediaBufferRef \<Rightarrow> buffers \<Rightarrow> bool" where
  "Ref_Valid r st =
     (case mr_buffer r of
        None \<Rightarrow> False
      | Some b \<Rightarrow> (case bs_heap st b of
                    None \<Rightarrow> False
                  | Some mb \<Rightarrow> if mr_offset r > mb_size mb then False else mr_size r \<le> mb_size mb - mr_offset r))"

definition Ref_Data :: "MediaBufferRef \<Rightarrow> buffers \<Rightarrow> (nat \<times> nat) option" where
  "Ref_Data r st =
     (if \<not> Ref_Valid r st then None
      else case mr_buffer r of
        None \<Rightarrow> None
      | Some b \<Rightarrow> map_option (\<lambda>mb. (mb_data mb, mr_offset r)) (bs_heap st b))"

definition Ref_Size :: "MediaBufferRef \<Rightarrow> buffers \<Rightarrow> nat" where
  "Ref_Size r st = (if Ref_Valid r st then mr_size r else 0)"

definition Ref_Capacity :: "MediaBufferRef \<Rightarrow> buffers \<Rightarrow> nat" where
  "Ref_Capacity r st =
     (case mr_buffer r of
        None \<Rightarrow> 0
      | Some b \<Rightarrow> (case bs_heap st b of
                    None \<Rightarrow> 0
                  | Some mb \<Rightarrow> if mr_offset r > mb_capacity mb then 0 else mb_capacity mb - mr_offset r))"

definition Slice :: "nat \<Rightarrow> nat \<Rightarrow> nat \<Rightarrow> nat \<Rightarrow> buffers \<Rightarrow> buffers" where
  "Slice i j offset sz st =
     (let r = bs_slots st ! j in
      if mr_buffer r = None \<or> offset > mr_size r \<or> sz > mr_size r - offset then set_slot i null_ref st
      else set_slot i \<lparr>mr_buffer = mr_buffer r, mr_offset = u32_add (mr_offset r) offset, mr_size = sz\<rparr>
             (AddMediaBufferRef (mr_buffer r) st))"

definition SetSize :: "nat \<Rightarrow> nat \<Rightarrow> buffers \<Rightarrow> buffers \<times> bool" where
  "SetSize i sz st =
     (let r = bs_slots st ! i in
      case mr_buffer r of
        None \<Rightarrow> (st, False)
      | Some b \<Rightarrow>
          (case bs_heap st b of
             None \<Rightarrow> (st, False)
           | Some mb \<Rightarrow>
               if mr_offset r > mb_capacity mb \<or> sz > mb_capacity mb - mr_offset r then (st, False)
               else
                 let required_size = u32_add (mr_offset r) sz;
                     st = (if required_size > mb_size mb
                           then st\<lparr>bs_heap := (bs_heap st)(b \<mapsto> mb\<lparr>mb_size := required_size\<rparr>)\<rparr> else st)
                 in (set_slot i (r\<lparr>mr_size := sz\<rparr>) st, True)))"

text \<open>\<open>MediaBufferRef(MediaBuffer *)\<close> on the result of \<open>CreateMediaBuffer\<close>.\<close>

definition ref_of_buffer :: "nat option \<Rightarrow> buffers \<Rightarrow> MediaBufferRef" where
  "ref_of_buffer buffer st =
     \<lparr>mr_buffer = buffer, mr_offset = 0,
      mr_size = (case buffer of None \<Rightarrow> 0 | Some b \<Rightarrow> (case bs_heap st b of None \<Rightarrow> 0 | Some mb \<Rightarrow> mb_size mb))\<rparr>"

definition WrapExternalMemory :: "nat \<Rightarrow> nat option \<Rightarrow> nat \<Rightarrow> nat \<Rightarrow> nat option \<Rightarrow> buffers \<Rightarrow> buffers" where
  "WrapExternalMemory i data capacity sz node st =
     (case CreateMediaBuffer data capacity sz node st of
        (st', None) \<Rightarrow> set_slot i null_ref st'
      | (st', Some b) \<Rightarrow> set_slot i (ref_of_buffer (Some b) st') st')"

text \<open>\<open>Builder::Allocate\<close>: the memory is freed again when the control block cannot be created.\<close>

definition Builder_Allocate :: "nat \<Rightarrow> nat \<Rightarrow> nat option \<Rightarrow> nat option \<Rightarrow> buffers \<Rightarrow> buffers" where
  "Builder_Allocate i capacity mem node st =
     (if capacity = 0 then set_slot i null_ref st
      else case mem of
        None \<Rightarrow> set_slot i null_ref st
      | Some d \<Rightarrow>
          (case CreateMediaBuffer (Some d) capacity 0 node st of
             (st', None) \<Rightarrow> set_slot i null_ref (st'\<lparr>bs_freed := bs_freed st' @ [d]\<rparr>)
           | (st', Some b) \<Rightarrow> set_slot i (ref_of_buffer (Some b) st') st'))"

definition Builder_Resize :: "nat \<Rightarrow> nat \<Rightarrow> buffers \<Rightarrow> buffers \<times> bool" where
  "Builder_Resize i sz st = SetSize i sz st"

text \<open>\<open>Builder::Finish\<close> moves the reference of slot \<open>j\<close> into slot \<open>i\<close> and resets \<open>j\<close>.\<close>

definition Builder_Finish :: "nat \<Rightarrow> nat \<Rightarrow> buffers \<Rightarrow> buffers" where
  "Builder_Finish i j st = Ref_Reset j (MoveConstruct i j st)"

section \<open>The invariant\<close>

definition refs_to :: "nat \<Rightarrow> MediaBufferRef list \<Rightarrow> nat" where
  "refs_to b rs = length (filter (\<lambda>r. mr_buffer r = Some b) rs)"

definition ref_ok :: "(nat \<Rightarrow> MediaBuffer option) \<Rightarrow> MediaBufferRef \<Rightarrow> bool" where
  "ref_ok heap r \<longleftrightarrow> (\<forall>b. mr_buffer r = Some b \<longrightarrow>
     (\<exists>mb. heap b = Some mb \<and> mr_offset r + mr_size r \<le> mb_size mb))"

text \<open>
  Every control block is referenced as often as its counter says, and at least once; references
  stay within their buffer; a memory block belongs to one control block, and to none once freed.
  \<open>xs\<close> are references an operation holds for the moment outside the slots.
\<close>

definition held_inv :: "MediaBufferRef list \<Rightarrow> buffers \<Rightarrow> bool" where
  "held_inv xs st \<longleftrightarrow>
     (\<forall>b mb. bs_heap st b = Some mb \<longrightarrow> mb_refs mb = refs_to b (bs_slots st @ xs) \<and> mb_refs mb > 0
        \<and> mb_size mb \<le> mb_capacity mb \<and> mb_capacity mb \<le> UINT32_MAX \<and> mb_data mb \<notin> set (bs_freed st))
     \<and> (\<forall>b b' mb mb'. bs_heap st b = Some mb \<and> bs_heap st b' = Some mb' \<and> mb_data mb = mb_data mb' \<longrightarrow> b = b')
     \<and> list_all (ref_ok (bs_heap st)) (bs_slots st @ xs) \<and> distinct (bs_freed st)"

abbreviation buffers_inv :: "buffers \<Rightarrow> bool" where
  "buffers_inv st \<equiv> held_inv [] st"

lemma refs_to_simps [simp]:
  "refs_to b (rs @ xs) = refs_to b rs + refs_to b xs" "refs_to b [] = 0"
  "refs_to b (r # xs) = (if mr_buffer r = Some b then 1 else 0) + refs_to b xs"
  by (simp_all add: refs_to_def)

lemma refs_to_update:
  "i < length rs \<Longrightarrow> refs_to b (rs[i := r]) + (if mr_buffer (rs ! i) = Some b then 1 else 0)
     = refs_to b rs + (if mr_buffer r = Some b then 1 else 0)"
proof (induction rs arbitrary: i)
  case (Cons x xs)
  then show ?case by (cases i) auto
qed simp

lemma held_invI:
  assumes "\<And>b mb. bs_heap st b = Some mb \<Longrightarrow> mb_refs mb = refs_to b (bs_slots st @ xs) \<and> mb_refs mb > 0
      \<and> mb_size mb \<le> mb_capacity mb \<and> mb_capacity mb \<le> UINT32_MAX \<and> mb_data mb \<notin> set (bs_freed st)"
    and "\<And>b b' mb mb'. bs_heap st b = Some mb \<Longrightarrow> bs_heap st b' = Some mb' \<Longrightarrow> mb_data mb = mb_data mb' \<Longrightarrow> b = b'"
    and "\<And>r. r \<in> set (bs_slots st @ xs) \<Longrightarrow> ref_ok (bs_heap st) r" and "distinct (bs_freed st)"
  shows "held_inv xs st"
  using assms unfolding held_inv_def list_all_iff by blast

lemma held_invD:
  assumes "held_inv xs st"
  shows "bs_heap st b = Some mb \<Longrightarrow> mb_refs mb = refs_to b (bs_slots st @ xs) \<and> mb_refs mb > 0
      \<and> mb_size mb \<le> mb_capacity mb \<and> mb_capacity mb \<le> UINT32_MAX \<and> mb_data mb \<notin> set (bs_freed st)"
    and "bs_heap st b = Some mb \<Longrightarrow> bs_heap st b' = Some mb' \<Longrightarrow> mb_data mb = mb_data mb' \<Longrightarrow> b = b'"
    and "r \<in> set (bs_slots st @ xs) \<Longrightarrow> ref_ok (bs_heap st) r" and "distinct (bs_freed st)"
  using assms unfolding held_inv_def list_all_iff by blast+

text \<open>The invariant only sees which references are held, and how often.\<close>

lemma held_inv_cong:
  assumes "held_inv xs st" and "bs_heap st' = bs_heap st" "bs_freed st' = bs_freed st"
    and "\<And>b. refs_to b (bs_slots st' @ ys) = refs_to b (bs_slots st @ xs)"
    and "\<And>r. r \<in> set (bs_slots st' @ ys) \<Longrightarrow> r \<in> set (bs_slots st @ xs) \<or> mr_buffer r = None"
  shows "held_inv ys st'"
proof (rule held_invI)
  fix r assume "r \<in> set (bs_slots st' @ ys)"
  with assms(5) have "r \<in> set (bs_slots st @ xs) \<or> mr_buffer r = None" .
  then show "ref_ok (bs_heap st') r" using held_invD(3) [OF assms(1)] assms(2) by (auto simp: ref_ok_def)
next
  fix b mb assume "bs_heap st' b = Some mb"
  then show "mb_refs mb = refs_to b (bs_slots st' @ ys) \<and> mb_refs mb > 0 \<and> mb_size mb \<le> mb_capacity mb
      \<and> mb_capacity mb \<le> UINT32_MAX \<and> mb_data mb \<notin> set (bs_freed st')"
    using held_invD(1) [OF assms(1)] assms(2-4) by metis
qed (use held_invD(2,4) [OF assms(1)] assms(2,3) in metis)+

lemma held_drop_null: "mr_buffer r = None \<Longrightarrow> held_inv (r # xs) st = held_inv xs st"
  by (auto elim!: held_inv_cong)

text \<open>Storing a held reference in a slot leaves the reference that was there in hand.\<close>

lemma held_set_slot:
  assumes "held_inv (r # xs) st" and "i < length (bs_slots st)"
  shows "held_inv ((bs_slots st ! i) # xs) (set_slot i r st)"
proof (rule held_inv_cong [OF assms(1)])
  fix b show "refs_to b (bs_slots (set_slot i r st) @ (bs_slots st ! i) # xs) = refs_to b (bs_slots st @ r # xs)"
    using refs_to_update [OF assms(2), of b r] by (simp add: set_slot_def)
next
  fix q assume "q \<in> set (bs_slots (set_slot i r st) @ (bs_slots st ! i) # xs)"
  then show "q \<in> set (bs_slots st @ r # xs) \<or> mr_buffer q = None"
    using set_update_subset_insert [of "bs_slots st" i r] assms(2) by (auto simp: set_slot_def)
qed (simp_all add: set_slot_def)

lemma refs_to_0: "refs_to b rs = 0 \<longleftrightarrow> (\<forall>r\<in>set rs. mr_buffer r \<noteq> Some b)"
  by (simp add: refs_to_def filter_empty_conv)

text \<open>A change of one control block that keeps its memory and its bounds.\<close>

lemma held_update:
  assumes inv: "held_inv xs st" and mb: "bs_heap st b = Some mb"
    and same: "mb_data mb' = mb_data mb" "mb_capacity mb' = mb_capacity mb"
    and sz: "mb_size mb \<le> mb_size mb'" "mb_size mb' \<le> mb_capacity mb"
    and refs: "mb_refs mb' = refs_to b (bs_slots st @ ys)" "mb_refs mb' > 0"
    and others: "\<And>c. c \<noteq> b \<Longrightarrow> refs_to c ys = refs_to c xs"
    and ok: "\<And>r. r \<in> set ys \<Longrightarrow> r \<in> set xs \<or> ref_ok (bs_heap st) r"
  shows "held_inv ys (st\<lparr>bs_heap := (bs_heap st)(b \<mapsto> mb')\<rparr>)"
proof (rule held_invI)
  fix r assume "r \<in> set (bs_slots (st\<lparr>bs_heap := (bs_heap st)(b \<mapsto> mb')\<rparr>) @ ys)"
  then have "ref_ok (bs_heap st) r" using ok held_invD(3) [OF inv] by auto
  then show "ref_ok (bs_heap (st\<lparr>bs_heap := (bs_heap st)(b \<mapsto> mb')\<rparr>)) r"
    using mb sz unfolding ref_ok_def by fastforce
next
  fix c m assume "bs_heap (st\<lparr>bs_heap := (bs_heap st)(b \<mapsto> mb')\<rparr>) c = Some m"
  then show "mb_refs m = refs_to c (bs_slots (st\<lparr>bs_heap := (bs_heap st)(b \<mapsto> mb')\<rparr>) @ ys) \<and> mb_refs m > 0
      \<and> mb_size m \<le> mb_capacity m \<and> mb_capacity m \<le> UINT32_MAX
      \<and> mb_data m \<notin> set (bs_freed (st\<lparr>bs_heap := (bs_heap st)(b \<mapsto> mb')\<rparr>))"
    using held_invD(1) [OF inv, of c] mb same sz refs others [of c] by (cases "c = b") auto
next
  fix c c' m m'
  assume m: "bs_heap (st\<lparr>bs_heap := (bs_heap st)(b \<mapsto> mb')\<rparr>) c = Some m"
    "bs_heap (st\<lparr>bs_heap := (bs_heap st)(b \<mapsto> mb')\<rparr>) c' = Some m'" "mb_data m = mb_data m'"
  have "\<exists>n. bs_heap st x = Some n \<and> mb_data n = mb_data k"
    if "bs_heap (st\<lparr>bs_heap := (bs_heap st)(b \<mapsto> mb')\<rparr>) x = Some k" for x k
    using that mb same by (cases "x = b") auto
  then show "c = c'" using m held_invD(2) [OF inv] by metis
qed (use held_invD(4) [OF inv] in simp)

lemma held_AddRef:
  assumes inv: "held_inv xs st" and b: "mr_buffer r' = Some b" and ok: "ref_ok (bs_heap st) r'"
  shows "held_inv (r' # xs) (AddMediaBufferRef (Some b) st)"
proof -
  obtain mb where mb: "bs_heap st b = Some mb" and le: "mr_offset r' + mr_size r' \<le> mb_size mb"
    using b ok by (auto simp: ref_ok_def)
  have "mb_refs mb = refs_to b (bs_slots st @ xs)" "mb_size mb \<le> mb_capacity mb"
    using held_invD(1) [OF inv mb] by simp_all
  moreover have "r \<in> set xs \<or> ref_ok (bs_heap st) r" if "r \<in> set (r' # xs)" for r
    using that ok by auto
  ultimately have "held_inv (r' # xs) (st\<lparr>bs_heap := (bs_heap st)(b \<mapsto> mb\<lparr>mb_refs := mb_refs mb + 1\<rparr>)\<rparr>)"
    using b by (intro held_update [OF inv mb]) simp_all
  then show ?thesis using mb by (simp add: AddMediaBufferRef_def)
qed

lemma held_Release:
  assumes inv: "held_inv (r # xs) st"
  shows "held_inv xs (ReleaseMediaBuffer (mr_buffer r) st)"
proof (cases "mr_buffer r")
  case None
  with inv show ?thesis by (simp add: held_drop_null ReleaseMediaBuffer_def)
next
  case (Some b)
  have "ref_ok (bs_heap st) r" using held_invD(3) [OF inv] by simp
  with Some obtain mb where mb: "bs_heap st b = Some mb" by (auto simp: ref_ok_def)
  have refs: "mb_refs mb = refs_to b (bs_slots st @ xs) + 1" "mb_size mb \<le> mb_capacity mb"
    using held_invD(1) [OF inv mb] Some by simp_all
  show ?thesis
  proof (cases "mb_refs mb = 1")
    case False
    then show ?thesis
      using held_update [OF inv mb, of "mb\<lparr>mb_refs := mb_refs mb - 1\<rparr>" xs] Some mb refs
      by (simp add: ReleaseMediaBuffer_def)
  next
    case True
    let ?st = "st\<lparr>bs_heap := (bs_heap st)(b := None), bs_freed := bs_freed st @ [mb_data mb]\<rparr>"
    from True refs have "refs_to b (bs_slots st @ xs) = 0" by simp
    then have none: "\<forall>r\<in>set (bs_slots st @ xs). mr_buffer r \<noteq> Some b" unfolding refs_to_0 .
    have "held_inv xs ?st"
    proof (rule held_invI)
      fix q assume "q \<in> set (bs_slots ?st @ xs)"
      then show "ref_ok (bs_heap ?st) q" using held_invD(3) [OF inv, of q] none by (auto simp: ref_ok_def)
    next
      fix c m assume m: "bs_heap ?st c = Some m"
      then have "c \<noteq> b" "bs_heap st c = Some m" by (auto split: if_splits)
      then have "mb_data m \<noteq> mb_data mb" using held_invD(2) [OF inv] mb by blast
      then show "mb_refs m = refs_to c (bs_slots ?st @ xs) \<and> mb_refs m > 0 \<and> mb_size m \<le> mb_capacity m
          \<and> mb_capacity m \<le> UINT32_MAX \<and> mb_data m \<notin> set (bs_freed ?st)"
        using held_invD(1) [OF inv \<open>bs_heap st c = Some m\<close>] \<open>c \<noteq> b\<close> Some by auto
    next
      fix c c' m m' assume "bs_heap ?st c = Some m" "bs_heap ?st c' = Some m'" "mb_data m = mb_data m'"
      then show "c = c'" using held_invD(2) [OF inv, of c m c' m'] by (simp split: if_splits)
    next
      show "distinct (bs_freed ?st)" using held_invD(1) [OF inv mb] held_invD(4) [OF inv] by simp
    qed
    then show ?thesis using Some mb True by (simp add: ReleaseMediaBuffer_def)
  qed
qed

lemma held_Create:
  assumes inv: "held_inv xs st" and fresh: "bs_heap st b = None" and cap: "c > 0" "s \<le> c" "c \<le> UINT32_MAX"
    and data: "d \<notin> set (bs_freed st)" "\<forall>b mb. bs_heap st b = Some mb \<longrightarrow> mb_data mb \<noteq> d"
    and create: "CreateMediaBuffer (Some d) c s (Some b) st = (st', Some b')"
  shows "held_inv (ref_of_buffer (Some b') st' # xs) st'"
proof -
  let ?mb = "\<lparr>mb_data = d, mb_capacity = c, mb_size = s, mb_refs = 1\<rparr>"
  have st': "b' = b" "st' = st\<lparr>bs_heap := (bs_heap st)(b \<mapsto> ?mb)\<rparr>"
    using create cap by (auto simp: CreateMediaBuffer_def)
  let ?r = "ref_of_buffer (Some b) st'"
  have r: "mr_buffer ?r = Some b" by (simp add: ref_of_buffer_def)
  have none: "\<forall>r\<in>set (bs_slots st @ xs). mr_buffer r \<noteq> Some b"
    using held_invD(3) [OF inv] fresh unfolding ref_ok_def by (metis option.distinct(1))
  then have zero: "refs_to b (bs_slots st @ xs) = 0" by (simp only: refs_to_0)
  have "held_inv (?r # xs) st'"
  proof (rule held_invI)
    fix q assume "q \<in> set (bs_slots st' @ ?r # xs)"
    then have "q = ?r \<or> q \<in> set (bs_slots st @ xs)" using st' by auto
    then show "ref_ok (bs_heap st') q"
    proof
      assume "q = ?r" then show ?thesis using st' by (simp add: ref_ok_def ref_of_buffer_def)
    next
      assume q: "q \<in> set (bs_slots st @ xs)"
      then show ?thesis using held_invD(3) [OF inv q] none st' by (auto simp: ref_ok_def)
    qed
  next
    fix x m assume m: "bs_heap st' x = Some m"
    show "mb_refs m = refs_to x (bs_slots st' @ ?r # xs) \<and> mb_refs m > 0 \<and> mb_size m \<le> mb_capacity m
          \<and> mb_capacity m \<le> UINT32_MAX \<and> mb_data m \<notin> set (bs_freed st')"
    proof (cases "x = b")
      case True with m st' r zero cap data(1) show ?thesis by auto
    next
      case False with m st' have "bs_heap st x = Some m" by simp
      from held_invD(1) [OF inv this] False st' r show ?thesis by auto
    qed
  next
    fix x x' m m' assume "bs_heap st' x = Some m" "bs_heap st' x' = Some m'" "mb_data m = mb_data m'"
    then show "x = x'" using held_invD(2) [OF inv, of x m x' m'] data(2) st' by (auto split: if_splits) blast
  qed (use held_invD(4) [OF inv] st' in simp)
  then show ?thesis using st' by simp
qed

section \<open>Every operation keeps the invariant\<close>

lemma held_copy:
  assumes "held_inv xs st" and "ref_ok (bs_heap st) r"
  shows "held_inv (r # xs) (AddMediaBufferRef (mr_buffer r) st)"
  using assms held_AddRef [OF assms(1) _ assms(2)]
  by (cases "mr_buffer r") (simp_all add: held_drop_null AddMediaBufferRef_def)

lemma slots_AddRef [simp]: "bs_slots (AddMediaBufferRef b st) = bs_slots st"
  by (simp add: AddMediaBufferRef_def split: option.splits)

lemma slots_Release [simp]: "bs_slots (ReleaseMediaBuffer b st) = bs_slots st"
  by (simp add: ReleaseMediaBuffer_def split: option.splits)

lemma slots_set_slot [simp]: "bs_slots (set_slot i r st) = (bs_slots st)[i := r]"
  by (simp add: set_slot_def)

lemma heap_set_slot [simp]: "bs_heap (set_slot i r st) = bs_heap st" "bs_freed (set_slot i r st) = bs_freed st"
  by (simp_all add: set_slot_def)

lemma set_slot_Release: "set_slot i r (ReleaseMediaBuffer b st) = ReleaseMediaBuffer b (set_slot i r st)"
  by (simp add: set_slot_def ReleaseMediaBuffer_def split: option.splits)

lemma set_slot_swap: "i \<noteq> j \<Longrightarrow> set_slot i r (set_slot j q st) = set_slot j q (set_slot i r st)"
  by (simp add: set_slot_def list_update_swap)

lemma null_ref_buffer [simp]: "mr_buffer null_ref = None"
  by (simp add: null_ref_def)

lemmas held_null = held_drop_null [OF null_ref_buffer]

lemma slot_ok: "held_inv xs st \<Longrightarrow> i < length (bs_slots st) \<Longrightarrow> ref_ok (bs_heap st) (bs_slots st ! i)"
  by (simp add: held_invD(3))

lemma held_take_slot:
  assumes "held_inv xs st" and "i < length (bs_slots st)"
  shows "held_inv ((bs_slots st ! i) # xs) (set_slot i null_ref st)"
  using held_set_slot [of null_ref xs st i] assms by (simp add: held_null)

lemma held_put_slot:
  assumes "held_inv (r # xs) st" and "i < length (bs_slots st)" and "bs_slots st ! i = null_ref"
  shows "held_inv xs (set_slot i r st)"
  using held_set_slot [OF assms(1,2)] assms(3) by (simp add: held_null)

lemma held_replace_slot:
  assumes "held_inv (r # xs) st" and "i < length (bs_slots st)"
  shows "held_inv xs (set_slot i r (ReleaseMediaBuffer (mr_buffer (bs_slots st ! i)) st))"
  unfolding set_slot_Release by (rule held_Release [OF held_set_slot [OF assms]])

lemma CopyConstruct_inv:
  assumes "buffers_inv st" "i < length (bs_slots st)" "j < length (bs_slots st)" "bs_slots st ! i = null_ref"
  shows "buffers_inv (CopyConstruct i j st)"
  unfolding CopyConstruct_def using assms by (intro held_put_slot held_copy slot_ok) simp_all

lemma CopyAssign_inv:
  assumes "buffers_inv st" "i < length (bs_slots st)" "j < length (bs_slots st)"
  shows "buffers_inv (CopyAssign i j st)"
  using held_replace_slot [OF held_copy [OF assms(1) slot_ok [OF assms(1,3)]], of i] assms
  by (simp add: CopyAssign_def Let_def)

lemma MoveConstruct_inv:
  assumes "buffers_inv st" "i < length (bs_slots st)" "j < length (bs_slots st)" "bs_slots st ! i = null_ref" "i \<noteq> j"
  shows "buffers_inv (MoveConstruct i j st)"
  using held_put_slot [OF held_take_slot [OF assms(1,3)], of i] assms
  by (simp add: MoveConstruct_def set_slot_swap [of j i])

lemma MoveAssign_inv:
  assumes "buffers_inv st" "i < length (bs_slots st)" "j < length (bs_slots st)"
  shows "buffers_inv (MoveAssign i j st)"
proof (cases "i = j")
  case False
  with held_replace_slot [OF held_take_slot [OF assms(1,3)], of i] assms show ?thesis
    by (simp add: MoveAssign_def set_slot_Release set_slot_swap [of j i])
qed (use assms in \<open>simp add: MoveAssign_def\<close>)

lemma Destroy_inv:
  assumes "buffers_inv st" "i < length (bs_slots st)"
  shows "buffers_inv (Destroy i st)"
  unfolding Destroy_def set_slot_Release by (rule held_Release [OF held_take_slot [OF assms]])

lemma Reset_is_Destroy: "Ref_Reset i st = Destroy i st"
  by (simp add: Ref_Reset_def Destroy_def)

lemma Slice_inv:
  assumes "buffers_inv st" "i < length (bs_slots st)" "j < length (bs_slots st)" "bs_slots st ! i = null_ref"
  shows "buffers_inv (Slice i j offset sz st)"
proof -
  let ?r = "bs_slots st ! j"
  let ?s = "\<lparr>mr_buffer = mr_buffer ?r, mr_offset = u32_add (mr_offset ?r) offset, mr_size = sz\<rparr>"
  have drop: "buffers_inv (set_slot i null_ref st)"
    using held_put_slot [of null_ref "[]" st i] assms by (simp add: held_null)
  have ok: "ref_ok (bs_heap st) ?s" if le: "offset \<le> mr_size ?r" "sz \<le> mr_size ?r - offset"
    unfolding ref_ok_def
  proof safe
    fix b assume "mr_buffer ?s = Some b"
    then obtain mb where mb: "bs_heap st b = Some mb" "mr_offset ?r + mr_size ?r \<le> mb_size mb"
      using slot_ok [OF assms(1,3)] by (auto simp: ref_ok_def)
    then have "mr_offset ?r + offset \<le> UINT32_MAX" using held_invD(1) [OF assms(1) mb(1)] le by simp
    then show "\<exists>mb. bs_heap st b = Some mb \<and> mr_offset ?s + mr_size ?s \<le> mb_size mb"
      using mb le by (simp add: u32_add_exact)
  qed
  show ?thesis
  proof (cases "mr_buffer ?r = None \<or> offset > mr_size ?r \<or> sz > mr_size ?r - offset")
    case True then show ?thesis using drop by (simp add: Slice_def Let_def)
  next
    case False
    then have "held_inv [?s] (AddMediaBufferRef (mr_buffer ?r) st)"
      using held_copy [OF assms(1) ok] by simp
    with False show ?thesis using held_put_slot [of ?s "[]" _ i] assms drop by (simp add: Slice_def Let_def)
  qed
qed

lemma SetSize_inv:
  assumes "buffers_inv st" "i < length (bs_slots st)"
  shows "buffers_inv (fst (SetSize i sz st))"
proof -
  let ?r = "bs_slots st ! i"
  show ?thesis
  proof (cases "snd (SetSize i sz st)")
    case False
    then have "fst (SetSize i sz st) = st" by (auto simp: SetSize_def Let_def split: option.splits if_splits)
    with assms show ?thesis by simp
  next
    case True
    then obtain b mb where b: "mr_buffer ?r = Some b" "bs_heap st b = Some mb"
      and le: "mr_offset ?r \<le> mb_capacity mb" "sz \<le> mb_capacity mb - mr_offset ?r"
      by (auto simp: SetSize_def Let_def split: option.splits if_splits)
    note mb = held_invD(1) [OF assms(1) b(2)]
    from mb le have sum: "u32_add (mr_offset ?r) sz = mr_offset ?r + sz" by (intro u32_add_exact) linarith
    let ?mb = "mb\<lparr>mb_size := max (mb_size mb) (mr_offset ?r + sz)\<rparr>"
    let ?st = "st\<lparr>bs_heap := (bs_heap st)(b \<mapsto> ?mb)\<rparr>"
    have "held_inv [] ?st" using mb le by (intro held_update [OF assms(1) b(2)]) auto
    from held_take_slot [OF this, of i] have taken: "held_inv [?r] (set_slot i null_ref ?st)" using assms by simp
    have inv': "held_inv [?r\<lparr>mr_size := sz\<rparr>] (set_slot i null_ref ?st)"
    proof (rule held_invI)
      fix q assume "q \<in> set (bs_slots (set_slot i null_ref ?st) @ [?r\<lparr>mr_size := sz\<rparr>])"
      then show "ref_ok (bs_heap (set_slot i null_ref ?st)) q"
        using held_invD(3) [OF taken, of q] b by (auto simp: ref_ok_def)
    next
      fix x m assume "bs_heap (set_slot i null_ref ?st) x = Some m"
      from held_invD(1) [OF taken this]
      show "mb_refs m = refs_to x (bs_slots (set_slot i null_ref ?st) @ [?r\<lparr>mr_size := sz\<rparr>]) \<and> mb_refs m > 0
        \<and> mb_size m \<le> mb_capacity m \<and> mb_capacity m \<le> UINT32_MAX \<and> mb_data m \<notin> set (bs_freed (set_slot i null_ref ?st))"
        by auto
    qed (use held_invD(2,4) [OF taken] in blast)+
    have "(if mb_size mb < mr_offset ?r + sz then st\<lparr>bs_heap := (bs_heap st)(b \<mapsto> mb\<lparr>mb_size := mr_offset ?r + sz\<rparr>)\<rparr> else st) = ?st"
      using b(2) by (simp add: max_def fun_upd_idem)
    then have "fst (SetSize i sz st) = set_slot i (?r\<lparr>mr_size := sz\<rparr>) (set_slot i null_ref ?st)"
      using b le sum by (simp add: SetSize_def Let_def set_slot_def)
    then show ?thesis using held_put_slot [OF inv', of i] assms by simp
  qed
qed

text \<open>\<open>fresh_block\<close>: what \<open>new\<close> and \<open>malloc\<close> promise of their results, blocks being named by allocation.\<close>

definition fresh_block :: "nat option \<Rightarrow> nat option \<Rightarrow> buffers \<Rightarrow> bool" where
  "fresh_block mem node st \<longleftrightarrow>
     (\<forall>b. node = Some b \<longrightarrow> bs_heap st b = None)
     \<and> (\<forall>d. mem = Some d \<longrightarrow> d \<notin> set (bs_freed st) \<and> (\<forall>b mb. bs_heap st b = Some mb \<longrightarrow> mb_data mb \<noteq> d))"

lemma drop_slot_inv:
  "buffers_inv st \<Longrightarrow> i < length (bs_slots st) \<Longrightarrow> bs_slots st ! i = null_ref \<Longrightarrow> buffers_inv (set_slot i null_ref st)"
  using held_put_slot [of null_ref "[]" st i] by (simp add: held_null)

lemma Create_put_inv:
  assumes "buffers_inv st" "i < length (bs_slots st)" "bs_slots st ! i = null_ref"
    and "fresh_block (Some d) (Some b) st" "0 < c" "s \<le> c" "c \<le> UINT32_MAX"
  shows "\<exists>st'. CreateMediaBuffer (Some d) c s (Some b) st = (st', Some b)
     \<and> buffers_inv (set_slot i (ref_of_buffer (Some b) st') st')"
proof -
  obtain st' where st': "CreateMediaBuffer (Some d) c s (Some b) st = (st', Some b)" "bs_slots st' = bs_slots st"
    using assms(5,6) by (simp add: CreateMediaBuffer_def)
  have "held_inv [ref_of_buffer (Some b) st'] st'"
    using assms by (intro held_Create [OF assms(1) _ _ _ _ _ _ st'(1)]) (auto simp: fresh_block_def)
  with st' assms show ?thesis by (auto intro: held_put_slot)
qed

lemma WrapExternalMemory_inv:
  assumes "buffers_inv st" "i < length (bs_slots st)" "bs_slots st ! i = null_ref"
    and "fresh_block data node st" "c \<le> UINT32_MAX"
  shows "buffers_inv (WrapExternalMemory i data c s node st)"
proof (cases "CreateMediaBuffer data c s node st")
  case (Pair st' res)
  show ?thesis
  proof (cases res)
    case None
    with Pair have "st' = st" by (auto simp: CreateMediaBuffer_def split: option.splits if_splits)
    with Pair None drop_slot_inv [OF assms(1-3)] show ?thesis by (simp add: WrapExternalMemory_def)
  next
    case (Some b)
    with Pair have "\<exists>d. data = Some d" "node = Some b" "0 < c" "s \<le> c"
      by (auto simp: CreateMediaBuffer_def split: option.splits if_splits)
    then show ?thesis using Create_put_inv [OF assms(1-3), of _ b c s] assms(4,5) by (fastforce simp: WrapExternalMemory_def)
  qed
qed

lemma freed_inv:
  assumes "buffers_inv st" "d \<notin> set (bs_freed st)" "\<forall>b mb. bs_heap st b = Some mb \<longrightarrow> mb_data mb \<noteq> d"
  shows "buffers_inv (st\<lparr>bs_freed := bs_freed st @ [d]\<rparr>)"
proof (rule held_invI)
  fix b mb assume "bs_heap (st\<lparr>bs_freed := bs_freed st @ [d]\<rparr>) b = Some mb"
  then show "mb_refs mb = refs_to b (bs_slots (st\<lparr>bs_freed := bs_freed st @ [d]\<rparr>) @ []) \<and> mb_refs mb > 0
      \<and> mb_size mb \<le> mb_capacity mb \<and> mb_capacity mb \<le> UINT32_MAX
      \<and> mb_data mb \<notin> set (bs_freed (st\<lparr>bs_freed := bs_freed st @ [d]\<rparr>))"
    using held_invD(1) [OF assms(1), of b mb] assms(3) by auto
next
  fix b b' mb mb' assume "bs_heap (st\<lparr>bs_freed := bs_freed st @ [d]\<rparr>) b = Some mb"
    "bs_heap (st\<lparr>bs_freed := bs_freed st @ [d]\<rparr>) b' = Some mb'" "mb_data mb = mb_data mb'"
  then show "b = b'" using held_invD(2) [OF assms(1), of b mb b' mb'] by simp
qed (use held_invD(3,4) [OF assms(1)] assms(2) in auto)

lemma Builder_Allocate_inv:
  assumes "buffers_inv st" "i < length (bs_slots st)" "bs_slots st ! i = null_ref"
    and "fresh_block mem node st" "c \<le> UINT32_MAX"
  shows "buffers_inv (Builder_Allocate i c mem node st)"
proof (cases "c = 0 \<or> mem = None")
  case True
  then show ?thesis using drop_slot_inv [OF assms(1-3)] by (auto simp: Builder_Allocate_def)
next
  case False
  then obtain d where d: "mem = Some d" "0 < c" by auto
  show ?thesis
  proof (cases node)
    case None
    have "buffers_inv (st\<lparr>bs_freed := bs_freed st @ [d]\<rparr>)"
      using assms(4) d by (intro freed_inv [OF assms(1)]) (auto simp: fresh_block_def)
    from drop_slot_inv [OF this, of i] assms d None show ?thesis by (simp add: Builder_Allocate_def CreateMediaBuffer_def)
  next
    case (Some b)
    with Create_put_inv [OF assms(1-3), of d b c 0] assms(4,5) d show ?thesis by (auto simp: Builder_Allocate_def)
  qed
qed

lemma Builder_Finish_inv:
  assumes "buffers_inv st" "i < length (bs_slots st)" "j < length (bs_slots st)" "bs_slots st ! i = null_ref" "i \<noteq> j"
  shows "buffers_inv (Builder_Finish i j st)"
  using Destroy_inv [OF MoveConstruct_inv [OF assms], of j] assms(3)
  by (simp add: Builder_Finish_def Reset_is_Destroy MoveConstruct_def)

section \<open>Programs over buffers\<close>

text \<open>
  A step of a program that owns the slots: objects are constructed in a free slot, every other
  operation works on any slot, a slot may be assigned to itself.
\<close>

abbreviation free_slot :: "nat \<Rightarrow> buffers \<Rightarrow> bool" where
  "free_slot i st \<equiv> i < length (bs_slots st) \<and> bs_slots st ! i = null_ref"

inductive buffers_step :: "buffers \<Rightarrow> buffers \<Rightarrow> bool" where
  step_copy: "free_slot i st \<Longrightarrow> j < length (bs_slots st) \<Longrightarrow> buffers_step st (CopyConstruct i j st)"
| step_copy_assign: "i < length (bs_slots st) \<Longrightarrow> j < length (bs_slots st) \<Longrightarrow> buffers_step st (CopyAssign i j st)"
| step_move: "free_slot i st \<Longrightarrow> j < length (bs_slots st) \<Longrightarrow> i \<noteq> j \<Longrightarrow> buffers_step st (MoveConstruct i j st)"
| step_move_assign: "i < length (bs_slots st) \<Longrightarrow> j < length (bs_slots st) \<Longrightarrow> buffers_step st (MoveAssign i j st)"
| step_destroy: "i < length (bs_slots st) \<Longrightarrow> buffers_step st (Destroy i st)"
| step_reset: "i < length (bs_slots st) \<Longrightarrow> buffers_step st (Ref_Reset i st)"
| step_slice: "free_slot i st \<Longrightarrow> j < length (bs_slots st) \<Longrightarrow> buffers_step st (Slice i j offset sz st)"
| step_set_size: "i < length (bs_slots st) \<Longrightarrow> buffers_step st (fst (SetSize i sz st))"
| step_resize: "i < length (bs_slots st) \<Longrightarrow> buffers_step st (fst (Builder_Resize i sz st))"
| step_wrap: "free_slot i st \<Longrightarrow> fresh_block data node st \<Longrightarrow> capacity \<le> UINT32_MAX
    \<Longrightarrow> buffers_step st (WrapExternalMemory i data capacity sz node st)"
| step_allocate: "free_slot i st \<Longrightarrow> fresh_block mem node st \<Longrightarrow> capacity \<le> UINT32_MAX
    \<Longrightarrow> buffers_step st (Builder_Allocate i capacity mem node st)"
| step_finish: "free_slot i st \<Longrightarrow> j < length (bs_slots st) \<Longrightarrow> i \<noteq> j \<Longrightarrow> buffers_step st (Builder_Finish i j st)"

definition no_buffers :: "nat \<Rightarrow> buffers" where
  "no_buffers n = \<lparr>bs_heap = (\<lambda>b. None), bs_slots = replicate n null_ref, bs_freed = []\<rparr>"

lemma no_buffers_inv: "buffers_inv (no_buffers n)"
  by (rule held_invI) (auto simp: no_buffers_def ref_ok_def)

lemma buffers_step_inv: "buffers_step st st' \<Longrightarrow> buffers_inv st \<Longrightarrow> buffers_inv st'"
  by (induction rule: buffers_step.induct)
    (auto simp: Reset_is_Destroy Builder_Resize_def intro: CopyConstruct_inv CopyAssign_inv MoveConstruct_inv
      MoveAssign_inv Destroy_inv Slice_inv SetSize_inv WrapExternalMemory_inv Builder_Allocate_inv Builder_Finish_inv)

lemma buffers_reachable_inv: "buffers_step\<^sup>*\<^sup>* (no_buffers n) st \<Longrightarrow> buffers_inv st"
  by (induction rule: rtranclp_induct) (auto simp: no_buffers_inv intro: buffers_step_inv)

text \<open>
  Claim C13. In every state that any sequence of the operations can reach, a non-empty reference
  points to a live control block, its bytes lie inside the buffer, the memory has not been freed, the
  counter is the number of references; every live control block is referenced by some slot (nothing
  leaks) and no memory block was freed twice.
\<close>

theorem media_buffers_safe:
  assumes "buffers_step\<^sup>*\<^sup>* (no_buffers n) st"
  shows "(\<forall>r b. r \<in> set (bs_slots st) \<and> mr_buffer r = Some b \<longrightarrow>
      (\<exists>mb. bs_heap st b = Some mb \<and> mr_offset r + mr_size r \<le> mb_size mb \<and> mb_size mb \<le> mb_capacity mb
         \<and> mb_data mb \<notin> set (bs_freed st) \<and> mb_refs mb = refs_to b (bs_slots st) \<and> Ref_Valid r st))
    \<and> (\<forall>b. bs_heap st b \<noteq> None \<longrightarrow> (\<exists>r \<in> set (bs_slots st). mr_buffer r = Some b))
    \<and> distinct (bs_freed st)"
proof (intro conjI allI impI; (elim conjE)?)
  note inv = buffers_reachable_inv [OF assms]
  show "distinct (bs_freed st)" by (rule held_invD(4) [OF inv])
  fix b
  show "\<exists>r \<in> set (bs_slots st). mr_buffer r = Some b" if "bs_heap st b \<noteq> None"
  proof -
    from that obtain mb where "bs_heap st b = Some mb" by auto
    from held_invD(1) [OF inv this] have "refs_to b (bs_slots st) \<noteq> 0" by simp
    then show ?thesis by (auto simp: refs_to_0)
  qed
  fix r assume r: "r \<in> set (bs_slots st)" "mr_buffer r = Some b"
  then obtain mb where mb: "bs_heap st b = Some mb" "mr_offset r + mr_size r \<le> mb_size mb"
    using held_invD(3) [OF inv, of r] by (auto simp: ref_ok_def)
  then show "\<exists>mb. bs_heap st b = Some mb \<and> mr_offset r + mr_size r \<le> mb_size mb \<and> mb_size mb \<le> mb_capacity mb
         \<and> mb_data mb \<notin> set (bs_freed st) \<and> mb_refs mb = refs_to b (bs_slots st) \<and> Ref_Valid r st"
    using held_invD(1) [OF inv mb(1)] r by (auto simp: Ref_Valid_def)
qed

definition two_owners :: buffers where
  "two_owners = CopyConstruct 1 0 (Builder_Allocate 0 16 (Some 7) (Some 3) (no_buffers 2))"

lemma two_owners_reachable: "buffers_step\<^sup>*\<^sup>* (no_buffers 2) two_owners"
proof -
  let ?s = "Builder_Allocate 0 16 (Some 7) (Some 3) (no_buffers 2)"
  have "buffers_step (no_buffers 2) ?s"
    by (rule step_allocate) (simp_all add: no_buffers_def fresh_block_def)
  moreover have "buffers_step ?s (CopyConstruct 1 0 ?s)"
    by (rule step_copy)
      (simp_all add: no_buffers_def Builder_Allocate_def CreateMediaBuffer_def set_slot_def numeral_2_eq_2)
  ultimately show ?thesis unfolding two_owners_def by (rule converse_rtranclp_into_rtranclp [OF _ r_into_rtranclp])
qed

theorem media_buffers_safe_witness:
  "(\<exists>mb. bs_heap two_owners 3 = Some mb \<and> mb_refs mb = 2) \<and> distinct (bs_freed two_owners)"
proof -
  have r: "\<lparr>mr_buffer = Some 3, mr_offset = 0, mr_size = 0\<rparr> \<in> set (bs_slots two_owners)"
    and n: "refs_to 3 (bs_slots two_owners) = 2"
    by (simp_all add: two_owners_def no_buffers_def Builder_Allocate_def CreateMediaBuffer_def set_slot_def
        CopyConstruct_def AddMediaBufferRef_def ref_of_buffer_def numeral_2_eq_2)
  show ?thesis
    using media_buffers_safe [OF two_owners_reachable] r n by force
qed

lemma refs_to_exists:
  "refs_to b rs \<noteq> 0 \<longleftrightarrow> (\<exists>j < length rs. mr_buffer (rs ! j) = Some b)"
  by (simp add: refs_to_0 Bex_def in_set_conv_nth) blast

lemma refs_to_other:
  assumes "i < length rs" "mr_buffer (rs ! i) = Some b"
  shows "refs_to b rs = 1 \<longleftrightarrow> (\<forall>j < length rs. j \<noteq> i \<longrightarrow> mr_buffer (rs ! j) \<noteq> Some b)"
proof -
  have "refs_to b rs = Suc (refs_to b (rs[i := null_ref]))"
    using refs_to_update [OF assms(1), of b null_ref] assms(2) by simp
  then have "refs_to b rs = 1 \<longleftrightarrow> \<not> (\<exists>j < length rs. mr_buffer (rs[i := null_ref] ! j) = Some b)"
    using refs_to_exists [of b "rs[i := null_ref]"] by auto
  then show ?thesis using assms(1) by (auto simp: nth_list_update)
qed

text \<open>
  Destroying or resetting a reference of a reachable state frees the memory of its buffer
  exactly when no other reference to the buffer is left; the other references keep their bytes.
\<close>

lemma media_buffer_freed_with_last_reference:
  assumes "buffers_step\<^sup>*\<^sup>* (no_buffers n) st" and "i < length (bs_slots st)"
    and "mr_buffer (bs_slots st ! i) = Some b" and "bs_heap st b = Some mb"
  shows "bs_freed (Destroy i st) = bs_freed st @
      (if \<forall>j < length (bs_slots st). j \<noteq> i \<longrightarrow> mr_buffer (bs_slots st ! j) \<noteq> Some b then [mb_data mb] else [])
    \<and> (\<forall>j < length (bs_slots st). j \<noteq> i \<longrightarrow>
       bs_slots (Destroy i st) ! j = bs_slots st ! j
       \<and> Ref_Data (bs_slots st ! j) (Destroy i st) = Ref_Data (bs_slots st ! j) st)"
proof -
  note inv = buffers_reachable_inv [OF assms(1)]
  have one: "mb_refs mb = 1 \<longleftrightarrow> (\<forall>j < length (bs_slots st). j \<noteq> i \<longrightarrow> mr_buffer (bs_slots st ! j) \<noteq> Some b)"
    using refs_to_other [OF assms(2,3)] held_invD(1) [OF inv assms(4)] by simp
  then have freed: "bs_freed (Destroy i st) = bs_freed st @
      (if \<forall>j < length (bs_slots st). j \<noteq> i \<longrightarrow> mr_buffer (bs_slots st ! j) \<noteq> Some b then [mb_data mb] else [])"
    using assms(3,4) by (simp add: Destroy_def ReleaseMediaBuffer_def)
  have "bs_slots (Destroy i st) ! j = bs_slots st ! j
      \<and> Ref_Data (bs_slots st ! j) (Destroy i st) = Ref_Data (bs_slots st ! j) st"
    if j: "j < length (bs_slots st)" "j \<noteq> i" for j
    using one assms(3,4) j
    by (auto simp: Ref_Data_def Ref_Valid_def Destroy_def ReleaseMediaBuffer_def split: option.splits)
  with freed show ?thesis by blast
qed

end
