(* ===== verification/Media_Buffer_Pool.thy ===== *)
theory Media_Buffer_Pool
  imports Stream_Prelude
begin

text \<open>
  \<open>libs/media/src/media_buffer_pool_blocks.{h,cpp}\<close> and \<open>media_buffer_pool.cpp\<close>: a pool of equal blocks
  with a stack of free indices, kept alive by the pool object and by every block that is handed
  out. Results of \<open>malloc\<close> and \<open>new\<close> are arguments. Every operation holds the mutex of the pool for its
  whole duration, so operations are atomic steps; the atomic counter is a \<open>nat\<close>, it counts objects in
  memory. A block is named by its index; its memory starts at \<open>index * block_bytes\<close>.
\<close>

section \<open>Model\<close>

record MediaBufferPoolBlocks =
  pb_block_bytes :: nat
  pb_pool_size :: nat
  pb_free_size :: nat
  pb_in_use :: "bool list"
  pb_free_indices :: "nat list"
  pb_high_water_size :: nat
  pb_allocation_failures :: nat
  pb_refs :: nat

record MediaBufferPoolStats =
  pi_block_bytes :: nat
  pi_pool_size :: nat
  pi_free_size :: nat
  pi_in_use_size :: nat
  pi_high_water_size :: nat
  pi_allocation_failures :: nat

definition new_pool_blocks :: "nat \<Rightarrow> nat \<Rightarrow> MediaBufferPoolBlocks" where
  "new_pool_blocks block_bytes pool_size =
     \<lparr>pb_block_bytes = block_bytes, pb_pool_size = pool_size, pb_free_size = pool_size, pb_in_use = [],
      pb_free_indices = [], pb_high_water_size = 0, pb_allocation_failures = 0, pb_refs = 1\<rparr>"

definition Pool_Allocate :: "bool \<Rightarrow> MediaBufferPoolBlocks \<Rightarrow> MediaBufferPoolBlocks option" where
  "Pool_Allocate memory p =
     (if pb_block_bytes p = 0 \<or> pb_pool_size p = 0 then None
      else if pb_pool_size p > SIZE_MAX div pb_block_bytes p then None
      else if \<not> memory then None
      else Some (p\<lparr>pb_in_use := replicate (pb_pool_size p) False,
                   pb_free_indices := map (\<lambda>i. pb_pool_size p - 1 - i) [0..<pb_pool_size p]\<rparr>))"

definition Pool_AddRef :: "MediaBufferPoolBlocks \<Rightarrow> MediaBufferPoolBlocks" where
  "Pool_AddRef p = p\<lparr>pb_refs := pb_refs p + 1\<rparr>"

text \<open>\<open>None\<close>: the object has deleted itself.\<close>

definition Pool_ReleaseRef :: "MediaBufferPoolBlocks \<Rightarrow> MediaBufferPoolBlocks option" where
  "Pool_ReleaseRef p = (if pb_refs p = 1 then None else Some (p\<lparr>pb_refs := pb_refs p - 1\<rparr>))"

definition ReleaseBlockIndexLocked :: "nat \<Rightarrow> MediaBufferPoolBlocks \<Rightarrow> MediaBufferPoolBlocks" where
  "ReleaseBlockIndexLocked index p =
     p\<lparr>pb_in_use := (pb_in_use p)[index := False],
       pb_free_indices := (pb_free_indices p)[pb_free_size p := index],
       pb_free_size := pb_free_size p + 1\<rparr>"

definition ReturnBlock :: "nat \<Rightarrow> MediaBufferPoolBlocks \<Rightarrow> MediaBufferPoolBlocks" where
  "ReturnBlock index p =
     (if index < pb_pool_size p \<and> pb_in_use p ! index then ReleaseBlockIndexLocked index p else p)"

text \<open>
  \<open>Acquire\<close>: the pool and the index of the block; \<open>ref_ok\<close> and \<open>node_ok\<close> say whether the block
  reference and the control block of the buffer can be allocated.
\<close>

definition Pool_Acquire :: "bool \<Rightarrow> bool \<Rightarrow> MediaBufferPoolBlocks \<Rightarrow> MediaBufferPoolBlocks option \<times> nat option" where
  "Pool_Acquire ref_ok node_ok p =
     (if pb_free_size p = 0
      then (Some (p\<lparr>pb_allocation_failures := pb_allocation_failures p + 1\<rparr>), None)
      else
        let free_size = pb_free_size p - 1;
            index = pb_free_indices p ! free_size;
            in_use_size = pb_pool_size p - free_size;
            p = p\<lparr>pb_free_size := free_size, pb_in_use := (pb_in_use p)[index := True],
                  pb_high_water_size := (if in_use_size > pb_high_water_size p then in_use_size else pb_high_water_size p)\<rparr>
        in if \<not> ref_ok
           then (Some ((ReleaseBlockIndexLocked index p)\<lparr>pb_allocation_failures := pb_allocation_failures p + 1\<rparr>), None)
           else
             let p = Pool_AddRef p in
             if \<not> node_ok
             then (Pool_ReleaseRef ((ReleaseBlockIndexLocked index p)\<lparr>pb_allocation_failures := pb_allocation_failures p + 1\<rparr>), None)
             else (Some p, Some index))"

definition Pool_Stats :: "MediaBufferPoolBlocks \<Rightarrow> MediaBufferPoolStats" where
  "Pool_Stats p =
     \<lparr>pi_block_bytes = pb_block_bytes p, pi_pool_size = pb_pool_size p, pi_free_size = pb_free_size p,
      pi_in_use_size = pb_pool_size p - pb_free_size p, pi_high_water_size = pb_high_water_size p,
      pi_allocation_failures = pb_allocation_failures p\<rparr>"

text \<open>The free callback of the buffer that wraps block \<open>index\<close>.\<close>

definition FreePoolBlock :: "nat \<Rightarrow> MediaBufferPoolBlocks \<Rightarrow> MediaBufferPoolBlocks option" where
  "FreePoolBlock index p = Pool_ReleaseRef (ReturnBlock index p)"

text \<open>
  \<open>CreateMediaBufferPool\<close>, with the results of the two \<open>new\<close> and of the \<open>malloc\<close>s in \<open>Allocate\<close>, and the
  destructor of the pool object.
\<close>

definition CreateMediaBufferPool :: "bool \<Rightarrow> bool \<Rightarrow> bool \<Rightarrow> nat \<Rightarrow> nat \<Rightarrow> MediaBufferPoolBlocks option" where
  "CreateMediaBufferPool new_blocks memory new_pool block_bytes pool_size =
     (if \<not> new_blocks then None
      else case Pool_Allocate memory (new_pool_blocks block_bytes pool_size) of
        None \<Rightarrow> None
      | Some p \<Rightarrow> if \<not> new_pool then None else Some p)"

definition DestroyPool :: "MediaBufferPoolBlocks \<Rightarrow> MediaBufferPoolBlocks option" where
  "DestroyPool p = Pool_ReleaseRef p"

section \<open>The life of a pool\<close>

text \<open>
  The storage, \<open>None\<close> once it is deleted; whether the pool object exists; the blocks that buffers hold;
  and the number of free callbacks that have returned their block and not yet released their
  reference. \<open>FreePoolBlock\<close> is two steps, because other threads may run between its two calls.
\<close>

record pool_life =
  pl_blocks :: "MediaBufferPoolBlocks option"
  pl_owner :: bool
  pl_out :: "nat list"
  pl_releasing :: nat

inductive pool_step :: "pool_life \<Rightarrow> pool_life \<Rightarrow> bool" where
  step_acquire: "pl_owner s \<Longrightarrow> pl_blocks s = Some p \<Longrightarrow> Pool_Acquire ref_ok node_ok p = (b, Some i) \<Longrightarrow>
     pool_step s (s\<lparr>pl_blocks := b, pl_out := i # pl_out s\<rparr>)"
| step_acquire_fails: "pl_owner s \<Longrightarrow> pl_blocks s = Some p \<Longrightarrow> Pool_Acquire ref_ok node_ok p = (b, None) \<Longrightarrow>
     pool_step s (s\<lparr>pl_blocks := b\<rparr>)"
| step_return: "i \<in> set (pl_out s) \<Longrightarrow> pl_blocks s = Some p \<Longrightarrow>
     pool_step s (s\<lparr>pl_blocks := Some (ReturnBlock i p), pl_out := remove1 i (pl_out s), pl_releasing := pl_releasing s + 1\<rparr>)"
| step_release: "0 < pl_releasing s \<Longrightarrow> pl_blocks s = Some p \<Longrightarrow>
     pool_step s (s\<lparr>pl_blocks := Pool_ReleaseRef p, pl_releasing := pl_releasing s - 1\<rparr>)"
| step_destroy: "pl_owner s \<Longrightarrow> pl_blocks s = Some p \<Longrightarrow>
     pool_step s (s\<lparr>pl_blocks := DestroyPool p, pl_owner := False\<rparr>)"

definition new_pool_life :: "MediaBufferPoolBlocks \<Rightarrow> pool_life" where
  "new_pool_life p = \<lparr>pl_blocks = Some p, pl_owner = True, pl_out = [], pl_releasing = 0\<rparr>"

definition free_stack :: "MediaBufferPoolBlocks \<Rightarrow> nat list" where
  "free_stack p = take (pb_free_size p) (pb_free_indices p)"

definition pool_inv :: "nat \<Rightarrow> nat \<Rightarrow> pool_life \<Rightarrow> bool" where
  "pool_inv block_bytes pool_size s \<longleftrightarrow>
     (case pl_blocks s of
        None \<Rightarrow> \<not> pl_owner s \<and> pl_out s = [] \<and> pl_releasing s = 0
      | Some p \<Rightarrow>
          pb_block_bytes p = block_bytes \<and> pb_pool_size p = pool_size
          \<and> length (pb_in_use p) = pool_size \<and> length (pb_free_indices p) = pool_size \<and> pb_free_size p \<le> pool_size
          \<and> distinct (free_stack p @ pl_out s) \<and> set (free_stack p @ pl_out s) = {..<pool_size}
          \<and> (\<forall>i < pool_size. pb_in_use p ! i \<longleftrightarrow> i \<in> set (pl_out s))
          \<and> pb_refs p = (if pl_owner s then 1 else 0) + length (pl_out s) + pl_releasing s \<and> 0 < pb_refs p
          \<and> length (pl_out s) \<le> pb_high_water_size p \<and> pb_high_water_size p \<le> pool_size)"


lemma pool_invD:
  assumes "pool_inv block_bytes pool_size s" and "pl_blocks s = Some p"
  shows "pb_block_bytes p = block_bytes" "pb_pool_size p = pool_size" "length (pb_in_use p) = pool_size"
    "length (pb_free_indices p) = pool_size" "pb_free_size p \<le> pool_size" "distinct (free_stack p @ pl_out s)"
    "set (free_stack p @ pl_out s) = {..<pool_size}" "i < pool_size \<Longrightarrow> pb_in_use p ! i \<longleftrightarrow> i \<in> set (pl_out s)"
    "pb_refs p = (if pl_owner s then 1 else 0) + length (pl_out s) + pl_releasing s" "0 < pb_refs p"
    "length (pl_out s) \<le> pb_high_water_size p" "pb_high_water_size p \<le> pool_size"
  using assms by (auto simp: pool_inv_def)

lemma free_stack_length: "pool_inv b n s \<Longrightarrow> pl_blocks s = Some p \<Longrightarrow> length (free_stack p) = pb_free_size p"
  using pool_invD(4,5) [of b n s p] by (simp add: free_stack_def)

text \<open>Every block is either on the stack of free blocks or held by a buffer.\<close>

lemma pool_balance:
  assumes "pool_inv b n s" and "pl_blocks s = Some p"
  shows "pb_free_size p + length (pl_out s) = n"
proof -
  have "length (free_stack p @ pl_out s) = card {..<n}"
    using distinct_card [OF pool_invD(6) [OF assms]] pool_invD(7) [OF assms] by simp
  then show ?thesis using free_stack_length [OF assms] by simp
qed

lemma take_Suc_update: "i < length xs \<Longrightarrow> take (Suc i) (xs[i := x]) = take i xs @ [x]"
  by (simp add: take_Suc_conv_app_nth)

lemma new_pool_inv:
  assumes "CreateMediaBufferPool new_blocks memory new_pool block_bytes pool_size = Some p"
  shows "pool_inv block_bytes pool_size (new_pool_life p)"
proof -
  have p: "p = (new_pool_blocks block_bytes pool_size)\<lparr>pb_in_use := replicate pool_size False,
      pb_free_indices := map (\<lambda>i. pool_size - 1 - i) [0..<pool_size]\<rparr>"
    using assms by (auto simp: CreateMediaBufferPool_def Pool_Allocate_def new_pool_blocks_def split: if_splits)
  have "inj_on (\<lambda>i. pool_size - 1 - i) {0..<pool_size}" by (auto simp: inj_on_def)
  moreover have "(\<lambda>i. pool_size - 1 - i) ` {0..<pool_size} = {..<pool_size}"
  proof (intro equalityI subsetI)
    fix x assume "x \<in> {..<pool_size}"
    then show "x \<in> (\<lambda>i. pool_size - 1 - i) ` {0..<pool_size}" by (intro image_eqI [of _ _ "pool_size - 1 - x"]) auto
  qed auto
  ultimately show ?thesis
    by (simp add: pool_inv_def p new_pool_life_def new_pool_blocks_def free_stack_def distinct_map)
qed

text \<open>An acquisition either fails and leaves the blocks as they were, or takes the top of the stack.\<close>

lemma Pool_Acquire_cases:
  assumes inv: "pool_inv b n s" and p: "pl_blocks s = Some p" and owner: "pl_owner s"
  obtains (fails) p' where "Pool_Acquire ref_ok node_ok p = (Some p', None)" "\<not> (0 < pb_free_size p \<and> ref_ok \<and> node_ok)"
      "pool_inv b n (s\<lparr>pl_blocks := Some p'\<rparr>)"
  | (takes) p' i where "Pool_Acquire ref_ok node_ok p = (Some p', Some i)" "0 < pb_free_size p" "ref_ok" "node_ok"
      "i = pb_free_indices p ! (pb_free_size p - 1)" "free_stack p = free_stack p' @ [i]"
      "pool_inv b n (s\<lparr>pl_blocks := Some p', pl_out := i # pl_out s\<rparr>)"
proof (cases "pb_free_size p = 0")
  case True
  then show ?thesis using fails [of "p\<lparr>pb_allocation_failures := pb_allocation_failures p + 1\<rparr>"] inv p owner
    by (simp add: Pool_Acquire_def pool_inv_def free_stack_def)
next
  case False
  then obtain k where k: "pb_free_size p = Suc k" by (cases "pb_free_size p") auto
  note d = pool_invD [OF inv p]
  define i where "i = pb_free_indices p ! k"
  have kn: "k < n" using d(5) k by simp
  have stack: "free_stack p = take k (pb_free_indices p) @ [i]"
    using kn d(4) by (simp add: free_stack_def k i_def take_Suc_conv_app_nth)
  have i: "i < n" "i \<notin> set (pl_out s)" "i \<notin> set (take k (pb_free_indices p))"
    using d(6,7) stack by auto
  define hw where "hw = (if n - k > pb_high_water_size p then n - k else pb_high_water_size p)"
  have hw: "Suc (length (pl_out s)) \<le> hw" "hw \<le> n" "pb_high_water_size p \<le> hw"
    using pool_balance [OF inv p] k d(12) by (auto simp: hw_def)
  have undo: "(pb_free_indices p)[k := i] = pb_free_indices p" "(pb_in_use p)[i := False] = pb_in_use p"
    using d(8) [OF i(1)] i(1,2) d(3) by (auto simp: i_def list_update_same_conv)
  define q where "q = p\<lparr>pb_free_size := k, pb_in_use := (pb_in_use p)[i := True], pb_high_water_size := hw\<rparr>"
  have q: "ReleaseBlockIndexLocked i (Pool_AddRef q) = p\<lparr>pb_high_water_size := hw, pb_refs := pb_refs p + 1\<rparr>"
    "ReleaseBlockIndexLocked i q = p\<lparr>pb_high_water_size := hw\<rparr>"
    using undo k by (simp_all add: ReleaseBlockIndexLocked_def q_def Pool_AddRef_def)
  have refs: "pb_refs p \<noteq> 0" using d(10) by simp
  have run: "Pool_Acquire ref_ok node_ok p =
      (if ref_ok \<and> node_ok then (Some (q\<lparr>pb_refs := pb_refs p + 1\<rparr>), Some i)
       else (Some (p\<lparr>pb_high_water_size := hw, pb_allocation_failures := pb_allocation_failures p + 1\<rparr>), None))"
    using q refs by (simp add: Pool_Acquire_def k d(2) i_def [symmetric] hw_def [symmetric] q_def [symmetric] Pool_ReleaseRef_def Let_def)
      (simp add: q_def Pool_AddRef_def)
  show ?thesis
  proof (cases "ref_ok \<and> node_ok")
    case True
    have "pool_inv b n (s\<lparr>pl_blocks := Some (q\<lparr>pb_refs := pb_refs p + 1\<rparr>), pl_out := i # pl_out s\<rparr>)"
      using d i hw kn stack by (auto simp: pool_inv_def q_def free_stack_def nth_list_update)
    then show ?thesis using run True False stack k
      by (intro takes [of "q\<lparr>pb_refs := pb_refs p + 1\<rparr>" i]) (auto simp: i_def q_def free_stack_def)
  next
    case False
    have "pool_inv b n (s\<lparr>pl_blocks := Some (p\<lparr>pb_high_water_size := hw, pb_allocation_failures := pb_allocation_failures p + 1\<rparr>)\<rparr>)"
      using d hw by (simp add: pool_inv_def free_stack_def)
    then show ?thesis using run False by (intro fails) auto
  qed
qed

lemma Pool_ReturnBlock_inv:
  assumes inv: "pool_inv b n s" and p: "pl_blocks s = Some p" and i: "i \<in> set (pl_out s)"
  shows "pool_inv b n (s\<lparr>pl_blocks := Some (ReturnBlock i p), pl_out := remove1 i (pl_out s), pl_releasing := pl_releasing s + 1\<rparr>)"
    and "free_stack (ReturnBlock i p) = free_stack p @ [i]"
proof -
  note d = pool_invD [OF inv p]
  have idx: "i < n" using d(7) i by auto
  then have ret: "ReturnBlock i p = ReleaseBlockIndexLocked i p" using d(2) d(8) i by (simp add: ReturnBlock_def)
  have len: "0 < length (pl_out s)" using i by auto
  have free: "pb_free_size p < n" using pool_balance [OF inv p] len by linarith
  show stack: "free_stack (ReturnBlock i p) = free_stack p @ [i]"
    unfolding ret using free d(4) by (simp add: free_stack_def ReleaseBlockIndexLocked_def take_Suc_update)
  have dist: "distinct (pl_out s)" "i \<notin> set (free_stack p)" using d(6) i by auto
  have "distinct (free_stack (ReturnBlock i p) @ remove1 i (pl_out s))"
    "set (free_stack (ReturnBlock i p) @ remove1 i (pl_out s)) = {..<n}"
    unfolding stack using d(6,7) i dist by (auto simp: set_remove1_eq)
  then show "pool_inv b n (s\<lparr>pl_blocks := Some (ReturnBlock i p), pl_out := remove1 i (pl_out s), pl_releasing := pl_releasing s + 1\<rparr>)"
    using d free len i dist(1) idx unfolding pool_inv_def
    by (auto simp: ret ReleaseBlockIndexLocked_def nth_list_update length_remove1 set_remove1_eq)
qed

lemma Pool_ReleaseRef_inv:
  assumes "pool_inv b n s" and "pl_blocks s = Some p"
    and "pl_out s' = pl_out s" "pl_blocks s' = Pool_ReleaseRef p"
    and "(if pl_owner s' then 1 else 0) + pl_releasing s' + 1 = (if pl_owner s then 1 else 0) + pl_releasing s"
  shows "pool_inv b n s'"
proof (cases "pb_refs p = 1")
  case True
  then have "\<not> pl_owner s' \<and> pl_out s = [] \<and> pl_releasing s' = 0"
    using assms(5) pool_invD(9) [OF assms(1,2)] by (cases "pl_out s") (auto split: if_splits)
  then show ?thesis using True assms(3,4) by (simp add: pool_inv_def Pool_ReleaseRef_def)
next
  case False
  then show ?thesis using assms pool_invD [OF assms(1,2)]
    by (auto simp: pool_inv_def Pool_ReleaseRef_def free_stack_def split: if_splits)
qed

lemma pool_step_inv: "pool_step s s' \<Longrightarrow> pool_inv b n s \<Longrightarrow> pool_inv b n s'"
proof (induction rule: pool_step.induct)
  case (step_acquire s p ref_ok node_ok q i)
  then show ?case by (cases rule: Pool_Acquire_cases [OF step_acquire(4,2,1), of ref_ok node_ok]) auto
next
  case (step_acquire_fails s p ref_ok node_ok q)
  then show ?case by (cases rule: Pool_Acquire_cases [OF step_acquire_fails(4,2,1), of ref_ok node_ok]) auto
next
  case (step_return i s p)
  then show ?case using Pool_ReturnBlock_inv(1) by blast
next
  case (step_release s p)
  show ?case by (rule Pool_ReleaseRef_inv [OF step_release(3,2)]) (use step_release(1) in auto)
next
  case (step_destroy s p)
  show ?case by (rule Pool_ReleaseRef_inv [OF step_destroy(3,2)]) (use step_destroy(1) in \<open>auto simp: DestroyPool_def\<close>)
qed

lemma pool_reachable_inv:
  assumes "CreateMediaBufferPool new_blocks memory new_pool b n = Some p" and "pool_step\<^sup>*\<^sup>* (new_pool_life p) s"
  shows "pool_inv b n s"
  using assms(2) by induction (use new_pool_inv [OF assms(1)] pool_step_inv in auto)


definition sample_pool :: MediaBufferPoolBlocks where
  "sample_pool = the (CreateMediaBufferPool True True True 16 2)"

lemma sample_pool_created: "CreateMediaBufferPool True True True 16 2 = Some sample_pool"
  by (simp add: sample_pool_def CreateMediaBufferPool_def Pool_Allocate_def new_pool_blocks_def)

lemma sample_pool_acquires: "\<exists>p. Pool_Acquire True True sample_pool = (Some p, Some 0)"
  by (simp add: sample_pool_def CreateMediaBufferPool_def Pool_Allocate_def new_pool_blocks_def Pool_Acquire_def Let_def upt_rec numeral_2_eq_2)


subsection \<open>Nothing leaks\<close>

lemma pool_drain:
  assumes "pool_inv b n s"
  shows "\<exists>s'. pool_step\<^sup>*\<^sup>* s s' \<and> pl_owner s' = pl_owner s \<and> pl_out s' = [] \<and> pl_releasing s' = 0"
  using assms
proof (induction "2 * length (pl_out s) + pl_releasing s" arbitrary: s rule: less_induct)
  case less
  have continue: ?case if step: "pool_step s t" and t: "pl_owner t = pl_owner s"
    "2 * length (pl_out t) + pl_releasing t < 2 * length (pl_out s) + pl_releasing s" for t
    using less.hyps [OF t(2) pool_step_inv [OF step less.prems]] step t(1) by (metis converse_rtranclp_into_rtranclp)
  show ?case
  proof (cases "pl_blocks s")
    case None
    then show ?thesis using less.prems by (auto simp: pool_inv_def intro!: exI [of _ s])
  next
    case (Some p)
    show ?thesis
    proof (cases "pl_out s")
      case (Cons i rest)
      show ?thesis
        by (rule continue [OF step_return [of i s p]]) (use Cons Some in auto)
    next
      case Nil
      show ?thesis
      proof (cases "pl_releasing s")
        case (Suc k)
        show ?thesis by (rule continue [OF step_release [of s p]]) (use Nil Suc Some in auto)
      qed (use Nil in auto)
    qed
  qed
qed

text \<open>
  Claim C23. No block is ever lost: from every reachable state the outstanding buffers can be released
  until no block is held; then the pool has all its blocks free again and \<open>Acquire\<close> succeeds, or, when
  the pool object is gone, the storage has been deleted.
\<close>

theorem buffer_pool_recovers:
  assumes "CreateMediaBufferPool new_blocks memory new_pool block_bytes pool_size = Some p0"
    and "pool_step\<^sup>*\<^sup>* (new_pool_life p0) s"
  shows "\<exists>s'. pool_step\<^sup>*\<^sup>* s s' \<and> pl_owner s' = pl_owner s \<and> pl_out s' = []
     \<and> (if pl_owner s
        then \<exists>p. pl_blocks s' = Some p \<and> pi_free_size (Pool_Stats p) = pool_size \<and> snd (Pool_Acquire True True p) \<noteq> None
        else pl_blocks s' = None)"
proof -
  have inv: "pool_inv block_bytes pool_size s" by (rule pool_reachable_inv [OF assms])
  obtain s' where s': "pool_step\<^sup>*\<^sup>* s s'" "pl_owner s' = pl_owner s" "pl_out s' = []" "pl_releasing s' = 0"
    using pool_drain [OF inv] by blast
  have inv': "pool_inv block_bytes pool_size s'"
    by (rule pool_reachable_inv [OF assms(1)]) (use assms(2) s'(1) in auto)
  have pos: "0 < pool_size"
    using assms(1) by (auto simp: CreateMediaBufferPool_def Pool_Allocate_def new_pool_blocks_def split: if_splits)
  show ?thesis
  proof (cases "pl_blocks s'")
    case None
    then show ?thesis using s' inv' by (auto simp: pool_inv_def)
  next
    case (Some p)
    have owner: "pl_owner s'" using pool_invD(9,10) [OF inv' Some] s'(3,4) by (auto split: if_splits)
    have free: "pb_free_size p = pool_size" using pool_balance [OF inv' Some] s'(3) by simp
    have "snd (Pool_Acquire True True p) \<noteq> None"
      by (rule Pool_Acquire_cases [OF inv' Some owner, of True True]) (use free pos in auto)
    then show ?thesis using s' owner free Some by (auto simp: Pool_Stats_def)
  qed
qed

theorem buffer_pool_recovers_witness:
  "\<exists>s p. pool_step\<^sup>*\<^sup>* (new_pool_life sample_pool) s \<and> pl_blocks s = Some p \<and> pi_free_size (Pool_Stats p) = 2"
  using buffer_pool_recovers [OF sample_pool_created rtranclp.rtrancl_refl]
  by (auto simp: new_pool_life_def)

end
