(* ===== verification/Ts_Muxer.thy ===== *)
theory Ts_Muxer
  imports Media_Types Byte_Writer Nal_Parser
begin

text \<open>
  \<open>libs/media/src/hls_maker.cpp\<close>, the MPEG transport stream part: program tables with their CRC, PES
  headers, the splitting of an access unit into 188-byte packets, and the slices an H.264 frame is
  made of. \<open>TsSegmentBuffer\<close> is the memory of the segment being written, of which the model keeps the
  bytes written so far and the capacity.
\<close>

section \<open>Model\<close>

record TsMuxerState =
  pat_continuity :: u8
  pmt_continuity :: u8
  video_continuity :: u8

definition new_ts_state :: TsMuxerState where
  "new_ts_state = \<lparr>pat_continuity = 0, pmt_continuity = 0, video_continuity = 0\<rparr>"

record TsSegmentBuffer =
  tb_data :: bytes
  tb_capacity :: nat

definition kPatPid :: u16 where "kPatPid = 0x0000"
definition kPmtPid :: u16 where "kPmtPid = 0x1000"
definition kVideoPid :: u16 where "kVideoPid = 0x0100"
definition kTsPacketSize :: nat where "kTsPacketSize = 188"
definition kTsStreamTypeH264 :: u8 where "kTsStreamTypeH264 = 0x1b"
definition kMaxTsMediaSlices :: nat where "kMaxTsMediaSlices = 192"

definition TsStreamType :: "Codec \<Rightarrow> u8" where
  "TsStreamType cdc = kTsStreamTypeH264"

definition AppendTsBytes :: "TsSegmentBuffer \<Rightarrow> bytes \<Rightarrow> TsSegmentBuffer \<times> bool" where
  "AppendTsBytes out data =
     (if length data = 0 then (out, True)
      else if length (tb_data out) > tb_capacity out \<or> length data > tb_capacity out - length (tb_data out)
      then (out, False)
      else (out\<lparr>tb_data := tb_data out @ data\<rparr>, True))"

definition AppendTsString :: "TsSegmentBuffer \<Rightarrow> bytes \<Rightarrow> TsSegmentBuffer \<times> bool" where
  "AppendTsString out data = (if data = [] then (out, True) else AppendTsBytes out data)"

text \<open>The inner loop of \<open>MpegCrc32\<close>, then the loop over the bytes.\<close>

definition MpegCrcBit :: "u32 \<Rightarrow> u32" where
  "MpegCrcBit crc = (if crc AND 0x80000000 \<noteq> 0 then push_bit 1 crc XOR 0x04c11db7 else push_bit 1 crc)"

fun MpegCrcLoop :: "bytes \<Rightarrow> u32 \<Rightarrow> u32" where
  "MpegCrcLoop [] crc = crc"
| "MpegCrcLoop (b # bs) crc = MpegCrcLoop bs ((MpegCrcBit ^^ 8) (crc XOR push_bit 24 (ucast b)))"

definition MpegCrc32 :: "bytes \<Rightarrow> u32" where
  "MpegCrc32 data = MpegCrcLoop data 0xffffffff"

definition AppendPsiSectionLength :: "bytes \<Rightarrow> u16 \<Rightarrow> bytes" where
  "AppendPsiSectionLength out section_length =
     AppendU8 (AppendU8 out (0xb0 OR (ucast (drop_bit 8 section_length) AND 0x0f))) (ucast (section_length AND 0xff))"

definition AppendPsiPid :: "bytes \<Rightarrow> u16 \<Rightarrow> bytes" where
  "AppendPsiPid out pid =
     AppendU8 (AppendU8 out (0xe0 OR (ucast (drop_bit 8 pid) AND 0x1f))) (ucast (pid AND 0xff))"

text \<open>The packet of a program table: a full packet of \<open>0xff\<close> with the header and the section stored over it.\<close>

definition PsiPacket :: "u16 \<Rightarrow> u8 \<Rightarrow> bytes \<Rightarrow> bytes" where
  "PsiPacket pid continuity_counter section_bytes =
     (let packet = replicate kTsPacketSize 0xff;
          packet = packet[0 := 0x47];
          packet = packet[1 := 0x40 OR (ucast (drop_bit 8 pid) AND 0x1f)];
          packet = packet[2 := ucast (pid AND 0xff)];
          packet = packet[3 := 0x10 OR (continuity_counter AND 0x0f)];
          packet = packet[4 := 0]
      in memcpy_at packet 5 section_bytes)"

definition BuildPatPacket :: "u8 \<Rightarrow> bytes \<times> u8" where
  "BuildPatPacket continuity_counter =
     (let s = AppendU8 [] 0x00;
          s = AppendPsiSectionLength s 13;
          s = AppendU16 s 1;
          s = AppendU8 s 0xc1;
          s = AppendU8 s 0;
          s = AppendU8 s 0;
          s = AppendU16 s 1;
          s = AppendPsiPid s kPmtPid;
          s = AppendU32 s (MpegCrc32 s)
      in (PsiPacket kPatPid continuity_counter s, (continuity_counter + 1) AND 0x0f))"

definition BuildPmtPacket :: "Codec \<Rightarrow> u8 \<Rightarrow> bytes \<times> u8" where
  "BuildPmtPacket cdc continuity_counter =
     (let s = AppendU8 [] 0x02;
          s = AppendPsiSectionLength s 18;
          s = AppendU16 s 1;
          s = AppendU8 s 0xc1;
          s = AppendU8 s 0;
          s = AppendU8 s 0;
          s = AppendPsiPid s kVideoPid;
          s = AppendU16 s 0xf000;
          s = AppendU8 s (TsStreamType cdc);
          s = AppendPsiPid s kVideoPid;
          s = AppendU16 s 0xf000;
          s = AppendU32 s (MpegCrc32 s)
      in (PsiPacket kPmtPid continuity_counter s, (continuity_counter + 1) AND 0x0f))"

definition AppendPts :: "bytes \<Rightarrow> u64 \<Rightarrow> u64 \<Rightarrow> bytes" where
  "AppendPts out prefix value =
     (let pts = value AND 0x1ffffffff;
          out = AppendU8 out (ucast (push_bit 4 prefix OR push_bit 1 (drop_bit 30 pts AND 0x07) OR 0x01));
          out = AppendU8 out (ucast (drop_bit 22 pts AND 0xff));
          out = AppendU8 out (ucast (push_bit 1 (drop_bit 15 pts AND 0x7f) OR 0x01));
          out = AppendU8 out (ucast (drop_bit 7 pts AND 0xff))
      in AppendU8 out (ucast (push_bit 1 (pts AND 0x7f) OR 0x01)))"

definition BuildPesHeader :: "u64 \<Rightarrow> u64 \<Rightarrow> bytes" where
  "BuildPesHeader pts_90k dts_90k =
     (let header = AppendU24 [] 0x000001;
          header = AppendU8 header 0xe0;
          header = AppendU16 header 0;
          header = AppendU8 header 0x80;
          has_dts = (pts_90k \<noteq> dts_90k);
          header = AppendU8 header (if has_dts then 0xc0 else 0x80);
          header = AppendU8 header (if has_dts then 10 else 5);
          header = AppendPts header (if has_dts then 0x03 else 0x02) pts_90k
      in if has_dts then AppendPts header 0x01 dts_90k else header)"

definition WritePcr :: "bytes \<Rightarrow> nat \<Rightarrow> u64 \<Rightarrow> bytes" where
  "WritePcr target off pcr_90k =
     (let base = pcr_90k AND 0x1ffffffff in
      target[off := ucast (drop_bit 25 base AND 0xff), off + 1 := ucast (drop_bit 17 base AND 0xff),
             off + 2 := ucast (drop_bit 9 base AND 0xff), off + 3 := ucast (drop_bit 1 base AND 0xff),
             off + 4 := ucast (push_bit 7 (base AND 0x01) OR 0x7e), off + 5 := 0])"

text \<open>Microseconds to 90 kHz; the product does not overflow below \<open>2 ^ 63 / 9\<close> microseconds.\<close>

definition TimestampUsTo90k :: "int \<Rightarrow> u64" where
  "TimestampUsTo90k timestamp_us = word_of_int (max 0 timestamp_us * 9 div 100)"

definition TsPacketBytesForPesSize :: "nat \<Rightarrow> nat option" where
  "TsPacketBytesForPesSize pes_size =
     (if pes_size = 0 then Some 0
      else if pes_size > SIZE_MAX - 175 then None
      else
        let ts_packets = (pes_size + 175) div 176 in
        if ts_packets > SIZE_MAX div kTsPacketSize then None else Some (ts_packets * kTsPacketSize))"

record TsSliceList =
  tl_slices :: "bytes list"
  tl_total_size :: nat

definition empty_slices :: TsSliceList where
  "empty_slices = \<lparr>tl_slices = [], tl_total_size = 0\<rparr>"

definition TsSlices_Add :: "TsSliceList \<Rightarrow> bytes \<Rightarrow> TsSliceList \<times> bool" where
  "TsSlices_Add l data =
     (if length data = 0 then (l, True)
      else if length (tl_slices l) \<ge> kMaxTsMediaSlices \<or> length data > SIZE_MAX - tl_total_size l then (l, False)
      else (\<lparr>tl_slices = tl_slices l @ [data], tl_total_size = tl_total_size l + length data\<rparr>, True))"

definition AddString :: "TsSliceList \<Rightarrow> bytes \<Rightarrow> TsSliceList \<times> bool" where
  "AddString l data = (if data = [] then (l, True) else TsSlices_Add l data)"

text \<open>A chain of \<open>Add\<close> calls joined by \<open>||\<close> on failure.\<close>

fun AddAll :: "TsSliceList \<Rightarrow> bytes list \<Rightarrow> TsSliceList \<times> bool" where
  "AddAll l [] = (l, True)"
| "AddAll l (d # ds) = (case TsSlices_Add l d of (l, ok) \<Rightarrow> if ok then AddAll l ds else (l, False))"

record TsFrameSlices =
  tf_pes_header :: bytes
  tf_pes_slices :: TsSliceList
  tf_dts_90k :: u64
  tf_ts_bytes :: nat

text \<open>The copying loop; \<open>at\<close> is the position of \<open>target\<close> in the packet.\<close>

primrec CopyPesLoop :: "bytes list \<Rightarrow> nat \<Rightarrow> nat \<Rightarrow> nat \<Rightarrow> nat \<Rightarrow> bytes \<Rightarrow> nat \<Rightarrow> bytes \<times> nat" where
  "CopyPesLoop [] offset sz copied slice_base packet at = (packet, copied)"
| "CopyPesLoop (sl # ss) offset sz copied slice_base packet at =
     (if \<not> copied < sz then (packet, copied)
      else if offset \<ge> slice_base + length sl
      then CopyPesLoop ss offset sz copied (slice_base + length sl) packet at
      else
        let slice_offset = (if offset > slice_base then offset - slice_base else 0);
            copy_size = min (sz - copied) (length sl - slice_offset);
            packet = memcpy_at packet (at + copied) (take copy_size (drop slice_offset sl))
        in CopyPesLoop ss (offset + copy_size) sz (copied + copy_size) (slice_base + length sl) packet at)"

definition CopyPesBytes :: "TsSliceList \<Rightarrow> nat \<Rightarrow> nat \<Rightarrow> bytes \<Rightarrow> nat \<Rightarrow> bytes \<times> nat" where
  "CopyPesBytes pes_slices offset sz packet at =
     (if sz = 0 then (packet, 0) else CopyPesLoop (tl_slices pes_slices) offset sz 0 0 packet at)"

text \<open>The number of payload bytes of the packet at \<open>offset\<close>.\<close>

definition TsPayloadSize :: "bool \<Rightarrow> nat \<Rightarrow> nat" where
  "TsPayloadSize first_packet remaining =
     (let payload_size =
            (if first_packet then min remaining 176
             else let n = min remaining 184 in if n = 183 then n - 1 else n);
          use_adaptation = (first_packet \<or> payload_size < 184)
      in if use_adaptation \<and> payload_size = 183 then payload_size - 1 else payload_size)"

lemma TsPayloadSize_pos: "0 < remaining \<Longrightarrow> 0 < TsPayloadSize first_packet remaining"
  by (simp add: TsPayloadSize_def Let_def)

text \<open>One packet of an access unit.\<close>

definition TsMediaPacket :: "TsSliceList \<Rightarrow> u64 \<Rightarrow> u8 \<Rightarrow> nat \<Rightarrow> bool \<Rightarrow> nat \<Rightarrow> bytes" where
  "TsMediaPacket pes_slices pcr_90k continuity_counter offset first_packet payload_size =
     (let use_adaptation = (first_packet \<or> payload_size < 184);
          adaptation_total = (if use_adaptation then 184 - payload_size else 0);
          packet = replicate kTsPacketSize 0xff;
          packet = packet[0 := 0x47];
          packet = packet[1 := (if first_packet then 0x40 else 0x00) OR (ucast (drop_bit 8 kVideoPid) AND 0x1f)];
          packet = packet[2 := ucast (kVideoPid AND 0xff)];
          packet = packet[3 := (if use_adaptation then 0x30 else 0x10) OR (continuity_counter AND 0x0f)];
          packet_offset = 4;
          (packet, packet_offset) =
            (if use_adaptation then
               let adaptation_length = adaptation_total - 1;
                   packet = packet[packet_offset := word_of_nat adaptation_length];
                   packet = packet[packet_offset + 1 := if first_packet then 0x10 else 0];
                   packet_offset = packet_offset + 2;
                   stuffing = adaptation_length - 1;
                   (packet, packet_offset, stuffing) =
                     (if first_packet then (WritePcr packet packet_offset pcr_90k, packet_offset + 6, stuffing - 6)
                      else (packet, packet_offset, stuffing))
               in (memcpy_at packet packet_offset (replicate stuffing 0xff), packet_offset + stuffing)
             else (packet, packet_offset))
      in fst (CopyPesBytes pes_slices offset payload_size packet packet_offset))"

function TsPayloadLoop :: "TsSliceList \<Rightarrow> u64 \<Rightarrow> nat \<Rightarrow> nat \<Rightarrow> u8 \<Rightarrow> TsSegmentBuffer \<Rightarrow> u8 \<times> TsSegmentBuffer \<times> bool" where
  "TsPayloadLoop pes_slices pcr_90k pes_size offset continuity_counter out =
     (if offset < pes_size then
        let first_packet = (offset = 0);
            payload_size = TsPayloadSize first_packet (pes_size - offset);
            packet = TsMediaPacket pes_slices pcr_90k continuity_counter offset first_packet payload_size;
            continuity_counter = (continuity_counter + 1) AND 0x0f
        in case AppendTsBytes out packet of
             (out, ok) \<Rightarrow>
               if \<not> ok then (continuity_counter, out, False)
               else TsPayloadLoop pes_slices pcr_90k pes_size (offset + payload_size) continuity_counter out
      else (continuity_counter, out, True))"
  by pat_completeness auto
termination
proof (relation "measure (\<lambda>(pes_slices, pcr_90k, pes_size, offset, cc, out). pes_size - offset)", goal_cases)
  case (2 pes_slices pcr_90k pes_size offset cc out first_packet payload_size)
  then have "0 < payload_size" by (simp add: TsPayloadSize_pos)
  with 2(1) show ?case by simp
qed simp

declare TsPayloadLoop.simps [simp del]

definition AppendTsPayloadToBuffer :: "TsSliceList \<Rightarrow> u64 \<Rightarrow> u8 \<Rightarrow> TsSegmentBuffer \<Rightarrow> u8 \<times> TsSegmentBuffer \<times> bool" where
  "AppendTsPayloadToBuffer pes_slices pcr_90k continuity_counter out =
     (let pes_size = tl_total_size pes_slices in
      case TsPacketBytesForPesSize pes_size of
        None \<Rightarrow> (continuity_counter, out, False)
      | Some ts_bytes \<Rightarrow>
          if length (tb_data out) > tb_capacity out then (continuity_counter, out, False)
          else if ts_bytes > tb_capacity out - length (tb_data out) then (continuity_counter, out, False)
          else TsPayloadLoop pes_slices pcr_90k pes_size 0 continuity_counter out)"

definition kStartCode :: bytes where "kStartCode = [0, 0, 0, 1]"
definition kAud :: bytes where "kAud = [0x09, 0xf0]"

fun AccessUnitLoop :: "NalUnit list \<Rightarrow> TsSliceList \<Rightarrow> TsSliceList \<times> bool" where
  "AccessUnitLoop [] l = (l, True)"
| "AccessUnitLoop (unit # us) l =
     (if unit_type unit = kH264NalTypeAud then AccessUnitLoop us l
      else case AddAll l [kStartCode, bv_bytes (unit_view unit)] of
        (l, ok) \<Rightarrow> if ok then AccessUnitLoop us l else (l, False))"

definition AddH264AccessUnitSlices ::
  "H264NalUnitList \<Rightarrow> bytes \<Rightarrow> bytes \<Rightarrow> bool \<Rightarrow> TsSliceList \<Rightarrow> TsSliceList \<times> bool" where
  "AddH264AccessUnitSlices l sps pps prepend_parameter_sets slices =
     (case AddAll slices [kStartCode, kAud] of
        (slices, ok) \<Rightarrow>
          if \<not> ok then (slices, False)
          else
            case (if prepend_parameter_sets \<and> sps \<noteq> [] \<and> pps \<noteq> []
                  then AddAll slices [kStartCode, sps, kStartCode, pps] else (slices, True)) of
              (slices, ok) \<Rightarrow> if \<not> ok then (slices, False) else AccessUnitLoop (units l) slices)"

definition AppendTsSegmentHeader :: "Codec \<Rightarrow> TsMuxerState \<Rightarrow> TsSegmentBuffer \<Rightarrow> TsMuxerState \<times> TsSegmentBuffer \<times> bool" where
  "AppendTsSegmentHeader cdc state segment_body =
     (if length (tb_data segment_body) > tb_capacity segment_body
         \<or> tb_capacity segment_body - length (tb_data segment_body) < kTsPacketSize * 2
      then (state, segment_body, False)
      else
        let (pat, pat_cc) = BuildPatPacket (pat_continuity state);
            (pmt, pmt_cc) = BuildPmtPacket cdc (pmt_continuity state);
            state = state\<lparr>pat_continuity := pat_cc, pmt_continuity := pmt_cc\<rparr>;
            (segment_body, ok) = AppendTsString segment_body pat
        in if \<not> ok then (state, segment_body, False)
           else case AppendTsString segment_body pmt of (segment_body, ok) \<Rightarrow> (state, segment_body, ok))"

definition BuildH264TsFrameSlices ::
  "H264NalUnitList \<Rightarrow> bytes \<Rightarrow> bytes \<Rightarrow> bool \<Rightarrow> int \<Rightarrow> int \<Rightarrow> TsFrameSlices option" where
  "BuildH264TsFrameSlices l sps pps prepend_parameter_sets pts dts =
     (if units l = [] then None
      else
        let pts_90k = TimestampUsTo90k pts;
            dts_90k = TimestampUsTo90k dts;
            pes_header = BuildPesHeader pts_90k dts_90k
        in case AddString empty_slices pes_header of
             (slices, ok) \<Rightarrow>
               if \<not> ok then None
               else case AddH264AccessUnitSlices l sps pps prepend_parameter_sets slices of
                 (slices, ok) \<Rightarrow>
                   if \<not> ok then None
                   else map_option (\<lambda>ts_bytes. \<lparr>tf_pes_header = pes_header, tf_pes_slices = slices,
                          tf_dts_90k = dts_90k, tf_ts_bytes = ts_bytes\<rparr>) (TsPacketBytesForPesSize (tl_total_size slices)))"

section \<open>The checksum\<close>

lemma top_bit_iff: "(c :: u32) AND 0x80000000 \<noteq> 0 \<longleftrightarrow> bit c 31"
proof -
  have "c AND 0x80000000 = 0 \<longleftrightarrow> \<not> bit c 31"
    using and_exp_eq_0_iff_not_bit [of c 31] by simp
  then show ?thesis by simp
qed

lemma MpegCrcBit_shift:
  assumes "\<And>i. 32 - n \<le> i \<Longrightarrow> \<not> bit c i" and "n \<le> 32"
  shows "(MpegCrcBit ^^ n) c = push_bit n c"
  using assms
proof (induction n arbitrary: c)
  case (Suc n)
  have "MpegCrcBit c = push_bit 1 c" using Suc.prems(1) [of 31] Suc.prems(2) by (simp add: MpegCrcBit_def top_bit_iff del: push_bit_numeral)
  moreover have "(MpegCrcBit ^^ n) (push_bit 1 c) = push_bit n (push_bit 1 c)"
    by (rule Suc.IH) (use Suc.prems in \<open>auto simp: bit_simps simp del: One_nat_def\<close>)
  ultimately show ?case by (simp only: funpow_Suc_right comp_apply push_bit_push_bit) simp
qed simp

text \<open>Feeding the top byte of the register shifts the register by one byte.\<close>

lemma crc_top_byte: "(MpegCrcBit ^^ 8) (c XOR push_bit 24 (ucast (ucast (drop_bit 24 c) :: u8))) = push_bit 8 c"
proof -
  have "\<not> bit (c XOR push_bit 24 (ucast (ucast (drop_bit 24 c) :: u8))) i" if "24 \<le> i" for i
    using that bit_imp_le_length [of c i] by (auto simp: bit_simps)
  then have "(MpegCrcBit ^^ 8) (c XOR push_bit 24 (ucast (ucast (drop_bit 24 c) :: u8)))
      = push_bit 8 (c XOR push_bit 24 (ucast (ucast (drop_bit 24 c) :: u8)))"
    by (intro MpegCrcBit_shift) simp_all
  also have "\<dots> = push_bit 8 c" by (rule bit_word_eqI) (auto simp: bit_simps)
  finally show ?thesis .
qed

lemma crc_bytes_shift:
  "(ucast (drop_bit 16 (c :: u32)) :: u8) = ucast (drop_bit 24 (push_bit 8 c))"
  "(ucast (drop_bit 8 c) :: u8) = ucast (drop_bit 24 (push_bit 8 (push_bit 8 c)))"
  "(ucast c :: u8) = ucast (drop_bit 24 (push_bit 8 (push_bit 8 (push_bit 8 c))))"
  by (rule bit_word_eqI; auto simp: bit_simps)+

lemma be32_shifted:
  "be32 c = [ucast (drop_bit 24 c), ucast (drop_bit 24 (push_bit 8 c)),
     ucast (drop_bit 24 (push_bit 8 (push_bit 8 c))), ucast (drop_bit 24 (push_bit 8 (push_bit 8 (push_bit 8 c))))]"
  by (simp only: be32_def crc_bytes_shift [of c])

lemma crc_register: "MpegCrcLoop (be32 c) c = 0"
proof -
  have "MpegCrcLoop (be32 c) c = push_bit 8 (push_bit 8 (push_bit 8 (push_bit 8 c)))"
    by (simp only: be32_shifted MpegCrcLoop.simps crc_top_byte)
  also have "\<dots> = 0" by (rule bit_word_eqI) (auto simp: bit_simps)
  finally show ?thesis .
qed

lemma MpegCrcLoop_append: "MpegCrcLoop (xs @ ys) c = MpegCrcLoop ys (MpegCrcLoop xs c)"
  by (induction xs arbitrary: c) simp_all

text \<open>A section followed by its checksum has checksum zero, which is what receivers test.\<close>

lemma MpegCrc32_residue: "MpegCrc32 (data @ be32 (MpegCrc32 data)) = 0"
  by (simp add: MpegCrc32_def MpegCrcLoop_append crc_register)

section \<open>A reader of transport packets\<close>

record TsPacket =
  tp_start :: bool
  tp_pid :: nat
  tp_continuity :: nat
  tp_pcr :: "nat option"
  tp_payload :: bytes

text \<open>The 33-bit clock base of an adaptation field.\<close>

definition pcr_value :: "bytes \<Rightarrow> nat" where
  "pcr_value p = be_value (take 4 p) * 2 + unat (p ! 4) div 128"

definition parse_ts_packet :: "bytes \<Rightarrow> TsPacket option" where
  "parse_ts_packet p =
     (if length p \<noteq> 188 \<or> p ! 0 \<noteq> 0x47 then None
      else
        let pkt = \<lparr>tp_start = bit (p ! 1) 6, tp_pid = unat (p ! 1 AND 0x1f) * 256 + unat (p ! 2),
                   tp_continuity = unat (p ! 3 AND 0x0f), tp_pcr = None, tp_payload = drop 4 p\<rparr>;
            control = drop_bit 4 (p ! 3) AND 3
        in if control = 1 then Some pkt
           else if control = 3 then
             let n = unat (p ! 4) in
             if n > 183 then None
             else Some (pkt\<lparr>tp_pcr := (if 7 \<le> n \<and> bit (p ! 5) 4 then Some (pcr_value (drop 6 p)) else None),
                            tp_payload := drop (5 + n) p\<rparr>)
           else None)"

lemma unat_ucast_mask8: "unat (ucast (drop_bit n (v :: u64) AND 0xff) :: u8) = unat v div 2 ^ n mod 256"
proof -
  have "(ucast (drop_bit n v AND mask 8) :: u8) = ucast (drop_bit n v)"
    by (intro bit_word_eqI) (simp add: bit_simps bit_mask_iff del: mask_numeral)
  then show ?thesis by (simp add: mask_eq_exp_minus_1 unat_byte)
qed

lemma unat_mask33: "unat ((v :: u64) AND 0x1ffffffff) = unat v mod 2 ^ 33"
proof -
  have "v AND 0x1ffffffff = v AND mask 33" by (simp add: mask_eq_exp_minus_1)
  then have e: "v AND 0x1ffffffff = take_bit 33 v" by (simp only: take_bit_eq_mask)
  show ?thesis unfolding e unsigned_take_bit_eq by (simp only: take_bit_eq_mod)
qed

lemma even_unat: "even (unat v) \<longleftrightarrow> even (v :: 'a :: len word)"
  using bit_unsigned_iff [where ?'a = nat, of v 0] by (simp add: bit_0)

lemma unat_pcr_low: "unat (ucast (push_bit 7 ((v :: u64) AND 1) OR 0x7e) :: u8) div 128 = unat v mod 2"
  by (cases "even v") (simp_all add: and_one_eq mod_2_eq_odd even_unat)

lemma split_33_bits:
  fixes x :: nat
  assumes "x < 2 ^ 33"
  shows "(x div 2 ^ 25 mod 256 * 256 ^ 3 + (x div 2 ^ 17 mod 256 * 256 ^ 2 + (x div 2 ^ 9 mod 256 * 256 + x div 2 mod 256))) * 2
     + x mod 2 = x"
proof -
  define a b c d where "a = x div 2" and "b = a div 256" and "c = b div 256" and "d = c div 256"
  have "x div 2 ^ 25 = d" "x div 2 ^ 17 = c" "x div 2 ^ 9 = b" "x div 2 = a"
    by (simp_all add: a_def b_def c_def d_def div_mult2_eq [symmetric])
  moreover have "d < 256" using assms by (simp add: a_def b_def c_def d_def div_mult2_eq [symmetric])
  moreover have "x = a * 2 + x mod 2" "a = b * 256 + a mod 256" "b = c * 256 + b mod 256" "c = d * 256 + c mod 256"
    by (simp_all add: a_def b_def c_def d_def)
  ultimately show ?thesis by simp
qed

lemma pcr_value_WritePcr:
  assumes "off + 6 \<le> length buf"
  shows "pcr_value (drop off (WritePcr buf off pcr)) = unat pcr mod 2 ^ 33"
proof -
  define b where "b = pcr AND 0x1ffffffff"
  have w: "drop off (WritePcr buf off pcr) = [ucast (drop_bit 25 b AND 0xff), ucast (drop_bit 17 b AND 0xff),
      ucast (drop_bit 9 b AND 0xff), ucast (drop_bit 1 b AND 0xff), ucast (push_bit 7 (b AND 1) OR 0x7e), 0] @ drop (off + 6) buf"
    using assms by (intro nth_equalityI)
      (auto simp: WritePcr_def Let_def b_def nth_list_update nth_Cons' nth_append)
  have lt: "unat b < 2 ^ 33" by (simp add: b_def unat_mask33)
  have "pcr_value (drop off (WritePcr buf off pcr)) = unat b"
    unfolding w pcr_value_def using split_33_bits [OF lt] unat_pcr_low [of b]
    by (simp add: unat_ucast_mask8)
  then show ?thesis by (simp add: b_def unat_mask33)
qed

section \<open>Media packets\<close>

lemma CopyPesLoop_spec:
  assumes "copied = sz \<or> base \<le> offset" and "copied \<le> sz"
    and "copied < sz \<Longrightarrow> offset - base + (sz - copied) \<le> length (concat ss)" and "at + sz \<le> length packet"
  shows "fst (CopyPesLoop ss offset sz copied base packet at)
     = memcpy_at packet (at + copied) (take (sz - copied) (drop (offset - base) (concat ss)))"
  using assms
proof (induction ss arbitrary: offset copied base packet)
  case Nil
  then show ?case by (cases "copied < sz") auto
next
  case (Cons sl ss)
  show ?case
  proof (cases "copied < sz")
    case False
    with Cons.prems show ?thesis by simp
  next
    case True
    with Cons.prems have base: "base \<le> offset" by simp
    show ?thesis
    proof (cases "offset \<ge> base + length sl")
      case skip: True
      then have "fst (CopyPesLoop ss offset sz copied (base + length sl) packet at)
          = memcpy_at packet (at + copied) (take (sz - copied) (drop (offset - (base + length sl)) (concat ss)))"
        using True Cons.prems by (intro Cons.IH) auto
      moreover have "drop (offset - base) (sl @ concat ss) = drop (offset - (base + length sl)) (concat ss)"
        using skip by simp
      ultimately show ?thesis using True skip by simp
    next
      case False
      define so cs where "so = offset - base" and "cs = min (sz - copied) (length sl - so)"
      have so: "(if offset > base then offset - base else 0) = so" using base by (simp add: so_def)
      have lt: "so < length sl" using False base by (simp add: so_def)
      let ?p = "memcpy_at packet (at + copied) (take cs (drop so sl))"
      have cs: "length (take cs (drop so sl)) = cs" using lt by (simp add: cs_def)
      have csz: "copied + cs \<le> sz" using True by (simp add: cs_def)
      have "fst (CopyPesLoop ss (offset + cs) sz (copied + cs) (base + length sl) ?p at)
          = memcpy_at ?p (at + (copied + cs)) (take (sz - (copied + cs)) (drop (offset + cs - (base + length sl)) (concat ss)))"
      proof (rule Cons.IH)
        show "copied + cs = sz \<or> base + length sl \<le> offset + cs" using True lt base by (auto simp: cs_def so_def min_def)
        show "copied + cs \<le> sz" using True by (simp add: cs_def)
        show "offset + cs - (base + length sl) + (sz - (copied + cs)) \<le> length (concat ss)" if "copied + cs < sz"
          using Cons.prems(3) [OF True] that lt base by (auto simp: cs_def so_def min_def split: if_splits)
        show "at + sz \<le> length ?p" using Cons.prems(4) True cs by (subst length_memcpy_at) (auto simp: cs_def)
      qed
      moreover have "offset + cs - (base + length sl) = 0" using lt base by (auto simp: cs_def so_def)
      moreover have "take (sz - copied) (drop so (sl @ concat ss)) = take cs (drop so sl) @ take (sz - (copied + cs)) (concat ss)"
        using lt by (auto simp: cs_def min_def)
      moreover have "memcpy_at ?p (at + copied + cs) (take (sz - (copied + cs)) (concat ss))
          = memcpy_at packet (at + copied) (take cs (drop so sl) @ take (sz - (copied + cs)) (concat ss))"
        using memcpy_at_twice [of "at + copied" "take cs (drop so sl)" "take (sz - (copied + cs)) (concat ss)" packet]
          Cons.prems(4) True cs length_take [of "sz - (copied + cs)" "concat ss"] csz by simp
      ultimately show ?thesis using True False
        by (simp add: Let_def so so_def [symmetric] cs_def [symmetric] add.assoc)
    qed
  qed
qed

text \<open>The bytes of a media packet between its header and its payload.\<close>

definition pcr_bytes :: "u64 \<Rightarrow> bytes" where
  "pcr_bytes pcr = WritePcr (replicate 6 0) 0 pcr"

definition adaptation :: "u64 \<Rightarrow> bool \<Rightarrow> nat \<Rightarrow> bytes" where
  "adaptation pcr first n =
     (if first then [word_of_nat (183 - n), 0x10] @ pcr_bytes pcr @ replicate (176 - n) 0xff
      else if n < 184 then [word_of_nat (183 - n), 0] @ replicate (182 - n) 0xff else [])"

lemma CopyPesBytes_spec:
  assumes "offset + n \<le> length (concat (tl_slices l))" and "at + n \<le> length packet"
  shows "fst (CopyPesBytes l offset n packet at) = memcpy_at packet at (take n (drop offset (concat (tl_slices l))))"
  using CopyPesLoop_spec [of 0 n 0 offset "tl_slices l" at packet] assms by (simp add: CopyPesBytes_def)

lemma memcpy_fill:
  "m \<le> k \<Longrightarrow> memcpy_at (h @ replicate k x) (length h) (replicate m x) = h @ replicate k x"
  by (simp add: memcpy_at_def replicate_add [symmetric] flip: append_assoc)

lemma memcpy_tail:
  "k = m + length d \<Longrightarrow> memcpy_at (h @ replicate k x) (length h + m) d = h @ replicate m x @ d"
  by (simp add: memcpy_at_def)

lemma replicate_unfold:
  "replicate 188 x = [x, x, x, x, x, x, x, x, x, x, x, x] @ replicate 176 x"
  "replicate 188 x = [x, x, x, x, x, x] @ replicate 182 x"
  "replicate 188 x = [x, x, x, x] @ replicate 184 x"
  "replicate 188 x = [x, x, x, x, x] @ replicate 183 x"
  by (simp_all add: numeral_eq_Suc)

lemma replicate_6: "replicate 6 x = [x, x, x, x, x, x]"
  by (simp add: numeral_eq_Suc)

lemma list_update_lits [simp]:
  "(x # xs)[1 := v] = x # xs[0 := v]" "(x # xs)[2 := v] = x # xs[1 := v]" "(x # xs)[3 := v] = x # xs[2 := v]"
  "(x # xs)[4 := v] = x # xs[3 := v]" "(x # xs)[5 := v] = x # xs[4 := v]" "(x # xs)[6 := v] = x # xs[5 := v]"
  "(x # xs)[7 := v] = x # xs[6 := v]" "(x # xs)[8 := v] = x # xs[7 := v]" "(x # xs)[9 := v] = x # xs[8 := v]"
  "(x # xs)[10 := v] = x # xs[9 := v]" "(x # xs)[11 := v] = x # xs[10 := v]"
  by (simp_all add: eval_nat_numeral(2,3) numeral_2_eq_2 numeral_3_eq_3)

definition media_header :: "u8 \<Rightarrow> bool \<Rightarrow> nat \<Rightarrow> bytes" where
  "media_header cc first n =
     [0x47, if first then 0x41 else 1, 0, (if first \<or> n < 184 then 0x30 else 0x10) OR (cc AND 0x0f)]"

lemma TsMediaPacket_eq:
  assumes "offset + n \<le> length (concat (tl_slices l))" and "first \<Longrightarrow> n \<le> 176" and "\<not> first \<Longrightarrow> n \<le> 184 \<and> n \<noteq> 183"
  shows "TsMediaPacket l pcr cc offset first n =
     media_header cc first n @ adaptation pcr first n @ take n (drop offset (concat (tl_slices l)))"
proof -
  let ?d = "take n (drop offset (concat (tl_slices l)))"
  have d: "length ?d = n" using assms(1) by simp
  have copy: "fst (CopyPesBytes l offset n (h @ replicate k x) at) = h @ replicate m x @ ?d"
    if "at = length h + m" "k = m + n" for h k m x at
    using that CopyPesBytes_spec [OF assms(1), of at "h @ replicate k x"] memcpy_tail [of k m ?d h x] d by simp
  consider "first" | "\<not> first" "n < 184" | "\<not> first" "n = 184" using assms(3) by fastforce
  then show ?thesis
  proof cases
    case 1
    then have n: "n \<le> 176" using assms(2) by simp
    define h where "h = media_header cc first n @ [word_of_nat (183 - n), 0x10] @ pcr_bytes pcr"
    have "length h = 12" by (simp add: h_def media_header_def pcr_bytes_def WritePcr_def Let_def)
    moreover from this memcpy_fill [where h = h and m = "176 - n" and k = 176 and x = "0xff"]
    have "memcpy_at (h @ replicate 176 0xff) 12 (replicate (176 - n) 0xff) = h @ replicate 176 0xff" by simp
    moreover have "WritePcr ((replicate 188 0xff)[0 := 0x47, 1 := 0x41, 2 := 0, 3 := 0x30 OR (cc AND 0x0f),
        4 := word_of_nat (183 - n), 5 := 0x10]) 6 pcr = h @ replicate 176 0xff"
      unfolding replicate_unfold(1) using 1
      by (simp add: h_def media_header_def pcr_bytes_def WritePcr_def Let_def replicate_6)
    ultimately show ?thesis using 1 n copy [of "12 + (176 - n)" h "176 - n" 176 "0xff"]
      by (simp add: TsMediaPacket_def Let_def kTsPacketSize_def kVideoPid_def adaptation_def h_def)
  next
    case 2
    then have n: "n \<le> 182" using assms(3) by linarith
    define h where "h = media_header cc first n @ [word_of_nat (183 - n), 0]"
    have "length h = 6" by (simp add: h_def media_header_def)
    moreover from this memcpy_fill [where h = h and m = "182 - n" and k = 182 and x = "0xff"]
    have "memcpy_at (h @ replicate 182 0xff) 6 (replicate (182 - n) 0xff) = h @ replicate 182 0xff" by simp
    moreover have "(replicate 188 0xff)[0 := 0x47, 1 := 1, 2 := 0, 3 := 0x30 OR (cc AND 0x0f),
        4 := word_of_nat (183 - n), 5 := 0] = h @ replicate 182 0xff"
      unfolding replicate_unfold(2) using 2 by (simp add: h_def media_header_def)
    ultimately show ?thesis using 2 n copy [of "6 + (182 - n)" h "182 - n" 182 "0xff"]
      by (simp add: TsMediaPacket_def Let_def kTsPacketSize_def kVideoPid_def adaptation_def h_def)
  next
    case 3
    define h where "h = media_header cc first n"
    have len: "length h = 4" by (simp add: h_def media_header_def)
    have "(replicate 188 0xff)[0 := 0x47, 1 := 1, 2 := 0, 3 := 0x10 OR (cc AND 0x0f)] = h @ replicate 184 0xff"
      unfolding replicate_unfold(3) using 3 by (simp add: h_def media_header_def)
    then have "TsMediaPacket l pcr cc offset first n = fst (CopyPesBytes l offset n (h @ replicate 184 0xff) 4)"
      using 3 by (simp add: TsMediaPacket_def Let_def kTsPacketSize_def kVideoPid_def)
    also have "\<dots> = h @ replicate 0 0xff @ ?d" by (rule copy) (use 3 len in simp_all)
    finally show ?thesis using 3 by (simp add: h_def adaptation_def)
  qed
qed

lemma media_flags:
  "drop_bit 4 (0x30 OR (cc AND 0x0f)) AND 3 = (3 :: u8)" "drop_bit 4 (0x10 OR (cc AND 0x0f)) AND 3 = (1 :: u8)"
  "(0x30 OR (cc AND 0x0f)) AND 0x0f = (cc AND 0x0f :: u8)" "(0x10 OR (cc AND 0x0f)) AND 0x0f = (cc AND 0x0f :: u8)"
  unfolding u8_eq_iff by (auto simp: byte_bits bit_numeral_rec)

lemma pcr_value_bytes: "pcr_value (pcr_bytes pcr @ xs) = unat pcr mod 2 ^ 33"
  using pcr_value_WritePcr [of 0 "replicate 6 0" pcr] by (simp add: pcr_bytes_def pcr_value_def nth_append WritePcr_def Let_def)

lemma length_pcr_bytes [simp]: "length (pcr_bytes pcr) = 6"
  by (simp add: pcr_bytes_def WritePcr_def Let_def)

lemma unat_small_byte: "k < 256 \<Longrightarrow> unat (word_of_nat k :: u8) = k"
  by (simp add: unat_of_nat)

definition media_view :: "bool \<Rightarrow> u64 \<Rightarrow> u8 \<Rightarrow> bytes \<Rightarrow> TsPacket" where
  "media_view first pcr cc d =
     \<lparr>tp_start = first, tp_pid = unat kVideoPid, tp_continuity = unat (cc AND 0x0f),
      tp_pcr = (if first then Some (unat pcr mod 2 ^ 33) else None), tp_payload = d\<rparr>"

lemma parse_media_packet:
  assumes "length d = n" and "first \<Longrightarrow> n \<le> 176" and "\<not> first \<Longrightarrow> n \<le> 184 \<and> n \<noteq> 183"
  shows "parse_ts_packet (media_header cc first n @ adaptation pcr first n @ d) = Some (media_view first pcr cc d)"
proof -
  consider "first" | "\<not> first" "n < 184" | "\<not> first" "n = 184" using assms(3) by fastforce
  then show ?thesis
  proof cases
    case 1
    then have n: "n \<le> 176" using assms(2) by simp
    then have "unat (word_of_nat (183 - n) :: u8) = 183 - n" by (intro unat_small_byte) simp
    moreover have "drop (188 - n) ((media_header cc first n @ adaptation pcr first n) @ d) = d"
      using 1 n by (intro drop_app_len) (simp add: media_header_def adaptation_def)
    moreover have "7 \<le> 183 - n" "\<not> 183 < 183 - n" "Suc (187 - n) = 188 - n" using n by simp_all
    ultimately show ?thesis using 1 n assms(1)
      by (simp add: parse_ts_packet_def media_header_def adaptation_def media_view_def media_flags Let_def
          pcr_value_bytes bit_numeral_rec kVideoPid_def)
  next
    case 2
    then have n: "n \<le> 182" using assms(3) by linarith
    then have "unat (word_of_nat (183 - n) :: u8) = 183 - n" by (intro unat_small_byte) simp
    moreover have "drop (188 - n) ((media_header cc first n @ adaptation pcr first n) @ d) = d"
      using 2 n by (intro drop_app_len) (simp add: media_header_def adaptation_def)
    ultimately show ?thesis using 2 n assms(1)
      by (simp add: parse_ts_packet_def media_header_def adaptation_def media_view_def media_flags Let_def
          bit_numeral_rec kVideoPid_def)
  next
    case 3
    then show ?thesis using assms(1)
      by (simp add: parse_ts_packet_def media_header_def adaptation_def media_view_def media_flags Let_def
          bit_numeral_rec kVideoPid_def)
  qed
qed

section \<open>An access unit in packets\<close>

text \<open>What a reader sees of the packets that carry the chunks of one access unit.\<close>

fun ts_views :: "bool \<Rightarrow> u64 \<Rightarrow> u8 \<Rightarrow> bytes list \<Rightarrow> TsPacket list" where
  "ts_views first pcr cc [] = []"
| "ts_views first pcr cc (d # ds) = media_view first pcr cc d # ts_views False pcr ((cc + 1) AND 0x0f) ds"

fun advance :: "nat \<Rightarrow> u8 \<Rightarrow> u8" where
  "advance 0 cc = cc"
| "advance (Suc n) cc = advance n ((cc + 1) AND 0x0f)"

text \<open>The number of packets for the rest of an access unit behind its first packet.\<close>

definition rest_packets :: "nat \<Rightarrow> nat" where
  "rest_packets r = (if r mod 184 = 183 then r div 184 + 2 else (r + 183) div 184)"

lemma rest_packets_step:
  assumes "0 < r"
  shows "rest_packets r = Suc (rest_packets (r - TsPayloadSize False r))"
proof -
  consider "r < 183" | "r = 183" | "r = 184" | "184 < r" by linarith
  then show ?thesis
  proof cases
    case 4
    then have "r = (r - 184) + 184" by simp
    then obtain q where "r = q + 184" by blast
    moreover have "(q + 184 + 183) div 184 = Suc ((q + 183) div 184)" "(q + 184) div 184 = Suc (q div 184)" by simp_all
    ultimately show ?thesis by (simp add: rest_packets_def TsPayloadSize_def Let_def)
  qed (use assms in \<open>simp_all add: rest_packets_def TsPayloadSize_def Let_def\<close>)
qed

lemma packets_fit:
  assumes "0 < n"
  shows "Suc (rest_packets (n - TsPayloadSize True n)) \<le> (n + 175) div 176"
proof (cases "n \<le> 176")
  case True
  then show ?thesis using assms by (simp add: rest_packets_def TsPayloadSize_def Let_def)
next
  case False
  define q where "q = n - 176"
  have n: "n = q + 176" using False by (simp add: q_def)
  have "rest_packets q \<le> (q + 175) div 176"
  proof (cases "q mod 184 = 183")
    case True
    then obtain k where k: "q = k * 184 + 183" by (metis div_mult_mod_eq)
    then have "176 * (k + 2) \<le> q + 175" and "k = q div 184" by simp_all
    then have "176 * (q div 184 + 2) \<le> q + 175" by simp
    then have "q div 184 + 2 \<le> (q + 175) div 176" by (simp add: less_eq_div_iff_mult_less_eq ac_simps)
    then show ?thesis using True by (simp add: rest_packets_def)
  next
    case False
    have "(q + 183) div 184 * 184 \<le> q + 183" by simp
    moreover have "(q + 183) div 184 * 184 \<noteq> 0 \<or> q = 0" by (cases "q = 0") (auto simp: div_eq_0_iff)
    ultimately have "176 * ((q + 183) div 184) \<le> q + 175" by auto
    then have "(q + 183) div 184 \<le> (q + 175) div 176" by (simp add: less_eq_div_iff_mult_less_eq ac_simps)
    then show ?thesis using False by (simp add: rest_packets_def)
  qed
  moreover have "TsPayloadSize True n = 176" using False by (simp add: TsPayloadSize_def Let_def)
  moreover have "(n + 175) div 176 = Suc ((q + 175) div 176)" by (simp add: n)
  ultimately show ?thesis by (simp add: q_def)
qed

lemma payload_size_ok:
  "TsPayloadSize f r \<le> r" "f \<Longrightarrow> TsPayloadSize f r \<le> 176" "\<not> f \<Longrightarrow> TsPayloadSize f r \<le> 184 \<and> TsPayloadSize f r \<noteq> 183"
  by (auto simp: TsPayloadSize_def Let_def)

text \<open>One round of the loop.\<close>

lemma TsPayloadLoop_step:
  fixes l pcr cc offset
  defines "n \<equiv> TsPayloadSize (offset = 0) (length (concat (tl_slices l)) - offset)"
  defines "p \<equiv> TsMediaPacket l pcr cc offset (offset = 0) n"
  assumes "offset < length (concat (tl_slices l))" and "length (tb_data out) + 188 \<le> tb_capacity out"
  shows "length p = 188 \<and> parse_ts_packet p
       = Some (media_view (offset = 0) pcr cc (take n (drop offset (concat (tl_slices l)))))"
    and "TsPayloadLoop l pcr (length (concat (tl_slices l))) offset cc out
       = TsPayloadLoop l pcr (length (concat (tl_slices l))) (offset + n) ((cc + 1) AND 0x0f)
           (out\<lparr>tb_data := tb_data out @ p\<rparr>)"
proof -
  let ?d = "take n (drop offset (concat (tl_slices l)))"
  have le: "offset + n \<le> length (concat (tl_slices l))"
    using assms(3) payload_size_ok(1) [of "offset = 0" "length (concat (tl_slices l)) - offset"] by (simp add: n_def)
  have ok: "offset = 0 \<Longrightarrow> n \<le> 176" "offset \<noteq> 0 \<Longrightarrow> n \<le> 184 \<and> n \<noteq> 183"
    using payload_size_ok(2,3) [of "offset = 0"] by (simp_all add: n_def)
  have p: "p = media_header cc (offset = 0) n @ adaptation pcr (offset = 0) n @ ?d"
    unfolding p_def using le ok by (intro TsMediaPacket_eq) auto
  have view: "parse_ts_packet p = Some (media_view (offset = 0) pcr cc ?d)"
    unfolding p using le ok by (intro parse_media_packet) auto
  moreover from this have len: "length p = 188" by (simp add: parse_ts_packet_def split: if_splits)
  ultimately show "length p = 188 \<and> parse_ts_packet p = Some (media_view (offset = 0) pcr cc ?d)" by simp
  have "AppendTsBytes out p = (out\<lparr>tb_data := tb_data out @ p\<rparr>, True)"
    using len assms(4) by (simp add: AppendTsBytes_def)
  then show "TsPayloadLoop l pcr (length (concat (tl_slices l))) offset cc out
       = TsPayloadLoop l pcr (length (concat (tl_slices l))) (offset + n) ((cc + 1) AND 0x0f)
           (out\<lparr>tb_data := tb_data out @ p\<rparr>)"
    using assms(3) unfolding p_def n_def
    by (subst TsPayloadLoop.simps) (simp only: Let_def if_True prod.case simp_thms if_False)
qed

definition carries :: "bool \<Rightarrow> u64 \<Rightarrow> u8 \<Rightarrow> bytes list \<Rightarrow> bytes \<Rightarrow> bool" where
  "carries first pcr cc pkts d \<longleftrightarrow> list_all (\<lambda>p. length p = 188) pkts
     \<and> (\<exists>chunks. concat chunks = d \<and> map parse_ts_packet pkts = map Some (ts_views first pcr cc chunks))"

lemma carries_Cons:
  assumes "length p = 188" "parse_ts_packet p = Some (media_view first pcr cc d)"
    and "carries False pcr ((cc + 1) AND 0x0f) pkts e"
  shows "carries first pcr cc (p # pkts) (d @ e)"
proof -
  obtain chunks where "concat chunks = e" "map parse_ts_packet pkts = map Some (ts_views False pcr ((cc + 1) AND 0x0f) chunks)"
    using assms(3) by (auto simp: carries_def)
  then have "concat (d # chunks) = d @ e \<and> map parse_ts_packet (p # pkts) = map Some (ts_views first pcr cc (d # chunks))"
    using assms(2) by simp
  then show ?thesis using assms(1,3) unfolding carries_def by fastforce
qed

lemma TsPayloadLoop_rest:
  assumes "0 < offset" and "offset \<le> length (concat (tl_slices l))"
    and "length (tb_data out) + 188 * rest_packets (length (concat (tl_slices l)) - offset) \<le> tb_capacity out"
  shows "\<exists>pkts. TsPayloadLoop l pcr (length (concat (tl_slices l))) offset cc out
       = (advance (length pkts) cc, out\<lparr>tb_data := tb_data out @ concat pkts\<rparr>, True)
     \<and> carries False pcr cc pkts (drop offset (concat (tl_slices l)))
     \<and> length pkts = rest_packets (length (concat (tl_slices l)) - offset)"
  using assms
proof (induction "length (concat (tl_slices l)) - offset" arbitrary: offset cc out rule: less_induct)
  case less
  let ?L = "concat (tl_slices l)"
  show ?case
  proof (cases "offset = length ?L")
    case True
    then show ?thesis by (intro exI [of _ "[]"]) (auto simp: TsPayloadLoop.simps carries_def rest_packets_def intro!: exI [of _ "[]"])
  next
    case False
    define n where "n = TsPayloadSize False (length ?L - offset)"
    define p where "p = TsMediaPacket l pcr cc offset False n"
    have pos: "0 < n" "n \<le> length ?L - offset"
      using False less.prems TsPayloadSize_pos payload_size_ok(1) by (simp_all add: n_def)
    have cnt: "rest_packets (length ?L - offset) = Suc (rest_packets (length ?L - (offset + n)))"
      using rest_packets_step [of "length ?L - offset"] False less.prems(2) by (simp add: n_def)
    have step: "length p = 188 \<and> parse_ts_packet p = Some (media_view False pcr cc (take n (drop offset ?L)))"
      "TsPayloadLoop l pcr (length ?L) offset cc out
        = TsPayloadLoop l pcr (length ?L) (offset + n) ((cc + 1) AND 0x0f) (out\<lparr>tb_data := tb_data out @ p\<rparr>)"
      using TsPayloadLoop_step [of offset l out pcr cc] False less.prems cnt by (simp_all add: n_def p_def)
    have "\<exists>pkts. TsPayloadLoop l pcr (length ?L) (offset + n) ((cc + 1) AND 0x0f) (out\<lparr>tb_data := tb_data out @ p\<rparr>)
          = (advance (length pkts) ((cc + 1) AND 0x0f),
             (out\<lparr>tb_data := tb_data out @ p\<rparr>)\<lparr>tb_data := tb_data (out\<lparr>tb_data := tb_data out @ p\<rparr>) @ concat pkts\<rparr>, True)
        \<and> carries False pcr ((cc + 1) AND 0x0f) pkts (drop (offset + n) ?L)
        \<and> length pkts = rest_packets (length ?L - (offset + n))"
      by (rule less.hyps) (use pos False less.prems cnt step(1) in \<open>simp_all\<close>)
    then obtain pkts where "TsPayloadLoop l pcr (length ?L) (offset + n) ((cc + 1) AND 0x0f) (out\<lparr>tb_data := tb_data out @ p\<rparr>)
          = (advance (length pkts) ((cc + 1) AND 0x0f), out\<lparr>tb_data := tb_data out @ p @ concat pkts\<rparr>, True)"
        and c: "carries False pcr ((cc + 1) AND 0x0f) pkts (drop (offset + n) ?L)"
        and len: "length pkts = rest_packets (length ?L - (offset + n))"
      by auto
    moreover have "carries False pcr cc (p # pkts) (drop offset ?L)"
      using carries_Cons [of p False pcr cc "take n (drop offset ?L)" pkts "drop (offset + n) ?L"] step(1) c
      by (simp add: add.commute flip: drop_drop)
    ultimately show ?thesis using step(2) cnt len by (intro exI [of _ "p # pkts"]) simp
  qed
qed

lemma AppendTsPayload_spec:
  assumes size: "tl_total_size l = length (concat (tl_slices l))"
    and fits: "TsPacketBytesForPesSize (tl_total_size l) = Some ts_bytes" "length (tb_data out) + ts_bytes \<le> tb_capacity out"
  shows "\<exists>pkts. AppendTsPayloadToBuffer l pcr cc out
       = (advance (length pkts) cc, out\<lparr>tb_data := tb_data out @ concat pkts\<rparr>, True)
     \<and> carries True pcr cc pkts (concat (tl_slices l)) \<and> 188 * length pkts \<le> ts_bytes"
proof -
  let ?L = "concat (tl_slices l)"
  have loop: "AppendTsPayloadToBuffer l pcr cc out = TsPayloadLoop l pcr (length ?L) 0 cc out"
    using size fits by (auto simp: AppendTsPayloadToBuffer_def)
  show ?thesis
  proof (cases "?L = []")
    case True
    then show ?thesis unfolding loop
      by (intro exI [of _ "[]"]) (auto simp: TsPayloadLoop.simps carries_def intro!: exI [of _ "[]"])
  next
    case False
    define n where "n = TsPayloadSize True (length ?L)"
    define p where "p = TsMediaPacket l pcr cc 0 True n"
    have len: "0 < length ?L" using False by simp
    have room: "188 * Suc (rest_packets (length ?L - n)) \<le> ts_bytes"
      using packets_fit [OF len] fits(1) size len
      by (auto simp: TsPacketBytesForPesSize_def Let_def kTsPacketSize_def n_def split: if_splits)
    have pos: "0 < n" "n \<le> length ?L" using len TsPayloadSize_pos payload_size_ok(1) by (simp_all add: n_def)
    have step: "length p = 188 \<and> parse_ts_packet p = Some (media_view True pcr cc (take n ?L))"
      "TsPayloadLoop l pcr (length ?L) 0 cc out
        = TsPayloadLoop l pcr (length ?L) n ((cc + 1) AND 0x0f) (out\<lparr>tb_data := tb_data out @ p\<rparr>)"
      using TsPayloadLoop_step [of 0 l out pcr cc] len fits(2) room by (simp_all add: n_def p_def)
    have "\<exists>pkts. TsPayloadLoop l pcr (length ?L) n ((cc + 1) AND 0x0f) (out\<lparr>tb_data := tb_data out @ p\<rparr>)
          = (advance (length pkts) ((cc + 1) AND 0x0f),
             (out\<lparr>tb_data := tb_data out @ p\<rparr>)\<lparr>tb_data := tb_data (out\<lparr>tb_data := tb_data out @ p\<rparr>) @ concat pkts\<rparr>, True)
        \<and> carries False pcr ((cc + 1) AND 0x0f) pkts (drop n ?L) \<and> length pkts = rest_packets (length ?L - n)"
      by (rule TsPayloadLoop_rest) (use pos fits(2) room step(1) in \<open>simp_all\<close>)
    then obtain pkts where run: "TsPayloadLoop l pcr (length ?L) n ((cc + 1) AND 0x0f) (out\<lparr>tb_data := tb_data out @ p\<rparr>)
          = (advance (length pkts) ((cc + 1) AND 0x0f), out\<lparr>tb_data := tb_data out @ p @ concat pkts\<rparr>, True)"
        and c: "carries False pcr ((cc + 1) AND 0x0f) pkts (drop n ?L)" and cnt: "length pkts = rest_packets (length ?L - n)"
      by auto
    have "carries True pcr cc (p # pkts) ?L"
      using carries_Cons [of p True pcr cc "take n ?L" pkts "drop n ?L"] step(1) c by simp
    then show ?thesis unfolding loop using step(2) run room cnt by (intro exI [of _ "p # pkts"]) simp
  qed
qed

text \<open>
  Claim C19. Muxing an access unit into a transport stream is lossless. \<open>AppendTsPayloadToBuffer\<close> succeeds
  exactly when the size it reserves fits the segment, and then it has appended complete 188-byte
  packets: a reader finds them all on the video PID with consecutive continuity counters, the start
  flag and the clock reference on the first packet only, and their payloads joined are the access unit.
  Otherwise nothing was written.
\<close>

theorem ts_payload_roundtrip:
  assumes "tl_total_size l = length (concat (tl_slices l))" and "length (tb_data out) \<le> tb_capacity out"
    and "AppendTsPayloadToBuffer l pcr cc out = (cc', out', ok)"
  shows "(ok \<longleftrightarrow> (\<exists>n. TsPacketBytesForPesSize (tl_total_size l) = Some n \<and> length (tb_data out) + n \<le> tb_capacity out))
     \<and> (if ok then \<exists>pkts chunks. tb_data out' = tb_data out @ concat pkts \<and> list_all (\<lambda>p. length p = 188) pkts
            \<and> map parse_ts_packet pkts = map Some (ts_views True pcr cc chunks) \<and> concat chunks = concat (tl_slices l)
            \<and> cc' = advance (length pkts) cc \<and> length (tb_data out') \<le> tb_capacity out
        else out' = out \<and> cc' = cc)"
proof (cases "\<exists>n. TsPacketBytesForPesSize (tl_total_size l) = Some n \<and> length (tb_data out) + n \<le> tb_capacity out")
  case True
  then obtain n where n: "TsPacketBytesForPesSize (tl_total_size l) = Some n" "length (tb_data out) + n \<le> tb_capacity out"
    by blast
  obtain pkts where run: "(cc', out', ok) = (advance (length pkts) cc, out\<lparr>tb_data := tb_data out @ concat pkts\<rparr>, True)"
    and c: "carries True pcr cc pkts (concat (tl_slices l))" and le: "188 * length pkts \<le> n"
    using AppendTsPayload_spec [OF assms(1) n, of pcr cc] assms(3) by auto
  have "list_all (\<lambda>p. length p = 188) pkts" using c by (simp add: carries_def)
  then have "length (concat pkts) = 188 * length pkts" by (induction pkts) auto
  then show ?thesis using True run c le n(2) unfolding carries_def by (simp, metis)
next
  case False
  then show ?thesis using assms(2,3)
    by (auto simp: AppendTsPayloadToBuffer_def Let_def le_diff_conv2 add.commute split: option.splits if_splits)
qed

theorem ts_payload_roundtrip_witness:
  "\<exists>pkts chunks cc' out'. AppendTsPayloadToBuffer \<lparr>tl_slices = [[0, 0, 1], [0xe0, 7]], tl_total_size = 5\<rparr> 90000 15
        \<lparr>tb_data = [], tb_capacity = 1000\<rparr> = (cc', out', True)
     \<and> tb_data out' = concat pkts \<and> map parse_ts_packet pkts = map Some (ts_views True 90000 15 chunks)
     \<and> concat chunks = [0, 0, 1, 0xe0, 7]"
proof -
  let ?l = "\<lparr>tl_slices = [[0, 0, 1], [0xe0, 7]], tl_total_size = 5\<rparr> :: TsSliceList"
  let ?out = "\<lparr>tb_data = [], tb_capacity = 1000\<rparr> :: TsSegmentBuffer"
  obtain cc' out' ok where run: "AppendTsPayloadToBuffer ?l 90000 15 ?out = (cc', out', ok)"
    by (metis prod.exhaust)
  from ts_payload_roundtrip [OF _ _ run] show ?thesis
    by (auto simp: run TsPacketBytesForPesSize_def Let_def kTsPacketSize_def) blast
qed

section \<open>Program tables\<close>

text \<open>A program table of a packet: the section behind the pointer field, accepted only if it is whole and its checksum is right.\<close>

definition parse_section :: "TsPacket \<Rightarrow> bytes option" where
  "parse_section p =
     (let s = drop 1 (tp_payload p);
          n = unat (s ! 1 AND 0x0f) * 256 + unat (s ! 2)
      in if tp_start p \<and> tp_payload p ! 0 = 0 \<and> 3 + n \<le> length s \<and> MpegCrc32 (take (3 + n) s) = 0
         then Some (take (n - 4) (drop 3 s)) else None)"

lemma drop_5: "drop (5 + k) (a # b # c # d # e # xs) = drop k xs"
  by (simp add: eval_nat_numeral)

lemma parse_PsiPacket:
  assumes "length sec \<le> 183"
  shows "parse_ts_packet (PsiPacket pid cc sec) =
    Some \<lparr>tp_start = True, tp_pid = unat (ucast (drop_bit 8 pid) AND 0x1f :: u8) * 256 + unat (ucast pid :: u8),
          tp_continuity = unat (cc AND 0x0f), tp_pcr = None, tp_payload = 0 # sec @ replicate (183 - length sec) 0xff\<rparr>"
proof -
  have p: "PsiPacket pid cc sec = [0x47, 0x40 OR (ucast (drop_bit 8 pid) AND 0x1f), ucast pid,
      0x10 OR (cc AND 0x0f), 0] @ sec @ replicate (183 - length sec) 0xff"
    unfolding PsiPacket_def Let_def kTsPacketSize_def replicate_unfold(4) memcpy_at_def using assms by (simp add: drop_5)
  have "(0x40 OR (x AND 0x1f)) AND 0x1f = (x AND 0x1f :: u8)" "bit (0x40 OR (x AND 0x1f)) 6" for x :: u8
    unfolding u8_eq_iff by (auto simp: byte_bits bit_numeral_rec)
  then show ?thesis unfolding p using assms by (simp add: parse_ts_packet_def Let_def media_flags)
qed

text \<open>The first section of a segment, seen by a receiver: program 1 with its map on \<open>kPmtPid\<close>.\<close>

lemma PatPacket_section:
  "\<exists>p. parse_ts_packet (fst (BuildPatPacket cc)) = Some p \<and> tp_pid p = unat kPatPid \<and> tp_continuity p = unat (cc AND 0x0f)
     \<and> parse_section p = Some [0, 1, 0xc1, 0, 0, 0, 1, 0xf0, 0]"
proof -
  define sec where "sec = [0x00, 0xb0, 13, 0, 1, 0xc1, 0, 0, 0, 1, 0xf0, 0 :: u8]"
  have "fst (BuildPatPacket cc) = PsiPacket kPatPid cc (sec @ be32 (MpegCrc32 sec))"
    by (simp add: BuildPatPacket_def Let_def wire_simps AppendPsiSectionLength_def AppendPsiPid_def kPmtPid_def sec_def be16_def)
  moreover have "take 16 (sec @ be32 (MpegCrc32 sec) @ xs) = sec @ be32 (MpegCrc32 sec)" for xs
    using take_app_len [of "sec @ be32 (MpegCrc32 sec)" 16 xs] by (simp add: sec_def)
  moreover have "take 9 (drop 3 (sec @ be32 (MpegCrc32 sec) @ xs)) = drop 3 sec" for xs by (simp add: sec_def)
  moreover have "length sec = 12" "sec ! 1 = 0xb0" "sec ! 2 = 13" by (simp_all add: sec_def)
  ultimately show ?thesis
    by (simp add: parse_PsiPacket parse_section_def MpegCrc32_residue kPatPid_def nth_append Let_def) (simp add: sec_def)
qed

text \<open>The second section: one H.264 stream, and the clock, on \<open>kVideoPid\<close>.\<close>

lemma PmtPacket_section:
  "\<exists>p. parse_ts_packet (fst (BuildPmtPacket cdc cc)) = Some p \<and> tp_pid p = unat kPmtPid \<and> tp_continuity p = unat (cc AND 0x0f)
     \<and> parse_section p = Some [0, 1, 0xc1, 0, 0, 0xe1, 0, 0xf0, 0, 0x1b, 0xe1, 0, 0xf0, 0]"
proof -
  define sec where "sec = [0x02, 0xb0, 18, 0, 1, 0xc1, 0, 0, 0xe1, 0, 0xf0, 0, 0x1b, 0xe1, 0, 0xf0, 0 :: u8]"
  have low: "(61440 :: u8) = 0" by simp
  have "fst (BuildPmtPacket cdc cc) = PsiPacket kPmtPid cc (sec @ be32 (MpegCrc32 sec))"
    by (simp add: BuildPmtPacket_def Let_def wire_simps AppendPsiSectionLength_def AppendPsiPid_def kVideoPid_def
        sec_def be16_def low TsStreamType_def kTsStreamTypeH264_def)
  moreover have "take 21 (sec @ be32 (MpegCrc32 sec) @ xs) = sec @ be32 (MpegCrc32 sec)" for xs
    using take_app_len [of "sec @ be32 (MpegCrc32 sec)" 21 xs] by (simp add: sec_def)
  moreover have "take 14 (drop 3 (sec @ be32 (MpegCrc32 sec) @ xs)) = drop 3 sec" for xs by (simp add: sec_def)
  moreover have "length sec = 17" "sec ! 1 = 0xb0" "sec ! 2 = 18" by (simp_all add: sec_def)
  ultimately show ?thesis
    by (simp add: parse_PsiPacket parse_section_def MpegCrc32_residue kPmtPid_def nth_append Let_def) (simp add: sec_def)
qed

lemma AppendTsSegmentHeader_tables:
  "case AppendTsSegmentHeader cdc state out of (state', out', ok) \<Rightarrow>
     (ok \<longleftrightarrow> length (tb_data out) + 376 \<le> tb_capacity out)
     \<and> (if ok then \<exists>pat pmt p q. tb_data out' = tb_data out @ pat @ pmt \<and> tb_capacity out' = tb_capacity out
            \<and> parse_ts_packet pat = Some p \<and> tp_pid p = 0 \<and> tp_continuity p = unat (pat_continuity state AND 0x0f)
            \<and> parse_section p = Some [0, 1, 0xc1, 0, 0, 0, 1, 0xf0, 0]
            \<and> parse_ts_packet pmt = Some q \<and> tp_pid q = 0x1000 \<and> tp_continuity q = unat (pmt_continuity state AND 0x0f)
            \<and> parse_section q = Some [0, 1, 0xc1, 0, 0, 0xe1, 0, 0xf0, 0, 0x1b, 0xe1, 0, 0xf0, 0]
            \<and> state' = state\<lparr>pat_continuity := (pat_continuity state + 1) AND 0x0f,
                             pmt_continuity := (pmt_continuity state + 1) AND 0x0f\<rparr>
        else out' = out \<and> state' = state)"
proof -
  obtain pat pat_cc where a: "BuildPatPacket (pat_continuity state) = (pat, pat_cc)" by fastforce
  obtain pmt pmt_cc where m: "BuildPmtPacket cdc (pmt_continuity state) = (pmt, pmt_cc)" by fastforce
  obtain p where p: "parse_ts_packet pat = Some p" "tp_pid p = 0" "tp_continuity p = unat (pat_continuity state AND 0x0f)"
      "parse_section p = Some [0, 1, 0xc1, 0, 0, 0, 1, 0xf0, 0]"
    using PatPacket_section [of "pat_continuity state"] a by (auto simp: kPatPid_def)
  obtain q where q: "parse_ts_packet pmt = Some q" "tp_pid q = 0x1000" "tp_continuity q = unat (pmt_continuity state AND 0x0f)"
      "parse_section q = Some [0, 1, 0xc1, 0, 0, 0xe1, 0, 0xf0, 0, 0x1b, 0xe1, 0, 0xf0, 0]"
    using PmtPacket_section [of cdc "pmt_continuity state"] m by (auto simp: kPmtPid_def)
  have len: "length pat = 188" "length pmt = 188"
    using p(1) q(1) by (auto simp: parse_ts_packet_def split: if_splits)
  have cc: "pat_cc = (pat_continuity state + 1) AND 0x0f" "pmt_cc = (pmt_continuity state + 1) AND 0x0f"
    using a m by (auto simp: BuildPatPacket_def BuildPmtPacket_def Let_def)
  show ?thesis
  proof (cases "length (tb_data out) + 376 \<le> tb_capacity out")
    case True
    then have "AppendTsSegmentHeader cdc state out
      = (state\<lparr>pat_continuity := pat_cc, pmt_continuity := pmt_cc\<rparr>, out\<lparr>tb_data := tb_data out @ pat @ pmt\<rparr>, True)"
      using len by (auto simp: AppendTsSegmentHeader_def a m AppendTsString_def AppendTsBytes_def kTsPacketSize_def)
    then show ?thesis using True p q cc by (simp, metis)
  next
    case False
    then have "AppendTsSegmentHeader cdc state out = (state, out, False)"
      by (auto simp: AppendTsSegmentHeader_def kTsPacketSize_def)
    then show ?thesis using False by simp
  qed
qed

text \<open>
  Every segment begins with valid program tables: \<open>AppendTsSegmentHeader\<close> either refuses for lack
  of room and leaves the segment as it is, or appends two packets in which a receiver that verifies the
  CRC finds the program association table pointing to PID 0x1000 and there the program map with one
  H.264 stream on PID 0x100; the continuity counters advance modulo 16.
\<close>

lemma ts_segment_header_tables:
  "case AppendTsSegmentHeader cdc state out of (state', out', ok) \<Rightarrow>
     (ok \<longleftrightarrow> length (tb_data out) + 376 \<le> tb_capacity out)
     \<and> (if ok then \<exists>pat pmt p q. tb_data out' = tb_data out @ pat @ pmt \<and> tb_capacity out' = tb_capacity out
            \<and> parse_ts_packet pat = Some p \<and> tp_pid p = 0 \<and> tp_continuity p = unat (pat_continuity state AND 0x0f)
            \<and> parse_section p = Some [0, 1, 0xc1, 0, 0, 0, 1, 0xf0, 0]
            \<and> parse_ts_packet pmt = Some q \<and> tp_pid q = 0x1000 \<and> tp_continuity q = unat (pmt_continuity state AND 0x0f)
            \<and> parse_section q = Some [0, 1, 0xc1, 0, 0, 0xe1, 0, 0xf0, 0, 0x1b, 0xe1, 0, 0xf0, 0]
            \<and> state' = state\<lparr>pat_continuity := (pat_continuity state + 1) AND 0x0f,
                             pmt_continuity := (pmt_continuity state + 1) AND 0x0f\<rparr>
        else out' = out \<and> state' = state)"
  by (rule AppendTsSegmentHeader_tables)

section \<open>Access units\<close>

text \<open>A reader of PES packets: presentation time, decoding time and the elementary stream.\<close>

definition pes_stamp :: "bytes \<Rightarrow> nat" where
  "pes_stamp b = unat (b ! 0) div 2 mod 8 * 2 ^ 30 + unat (b ! 1) * 2 ^ 22 + unat (b ! 2) div 2 * 2 ^ 15
     + unat (b ! 3) * 2 ^ 7 + unat (b ! 4) div 2"

definition parse_pes :: "bytes \<Rightarrow> (nat \<times> nat \<times> bytes) option" where
  "parse_pes p =
     (if 9 \<le> length p \<and> take 4 p = [0, 0, 1, 0xe0] then
        let es = drop (9 + unat (p ! 8)) p; pts = pes_stamp (drop 9 p) in
        if drop_bit 6 (p ! 7) = 2 then Some (pts, pts, es)
        else if drop_bit 6 (p ! 7) = 3 then Some (pts, pes_stamp (drop 14 p), es)
        else None
      else None)"

lemma unat_low_bits: "unat (w AND 7) = unat w mod 8" "unat (w AND 0x7f) = unat w mod 128" for w :: "'a :: len word"
proof -
  have "w AND 7 = take_bit 3 w" "w AND 0x7f = take_bit 7 w" by (simp_all add: take_bit_eq_mask mask_eq_exp_minus_1)
  then show "unat (w AND 7) = unat w mod 8" "unat (w AND 0x7f) = unat w mod 128"
    by (simp_all only: unsigned_take_bit_eq) (simp_all add: take_bit_eq_mod)
qed

lemma bit_double_u64: "bit ((x :: u64) * 2) n \<longleftrightarrow> 0 < n \<and> n < 64 \<and> bit x (n - 1)"
  using bit_push_bit_iff [of 1 x n] by (simp add: Suc_le_eq)

lemma stamp_marker: "unat (ucast (push_bit 1 (w AND 0x7f) OR 1) :: u8) div 2 = unat w mod 128" for w :: u64
proof -
  have "drop_bit 1 (ucast (push_bit 1 (w AND 0x7f) OR 1) :: u8) = ucast (w AND 0x7f)"
    unfolding u8_eq_iff by (auto simp: bit_simps bit_numeral_rec bit_double_u64 numeral_2_eq_2 numeral_3_eq_3)
  then have "unat (ucast (push_bit 1 (w AND 0x7f) OR 1) :: u8) div 2 ^ 1 = unat (ucast (w AND 0x7f) :: u8)"
    by (metis unat_drop)
  also have "\<dots> = unat w mod 128" unfolding unat_low_byte unat_low_bits by simp
  finally show ?thesis by simp
qed

lemma stamp_prefix: "unat (ucast (push_bit 4 p OR push_bit 1 (w AND 7) OR 1) :: u8) div 2 mod 8 = unat w mod 8" for w p :: u64
proof -
  have "drop_bit 1 (ucast (push_bit 4 p OR push_bit 1 (w AND 7) OR 1) :: u8) AND 7 = ucast (w AND 7)"
    unfolding u8_eq_iff by (auto simp: bit_simps bit_numeral_rec bit_double_u64 numeral_2_eq_2 numeral_3_eq_3)
  then have "unat (drop_bit 1 (ucast (push_bit 4 p OR push_bit 1 (w AND 7) OR 1) :: u8) AND 7) = unat (ucast (w AND 7) :: u8)"
    by simp
  also have "\<dots> = unat w mod 8" unfolding unat_low_byte unat_low_bits by simp
  finally show ?thesis unfolding unat_low_bits unat_drop by simp
qed

lemma split_stamp:
  fixes x :: nat
  assumes "x < 2 ^ 33"
  shows "x div 2 ^ 30 mod 8 * 2 ^ 30 + x div 2 ^ 22 mod 256 * 2 ^ 22 + x div 2 ^ 15 mod 128 * 2 ^ 15
     + x div 2 ^ 7 mod 256 * 2 ^ 7 + x mod 128 = x"
proof -
  define a b c d where "a = x div 128" and "b = a div 256" and "c = b div 128" and "d = c div 256"
  have "x div 2 ^ 30 = d" "x div 2 ^ 22 = c" "x div 2 ^ 15 = b" "x div 2 ^ 7 = a"
    by (simp_all add: a_def b_def c_def d_def div_mult2_eq [symmetric])
  moreover have "d < 8" using assms by (simp add: a_def b_def c_def d_def div_mult2_eq [symmetric])
  moreover have "x = a * 128 + x mod 128" "a = b * 256 + a mod 256" "b = c * 128 + b mod 128" "c = d * 256 + c mod 256"
    by (simp_all add: a_def b_def c_def d_def)
  ultimately show ?thesis by simp
qed

lemma pes_stamp_AppendPts: "pes_stamp (AppendPts [] prefix v @ xs) = unat v mod 2 ^ 33"
proof -
  define b where "b = v AND 0x1ffffffff"
  have lt: "unat b < 2 ^ 33" by (simp add: b_def unat_mask33)
  have s: "pes_stamp (AppendPts [] prefix v @ xs) =
      unat (ucast (push_bit 4 prefix OR push_bit 1 (drop_bit 30 b AND 0x07) OR 0x01) :: u8) div 2 mod 8 * 2 ^ 30
      + unat (ucast (drop_bit 22 b AND 0xff) :: u8) * 2 ^ 22
      + unat (ucast (push_bit 1 (drop_bit 15 b AND 0x7f) OR 0x01) :: u8) div 2 * 2 ^ 15
      + unat (ucast (drop_bit 7 b AND 0xff) :: u8) * 2 ^ 7 + unat (ucast (push_bit 1 (b AND 0x7f) OR 0x01) :: u8) div 2"
    by (simp only: pes_stamp_def AppendPts_def Let_def b_def AppendU8_def append.simps) simp
  have "pes_stamp (AppendPts [] prefix v @ xs) = unat b"
    unfolding s stamp_prefix stamp_marker unat_ucast_mask8 unat_drop using split_stamp [OF lt] by simp
  then show ?thesis by (simp add: b_def unat_mask33)
qed

lemma AppendPts_append: "AppendPts out prefix v = out @ AppendPts [] prefix v"
  by (simp add: AppendPts_def Let_def AppendU8_def)

lemma length_AppendPts [simp]: "length (AppendPts out prefix v) = length out + 5"
  by (simp add: AppendPts_def Let_def AppendU8_def)

lemma parse_PesHeader:
  "parse_pes (BuildPesHeader pts dts @ es) = Some (unat pts mod 2 ^ 33, unat dts mod 2 ^ 33, es)"
proof (cases "pts = dts")
  case True
  then have "BuildPesHeader pts dts = [0, 0, 1, 0xe0, 0, 0, 0x80, 0x80, 5] @ AppendPts [] 2 pts"
    by (simp add: BuildPesHeader_def Let_def wire_simps be24_def be16_def AppendPts_append [of "_ # _"])
  then show ?thesis using True by (simp add: parse_pes_def Let_def pes_stamp_AppendPts)
next
  case False
  then have h: "BuildPesHeader pts dts = [0, 0, 1, 0xe0, 0, 0, 0x80, 0xc0, 10] @ AppendPts [] 3 pts @ AppendPts [] 1 dts"
    by (simp add: BuildPesHeader_def Let_def wire_simps be24_def be16_def AppendPts_append [of "_ # _"] AppendPts_append [of "_ @ _"])
  then show ?thesis by (simp add: parse_pes_def Let_def pes_stamp_AppendPts)
qed

definition slices_ok :: "TsSliceList \<Rightarrow> bool" where
  "slices_ok l \<longleftrightarrow> tl_total_size l = length (concat (tl_slices l))"

lemma TsSlices_Add_ok:
  assumes "TsSlices_Add l d = (l', True)" and "slices_ok l"
  shows "slices_ok l' \<and> concat (tl_slices l') = concat (tl_slices l) @ d"
  using assms by (auto simp: TsSlices_Add_def slices_ok_def split: if_splits)

lemma AddAll_ok:
  assumes "AddAll l ds = (l', True)" and "slices_ok l"
  shows "slices_ok l' \<and> concat (tl_slices l') = concat (tl_slices l) @ concat ds"
  using assms
proof (induction ds arbitrary: l)
  case (Cons d ds)
  obtain m ok where m: "TsSlices_Add l d = (m, ok)" by fastforce
  with Cons.prems(1) have ok: "ok" "AddAll m ds = (l', True)" by (auto split: if_splits)
  from TsSlices_Add_ok [of l d m] m ok Cons.prems(2)
  have "slices_ok m" "concat (tl_slices m) = concat (tl_slices l) @ d" by auto
  with Cons.IH [OF ok(2)] show ?case by simp
qed simp

abbreviation framed :: "bytes list \<Rightarrow> bytes" where
  "framed nals \<equiv> annexb_encode (map (Pair True) nals)"

lemma framed_append: "framed (xs @ ys) = framed xs @ framed ys"
  by (induction xs) (simp_all add: start_code_def)

lemma AccessUnitLoop_ok:
  assumes "AccessUnitLoop us l = (l', True)" and "slices_ok l"
  shows "slices_ok l' \<and> concat (tl_slices l') = concat (tl_slices l)
      @ framed (map (\<lambda>u. bv_bytes (unit_view u)) (filter (\<lambda>u. unit_type u \<noteq> kH264NalTypeAud) us))"
  using assms
proof (induction us arbitrary: l)
  case (Cons u us)
  show ?case
  proof (cases "unit_type u = kH264NalTypeAud")
    case True
    with Cons show ?thesis by simp
  next
    case False
    obtain m ok where m: "AddAll l [kStartCode, bv_bytes (unit_view u)] = (m, ok)" by fastforce
    with Cons.prems(1) False have ok: "ok" "AccessUnitLoop us m = (l', True)"
      by (auto simp del: AddAll.simps split: if_splits)
    with AddAll_ok [of l _ m] m Cons.prems(2)
    have "slices_ok m" "concat (tl_slices m) = concat (tl_slices l) @ kStartCode @ bv_bytes (unit_view u)" by (auto simp del: AddAll.simps)
    with Cons.IH [OF ok(2)] False show ?thesis by (simp add: start_code_def kStartCode_def)
  qed
qed simp

text \<open>The NAL units of a frame as they are put into the stream: a fresh access unit delimiter in place of the frame's own.\<close>

definition access_nals :: "H264NalUnitList \<Rightarrow> bytes \<Rightarrow> bytes \<Rightarrow> bool \<Rightarrow> bytes list" where
  "access_nals l sps pps prepend =
     [kAud] @ (if prepend \<and> sps \<noteq> [] \<and> pps \<noteq> [] then [sps, pps] else [])
     @ map (\<lambda>u. bv_bytes (unit_view u)) (filter (\<lambda>u. unit_type u \<noteq> kH264NalTypeAud) (units l))"

lemma AddH264AccessUnitSlices_ok:
  assumes "AddH264AccessUnitSlices l sps pps prepend s = (s', True)" and "slices_ok s"
  shows "slices_ok s' \<and> concat (tl_slices s') = concat (tl_slices s) @ framed (access_nals l sps pps prepend)"
proof -
  obtain a ok where a: "AddAll s [kStartCode, kAud] = (a, ok)" by fastforce
  obtain b ok2 where b: "(if prepend \<and> sps \<noteq> [] \<and> pps \<noteq> [] then AddAll a [kStartCode, sps, kStartCode, pps] else (a, True)) = (b, ok2)"
    by fastforce
  from assms(1) have ok: "ok" "ok2" "AccessUnitLoop (units l) b = (s', True)"
    by (auto simp: AddH264AccessUnitSlices_def a b simp del: AddAll.simps split: if_splits)
  have sa: "slices_ok a" "concat (tl_slices a) = concat (tl_slices s) @ kStartCode @ kAud"
    using AddAll_ok [of s _ a] a ok(1) assms(2) by (auto simp del: AddAll.simps)
  have sb: "slices_ok b \<and> concat (tl_slices b) = concat (tl_slices a)
      @ framed (if prepend \<and> sps \<noteq> [] \<and> pps \<noteq> [] then [sps, pps] else [])"
    using AddAll_ok [of a "[kStartCode, sps, kStartCode, pps]" b] b ok(2) sa(1)
    by (auto simp: start_code_def kStartCode_def simp del: AddAll.simps split: if_splits)
  show ?thesis using AccessUnitLoop_ok [OF ok(3)] sa sb
    by (simp add: access_nals_def start_code_def kStartCode_def framed_append [unfolded map_append])
qed

lemma BuildH264TsFrameSlices_ok:
  assumes "BuildH264TsFrameSlices l sps pps prepend pts dts = Some f"
  shows "slices_ok (tf_pes_slices f) \<and> tf_dts_90k f = TimestampUsTo90k dts
     \<and> TsPacketBytesForPesSize (tl_total_size (tf_pes_slices f)) = Some (tf_ts_bytes f)
     \<and> concat (tl_slices (tf_pes_slices f)) = BuildPesHeader (TimestampUsTo90k pts) (TimestampUsTo90k dts)
          @ framed (access_nals l sps pps prepend)"
proof -
  let ?h = "BuildPesHeader (TimestampUsTo90k pts) (TimestampUsTo90k dts)"
  have ne: "?h \<noteq> []" using parse_PesHeader [of "TimestampUsTo90k pts" "TimestampUsTo90k dts" "[]"]
    by (auto simp: parse_pes_def)
  obtain a ok where a: "AddString empty_slices ?h = (a, ok)" by fastforce
  obtain b ok2 where b: "AddH264AccessUnitSlices l sps pps prepend a = (b, ok2)" by fastforce
  from assms have ok: "ok" "ok2" and f: "tf_pes_slices f = b" "tf_dts_90k f = TimestampUsTo90k dts"
      "TsPacketBytesForPesSize (tl_total_size b) = Some (tf_ts_bytes f)"
    by (auto simp: BuildH264TsFrameSlices_def Let_def a b split: if_splits)
  have "slices_ok a \<and> concat (tl_slices a) = ?h"
    using TsSlices_Add_ok [of empty_slices ?h a] a ok(1) ne by (simp add: AddString_def slices_ok_def empty_slices_def)
  then show ?thesis using AddH264AccessUnitSlices_ok [of l sps pps prepend a b] b ok(2) f by simp
qed

lemma carries_payloads: "carries first pcr cc pkts d \<Longrightarrow>
   \<exists>ps. map parse_ts_packet pkts = map Some ps \<and> concat (map tp_payload ps) = d"
proof -
  have "concat (map tp_payload (ts_views first pcr cc chunks)) = concat chunks" for chunks
    by (induction chunks arbitrary: first cc) (simp_all add: media_view_def)
  then show "carries first pcr cc pkts d \<Longrightarrow> ?thesis" unfolding carries_def by blast
qed

text \<open>
  Claim C35. An H.264 frame survives the transport stream. When \<open>BuildH264TsFrameSlices\<close> and
  \<open>AppendTsPayloadToBuffer\<close> succeed, the payloads of the appended packets joined are one PES packet with
  the 33-bit times of the frame, and scanning its elementary stream hands exactly these NAL units to
  any sink: an access unit delimiter, the parameter sets when they are to be prepended, and the
  units of the frame without its own delimiters, in order.
\<close>

theorem ts_h264_frame_roundtrip:
  assumes "BuildH264TsFrameSlices l sps pps prepend pts dts = Some f"
    and "AppendTsPayloadToBuffer (tf_pes_slices f) (tf_dts_90k f) cc out = (cc', out', True)"
    and "wf_nals (map (Pair True) (access_nals l sps pps prepend))"
  shows "\<exists>pkts ps es. tb_data out' = tb_data out @ concat pkts \<and> map parse_ts_packet pkts = map Some ps
     \<and> parse_pes (concat (map tp_payload ps))
         = Some (unat (TimestampUsTo90k pts) mod 2 ^ 33, unat (TimestampUsTo90k dts) mod 2 ^ 33, es)
     \<and> ForEachAnnexBNalUnit sink (Some \<lparr>bv_addr = a, bv_bytes = es\<rparr>) st
         = feed sink (encoded_units a (map (Pair True) (access_nals l sps pps prepend))) st"
proof -
  note f = BuildH264TsFrameSlices_ok [OF assms(1)]
  have "length (tb_data out) + tf_ts_bytes f \<le> tb_capacity out"
    using assms(2) f by (auto simp: AppendTsPayloadToBuffer_def Let_def split: if_splits)
  with AppendTsPayload_spec [of "tf_pes_slices f" "tf_ts_bytes f" out "tf_dts_90k f" cc] f assms(2)
  obtain pkts where "tb_data out' = tb_data out @ concat pkts"
      and c: "carries True (tf_dts_90k f) cc pkts (concat (tl_slices (tf_pes_slices f)))"
    by (auto simp: slices_ok_def)
  moreover obtain ps where "map parse_ts_packet pkts = map Some ps"
      and "concat (map tp_payload ps) = concat (tl_slices (tf_pes_slices f))"
    using carries_payloads [OF c] by blast
  ultimately show ?thesis
    using f parse_PesHeader [of "TimestampUsTo90k pts" "TimestampUsTo90k dts" "framed (access_nals l sps pps prepend)"]
      ForEachAnnexBNalUnit_encoded [OF assms(3), of sink a st] by metis
qed

definition sample_units :: H264NalUnitList where
  "sample_units = \<lparr>units = [\<lparr>unit_view = \<lparr>bv_addr = 4, bv_bytes = [0x65, 0x88]\<rparr>, unit_type = 5\<rparr>], overflow = False\<rparr>"

lemma sample_units_slices:
  "\<exists>f. BuildH264TsFrameSlices sample_units [] [] False 2000 1000 = Some f \<and> tf_ts_bytes f \<le> 1000"
  by (simp add: BuildH264TsFrameSlices_def sample_units_def AddH264AccessUnitSlices_def AddString_def TsSlices_Add_def
      empty_slices_def kStartCode_def kAud_def kMaxTsMediaSlices_def BuildPesHeader_def wire_simps Let_def
      kH264NalTypeAud_def TsPacketBytesForPesSize_def kTsPacketSize_def TimestampUsTo90k_def)

theorem ts_h264_frame_roundtrip_witness:
  "\<exists>f cc' out'. BuildH264TsFrameSlices sample_units [] [] False 2000 1000 = Some f
     \<and> AppendTsPayloadToBuffer (tf_pes_slices f) (tf_dts_90k f) 0 \<lparr>tb_data = [], tb_capacity = 1000\<rparr> = (cc', out', True)
     \<and> (\<exists>pkts ps es. tb_data out' = concat pkts \<and> map parse_ts_packet pkts = map Some ps
          \<and> parse_pes (concat (map tp_payload ps)) = Some (180, 90, es))"
proof -
  let ?out = "\<lparr>tb_data = [], tb_capacity = 1000\<rparr> :: TsSegmentBuffer"
  obtain f where f: "BuildH264TsFrameSlices sample_units [] [] False 2000 1000 = Some f" "tf_ts_bytes f \<le> 1000"
    using sample_units_slices by blast
  obtain cc' out' where run: "AppendTsPayloadToBuffer (tf_pes_slices f) (tf_dts_90k f) 0 ?out = (cc', out', True)"
    using AppendTsPayload_spec [of "tf_pes_slices f" "tf_ts_bytes f" ?out "tf_dts_90k f" 0] BuildH264TsFrameSlices_ok [OF f(1)] f(2)
    by (auto simp: slices_ok_def)
  have "wf_nals (map (Pair True) (access_nals sample_units [] [] False))"
    unfolding wf_nals_def wf_nal_exec by code_simp
  from ts_h264_frame_roundtrip [OF f(1) run this, of H264ListBuilder 0 empty_units]
  obtain pkts ps es where "tb_data out' = concat pkts" "map parse_ts_packet pkts = map Some ps"
    "parse_pes (concat (map tp_payload ps)) = Some (180, 90, es)"
    by (auto simp: TimestampUsTo90k_def)
  with f(1) run show ?thesis by blast
qed

end
