(* ===== verification/Fmp4_Muxer.thy ===== *)
theory Fmp4_Muxer
  imports Byte_Writer Nal_Parser
begin

text \<open>
  \<open>libs/media/src/hls_maker.cpp\<close>, the fragmented MP4 part used for H.265: boxes, the initialisation
  segment, the \<open>moof\<close> box of a media segment, and the samples appended to a segment body. The body is
  a \<open>MediaBufferBuilder\<close> that only the segment owns; the model keeps its bytes and its capacity.
\<close>

section \<open>Model\<close>

record HlsFmp4Sample =
  fs_duration_90k :: u32
  fs_size :: u32
  fs_flags :: u32
  fs_cts_offset_90k :: u32

record BodyBuilder =
  bb_data :: bytes
  bb_capacity :: nat

definition AppendU64 :: "bytes \<Rightarrow> u64 \<Rightarrow> bytes" where
  "AppendU64 out value =
     AppendU32 (AppendU32 out (ucast (drop_bit 32 value AND 0xffffffff))) (ucast (value AND 0xffffffff))"

definition Mp4Box :: "string \<Rightarrow> bytes \<Rightarrow> bytes" where
  "Mp4Box type payload =
     (if length payload > 0xffffffff - 8 then []
      else AppendU32 [] (word_of_nat (length payload + 8)) @ ascii type @ payload)"

definition Mp4FullBox :: "string \<Rightarrow> u8 \<Rightarrow> u32 \<Rightarrow> bytes \<Rightarrow> bytes" where
  "Mp4FullBox type version flags payload = Mp4Box type (AppendU24 (AppendU8 [] version) flags @ payload)"

definition BuildFtypBox :: bytes where
  "BuildFtypBox =
     Mp4Box ''ftyp'' (AppendU32 (ascii ''iso6'') 1 @ ascii ''iso6'' @ ascii ''mp41'' @ ascii ''hvc1'' @ ascii ''hlsf'')"

definition mp4_matrix :: "u32 list" where
  "mp4_matrix = [0x00010000, 0, 0, 0, 0x00010000, 0, 0, 0, 0x40000000]"

definition BuildMvhdBox :: bytes where
  "BuildMvhdBox =
     (let body = foldl AppendU32 [] [0, 0, 90000, 0, 0x00010000];
          body = AppendU16 (AppendU16 body 0x0100) 0;
          body = foldl AppendU32 body [0, 0];
          body = foldl AppendU32 body mp4_matrix;
          body = foldl AppendU32 body (replicate 6 0);
          body = AppendU32 body 2
      in Mp4FullBox ''mvhd'' 0 0 body)"

definition BuildTkhdBox :: "u32 \<Rightarrow> u32 \<Rightarrow> bytes" where
  "BuildTkhdBox w h =
     (let body = foldl AppendU32 [] [0, 0, 1, 0, 0, 0, 0];
          body = foldl AppendU16 body [0, 0, 0, 0];
          body = foldl AppendU32 body mp4_matrix;
          body = AppendU32 body (push_bit 16 w);
          body = AppendU32 body (push_bit 16 h)
      in Mp4FullBox ''tkhd'' 0 7 body)"

definition BuildMdhdBox :: bytes where
  "BuildMdhdBox =
     (let body = foldl AppendU32 [] [0, 0, 90000, 0];
          body = AppendU16 body 0x55c4;
          body = AppendU16 body 0
      in Mp4FullBox ''mdhd'' 0 0 body)"

definition BuildHdlrBox :: bytes where
  "BuildHdlrBox =
     (let body = AppendU32 [] 0 @ ascii ''vide'';
          body = foldl AppendU32 body [0, 0, 0];
          body = body @ ascii ''VideoHandler'' @ [0];
          body = AppendU8 body 0
      in Mp4FullBox ''hdlr'' 0 0 body)"

definition BuildVmhdBox :: bytes where
  "BuildVmhdBox = Mp4FullBox ''vmhd'' 0 1 (foldl AppendU16 [] [0, 0, 0, 0])"

definition BuildDinfBox :: bytes where
  "BuildDinfBox =
     (let url = Mp4FullBox ''url '' 0 1 [];
          dref_body = AppendU32 [] 1 @ url
      in Mp4Box ''dinf'' (Mp4FullBox ''dref'' 0 0 dref_body))"

definition BuildStsdBox :: "bytes \<Rightarrow> u32 \<Rightarrow> u32 \<Rightarrow> bytes" where
  "BuildStsdBox hvcc_record w h =
     (let sample = replicate 6 0;
          sample = foldl AppendU16 sample [1, 0, 0];
          sample = foldl AppendU32 sample [0, 0, 0];
          sample = AppendU16 sample (ucast w);
          sample = AppendU16 sample (ucast h);
          sample = foldl AppendU32 sample [0x00480000, 0x00480000, 0];
          sample = AppendU16 sample 1;
          sample = sample @ replicate 32 0;
          sample = AppendU16 sample 0x0018;
          sample = AppendU16 sample 0xffff;
          sample = sample @ Mp4Box ''hvcC'' hvcc_record
      in Mp4FullBox ''stsd'' 0 0 (AppendU32 [] 1 @ Mp4Box ''hvc1'' sample))"

definition BuildStblBox :: "bytes \<Rightarrow> u32 \<Rightarrow> u32 \<Rightarrow> bytes" where
  "BuildStblBox hvcc_record w h =
     (let body = BuildStsdBox hvcc_record w h;
          body = body @ Mp4FullBox ''stts'' 0 0 (replicate 4 0);
          body = body @ Mp4FullBox ''stsc'' 0 0 (replicate 4 0);
          body = body @ Mp4FullBox ''stsz'' 0 0 (replicate 8 0);
          body = body @ Mp4FullBox ''stco'' 0 0 (replicate 4 0)
      in Mp4Box ''stbl'' body)"

definition BuildInitSegment :: "bytes \<Rightarrow> u32 \<Rightarrow> u32 \<Rightarrow> bytes" where
  "BuildInitSegment hvcc_record w h =
     (let minf = BuildVmhdBox @ BuildDinfBox @ BuildStblBox hvcc_record w h;
          mdia = BuildMdhdBox @ BuildHdlrBox @ Mp4Box ''minf'' minf;
          trak = BuildTkhdBox w h @ Mp4Box ''mdia'' mdia;
          trex_body = foldl AppendU32 [] [1, 1, 0, 0, 0];
          mvex = Mp4Box ''mvex'' (Mp4FullBox ''trex'' 0 0 trex_body);
          moov = BuildMvhdBox @ Mp4Box ''trak'' trak @ mvex
      in BuildFtypBox @ Mp4Box ''moov'' moov)"

fun TrunSamples :: "HlsFmp4Sample list \<Rightarrow> bytes \<Rightarrow> bytes" where
  "TrunSamples [] out = out"
| "TrunSamples (s # ss) out =
     TrunSamples ss (foldl AppendU32 out [fs_duration_90k s, fs_size s, fs_flags s, fs_cts_offset_90k s])"

definition BuildFmp4Moof :: "nat \<Rightarrow> u64 \<Rightarrow> HlsFmp4Sample list \<Rightarrow> u32 \<Rightarrow> bytes" where
  "BuildFmp4Moof sequence base_decode_time samples data_offset =
     (let mfhd_body = AppendU32 [] (word_of_nat sequence);
          tfhd_body = AppendU32 [] 1;
          tfdt_body = AppendU64 [] base_decode_time;
          trun_body = AppendU32 (AppendU32 [] (word_of_nat (length samples))) data_offset;
          trun_body = TrunSamples samples trun_body;
          traf = Mp4FullBox ''tfhd'' 0 0x020000 tfhd_body
            @ Mp4FullBox ''tfdt'' 1 0 tfdt_body @ Mp4FullBox ''trun'' 1 0x000f01 trun_body;
          moof = Mp4FullBox ''mfhd'' 0 0 mfhd_body @ Mp4Box ''traf'' traf
      in Mp4Box ''moof'' moof)"

text \<open>\<open>AppendH265Fmp4SamplePayload\<close>; the result is the body, the size of the sample and success.\<close>

definition Fmp4Skips :: "NalUnit \<Rightarrow> bool" where
  "Fmp4Skips unit \<longleftrightarrow> bv_size (unit_view unit) = 0 \<or> IsH265ParameterSetNal (unit_type unit) \<or> unit_type unit = kH265NalTypeAud"

fun Fmp4SampleLoop :: "NalUnit list \<Rightarrow> BodyBuilder \<Rightarrow> nat \<Rightarrow> BodyBuilder \<times> nat \<times> bool" where
  "Fmp4SampleLoop [] body sample_size = (body, sample_size, sample_size > 0)"
| "Fmp4SampleLoop (unit # us) body sample_size =
     (if Fmp4Skips unit then Fmp4SampleLoop us body sample_size
      else
        let n = bv_size (unit_view unit) in
        if n > UINT32_MAX \<or> sample_size > u32_sub (u32_sub UINT32_MAX n) 4 then (body, sample_size, False)
        else
          let next_size = u32_add (u32_add (length (bb_data body)) 4) n in
          if next_size > bb_capacity body then (body, sample_size, False)
          else Fmp4SampleLoop us
                 (body\<lparr>bb_data := bb_data body @ WriteU32 (replicate 4 0) 0 (word_of_nat n) @ bv_bytes (unit_view unit)\<rparr>)
                 (u32_add sample_size (u32_add 4 n)))"

definition AppendH265Fmp4SamplePayload :: "H265NalUnitList \<Rightarrow> BodyBuilder \<Rightarrow> BodyBuilder \<times> nat \<times> bool" where
  "AppendH265Fmp4SamplePayload l body = Fmp4SampleLoop (units l) body 0"

definition Mp4TrackDimension :: "u32 \<Rightarrow> u32 \<Rightarrow> u32" where
  "Mp4TrackDimension value fallback = (if value = 0 then fallback else min value 0xffff)"

text \<open>\<open>moof\<close> and \<open>mdat\<close> of \<open>BuildFinalizedFmp4Segment\<close>: the box is built twice, the second time with its own size.\<close>

definition Fmp4SegmentBytes :: "nat \<Rightarrow> u64 \<Rightarrow> HlsFmp4Sample list \<Rightarrow> bytes \<Rightarrow> bytes" where
  "Fmp4SegmentBytes sequence base_decode_time samples body =
     (let mdat = Mp4Box ''mdat'' body;
          moof = BuildFmp4Moof sequence base_decode_time samples 0;
          data_offset = word_of_nat (length moof + 8);
          moof = BuildFmp4Moof sequence base_decode_time samples data_offset
      in moof @ mdat)"

section \<open>A reader of boxes\<close>

definition split_box :: "bytes \<Rightarrow> (bytes \<times> bytes \<times> bytes) option" where
  "split_box b =
     (let n = be_value (take 4 b) in
      if 8 \<le> length b \<and> 8 \<le> n \<and> n \<le> length b
      then Some (take 4 (drop 4 b), take (n - 8) (drop 8 b), drop n b) else None)"

function parse_boxes :: "bytes \<Rightarrow> (bytes \<times> bytes) list option" where
  "parse_boxes b =
     (if b = [] then Some []
      else case split_box b of
        None \<Rightarrow> None
      | Some (type, body, rest) \<Rightarrow> map_option (Cons (type, body)) (parse_boxes rest))"
  by pat_completeness auto
termination
  by (relation "measure length") (auto simp: split_box_def Let_def split: if_splits)

declare parse_boxes.simps [simp del]

lemma length_Mp4Box: "length p \<le> 0xffffffff - 8 \<Longrightarrow> length t = 4 \<Longrightarrow> length (Mp4Box t p) = length p + 8"
  by (simp add: Mp4Box_def wire_simps)

lemma split_Mp4Box:
  assumes "length t = 4" and "length p \<le> 0xffffffff - 8"
  shows "split_box (Mp4Box t p @ rest) = Some (ascii t, p, rest)"
proof -
  have box: "Mp4Box t p = be32 (word_of_nat (length p + 8)) @ ascii t @ p"
    using assms(2) by (simp add: Mp4Box_def wire_simps)
  have n: "be_value (take 4 (Mp4Box t p @ rest)) = length p + 8"
    using assms(2) unfolding box by (simp add: unat_of_nat del: of_nat_add)
  have "drop (length p + 8) (Mp4Box t p @ rest) = rest"
    using length_Mp4Box [of p t] assms by (intro drop_app_len) simp
  then show ?thesis using assms n unfolding split_box_def Let_def by (simp add: box)
qed

lemma parse_boxes_Nil [simp]: "parse_boxes [] = Some []"
  by (simp add: parse_boxes.simps)

lemma parse_Mp4Box:
  assumes "length t = 4" and "length p \<le> 0xffffffff - 8"
  shows "parse_boxes (Mp4Box t p @ rest) = map_option (Cons (ascii t, p)) (parse_boxes rest)"
proof -
  have "Mp4Box t p @ rest \<noteq> []" using length_Mp4Box [of p t] assms by auto
  then show ?thesis by (subst parse_boxes.simps) (simp add: split_Mp4Box [OF assms])
qed

lemmas parse_Mp4Box_last = parse_Mp4Box [where rest = "[]", simplified]

text \<open>The version and flags of a full box.\<close>

definition full_body :: "u8 \<Rightarrow> u32 \<Rightarrow> bytes \<Rightarrow> bytes" where
  "full_body version flags p = version # be24 flags @ p"

lemma Mp4FullBox_eq: "Mp4FullBox t v f p = Mp4Box t (full_body v f p)"
  by (simp add: Mp4FullBox_def full_body_def wire_simps)

lemma length_full_body [simp]: "length (full_body v f p) = length p + 4"
  by (simp add: full_body_def)

lemma TrunSamples_eq:
  "TrunSamples ss out = out @ concat (map (\<lambda>s. be32 (fs_duration_90k s) @ be32 (fs_size s) @ be32 (fs_flags s)
     @ be32 (fs_cts_offset_90k s)) ss)"
  by (induction ss arbitrary: out) (simp_all add: wire_simps)

lemma length_TrunSamples: "length (TrunSamples ss out) = length out + 16 * length ss"
  by (induction ss arbitrary: out) (simp_all add: wire_simps)

section \<open>Media segments\<close>

text \<open>A demuxer for one fragment: the samples of the \<open>trun\<close> box, each with its bytes, found at \<open>data_offset\<close> from the start of \<open>moof\<close>.\<close>

definition word_at :: "bytes \<Rightarrow> nat \<Rightarrow> u32" where
  "word_at b i = word_of_nat (be_value (take 4 (drop i b)))"

fun read_samples :: "nat \<Rightarrow> bytes \<Rightarrow> HlsFmp4Sample list" where
  "read_samples 0 b = []"
| "read_samples (Suc n) b =
     \<lparr>fs_duration_90k = word_at b 0, fs_size = word_at b 4, fs_flags = word_at b 8, fs_cts_offset_90k = word_at b 12\<rparr>
     # read_samples n (drop 16 b)"

fun sample_bytes :: "HlsFmp4Sample list \<Rightarrow> bytes \<Rightarrow> bytes list" where
  "sample_bytes [] b = []"
| "sample_bytes (s # ss) b = take (unat (fs_size s)) b # sample_bytes ss (drop (unat (fs_size s)) b)"

definition parse_fragment :: "bytes \<Rightarrow> (nat \<times> nat \<times> (HlsFmp4Sample \<times> bytes) list) option" where
  "parse_fragment seg =
     (case parse_boxes seg of
        Some [(t1, moof), (t2, mdat)] \<Rightarrow>
          (case parse_boxes moof of
             Some [(t3, mfhd), (t4, traf)] \<Rightarrow>
               (case parse_boxes traf of
                  Some [(t5, tfhd), (t6, tfdt), (t7, trun)] \<Rightarrow>
                    let samples = read_samples (be_value (take 4 (drop 4 trun))) (drop 12 trun) in
                    if t1 = ascii ''moof'' \<and> t2 = ascii ''mdat'' \<and> t3 = ascii ''mfhd'' \<and> t4 = ascii ''traf''
                       \<and> t5 = ascii ''tfhd'' \<and> t6 = ascii ''tfdt'' \<and> t7 = ascii ''trun''
                    then Some (be_value (drop 4 mfhd), be_value (drop 4 tfdt),
                           zip samples (sample_bytes samples (drop (be_value (take 4 (drop 8 trun))) seg)))
                    else None
                | _ \<Rightarrow> None)
           | _ \<Rightarrow> None)
      | _ \<Rightarrow> None)"

lemma word_at_be32: "word_at (be32 v @ xs) 0 = v" "word_at (be32 a @ be32 v @ xs) 4 = v"
  "word_at (be32 a @ be32 b @ be32 v @ xs) 8 = v" "word_at (be32 a @ be32 b @ be32 c @ be32 v @ xs) 12 = v"
  by (simp_all add: word_at_def)

lemma read_samples_trun:
  "read_samples (length ss) (concat (map (\<lambda>s. be32 (fs_duration_90k s) @ be32 (fs_size s) @ be32 (fs_flags s)
     @ be32 (fs_cts_offset_90k s)) ss) @ rest) = ss"
  by (induction ss) (simp_all add: word_at_be32)

lemma sample_bytes_concat:
  "map (\<lambda>s. unat (fs_size s)) ss = map length ds \<Longrightarrow> sample_bytes ss (concat ds @ rest) = ds"
  by (induction ss ds rule: list_induct2') auto

lemma be_value_U64: "be_value (AppendU64 [] v) = unat v"
proof -
  have m: "v AND 0xffffffff = take_bit 32 v" "drop_bit 32 v AND 0xffffffff = take_bit 32 (drop_bit 32 v)"
    by (simp_all add: take_bit_eq_mask mask_eq_exp_minus_1)
  have lo: "unat (ucast (take_bit 32 v) :: u32) = unat v mod 2 ^ 32"
    by (simp only: unsigned_ucast_eq unsigned_take_bit_eq) (simp add: take_bit_eq_mod)
  have hi: "unat (ucast (take_bit 32 (drop_bit 32 v)) :: u32) = unat v div 2 ^ 32"
  proof -
    have "unat v < 2 ^ 64" using unsigned_less [where ?'a = nat, of v] by simp
    then have "unat v div 2 ^ 32 < 2 ^ 32" by (simp add: div_less_iff_less_mult)
    then show ?thesis
      by (simp only: unsigned_ucast_eq unsigned_take_bit_eq unat_drop) (simp add: take_bit_eq_mod)
  qed
  have "be_value (AppendU64 [] v) = unat v div 2 ^ 32 * 2 ^ 32 + unat v mod 2 ^ 32"
    unfolding AppendU64_def m AppendU32_be32 be_value_append by (simp add: lo [simplified] hi [simplified])
  then show ?thesis by simp
qed

lemma length_U64 [simp]: "length (AppendU64 [] v) = 8"
  by (simp add: AppendU64_def wire_simps)

definition moof_length :: "nat \<Rightarrow> nat" where
  "moof_length n = 88 + 16 * n"

lemma parse_moof:
  assumes "length ss \<le> 2 ^ 24"
  shows "parse_boxes (BuildFmp4Moof sequence base ss off) = Some [(ascii ''moof'',
       Mp4FullBox ''mfhd'' 0 0 (be32 (word_of_nat sequence)) @ Mp4Box ''traf''
         (Mp4FullBox ''tfhd'' 0 0x020000 (be32 1) @ Mp4FullBox ''tfdt'' 1 0 (AppendU64 [] base)
          @ Mp4FullBox ''trun'' 1 0x000f01 (TrunSamples ss (be32 (word_of_nat (length ss)) @ be32 off))))]"
    and "length (BuildFmp4Moof sequence base ss off) = moof_length (length ss)"
  using assms
  by (simp_all add: BuildFmp4Moof_def Let_def wire_simps Mp4FullBox_eq parse_Mp4Box_last length_Mp4Box
      length_TrunSamples moof_length_def)

lemma parse_moof_body:
  assumes "length ss \<le> 2 ^ 24"
  shows "parse_boxes (Mp4FullBox ''mfhd'' 0 0 a @ Mp4Box ''traf'' t)
      = (if length a \<le> 100 \<and> length t \<le> 2 ^ 31 then Some [(ascii ''mfhd'', full_body 0 0 a), (ascii ''traf'', t)]
         else parse_boxes (Mp4FullBox ''mfhd'' 0 0 a @ Mp4Box ''traf'' t))"
    and "parse_boxes (Mp4FullBox ''tfhd'' 0 0x020000 (be32 1) @ Mp4FullBox ''tfdt'' 1 0 (AppendU64 [] base)
          @ Mp4FullBox ''trun'' 1 0x000f01 (TrunSamples ss (be32 n @ be32 off)))
      = Some [(ascii ''tfhd'', full_body 0 0x020000 (be32 1)), (ascii ''tfdt'', full_body 1 0 (AppendU64 [] base)),
              (ascii ''trun'', full_body 1 0x000f01 (TrunSamples ss (be32 n @ be32 off)))]"
  using assms by (simp_all add: Mp4FullBox_eq parse_Mp4Box parse_Mp4Box_last length_TrunSamples)

lemma full_body_drops:
  "drop 4 (full_body v f p) = p" "drop 8 (full_body v f (be32 a @ q)) = q" "drop 12 (full_body v f (be32 a @ be32 b @ q)) = q"
  by (simp_all add: full_body_def be24_def be32_def)

text \<open>The demuxer on any fragment whose parts it recognises.\<close>

lemma parse_fragment_segment:
  assumes n: "length ss \<le> 2 ^ 24" and b: "length body \<le> 2 ^ 31"
  shows "parse_fragment (Fmp4SegmentBytes sequence base ss body)
     = Some (sequence mod 2 ^ 32, unat base, zip ss (sample_bytes ss body))"
proof -
  define off :: u32 where "off = word_of_nat (moof_length (length ss) + 8)"
  have seg: "Fmp4SegmentBytes sequence base ss body = BuildFmp4Moof sequence base ss off @ Mp4Box ''mdat'' body"
    by (simp add: Fmp4SegmentBytes_def Let_def parse_moof(2) [OF n] off_def)
  have off: "unat off = moof_length (length ss) + 8"
    using n unfolding off_def by (simp add: unat_of_nat moof_length_def del: of_nat_add)
  have "drop (unat off) (BuildFmp4Moof sequence base ss off @ Mp4Box ''mdat'' body) = drop 8 (Mp4Box ''mdat'' body)"
    unfolding off using parse_moof(2) [OF n] by (simp add: drop_append del: drop_drop)
  then have data: "drop (unat off) (BuildFmp4Moof sequence base ss off @ Mp4Box ''mdat'' body) = body"
    using b by (simp add: Mp4Box_def wire_simps)
  have cnt: "unat (word_of_nat (length ss) :: u32) = length ss" using n by (simp add: unat_of_nat)
  have sq: "unat (word_of_nat sequence :: u32) = sequence mod 2 ^ 32" by (simp add: unat_of_nat)
  let ?traf = "Mp4FullBox ''tfhd'' 0 0x020000 (be32 1) @ Mp4FullBox ''tfdt'' 1 0 (AppendU64 [] base)
          @ Mp4FullBox ''trun'' 1 0x000f01 (TrunSamples ss (be32 (word_of_nat (length ss)) @ be32 off))"
  let ?moof = "Mp4FullBox ''mfhd'' 0 0 (be32 (word_of_nat sequence)) @ Mp4Box ''traf'' ?traf"
  have len: "length ?traf \<le> 2 ^ 31" "length ?moof \<le> 0xffffffff - 8"
    using n by (simp_all add: Mp4FullBox_eq length_Mp4Box length_TrunSamples)
  have moof: "BuildFmp4Moof sequence base ss off = Mp4Box ''moof'' ?moof"
    by (simp add: BuildFmp4Moof_def Let_def wire_simps)
  have "parse_boxes (BuildFmp4Moof sequence base ss off @ Mp4Box ''mdat'' body)
      = Some [(ascii ''moof'', ?moof), (ascii ''mdat'', body)]"
    unfolding moof using len(2) b by (simp add: parse_Mp4Box parse_Mp4Box_last)
  moreover have "parse_boxes ?moof = Some [(ascii ''mfhd'', full_body 0 0 (be32 (word_of_nat sequence))), (ascii ''traf'', ?traf)]"
    using parse_moof_body(1) [OF n, of "be32 (word_of_nat sequence)" ?traf] len(1) by simp
  ultimately show ?thesis
    unfolding seg parse_fragment_def using data
    by (simp add: parse_moof_body(2) [OF n, unfolded TrunSamples_eq append_assoc] TrunSamples_eq full_body_drops cnt sq read_samples_trun [where rest = "[]", simplified]
        be_value_U64)
qed

text \<open>
  Claim C20. A media segment of fragmented MP4 is read back exactly: for samples whose recorded sizes
  are those of the sample data collected in the body, a demuxer finds \<open>moof\<close> and \<open>mdat\<close>, the sequence
  number, the base decode time, all sample descriptions in order, and, following \<open>data_offset\<close> from the
  start of \<open>moof\<close>, for every sample its own bytes.
\<close>

theorem fmp4_segment_roundtrip:
  assumes "map (\<lambda>s. unat (fs_size s)) samples = map length datas"
    and "length samples \<le> 2 ^ 24" and "length (concat datas) \<le> 2 ^ 31"
  shows "parse_fragment (Fmp4SegmentBytes sequence base samples (concat datas))
     = Some (sequence mod 2 ^ 32, unat base, zip samples datas)"
  using parse_fragment_segment [OF assms(2,3), of sequence base] sample_bytes_concat [OF assms(1), of "[]"] by simp

theorem fmp4_segment_roundtrip_witness:
  "parse_fragment (Fmp4SegmentBytes 7 90000
      [\<lparr>fs_duration_90k = 3000, fs_size = 6, fs_flags = 0x02000000, fs_cts_offset_90k = 0\<rparr>,
       \<lparr>fs_duration_90k = 3000, fs_size = 5, fs_flags = 0x01010000, fs_cts_offset_90k = - 9\<rparr>]
      (concat [[0, 0, 0, 2, 0x26, 1], [0, 0, 0, 1, 2]]))
   = Some (7, 90000,
      [(\<lparr>fs_duration_90k = 3000, fs_size = 6, fs_flags = 0x02000000, fs_cts_offset_90k = 0\<rparr>, [0, 0, 0, 2, 0x26, 1]),
       (\<lparr>fs_duration_90k = 3000, fs_size = 5, fs_flags = 0x01010000, fs_cts_offset_90k = - 9\<rparr>, [0, 0, 0, 1, 2])])"
  by (subst fmp4_segment_roundtrip) simp_all

section \<open>The initialisation segment\<close>

definition find_box :: "string \<Rightarrow> bytes \<Rightarrow> bytes option" where
  "find_box t b = Option.bind (parse_boxes b) (\<lambda>bs. map_of bs (ascii t))"

text \<open>A player's way to the decoder configuration: width, height and the \<open>hvcC\<close> record of the sample entry.\<close>

definition init_entry :: "bytes \<Rightarrow> (nat \<times> nat \<times> bytes) option" where
  "init_entry seg =
     Option.bind (find_box ''moov'' seg) (\<lambda>moov.
     Option.bind (find_box ''trak'' moov) (\<lambda>trak.
     Option.bind (find_box ''mdia'' trak) (\<lambda>mdia.
     Option.bind (find_box ''minf'' mdia) (\<lambda>minf.
     Option.bind (find_box ''stbl'' minf) (\<lambda>stbl.
     Option.bind (find_box ''stsd'' stbl) (\<lambda>stsd.
     Option.bind (find_box ''hvc1'' (drop 8 stsd)) (\<lambda>hvc1.
     map_option (\<lambda>hvcc. (be_value (take 2 (drop 24 hvc1)), be_value (take 2 (drop 26 hvc1)), hvcc))
       (find_box ''hvcC'' (drop 78 hvc1)))))))))"

lemma find_box_hit:
  "length t = 4 \<Longrightarrow> length p \<le> 0xffffffff - 8 \<Longrightarrow> parse_boxes rest \<noteq> None \<Longrightarrow> find_box t (Mp4Box t p @ rest) = Some p"
  by (auto simp: find_box_def parse_Mp4Box)

lemma find_box_skip:
  "length u = 4 \<Longrightarrow> length p \<le> 0xffffffff - 8 \<Longrightarrow> ascii u \<noteq> ascii t \<Longrightarrow> find_box t (Mp4Box u p @ rest) = find_box t rest"
  by (cases "parse_boxes rest") (auto simp: find_box_def parse_Mp4Box)

lemmas find_box_last = find_box_hit [where rest = "[]", simplified]

lemma length_foldl_Append [simp]:
  "length (foldl AppendU32 out xs) = length out + 4 * length xs"
  "length (foldl AppendU16 out ys) = length out + 2 * length ys"
  by (induction xs arbitrary: out, simp_all add: wire_simps, induction ys arbitrary: out, simp_all add: wire_simps)

lemma length_Append [simp]:
  "length (AppendU32 out v) = length out + 4" "length (AppendU16 out x) = length out + 2" "length (AppendU8 out y) = length out + 1"
  by (simp_all add: wire_simps)

definition small_box :: "string \<Rightarrow> bytes \<Rightarrow> bool" where
  "small_box t b \<longleftrightarrow> (\<exists>p. b = Mp4Box t p \<and> length p \<le> 100 \<and> length t = 4)"

lemma small_boxI: "length t = 4 \<Longrightarrow> length p \<le> 96 \<Longrightarrow> small_box t (Mp4FullBox t v f p)"
  unfolding small_box_def Mp4FullBox_eq by (rule exI, rule conjI, rule refl) simp

lemma fixed_boxes:
  "small_box ''mvhd'' BuildMvhdBox" "small_box ''mdhd'' BuildMdhdBox" "small_box ''hdlr'' BuildHdlrBox"
  "small_box ''vmhd'' BuildVmhdBox" "small_box ''tkhd'' (BuildTkhdBox w h)"
  unfolding BuildMvhdBox_def BuildMdhdBox_def BuildHdlrBox_def BuildVmhdBox_def BuildTkhdBox_def Let_def
  by (rule small_boxI; simp add: mp4_matrix_def del: foldl.simps)+

lemma fixed_boxes_plain: "small_box ''dinf'' BuildDinfBox" "small_box ''ftyp'' BuildFtypBox"
  unfolding BuildDinfBox_def BuildFtypBox_def small_box_def Let_def
  by (rule exI, rule conjI, rule refl, simp add: Mp4FullBox_eq length_Mp4Box)+

lemma length_small_box: "small_box t b \<Longrightarrow> length b \<le> 108"
  by (auto simp: small_box_def length_Mp4Box)

lemma find_small_skip: "small_box u b \<Longrightarrow> ascii u \<noteq> ascii t \<Longrightarrow> find_box t (b @ rest) = find_box t rest"
  by (auto simp: small_box_def intro: find_box_skip)

lemma parse_small: "small_box u b \<Longrightarrow> parse_boxes (b @ rest) \<noteq> None \<longleftrightarrow> parse_boxes rest \<noteq> None"
  by (auto simp: small_box_def parse_Mp4Box)

text \<open>The sample entry in front of its \<open>hvcC\<close> box.\<close>

lemma BuildStsdBox_eq:
  "\<exists>a b. BuildStsdBox r w h = Mp4FullBox ''stsd'' 0 0 (be32 1 @ Mp4Box ''hvc1''
      (a @ be16 (ucast w) @ be16 (ucast h) @ b @ Mp4Box ''hvcC'' r)) \<and> length a = 24 \<and> length b = 50"
  unfolding BuildStsdBox_def Let_def foldl.simps AppendU32_be32 AppendU16_be16 append_assoc
  by (rule exI [of _ "replicate 6 0 @ be16 1 @ be16 0 @ be16 0 @ be32 0 @ be32 0 @ be32 0"],
      rule exI [of _ "be32 0x00480000 @ be32 0x00480000 @ be32 0 @ be16 1 @ replicate 32 0 @ be16 0x0018 @ be16 0xffff"]) simp

lemma parse_boxes_Mp4Box:
  "length t = 4 \<Longrightarrow> length p \<le> 0xffffffff - 8 \<Longrightarrow> parse_boxes (Mp4Box t p @ rest) \<noteq> None \<longleftrightarrow> parse_boxes rest \<noteq> None"
  by (simp add: parse_Mp4Box)

lemma stsd_entry:
  assumes "length r \<le> 2 ^ 24"
  shows "\<exists>e. BuildStsdBox r w h = Mp4FullBox ''stsd'' 0 0 (be32 1 @ Mp4Box ''hvc1'' e) \<and> length e = length r + 86
     \<and> be_value (take 2 (drop 24 e)) = unat w mod 2 ^ 16 \<and> be_value (take 2 (drop 26 e)) = unat h mod 2 ^ 16
     \<and> find_box ''hvcC'' (drop 78 e) = Some r"
proof -
  obtain a b where e: "BuildStsdBox r w h = Mp4FullBox ''stsd'' 0 0 (be32 1 @ Mp4Box ''hvc1''
      (a @ be16 (ucast w) @ be16 (ucast h) @ b @ Mp4Box ''hvcC'' r))" and len: "length a = 24" "length b = 50"
    using BuildStsdBox_eq by blast
  have low: "unat (ucast x :: u16) = unat x mod 2 ^ 16" for x :: u32
    by (simp only: unsigned_ucast_eq) (simp add: take_bit_eq_mod)
  show ?thesis
    by (rule exI [of _ "a @ be16 (ucast w) @ be16 (ucast h) @ b @ Mp4Box ''hvcC'' r"])
      (use assms len in \<open>simp add: e length_Mp4Box find_box_last low [simplified]\<close>)
qed

lemma find_stsd:
  assumes "length s \<le> 2 ^ 25"
  shows "find_box ''stsd'' (Mp4FullBox ''stsd'' 0 0 s @ Mp4FullBox ''stts'' 0 0 (replicate 4 0)
      @ Mp4FullBox ''stsc'' 0 0 (replicate 4 0) @ Mp4FullBox ''stsz'' 0 0 (replicate 8 0) @ Mp4FullBox ''stco'' 0 0 (replicate 4 0))
    = Some (full_body 0 0 s)"
  unfolding Mp4FullBox_eq
  by (rule find_box_hit) (use assms in \<open>simp_all add: parse_Mp4Box parse_Mp4Box_last\<close>)

text \<open>
  The initialisation segment leads a player to the decoder: following \<open>moov\<close>, \<open>trak\<close>, \<open>mdia\<close>,
  \<open>minf\<close>, \<open>stbl\<close>, \<open>stsd\<close> and \<open>hvc1\<close>, all box sizes being right, it finds the picture size and exactly the
  \<open>hvcC\<close> record the segment was built from.
\<close>

lemma init_segment_roundtrip:
  assumes "length hvcc_record \<le> 2 ^ 24"
  shows "init_entry (BuildInitSegment hvcc_record w h) = Some (unat w mod 2 ^ 16, unat h mod 2 ^ 16, hvcc_record)"
proof -
  obtain e where stsd: "BuildStsdBox hvcc_record w h = Mp4FullBox ''stsd'' 0 0 (be32 1 @ Mp4Box ''hvc1'' e)"
    and e: "length e = length hvcc_record + 86" "be_value (take 2 (drop 24 e)) = unat w mod 2 ^ 16"
      "be_value (take 2 (drop 26 e)) = unat h mod 2 ^ 16" "find_box ''hvcC'' (drop 78 e) = Some hvcc_record"
    using stsd_entry [OF assms] by blast
  define stbl where "stbl = Mp4FullBox ''stsd'' 0 0 (be32 1 @ Mp4Box ''hvc1'' e) @ Mp4FullBox ''stts'' 0 0 (replicate 4 0)
      @ Mp4FullBox ''stsc'' 0 0 (replicate 4 0) @ Mp4FullBox ''stsz'' 0 0 (replicate 8 0) @ Mp4FullBox ''stco'' 0 0 (replicate 4 0)"
  define minf where "minf = BuildVmhdBox @ BuildDinfBox @ Mp4Box ''stbl'' stbl"
  define mdia where "mdia = BuildMdhdBox @ BuildHdlrBox @ Mp4Box ''minf'' minf"
  define trak where "trak = BuildTkhdBox w h @ Mp4Box ''mdia'' mdia"
  define mvex where "mvex = Mp4Box ''mvex'' (Mp4FullBox ''trex'' 0 0 (foldl AppendU32 [] [1, 1, 0, 0, 0]))"
  define moov where "moov = BuildMvhdBox @ Mp4Box ''trak'' trak @ mvex"
  have init: "BuildInitSegment hvcc_record w h = BuildFtypBox @ Mp4Box ''moov'' moov"
    by (simp add: BuildInitSegment_def BuildStblBox_def stsd Let_def stbl_def minf_def mdia_def trak_def mvex_def moov_def)
  note small = length_small_box [OF fixed_boxes(1)] length_small_box [OF fixed_boxes(2)] length_small_box [OF fixed_boxes(3)]
    length_small_box [OF fixed_boxes(4)] length_small_box [OF fixed_boxes(5), of w h] length_small_box [OF fixed_boxes_plain(1)]
  have l1: "length stbl \<le> 2 ^ 24 + 200" using assms e(1) by (simp add: stbl_def Mp4FullBox_eq length_Mp4Box)
  then have l2: "length minf \<le> 2 ^ 24 + 500" using small by (simp add: minf_def length_Mp4Box)
  then have l3: "length mdia \<le> 2 ^ 24 + 800" using small by (simp add: mdia_def length_Mp4Box)
  then have l4: "length trak \<le> 2 ^ 24 + 1000" using small by (simp add: trak_def length_Mp4Box)
  have mvex: "length mvex = 40" "parse_boxes mvex \<noteq> None"
    by (simp_all add: mvex_def Mp4FullBox_eq length_Mp4Box parse_Mp4Box_last del: foldl.simps)
  from l4 have l5: "length moov \<le> 2 ^ 24 + 2000" using small mvex(1) by (simp add: moov_def length_Mp4Box)
  have "find_box ''moov'' (BuildFtypBox @ Mp4Box ''moov'' moov) = Some moov"
    using l5 by (subst find_small_skip [OF fixed_boxes_plain(2)]) (simp_all add: find_box_last ascii_def)
  moreover have "find_box ''trak'' moov = Some trak"
    unfolding moov_def using l4 mvex(2) by (subst find_small_skip [OF fixed_boxes(1)]) (auto simp: ascii_def intro!: find_box_hit)
  moreover have "find_box ''mdia'' trak = Some mdia"
    unfolding trak_def using l3 by (subst find_small_skip [OF fixed_boxes(5)]) (simp_all add: find_box_last ascii_def)
  moreover have "find_box ''minf'' mdia = Some minf"
    unfolding mdia_def using l2
    by (subst find_small_skip [OF fixed_boxes(2)], simp add: ascii_def, subst find_small_skip [OF fixed_boxes(3)])
      (simp_all add: find_box_last ascii_def)
  moreover have "find_box ''stbl'' minf = Some stbl"
    unfolding minf_def using l1
    by (subst find_small_skip [OF fixed_boxes(4)], simp add: ascii_def, subst find_small_skip [OF fixed_boxes_plain(1)])
      (simp_all add: find_box_last ascii_def)
  moreover have "find_box ''stsd'' stbl = Some (full_body 0 0 (be32 1 @ Mp4Box ''hvc1'' e))"
    unfolding stbl_def using assms e(1) by (intro find_stsd) (simp add: length_Mp4Box)
  moreover have "find_box ''hvc1'' (drop 8 (full_body 0 0 (be32 1 @ Mp4Box ''hvc1'' e))) = Some e"
    unfolding full_body_drops using assms e(1) by (simp add: find_box_last)
  ultimately show ?thesis unfolding init init_entry_def using e by simp
qed

end
