(* ===== verification/Hls_Maker.thy ===== *)
theory Hls_Maker
  imports Ts_Muxer Fmp4_Muxer Flv_Muxer
begin

text \<open>
  \<open>libs/media/src/hls_maker.{h,cpp}\<close>, the class \<open>HlsMaker\<close>: the segments of one stream kept in memory, the
  segment under construction, and the playlist. Logging is left out. Whether an allocation succeeds is
  an argument \<open>mem\<close> of the operations that allocate, asked once per place in the code and size.
\<close>

section \<open>Model\<close>

record HlsMakerOptions =
  ho_max_segments :: nat
  ho_max_segment_bytes :: nat
  ho_max_cached_bytes :: nat

definition default_hls_options :: HlsMakerOptions where
  "default_hls_options = \<lparr>ho_max_segments = 9, ho_max_segment_bytes = 4 * 1024 * 1024, ho_max_cached_bytes = 32 * 1024 * 1024\<rparr>"

datatype HlsSegmentFormat = FormatTs | FormatFmp4

record MediaHlsEntry =
  he_sequence :: nat
  he_duration_us :: int

record MediaHlsPlaylist =
  hp_supported :: bool
  hp_format :: HlsSegmentFormat
  hp_target_duration_sec :: nat
  hp_media_sequence :: nat
  hp_first_cached_sequence :: nat
  hp_last_cached_sequence :: nat
  hp_codec_string :: string
  hp_init_segment :: "bytes option"
  hp_entries :: "MediaHlsEntry list"

record MediaSegmentRef =
  ms_found :: bool
  ms_format :: HlsSegmentFormat
  ms_sequence :: nat
  ms_duration_us :: int
  ms_body :: "bytes option"

definition empty_segment_ref :: MediaSegmentRef where
  "empty_segment_ref = \<lparr>ms_found = False, ms_format = FormatTs, ms_sequence = 0, ms_duration_us = 0, ms_body = None\<rparr>"

record SegmentState =
  sg_started :: bool
  sg_format :: HlsSegmentFormat
  sg_sequence :: nat
  sg_start_pts_us :: int
  sg_start_dts_us :: int
  sg_last_pts_us :: int
  sg_last_dts_us :: int
  sg_base_decode_time_90k :: u64
  sg_body :: "BodyBuilder option"
  sg_samples :: "HlsFmp4Sample list"

definition ResetSegmentState :: SegmentState where
  "ResetSegmentState = \<lparr>sg_started = False, sg_format = FormatTs, sg_sequence = 0, sg_start_pts_us = 0, sg_start_dts_us = 0,
     sg_last_pts_us = 0, sg_last_dts_us = 0, sg_base_decode_time_90k = 0, sg_body = None, sg_samples = []\<rparr>"

record HlsMaker =
  hm_options :: HlsMakerOptions
  hm_segments :: "MediaSegmentRef list"
  hm_current_segment :: SegmentState
  hm_init_segment :: "bytes option"
  hm_codec_string :: string
  hm_ts_muxer_state :: TsMuxerState
  hm_next_segment_capacity :: nat
  hm_next_segment_sequence :: nat
  hm_missing_segments :: nat
  hm_evicted_segments :: nat
  hm_cached_bytes :: nat
  hm_drop_size :: nat
  hm_last_pts_us :: int
  hm_last_frame_duration_us :: int

definition new_hls_maker :: HlsMaker where
  "new_hls_maker = \<lparr>hm_options = default_hls_options, hm_segments = [], hm_current_segment = ResetSegmentState,
     hm_init_segment = None, hm_codec_string = [], hm_ts_muxer_state = new_ts_state, hm_next_segment_capacity = 0,
     hm_next_segment_sequence = 1, hm_missing_segments = 0, hm_evicted_segments = 0, hm_cached_bytes = 0,
     hm_drop_size = 0, hm_last_pts_us = - 1, hm_last_frame_duration_us = 33333\<rparr>"

definition kInitialHlsSegmentBytes :: nat where "kInitialHlsSegmentBytes = 256 * 1024"
definition kHlsSegmentCapacitySlackBytes :: nat where "kHlsSegmentCapacitySlackBytes = 64 * 1024"
definition kNoKeyframeSegmentDurationMultiplier :: int where "kNoKeyframeSegmentDurationMultiplier = 2"
definition kNoKeyframeSegmentDurationFloorUs :: int where "kNoKeyframeSegmentDurationFloorUs = 4000000"

text \<open>The places that allocate memory while a frame is appended.\<close>

datatype alloc_site = AllocFinal | AllocStart | AllocRestart | AllocInit | AllocGrow

type_synonym memory = "alloc_site \<Rightarrow> nat \<Rightarrow> bool"

definition AllocateBody :: "(nat \<Rightarrow> bool) \<Rightarrow> nat \<Rightarrow> BodyBuilder option" where
  "AllocateBody mem capacity = (if capacity = 0 \<or> \<not> mem capacity then None else Some \<lparr>bb_data = [], bb_capacity = capacity\<rparr>)"

definition MediaBufferFromString :: "(nat \<Rightarrow> bool) \<Rightarrow> bytes \<Rightarrow> bytes option" where
  "MediaBufferFromString mem data =
     (if data = [] \<or> length data > UINT32_MAX then None
      else map_option (\<lambda>b. data) (AllocateBody mem (length data)))"

definition AddHlsCachedBytes :: "nat \<Rightarrow> nat \<Rightarrow> nat" where
  "AddHlsCachedBytes current bytes = (if bytes > UINT32_MAX - current then UINT32_MAX else current + bytes)"

definition body_size :: "BodyBuilder option \<Rightarrow> nat" where
  "body_size b = (case b of None \<Rightarrow> 0 | Some b \<Rightarrow> length (bb_data b))"

definition Hls_Configure :: "HlsMakerOptions \<Rightarrow> HlsMaker \<Rightarrow> HlsMaker" where
  "Hls_Configure options m = m\<lparr>hm_options := options, hm_drop_size := 0\<rparr>"

definition ClearSegments :: "HlsMaker \<Rightarrow> HlsMaker" where
  "ClearSegments m = m\<lparr>hm_cached_bytes := 0, hm_segments := []\<rparr>"

definition Hls_Reset :: "HlsMaker \<Rightarrow> HlsMaker" where
  "Hls_Reset m =
     (ClearSegments m)\<lparr>hm_current_segment := ResetSegmentState, hm_init_segment := None, hm_codec_string := [],
       hm_ts_muxer_state := new_ts_state, hm_next_segment_capacity := 0, hm_next_segment_sequence := 1,
       hm_missing_segments := 0, hm_evicted_segments := 0, hm_cached_bytes := 0, hm_drop_size := 0,
       hm_last_pts_us := - 1, hm_last_frame_duration_us := 33333\<rparr>"

definition IsPlaylistReady :: "HlsMaker \<Rightarrow> bool" where
  "IsPlaylistReady m \<longleftrightarrow> hm_segments m \<noteq> []"

definition SegmentSize :: "HlsMaker \<Rightarrow> nat" where
  "SegmentSize m = length (hm_segments m)"

definition FirstSegmentSequence :: "HlsMaker \<Rightarrow> nat" where
  "FirstSegmentSequence m = (if hm_segments m = [] then 0 else ms_sequence (hd (hm_segments m)))"

definition LastSegmentSequence :: "HlsMaker \<Rightarrow> nat" where
  "LastSegmentSequence m = (if hm_segments m = [] then 0 else ms_sequence (last (hm_segments m)))"

definition CurrentSegmentSize :: "HlsMaker \<Rightarrow> nat" where
  "CurrentSegmentSize m = body_size (sg_body (hm_current_segment m))"

fun PlaylistLoop :: "MediaSegmentRef list \<Rightarrow> MediaHlsEntry list \<Rightarrow> int \<Rightarrow> MediaHlsEntry list \<times> int" where
  "PlaylistLoop [] entries max_duration_us = (entries, max_duration_us)"
| "PlaylistLoop (s # ss) entries max_duration_us =
     PlaylistLoop ss (entries @ [\<lparr>he_sequence = ms_sequence s, he_duration_us = ms_duration_us s\<rparr>])
       (max max_duration_us (ms_duration_us s))"

definition BuildPlaylist :: "nat \<Rightarrow> nat \<Rightarrow> HlsMaker \<Rightarrow> MediaHlsPlaylist" where
  "BuildPlaylist hls_segment_duration_ms hls_playlist_depth m =
     (if hm_segments m = []
      then \<lparr>hp_supported = False, hp_format = FormatTs, hp_target_duration_sec = 0, hp_media_sequence = 0,
            hp_first_cached_sequence = 0, hp_last_cached_sequence = 0, hp_codec_string = [], hp_init_segment = None, hp_entries = []\<rparr>
      else
        let playlist_depth = max 1 hls_playlist_depth;
            start_index = (if length (hm_segments m) > playlist_depth then length (hm_segments m) - playlist_depth else 0);
            (entries, max_duration_us) =
              PlaylistLoop (drop start_index (hm_segments m)) [] (int hls_segment_duration_ms * 1000)
        in \<lparr>hp_supported = True, hp_format = ms_format (hd (hm_segments m)),
            hp_target_duration_sec = nat (max 1 (trunc_div (max_duration_us + 999999) 1000000)),
            hp_media_sequence = ms_sequence (hm_segments m ! start_index),
            hp_first_cached_sequence = FirstSegmentSequence m, hp_last_cached_sequence = LastSegmentSequence m,
            hp_codec_string = hm_codec_string m, hp_init_segment = hm_init_segment m, hp_entries = entries\<rparr>)"

fun FindSegmentLoop :: "MediaSegmentRef list \<Rightarrow> nat \<Rightarrow> MediaSegmentRef" where
  "FindSegmentLoop [] sequence = empty_segment_ref"
| "FindSegmentLoop (s # ss) sequence = (if ms_sequence s = sequence then s else FindSegmentLoop ss sequence)"

definition FindSegmentRef :: "nat \<Rightarrow> HlsMaker \<Rightarrow> MediaSegmentRef" where
  "FindSegmentRef sequence m = FindSegmentLoop (hm_segments m) sequence"

definition RecordSegmentMiss :: "HlsMaker \<Rightarrow> HlsMaker" where
  "RecordSegmentMiss m = m\<lparr>hm_missing_segments := hm_missing_segments m + 1\<rparr>"

definition ClampSegmentCapacity :: "HlsMakerOptions \<Rightarrow> nat \<Rightarrow> nat" where
  "ClampSegmentCapacity options capacity =
     (let max_segment_bytes = max 1 (ho_max_segment_bytes options);
          min_capacity = min kInitialHlsSegmentBytes max_segment_bytes
      in if capacity < min_capacity then min_capacity
         else if capacity > max_segment_bytes then max_segment_bytes
         else capacity)"

function GrowLoop :: "nat \<Rightarrow> nat \<Rightarrow> nat \<Rightarrow> nat \<Rightarrow> nat option" where
  "GrowLoop max_bytes extra_bytes sz new_capacity =
     (if extra_bytes > new_capacity - sz then
        if new_capacity \<ge> max_bytes then None
        else
          let doubled = (new_capacity * 2) mod 2 ^ 32;
              next_capacity = (if doubled > new_capacity then doubled else max_bytes);
              next_capacity = (if next_capacity > max_bytes then max_bytes else next_capacity)
          in GrowLoop max_bytes extra_bytes sz next_capacity
      else Some new_capacity)"
  by pat_completeness auto
termination
  by (relation "measure (\<lambda>(max_bytes, extra_bytes, sz, new_capacity). max_bytes - new_capacity)") (auto simp: Let_def)

declare GrowLoop.simps [simp del]

definition EnsureSegmentCapacity ::
  "(nat \<Rightarrow> bool) \<Rightarrow> HlsMakerOptions \<Rightarrow> SegmentState \<Rightarrow> nat \<Rightarrow> SegmentState \<times> bool" where
  "EnsureSegmentCapacity mem options sg extra_bytes =
     (case sg_body sg of
        None \<Rightarrow> (sg, False)
      | Some body \<Rightarrow>
          let sz = length (bb_data body) in
          if sz > bb_capacity body then (sg, False)
          else if sz > ho_max_segment_bytes options \<or> extra_bytes > ho_max_segment_bytes options - sz then (sg, False)
          else if extra_bytes \<le> bb_capacity body - sz then (sg, True)
          else case GrowLoop (ho_max_segment_bytes options) extra_bytes sz (bb_capacity body) of
                 None \<Rightarrow> (sg, False)
               | Some new_capacity \<Rightarrow>
                   (case AllocateBody mem new_capacity of
                      None \<Rightarrow> (sg, False)
                    | Some new_body \<Rightarrow>
                        if sz > bb_capacity new_body then (sg, False)
                        else (sg\<lparr>sg_body := Some (new_body\<lparr>bb_data := bb_data body\<rparr>)\<rparr>, True)))"

definition SegmentBuffer :: "SegmentState \<Rightarrow> TsSegmentBuffer" where
  "SegmentBuffer sg =
     (case sg_body sg of
        None \<Rightarrow> \<lparr>tb_data = [], tb_capacity = 0\<rparr>
      | Some body \<Rightarrow> \<lparr>tb_data = bb_data body, tb_capacity = bb_capacity body\<rparr>)"

definition CommitSegmentBuffer :: "SegmentState \<Rightarrow> TsSegmentBuffer \<Rightarrow> SegmentState \<times> bool" where
  "CommitSegmentBuffer sg buffer =
     (case sg_body sg of
        None \<Rightarrow> (sg, False)
      | Some body \<Rightarrow>
          if length (tb_data buffer) \<le> bb_capacity body
          then (sg\<lparr>sg_body := Some (body\<lparr>bb_data := tb_data buffer\<rparr>)\<rparr>, True)
          else (sg, False))"

definition ObserveFrameTiming :: "MediaFrame \<Rightarrow> HlsMaker \<Rightarrow> HlsMaker" where
  "ObserveFrameTiming frame m =
     (let m = (if hm_last_pts_us m > 0 \<and> pts_us frame > hm_last_pts_us m
               then m\<lparr>hm_last_frame_duration_us := pts_us frame - hm_last_pts_us m\<rparr> else m)
      in m\<lparr>hm_last_pts_us := pts_us frame\<rparr>)"

text \<open>\<open>AppendFrameToSegment\<close>: H.265 frames become samples of fragmented MP4, all others go to the transport stream.\<close>

definition EnsureInitSegment :: "memory \<Rightarrow> MediaFrame \<Rightarrow> bytes \<Rightarrow> bytes \<Rightarrow> bytes \<Rightarrow> HlsMaker \<Rightarrow> HlsMaker \<times> bool" where
  "EnsureInitSegment mem frame vps sps pps m =
     (if hm_init_segment m \<noteq> None then (m, True)
      else case BuildH265HvccRecord vps sps pps of
             None \<Rightarrow> (m, False)
           | Some (hvcc_record, h265_codec_string) \<Rightarrow>
               let w = Mp4TrackDimension (width frame) 1920;
                   h = Mp4TrackDimension (height frame) 1080;
                   m = m\<lparr>hm_init_segment := MediaBufferFromString (mem AllocInit) (BuildInitSegment hvcc_record w h),
                         hm_codec_string := h265_codec_string\<rparr>
               in (m, hm_init_segment m \<noteq> None))"

definition MakeFmp4Sample :: "HlsMaker \<Rightarrow> MediaFrame \<Rightarrow> nat \<Rightarrow> HlsFmp4Sample" where
  "MakeFmp4Sample m frame sample_size =
     \<lparr>fs_duration_90k = word_of_int (max 1 (hm_last_frame_duration_us m) * 9 div 100),
      fs_size = word_of_nat sample_size,
      fs_flags = (if frame_type frame = FrameIdr \<or> frame_type frame = FrameI then 0x02000000 else 0x01010000),
      fs_cts_offset_90k = word_of_int (trunc_div ((pts_us frame - dts_us frame) * 9) 100)\<rparr>"

definition AppendFrameToSegment ::
  "memory \<Rightarrow> FramePayload \<Rightarrow> bytes \<Rightarrow> bytes \<Rightarrow> bytes \<Rightarrow> bool \<Rightarrow> MediaFrame \<Rightarrow> HlsMaker \<Rightarrow> HlsMaker \<times> bool" where
  "AppendFrameToSegment mem fp vps sps pps prepend_parameter_sets frame m =
     (if sg_body (hm_current_segment m) = None then (m, False)
      else if codec frame = CodecH265 then
        case EnsureInitSegment mem frame vps sps pps m of
          (m, ok) \<Rightarrow>
            if \<not> ok then (m, False)
            else
              let extra_bytes = size_t_add (PayloadSize frame) (kMaxNalUnitsPerFrame * 4);
                  (sg, ok) = EnsureSegmentCapacity (mem AllocGrow) (hm_options m) (hm_current_segment m) extra_bytes
              in if \<not> ok then (m\<lparr>hm_current_segment := sg, hm_drop_size := hm_drop_size m + 1\<rparr>, False)
                 else
                   (case AppendH265Fmp4SamplePayload (fp_h265_units fp) (the (sg_body sg)) of
                      (body, sample_size, ok) \<Rightarrow>
                        let sg = sg\<lparr>sg_body := Some body\<rparr> in
                        if \<not> ok then (m\<lparr>hm_current_segment := sg\<rparr>, False)
                        else (m\<lparr>hm_current_segment := sg\<lparr>sg_samples := sg_samples sg @ [MakeFmp4Sample m frame sample_size]\<rparr>\<rparr>, True))
      else
        case BuildH264TsFrameSlices (fp_h264_units fp) sps pps prepend_parameter_sets (pts_us frame) (dts_us frame) of
          None \<Rightarrow> (m, False)
        | Some frame_slices \<Rightarrow>
            let (sg, ok) = EnsureSegmentCapacity (mem AllocGrow) (hm_options m) (hm_current_segment m) (tf_ts_bytes frame_slices)
            in if \<not> ok then (m\<lparr>hm_current_segment := sg, hm_drop_size := hm_drop_size m + 1\<rparr>, False)
               else
                 (case AppendTsPayloadToBuffer (tf_pes_slices frame_slices) (tf_dts_90k frame_slices)
                         (video_continuity (hm_ts_muxer_state m)) (SegmentBuffer sg) of
                    (cc, buffer, appended) \<Rightarrow>
                      let (sg', committed) = CommitSegmentBuffer sg buffer in
                      if appended \<and> committed
                      then (m\<lparr>hm_current_segment := sg', hm_ts_muxer_state := (hm_ts_muxer_state m)\<lparr>video_continuity := cc\<rparr>\<rparr>, True)
                      else (m\<lparr>hm_current_segment := sg\<rparr>, False)))"

definition BuildFinalizedFmp4Segment :: "memory \<Rightarrow> SegmentState \<Rightarrow> bytes option" where
  "BuildFinalizedFmp4Segment mem sg =
     (if sg_samples sg = [] then None
      else case sg_body sg of
        None \<Rightarrow> None
      | Some body \<Rightarrow>
          MediaBufferFromString (mem AllocFinal)
            (Fmp4SegmentBytes (sg_sequence sg) (sg_base_decode_time_90k sg) (sg_samples sg) (bb_data body)))"

definition CurrentSegmentDurationUs :: "HlsMaker \<Rightarrow> int" where
  "CurrentSegmentDurationUs m =
     max (hm_last_frame_duration_us m)
       (sg_last_dts_us (hm_current_segment m) - sg_start_dts_us (hm_current_segment m) + hm_last_frame_duration_us m)"

definition StartSegment :: "(nat \<Rightarrow> bool) \<Rightarrow> Codec \<Rightarrow> int \<Rightarrow> int \<Rightarrow> HlsMaker \<Rightarrow> HlsMaker" where
  "StartSegment mem cdc pts dts m =
     (let sg = ResetSegmentState\<lparr>sg_started := True, sg_format := if cdc = CodecH265 then FormatFmp4 else FormatTs,
                 sg_sequence := hm_next_segment_sequence m, sg_start_pts_us := pts, sg_start_dts_us := dts,
                 sg_last_pts_us := pts, sg_last_dts_us := dts, sg_base_decode_time_90k := TimestampUsTo90k dts\<rparr>;
          m = m\<lparr>hm_next_segment_sequence := hm_next_segment_sequence m + 1\<rparr>;
          segment_capacity = ClampSegmentCapacity (hm_options m) (hm_next_segment_capacity m);
          sg = sg\<lparr>sg_body := AllocateBody mem segment_capacity\<rparr>
      in if sg_body sg = None then m\<lparr>hm_current_segment := ResetSegmentState\<rparr>
         else if sg_format sg = FormatTs then
           (case AppendTsSegmentHeader cdc (hm_ts_muxer_state m) (SegmentBuffer sg) of
              (state, segment_body, ok) \<Rightarrow>
                let m = m\<lparr>hm_ts_muxer_state := state\<rparr> in
                if \<not> ok then m\<lparr>hm_current_segment := ResetSegmentState\<rparr>
                else case CommitSegmentBuffer sg segment_body of
                  (sg, ok) \<Rightarrow> m\<lparr>hm_current_segment := if ok then sg else ResetSegmentState\<rparr>)
         else m\<lparr>hm_current_segment := sg\<rparr>)"

definition RememberSegmentCapacity :: "SegmentState \<Rightarrow> HlsMaker \<Rightarrow> HlsMaker" where
  "RememberSegmentCapacity sg m =
     (case sg_body sg of
        None \<Rightarrow> m
      | Some body \<Rightarrow>
          let next_capacity = length (bb_data body);
              slack = max (next_capacity div 8) kHlsSegmentCapacitySlackBytes;
              max_bytes = ho_max_segment_bytes (hm_options m);
              next_capacity = (if max_bytes > slack \<and> next_capacity \<le> max_bytes - slack then next_capacity + slack else max_bytes)
          in m\<lparr>hm_next_segment_capacity := ClampSegmentCapacity (hm_options m) next_capacity\<rparr>)"

definition ref_bytes :: "MediaSegmentRef \<Rightarrow> nat" where
  "ref_bytes s = (case ms_body s of None \<Rightarrow> 0 | Some b \<Rightarrow> length b)"

definition PopOldestSegment :: "HlsMaker \<Rightarrow> HlsMaker" where
  "PopOldestSegment m =
     (case hm_segments m of
        [] \<Rightarrow> m
      | s # ss \<Rightarrow>
          let bytes = ref_bytes s in
          m\<lparr>hm_evicted_segments := hm_evicted_segments m + 1,
            hm_cached_bytes := (if bytes > hm_cached_bytes m then 0 else hm_cached_bytes m - bytes),
            hm_segments := ss\<rparr>)"

text \<open>The eviction loop: \<open>None\<close> would mean that it never ends.\<close>

partial_function (option) EvictLoop :: "HlsMaker \<Rightarrow> HlsMaker option" where
  "EvictLoop m =
     (if length (hm_segments m) > ho_max_segments (hm_options m) \<or> hm_cached_bytes m > ho_max_cached_bytes (hm_options m)
      then EvictLoop (PopOldestSegment m) else Some m)"

definition PushFinalizedSegment :: "memory \<Rightarrow> HlsMaker \<Rightarrow> (HlsMaker \<times> bool) option" where
  "PushFinalizedSegment mem m =
     (let sg = hm_current_segment m in
      if \<not> sg_started sg \<or> sg_body sg = None \<or> body_size (sg_body sg) = 0 then Some (m, False)
      else if body_size (sg_body sg) > ho_max_segment_bytes (hm_options m)
      then Some (m\<lparr>hm_drop_size := hm_drop_size m + 1\<rparr>, False)
      else
        let seg_ref = \<lparr>ms_found = True, ms_format = sg_format sg, ms_sequence = sg_sequence sg,
                       ms_duration_us = CurrentSegmentDurationUs m, ms_body = None\<rparr>;
            m = RememberSegmentCapacity sg m;
            (m, seg_ref, built) =
              (if sg_format sg = FormatFmp4
               then (m, seg_ref\<lparr>ms_body := BuildFinalizedFmp4Segment mem sg\<rparr>, BuildFinalizedFmp4Segment mem sg \<noteq> None)
               else (m\<lparr>hm_current_segment := sg\<lparr>sg_body := None\<rparr>\<rparr>, seg_ref\<lparr>ms_body := map_option bb_data (sg_body sg)\<rparr>, True))
        in if \<not> built then Some (m, False)
           else
             let segment_bytes = ref_bytes seg_ref in
             if segment_bytes > ho_max_cached_bytes (hm_options m)
             then Some (m\<lparr>hm_drop_size := hm_drop_size m + 1\<rparr>, False)
             else
               map_option (\<lambda>m. (m, True))
                 (EvictLoop (m\<lparr>hm_segments := hm_segments m @ [seg_ref],
                               hm_cached_bytes := AddHlsCachedBytes (hm_cached_bytes m) segment_bytes\<rparr>)))"

definition FinalizeCurrentSegment :: "memory \<Rightarrow> HlsMaker \<Rightarrow> (HlsMaker \<times> bool) option" where
  "FinalizeCurrentSegment mem m =
     (let sg = hm_current_segment m in
      if \<not> sg_started sg \<or> sg_body sg = None \<or> body_size (sg_body sg) = 0 then Some (m, False)
      else map_option (\<lambda>(m, pushed). (m\<lparr>hm_current_segment := ResetSegmentState\<rparr>, pushed)) (PushFinalizedSegment mem m))"

text \<open>The test for the end of the current segment.\<close>

definition ForceFinalize :: "HlsMaker \<Rightarrow> MediaFrame \<Rightarrow> bool \<Rightarrow> nat \<Rightarrow> bool" where
  "ForceFinalize m frame keyframe hls_segment_duration_ms =
     (let frame_elapsed_us = dts_us frame - sg_start_dts_us (hm_current_segment m);
          segment_duration_us = int hls_segment_duration_ms * 1000;
          force_finalize_us = max (segment_duration_us * kNoKeyframeSegmentDurationMultiplier) kNoKeyframeSegmentDurationFloorUs
      in sg_started (hm_current_segment m)
         \<and> (if keyframe then frame_elapsed_us \<ge> segment_duration_us else frame_elapsed_us \<ge> force_finalize_us))"

text \<open>\<open>AppendFrame\<close>: the state, the result and \<open>segment_created\<close>.\<close>

definition AppendFrame ::
  "memory \<Rightarrow> MediaFrame \<Rightarrow> FramePayload \<Rightarrow> bytes \<Rightarrow> bytes \<Rightarrow> bytes \<Rightarrow> bool \<Rightarrow> bool \<Rightarrow> nat \<Rightarrow> HlsMaker
     \<Rightarrow> (HlsMaker \<times> bool \<times> bool) option" where
  "AppendFrame mem frame fp vps sps pps keyframe prepend_parameter_sets hls_segment_duration_ms m =
     (let m = ObserveFrameTiming frame m in
      case (if ForceFinalize m frame keyframe hls_segment_duration_ms
            then map_option (\<lambda>(m, finalized).
                   (if finalized \<and> keyframe then StartSegment (mem AllocStart) (codec frame) (pts_us frame) (dts_us frame) m
                    else m, finalized)) (FinalizeCurrentSegment mem m)
            else Some (m, False)) of
        None \<Rightarrow> None
      | Some (m, segment_created) \<Rightarrow>
          let m = (if keyframe \<and> \<not> sg_started (hm_current_segment m)
                   then StartSegment (mem AllocRestart) (codec frame) (pts_us frame) (dts_us frame) m else m)
          in if \<not> sg_started (hm_current_segment m) then Some (m, True, segment_created)
             else case AppendFrameToSegment mem fp vps sps pps prepend_parameter_sets frame m of
               (m, ok) \<Rightarrow>
                 if \<not> ok then Some (m\<lparr>hm_current_segment := ResetSegmentState\<rparr>, False, segment_created)
                 else Some (m\<lparr>hm_current_segment := (hm_current_segment m)\<lparr>sg_last_pts_us := pts_us frame,
                        sg_last_dts_us := dts_us frame\<rparr>\<rparr>, True, segment_created))"

section \<open>The window of segments\<close>

definition window_bytes :: "HlsMaker \<Rightarrow> nat" where
  "window_bytes m = sum_list (map ref_bytes (hm_segments m))"

text \<open>Eviction ends, because the byte counter never exceeds the bytes that are really stored.\<close>

lemma EvictLoop_spec:
  assumes "hm_cached_bytes m \<le> window_bytes m"
  shows "\<exists>k c. EvictLoop m = Some (m\<lparr>hm_segments := drop k (hm_segments m), hm_cached_bytes := c,
       hm_evicted_segments := hm_evicted_segments m + k\<rparr>)
     \<and> k \<le> length (hm_segments m) \<and> c \<le> sum_list (map ref_bytes (drop k (hm_segments m)))
     \<and> (hm_cached_bytes m = window_bytes m \<longrightarrow> c = sum_list (map ref_bytes (drop k (hm_segments m))))
     \<and> length (hm_segments m) - k \<le> ho_max_segments (hm_options m) \<and> c \<le> ho_max_cached_bytes (hm_options m)"
  using assms
proof (induction "length (hm_segments m)" arbitrary: m rule: less_induct)
  case less
  let ?full = "length (hm_segments m) > ho_max_segments (hm_options m) \<or> hm_cached_bytes m > ho_max_cached_bytes (hm_options m)"
  show ?case
  proof (cases ?full)
    case False
    then show ?thesis using less.prems
      by (intro exI [of _ 0] exI [of _ "hm_cached_bytes m"]) (simp add: EvictLoop.simps [of m] window_bytes_def)
  next
    case True
    then obtain s ss where ss: "hm_segments m = s # ss"
      using less.prems by (cases "hm_segments m") (auto simp: window_bytes_def)
    define m' where "m' = PopOldestSegment m"
    have m': "m' = m\<lparr>hm_evicted_segments := hm_evicted_segments m + 1,
        hm_cached_bytes := (if ref_bytes s > hm_cached_bytes m then 0 else hm_cached_bytes m - ref_bytes s), hm_segments := ss\<rparr>"
      by (simp add: m'_def PopOldestSegment_def ss)
    have le: "hm_cached_bytes m' \<le> window_bytes m'" using less.prems ss by (auto simp: m' window_bytes_def)
    have exact: "hm_cached_bytes m = window_bytes m \<Longrightarrow> hm_cached_bytes m' = window_bytes m'"
      using ss by (auto simp: m' window_bytes_def)
    have "length (hm_segments m') < length (hm_segments m)" by (simp add: m' ss)
    from less.hyps [OF this le] obtain k c where
      k: "EvictLoop m' = Some (m'\<lparr>hm_segments := drop k (hm_segments m'), hm_cached_bytes := c,
           hm_evicted_segments := hm_evicted_segments m' + k\<rparr>)" "k \<le> length (hm_segments m')"
        "c \<le> sum_list (map ref_bytes (drop k (hm_segments m')))"
        "hm_cached_bytes m' = window_bytes m' \<longrightarrow> c = sum_list (map ref_bytes (drop k (hm_segments m')))"
        "length (hm_segments m') - k \<le> ho_max_segments (hm_options m')" "c \<le> ho_max_cached_bytes (hm_options m')"
      by blast
    have "EvictLoop m = EvictLoop m'" using True by (subst EvictLoop.simps) (simp add: m'_def)
    with k exact show ?thesis
      by (intro exI [of _ "Suc k"] exI [of _ c]) (simp add: m' ss)
  qed
qed

text \<open>
  The invariant of the maker: the counters are right, the limits hold, sequence numbers increase
  along the window and the segment under construction comes after it.
\<close>

definition hls_inv :: "HlsMaker \<Rightarrow> bool" where
  "hls_inv m \<longleftrightarrow>
     hm_cached_bytes m \<le> window_bytes m
     \<and> (2 * ho_max_cached_bytes (hm_options m) \<le> UINT32_MAX \<longrightarrow> hm_cached_bytes m = window_bytes m)
     \<and> length (hm_segments m) \<le> ho_max_segments (hm_options m) \<and> hm_cached_bytes m \<le> ho_max_cached_bytes (hm_options m)
     \<and> sorted_wrt (<) (map ms_sequence (hm_segments m))
     \<and> (\<forall>s \<in> set (hm_segments m). ms_found s \<and> 0 < ms_sequence s \<and> ms_sequence s < hm_next_segment_sequence m)
     \<and> (sg_started (hm_current_segment m) \<longrightarrow> 0 < sg_sequence (hm_current_segment m)
          \<and> sg_sequence (hm_current_segment m) < hm_next_segment_sequence m
          \<and> (\<forall>s \<in> set (hm_segments m). ms_sequence s < sg_sequence (hm_current_segment m)))
     \<and> 0 < hm_next_segment_sequence m"

text \<open>Operations on the segment under construction leave the window alone.\<close>

definition same_window :: "HlsMaker \<Rightarrow> HlsMaker \<Rightarrow> bool" where
  "same_window m m' \<longleftrightarrow> hm_segments m' = hm_segments m \<and> hm_cached_bytes m' = hm_cached_bytes m
     \<and> hm_options m' = hm_options m \<and> hm_next_segment_sequence m' = hm_next_segment_sequence m"

lemma hls_inv_same_window:
  assumes "hls_inv m" "same_window m m'"
    and "sg_started (hm_current_segment m') \<Longrightarrow>
      sg_started (hm_current_segment m) \<and> sg_sequence (hm_current_segment m') = sg_sequence (hm_current_segment m)"
  shows "hls_inv m'"
  using assms unfolding hls_inv_def same_window_def window_bytes_def by auto

lemma ObserveFrameTiming_same: "same_window m (ObserveFrameTiming frame m)"
  "hm_current_segment (ObserveFrameTiming frame m) = hm_current_segment m"
  by (simp_all add: ObserveFrameTiming_def same_window_def Let_def)

lemma ObserveFrameTiming_inv: "hls_inv m \<Longrightarrow> hls_inv (ObserveFrameTiming frame m)"
  using hls_inv_same_window [OF _ ObserveFrameTiming_same(1)] by (simp add: ObserveFrameTiming_same(2))

lemma ObserveFrameTiming_options: "hm_options (ObserveFrameTiming frame m) = hm_options m"
  "hm_segments (ObserveFrameTiming frame m) = hm_segments m"
  using ObserveFrameTiming_same(1) by (simp_all add: same_window_def)

definition same_segment :: "SegmentState \<Rightarrow> SegmentState \<Rightarrow> bool" where
  "same_segment sg sg' \<longleftrightarrow> sg'\<lparr>sg_body := None, sg_samples := []\<rparr> = sg\<lparr>sg_body := None, sg_samples := []\<rparr>"

lemma same_segmentD:
  assumes "same_segment sg sg'"
  shows "sg_started sg' = sg_started sg" "sg_sequence sg' = sg_sequence sg" "sg_format sg' = sg_format sg"
    "sg_base_decode_time_90k sg' = sg_base_decode_time_90k sg"
  using assms unfolding same_segment_def by (cases sg; cases sg'; simp)+

lemma EnsureSegmentCapacity_same:
  "EnsureSegmentCapacity mem options sg n = (sg', ok) \<Longrightarrow>
     same_segment sg sg' \<and> sg_samples sg' = sg_samples sg \<and> map_option bb_data (sg_body sg') = map_option bb_data (sg_body sg)"
  by (auto simp: EnsureSegmentCapacity_def AllocateBody_def same_segment_def Let_def split: option.splits if_splits)

lemma EnsureInitSegment_same:
  "EnsureInitSegment mem frame vps sps pps m = (m', ok) \<Longrightarrow>
     same_window m m' \<and> hm_current_segment m' = hm_current_segment m"
  by (auto simp: EnsureInitSegment_def same_window_def Let_def split: if_splits option.splits)

lemma same_segment_trans: "same_segment a b \<Longrightarrow> same_segment b c \<Longrightarrow> same_segment a c"
  by (simp add: same_segment_def)

lemma same_segment_refl [simp]: "same_segment a a" "same_segment a (b\<lparr>sg_body := x\<rparr>) = same_segment a b"
  "same_segment a (b\<lparr>sg_samples := y\<rparr>) = same_segment a b"
  by (simp_all add: same_segment_def)

lemma AppendFrameToSegment_same:
  assumes "AppendFrameToSegment mem fp vps sps pps prepend frame m = (m', ok)"
  shows "same_window m m' \<and> same_segment (hm_current_segment m) (hm_current_segment m')"
proof (cases "codec frame = CodecH265")
  case True
  obtain m1 ok1 where init: "EnsureInitSegment mem frame vps sps pps m = (m1, ok1)" by fastforce
  note i = EnsureInitSegment_same [OF init]
  obtain sg ok2 where cap: "EnsureSegmentCapacity (mem AllocGrow) (hm_options m) (hm_current_segment m)
      (size_t_add (PayloadSize frame) (kMaxNalUnitsPerFrame * 4)) = (sg, ok2)" by fastforce
  note c = EnsureSegmentCapacity_same [OF cap]
  show ?thesis using assms True i c
    by (auto simp: AppendFrameToSegment_def init cap same_window_def Let_def split: if_splits prod.splits)
next
  case False
  show ?thesis
  proof (cases "BuildH264TsFrameSlices (fp_h264_units fp) sps pps prepend (pts_us frame) (dts_us frame)")
    case None
    with assms False show ?thesis by (auto simp: AppendFrameToSegment_def same_window_def split: if_splits)
  next
    case (Some fs)
    obtain sg ok2 where cap: "EnsureSegmentCapacity (mem AllocGrow) (hm_options m) (hm_current_segment m)
      (tf_ts_bytes fs) = (sg, ok2)" by fastforce
    show ?thesis using assms False Some EnsureSegmentCapacity_same [OF cap]
      by (auto simp: AppendFrameToSegment_def cap same_window_def Let_def CommitSegmentBuffer_def
          split: if_splits prod.splits option.splits)
  qed
qed

text \<open>Starting a segment takes the next number, whether or not it succeeds.\<close>

lemma StartSegment_window:
  "hm_segments (StartSegment mem cdc pts dts m) = hm_segments m"
  "hm_cached_bytes (StartSegment mem cdc pts dts m) = hm_cached_bytes m"
  "hm_options (StartSegment mem cdc pts dts m) = hm_options m"
  "hm_next_segment_sequence (StartSegment mem cdc pts dts m) = hm_next_segment_sequence m + 1"
  by (auto simp: StartSegment_def Let_def split: prod.splits)

lemma StartSegment_current:
  assumes "sg_started (hm_current_segment (StartSegment mem cdc pts dts m))"
  shows "sg_sequence (hm_current_segment (StartSegment mem cdc pts dts m)) = hm_next_segment_sequence m"
  using assms
  by (auto simp: StartSegment_def Let_def ResetSegmentState_def CommitSegmentBuffer_def split: prod.splits if_splits option.splits)

lemma StartSegment_inv: "hls_inv m \<Longrightarrow> hls_inv (StartSegment mem cdc pts dts m)"
  using StartSegment_current [of mem cdc pts dts m]
  by (auto simp: hls_inv_def window_bytes_def StartSegment_window)

text \<open>The reference that finalising the current segment publishes.\<close>

definition final_ref :: "memory \<Rightarrow> HlsMaker \<Rightarrow> MediaSegmentRef" where
  "final_ref mem m =
     (let sg = hm_current_segment m in
      \<lparr>ms_found = True, ms_format = sg_format sg, ms_sequence = sg_sequence sg, ms_duration_us = CurrentSegmentDurationUs m,
       ms_body = (if sg_format sg = FormatFmp4 then BuildFinalizedFmp4Segment mem sg else map_option bb_data (sg_body sg))\<rparr>)"

definition finalizable :: "HlsMaker \<Rightarrow> bool" where
  "finalizable m \<longleftrightarrow> (let sg = hm_current_segment m in sg_started sg \<and> sg_body sg \<noteq> None \<and> body_size (sg_body sg) \<noteq> 0)"

lemma RememberSegmentCapacity_same:
  "\<exists>c. RememberSegmentCapacity sg m = m\<lparr>hm_next_segment_capacity := c\<rparr>"
proof (cases "sg_body sg")
  case None
  then show ?thesis
    by (intro exI [of _ "hm_next_segment_capacity m"]) (simp add: RememberSegmentCapacity_def)
next
  case (Some body)
  show ?thesis unfolding RememberSegmentCapacity_def Let_def Some option.case by blast
qed

text \<open>What \<open>PushFinalizedSegment\<close> does to the window before eviction: nothing, or one reference appended.\<close>

lemma PushFinalizedSegment_cases:
  assumes "finalizable m"
  shows "(\<exists>m'. PushFinalizedSegment mem m = Some (m', False) \<and> same_window m m')
     \<or> (\<exists>m'. PushFinalizedSegment mem m = map_option (\<lambda>m. (m, True)) (EvictLoop (m'\<lparr>
            hm_segments := hm_segments m @ [final_ref mem m],
            hm_cached_bytes := AddHlsCachedBytes (hm_cached_bytes m) (ref_bytes (final_ref mem m))\<rparr>))
          \<and> same_window m m' \<and> ref_bytes (final_ref mem m) \<le> ho_max_cached_bytes (hm_options m)
          \<and> ms_body (final_ref mem m) \<noteq> None)"
proof -
  let ?sg = "hm_current_segment m"
  obtain c where c: "RememberSegmentCapacity ?sg m = m\<lparr>hm_next_segment_capacity := c\<rparr>"
    using RememberSegmentCapacity_same by blast
  have f: "sg_started ?sg" "sg_body ?sg \<noteq> None" "body_size (sg_body ?sg) \<noteq> 0"
    using assms by (simp_all add: finalizable_def Let_def)
  consider "body_size (sg_body ?sg) > ho_max_segment_bytes (hm_options m)"
    | "body_size (sg_body ?sg) \<le> ho_max_segment_bytes (hm_options m)" "ms_body (final_ref mem m) = None"
    | "body_size (sg_body ?sg) \<le> ho_max_segment_bytes (hm_options m)" "ms_body (final_ref mem m) \<noteq> None"
        "ref_bytes (final_ref mem m) > ho_max_cached_bytes (hm_options m)"
    | "body_size (sg_body ?sg) \<le> ho_max_segment_bytes (hm_options m)" "ms_body (final_ref mem m) \<noteq> None"
        "ref_bytes (final_ref mem m) \<le> ho_max_cached_bytes (hm_options m)" by linarith
  then show ?thesis
  proof cases
    case 1
    then show ?thesis using f by (auto simp: PushFinalizedSegment_def Let_def same_window_def)
  next
    case 2
    then show ?thesis using f c by (auto simp: PushFinalizedSegment_def Let_def same_window_def final_ref_def split: if_splits)
  next
    case 3
    then show ?thesis using f c
      by (auto simp: PushFinalizedSegment_def Let_def same_window_def final_ref_def split: if_splits)
  next
    case 4
    let ?m = "if sg_format ?sg = FormatFmp4 then m\<lparr>hm_next_segment_capacity := c\<rparr>
      else m\<lparr>hm_next_segment_capacity := c, hm_current_segment := ?sg\<lparr>sg_body := None\<rparr>\<rparr>"
    have "PushFinalizedSegment mem m = map_option (\<lambda>m. (m, True)) (EvictLoop (?m\<lparr>
            hm_segments := hm_segments m @ [final_ref mem m],
            hm_cached_bytes := AddHlsCachedBytes (hm_cached_bytes m) (ref_bytes (final_ref mem m))\<rparr>))"
      using 4 f c by (auto simp: PushFinalizedSegment_def Let_def final_ref_def split: if_splits)
    moreover have "same_window m ?m" by (simp add: same_window_def)
    ultimately show ?thesis using 4 by blast
  qed
qed

lemma Finalize_spec:
  assumes inv: "hls_inv m"
  shows "\<exists>m' ok. FinalizeCurrentSegment mem m = Some (m', ok) \<and> hls_inv m' \<and> hm_options m' = hm_options m
     \<and> (if finalizable m then \<not> sg_started (hm_current_segment m') else m' = m \<and> \<not> ok)
     \<and> (if ok then \<exists>k. hm_segments m' = drop k (hm_segments m @ [final_ref mem m]) \<and> ms_body (final_ref mem m) \<noteq> None
        else hm_segments m' = hm_segments m)"
proof (cases "finalizable m")
  case False
  then have "FinalizeCurrentSegment mem m = Some (m, False)"
    by (auto simp: FinalizeCurrentSegment_def finalizable_def Let_def)
  with False inv show ?thesis by auto
next
  case True
  then have fin: "FinalizeCurrentSegment mem m =
      map_option (\<lambda>(m, pushed). (m\<lparr>hm_current_segment := ResetSegmentState\<rparr>, pushed)) (PushFinalizedSegment mem m)"
    by (auto simp: FinalizeCurrentSegment_def finalizable_def Let_def)
  from PushFinalizedSegment_cases [OF True, of mem] show ?thesis
  proof (elim disjE exE conjE)
    fix m' assume m': "PushFinalizedSegment mem m = Some (m', False)" "same_window m m'"
    have "hls_inv (m'\<lparr>hm_current_segment := ResetSegmentState\<rparr>)"
      using inv m'(2) by (intro hls_inv_same_window [OF inv]) (auto simp: same_window_def ResetSegmentState_def)
    with True fin m' show ?thesis by (auto simp: same_window_def ResetSegmentState_def)
  next
    fix m' :: HlsMaker let ?r = "final_ref mem m"
    let ?m = "m'\<lparr>hm_segments := hm_segments m @ [?r], hm_cached_bytes := AddHlsCachedBytes (hm_cached_bytes m) (ref_bytes ?r)\<rparr>"
    assume push: "PushFinalizedSegment mem m = map_option (\<lambda>m. (m, True)) (EvictLoop ?m)" and same: "same_window m m'"
      and fit: "ref_bytes ?r \<le> ho_max_cached_bytes (hm_options m)" and body: "ms_body ?r \<noteq> None"
    have le: "hm_cached_bytes ?m \<le> window_bytes ?m"
      using inv by (auto simp: hls_inv_def window_bytes_def AddHlsCachedBytes_def)
    have exact: "hm_cached_bytes ?m = window_bytes ?m" if "2 * ho_max_cached_bytes (hm_options m) \<le> UINT32_MAX"
    proof -
      have "hm_cached_bytes m \<le> ho_max_cached_bytes (hm_options m)" "hm_cached_bytes m = window_bytes m"
        using inv that by (simp_all add: hls_inv_def)
      then show ?thesis using fit that by (auto simp: AddHlsCachedBytes_def window_bytes_def)
    qed
    have opt: "hm_options m' = hm_options m" "hm_next_segment_sequence m' = hm_next_segment_sequence m"
      using same by (simp_all add: same_window_def)
    obtain k c where ev: "EvictLoop ?m = Some (?m\<lparr>hm_segments := drop k (hm_segments m @ [?r]), hm_cached_bytes := c,
        hm_evicted_segments := hm_evicted_segments m' + k\<rparr>)"
      and c: "c \<le> sum_list (map ref_bytes (drop k (hm_segments m @ [?r])))"
        "hm_cached_bytes ?m = window_bytes ?m \<longrightarrow> c = sum_list (map ref_bytes (drop k (hm_segments m @ [?r])))"
        "length (hm_segments m @ [?r]) - k \<le> ho_max_segments (hm_options m)" "c \<le> ho_max_cached_bytes (hm_options m)"
      using EvictLoop_spec [OF le] opt by auto
    define f where "f = ?m\<lparr>hm_segments := drop k (hm_segments m @ [?r]), hm_cached_bytes := c,
        hm_evicted_segments := hm_evicted_segments m' + k, hm_current_segment := ResetSegmentState\<rparr>"
    have sorted: "sorted_wrt (<) (map ms_sequence (hm_segments m @ [?r]))"
      using inv True by (auto simp: hls_inv_def finalizable_def Let_def sorted_wrt_append final_ref_def)
    have all: "ms_found s \<and> 0 < ms_sequence s \<and> ms_sequence s < hm_next_segment_sequence m" if "s \<in> set (hm_segments m @ [?r])" for s
      using inv True that by (auto simp: hls_inv_def finalizable_def Let_def final_ref_def)
    have "hls_inv f"
      unfolding hls_inv_def
    proof (intro conjI ballI)
      show "sorted_wrt (<) (map ms_sequence (hm_segments f))"
        using sorted by (simp add: f_def drop_map [symmetric] sorted_wrt_drop del: map_append drop_append)
      show "ms_found s" "0 < ms_sequence s" "ms_sequence s < hm_next_segment_sequence f" if "s \<in> set (hm_segments f)" for s
        using all [of s] that opt set_drop_subset [of k "hm_segments m @ [?r]"] by (auto simp: f_def simp del: drop_append)
      show "2 * ho_max_cached_bytes (hm_options f) \<le> UINT32_MAX \<longrightarrow> hm_cached_bytes f = window_bytes f"
        using exact c(2) opt by (simp add: f_def window_bytes_def del: drop_append)
    qed (use c opt inv in \<open>simp_all add: f_def window_bytes_def ResetSegmentState_def hls_inv_def del: drop_append\<close>)
    moreover have "FinalizeCurrentSegment mem m = Some (f, True)" using fin push ev by (simp add: f_def)
    ultimately show ?thesis using True body opt
      by (intro exI [of _ f] exI [of _ True]) (auto simp: f_def ResetSegmentState_def simp del: drop_append)
  qed
qed

section \<open>Streams of frames\<close>

record hls_event =
  ev_mem :: memory
  ev_frame :: MediaFrame
  ev_payload :: FramePayload
  ev_vps :: bytes
  ev_sps :: bytes
  ev_pps :: bytes
  ev_keyframe :: bool
  ev_prepend :: bool
  ev_duration_ms :: nat

definition append_event :: "hls_event \<Rightarrow> HlsMaker \<Rightarrow> (HlsMaker \<times> bool \<times> bool) option" where
  "append_event e m = AppendFrame (ev_mem e) (ev_frame e) (ev_payload e) (ev_vps e) (ev_sps e) (ev_pps e) (ev_keyframe e)
     (ev_prepend e) (ev_duration_ms e) m"

abbreviation append_to :: "hls_event \<Rightarrow> HlsMaker \<Rightarrow> HlsMaker \<times> bool" where
  "append_to e m \<equiv>
     AppendFrameToSegment (ev_mem e) (ev_payload e) (ev_vps e) (ev_sps e) (ev_pps e) (ev_prepend e) (ev_frame e) m"

fun hls_run :: "hls_event list \<Rightarrow> HlsMaker \<Rightarrow> HlsMaker option" where
  "hls_run [] m = Some m"
| "hls_run (e # es) m = (case append_event e m of None \<Rightarrow> None | Some (m, ok, created) \<Rightarrow> hls_run es m)"

text \<open>
  The shape of \<open>AppendFrame\<close>: a property of the maker that each of its steps keeps is kept, and the call
  returns when finalising does.
\<close>

lemma append_event_keeps:
  assumes P: "P m" "\<And>m. P m \<Longrightarrow> hls_inv m"
    and observe: "\<And>m. P m \<Longrightarrow> P (ObserveFrameTiming (ev_frame e) m)"
    and final: "\<And>m m' ok. P m \<Longrightarrow> FinalizeCurrentSegment (ev_mem e) m = Some (m', ok) \<Longrightarrow> P m'"
    and start: "\<And>m mem. P m \<Longrightarrow> \<not> sg_started (hm_current_segment m) \<Longrightarrow>
        P (StartSegment mem (codec (ev_frame e)) (pts_us (ev_frame e)) (dts_us (ev_frame e)) m)"
    and append: "\<And>m m'. P m \<Longrightarrow> sg_started (hm_current_segment m) \<Longrightarrow> append_to e m = (m', True) \<Longrightarrow>
        P (m'\<lparr>hm_current_segment := (hm_current_segment m')\<lparr>sg_last_pts_us := pts_us (ev_frame e),
            sg_last_dts_us := dts_us (ev_frame e)\<rparr>\<rparr>)"
    and fail: "\<And>m m'. P m \<Longrightarrow> append_to e m = (m', False) \<Longrightarrow> P (m'\<lparr>hm_current_segment := ResetSegmentState\<rparr>)"
  shows "\<exists>m' ok created. append_event e m = Some (m', ok, created) \<and> P m'"
proof -
  let ?f = "ev_frame e"
  define m1 where "m1 = ObserveFrameTiming ?f m"
  have P1: "P m1" using P(1) observe by (simp add: m1_def)
  obtain m2 ok2 where fin: "FinalizeCurrentSegment (ev_mem e) m1 = Some (m2, ok2)"
      and fin': "if finalizable m1 then \<not> sg_started (hm_current_segment m2) else m2 = m1 \<and> \<not> ok2"
    using Finalize_spec [OF P(2) [OF P1], of "ev_mem e"] by blast
  have P2: "P m2" using final P1 fin by blast
  define m3 where "m3 = (if ForceFinalize m1 ?f (ev_keyframe e) (ev_duration_ms e)
      then if ok2 \<and> ev_keyframe e then StartSegment (ev_mem e AllocStart) (codec ?f) (pts_us ?f) (dts_us ?f) m2 else m2
      else m1)"
  have P3: "P m3" using P1 P2 start fin' by (auto simp: m3_def split: if_splits)
  define m4 where "m4 = (if ev_keyframe e \<and> \<not> sg_started (hm_current_segment m3)
      then StartSegment (ev_mem e AllocRestart) (codec ?f) (pts_us ?f) (dts_us ?f) m3 else m3)"
  have P4: "P m4" using P3 start by (auto simp: m4_def)
  obtain m5 ok5 where app: "append_to e m4 = (m5, ok5)" by fastforce
  define created where "created = (ForceFinalize m1 ?f (ev_keyframe e) (ev_duration_ms e) \<and> ok2)"
  have stage: "(if ForceFinalize m1 ?f (ev_keyframe e) (ev_duration_ms e)
      then map_option (\<lambda>(m, finalized).
             (if finalized \<and> ev_keyframe e then StartSegment (ev_mem e AllocStart) (codec ?f) (pts_us ?f) (dts_us ?f) m else m,
              finalized)) (FinalizeCurrentSegment (ev_mem e) m1)
      else Some (m1, False)) = Some (m3, created)"
    by (simp add: fin m3_def created_def)
  have "append_event e m = (if \<not> sg_started (hm_current_segment m4) then Some (m4, True, created)
      else if \<not> ok5 then Some (m5\<lparr>hm_current_segment := ResetSegmentState\<rparr>, False, created)
      else Some (m5\<lparr>hm_current_segment := (hm_current_segment m5)\<lparr>sg_last_pts_us := pts_us ?f, sg_last_dts_us := dts_us ?f\<rparr>\<rparr>,
             True, created))"
    by (simp only: append_event_def AppendFrame_def Let_def m1_def [symmetric] stage option.case prod.case m4_def [symmetric] app)
  moreover have "P (m5\<lparr>hm_current_segment := ResetSegmentState\<rparr>)" if "\<not> ok5" using fail [OF P4] app that by simp
  moreover have "P (m5\<lparr>hm_current_segment := (hm_current_segment m5)\<lparr>sg_last_pts_us := pts_us ?f, sg_last_dts_us := dts_us ?f\<rparr>\<rparr>)"
    if "ok5" "sg_started (hm_current_segment m4)" using append [OF P4] app that by simp
  ultimately show ?thesis using P4 by auto
qed

lemma append_event_inv:
  assumes "hls_inv m"
  shows "\<exists>m' ok created. append_event e m = Some (m', ok, created) \<and> hls_inv m' \<and> hm_options m' = hm_options m"
proof -
  have "\<exists>m' ok created. append_event e m = Some (m', ok, created) \<and> (hls_inv m' \<and> hm_options m' = hm_options m)"
  proof (rule append_event_keeps)
    fix n n' ok assume n: "hls_inv n \<and> hm_options n = hm_options m" "FinalizeCurrentSegment (ev_mem e) n = Some (n', ok)"
    then show "hls_inv n' \<and> hm_options n' = hm_options m" using Finalize_spec [of n "ev_mem e"] by auto
  next
    fix n n' assume n: "hls_inv n \<and> hm_options n = hm_options m" "append_to e n = (n', False)"
    note same = AppendFrameToSegment_same [OF n(2)]
    show "hls_inv (n'\<lparr>hm_current_segment := ResetSegmentState\<rparr>)
        \<and> hm_options (n'\<lparr>hm_current_segment := ResetSegmentState\<rparr>) = hm_options m"
      using hls_inv_same_window [of n "n'\<lparr>hm_current_segment := ResetSegmentState\<rparr>"] n(1) same
      by (simp add: same_window_def ResetSegmentState_def)
  next
    fix n n' assume n: "hls_inv n \<and> hm_options n = hm_options m" "sg_started (hm_current_segment n)" "append_to e n = (n', True)"
    note same = AppendFrameToSegment_same [OF n(3)]
    note seg = same_segmentD [of "hm_current_segment n" "hm_current_segment n'"]
    show "hls_inv (n'\<lparr>hm_current_segment := (hm_current_segment n')\<lparr>sg_last_pts_us := pts_us (ev_frame e),
            sg_last_dts_us := dts_us (ev_frame e)\<rparr>\<rparr>)
        \<and> hm_options (n'\<lparr>hm_current_segment := (hm_current_segment n')\<lparr>sg_last_pts_us := pts_us (ev_frame e),
            sg_last_dts_us := dts_us (ev_frame e)\<rparr>\<rparr>) = hm_options m"
      using hls_inv_same_window [of n "n'\<lparr>hm_current_segment := (hm_current_segment n')\<lparr>sg_last_pts_us := pts_us (ev_frame e),
            sg_last_dts_us := dts_us (ev_frame e)\<rparr>\<rparr>"] n(1,2) same seg by (simp add: same_window_def)
  qed (use assms in \<open>simp_all add: ObserveFrameTiming_inv ObserveFrameTiming_options StartSegment_inv StartSegment_window\<close>)
  then show ?thesis by blast
qed

lemma hls_run_inv:
  assumes "hls_inv m"
  shows "\<exists>m'. hls_run es m = Some m' \<and> hls_inv m' \<and> hm_options m' = hm_options m"
  using assms
proof (induction es arbitrary: m)
  case (Cons e es)
  obtain m' ok c where m': "append_event e m = Some (m', ok, c)" "hls_inv m'" "hm_options m' = hm_options m"
    using append_event_inv [OF Cons.prems] by blast
  then show ?case using Cons.IH [OF m'(2)] by auto
qed simp

lemma new_maker_inv: "hls_inv (Hls_Configure options new_hls_maker)"
  by (simp add: hls_inv_def new_hls_maker_def Hls_Configure_def window_bytes_def ResetSegmentState_def)

text \<open>
  Claim C15. Whatever frames arrive and whichever allocations fail, every \<open>AppendFrame\<close> returns (its eviction
  loop ends), and afterwards the window holds at most the configured number of segments and bytes.
  The byte counter is the exact size of the stored segments as long as the limit is at most half of
  the 32-bit range; segment numbers strictly increase along the window.
\<close>

theorem hls_window_bounded:
  "\<exists>m. hls_run es (Hls_Configure options new_hls_maker) = Some m
     \<and> length (hm_segments m) \<le> ho_max_segments options \<and> hm_cached_bytes m \<le> ho_max_cached_bytes options
     \<and> (if 2 * ho_max_cached_bytes options \<le> UINT32_MAX then hm_cached_bytes m = sum_list (map ref_bytes (hm_segments m))
        else hm_cached_bytes m \<le> sum_list (map ref_bytes (hm_segments m)))
     \<and> sorted_wrt (<) (map ms_sequence (hm_segments m))"
proof -
  obtain m where m: "hls_run es (Hls_Configure options new_hls_maker) = Some m" "hls_inv m" "hm_options m = options"
    using hls_run_inv [OF new_maker_inv, of es options] by (auto simp: Hls_Configure_def)
  then show ?thesis unfolding hls_inv_def window_bytes_def by auto
qed

subsection \<open>A concrete stream\<close>

definition hls_sample :: "int \<Rightarrow> hls_event" where
  "hls_sample us = \<lparr>ev_mem = \<lambda>_ _. True,
     ev_frame = empty_media_frame\<lparr>frame_type := FrameIdr, pts_us := us, dts_us := us\<rparr>,
     ev_payload = empty_frame_payload\<lparr>fp_h264_units := sample_units\<rparr>, ev_vps = [], ev_sps = [], ev_pps = [],
     ev_keyframe = True, ev_prepend = False, ev_duration_ms = 1000\<rparr>"

lemma sample_slices:
  "\<exists>f. BuildH264TsFrameSlices sample_units [] [] False 0 0 = Some f \<and> tf_ts_bytes f = 188"
  by (simp add: BuildH264TsFrameSlices_def sample_units_def AddH264AccessUnitSlices_def AddString_def TsSlices_Add_def
      empty_slices_def kStartCode_def kAud_def kMaxTsMediaSlices_def BuildPesHeader_def wire_simps Let_def
      kH264NalTypeAud_def TsPacketBytesForPesSize_def kTsPacketSize_def TimestampUsTo90k_def)

lemma parse_ts_packet_length: "parse_ts_packet x = Some p \<Longrightarrow> length x = 188"
  by (auto simp: parse_ts_packet_def split: if_splits)

lemma carries_length: "carries first pcr cc pkts d \<Longrightarrow> length (concat pkts) = 188 * length pkts"
proof -
  have "length (concat pkts) = 188 * length pkts" if "map parse_ts_packet pkts = map Some ps" for ps
    using that
  proof (induction pkts arbitrary: ps)
    case (Cons x pkts)
    then obtain p qs where "parse_ts_packet x = Some p" "map parse_ts_packet pkts = map Some qs" by (cases ps) auto
    then show ?case using Cons.IH [of qs] parse_ts_packet_length [of x p] by simp
  qed simp
  then show "carries first pcr cc pkts d \<Longrightarrow> ?thesis" using carries_payloads by blast
qed

lemma sample_run_start:
  "\<exists>m b. append_event (hls_sample 0) (Hls_Configure default_hls_options new_hls_maker) = Some (m, True, False)
     \<and> hm_current_segment m = ResetSegmentState\<lparr>sg_started := True, sg_sequence := 1, sg_body := Some \<lparr>bb_data = b, bb_capacity = 262144\<rparr>\<rparr>
     \<and> 376 \<le> length b \<and> length b \<le> 564 \<and> hm_segments m = [] \<and> hm_options m = default_hls_options \<and> hm_cached_bytes m = 0
     \<and> hm_last_pts_us m = 0 \<and> hm_last_frame_duration_us m = 33333"
proof -
  let ?buf = "\<lparr>tb_data = [], tb_capacity = 262144\<rparr> :: TsSegmentBuffer"
  obtain st hdr where h: "AppendTsSegmentHeader CodecH264 new_ts_state ?buf = (st, hdr, True)" "length (tb_data hdr) = 376"
    using AppendTsSegmentHeader_tables [where cdc = CodecH264 and state = new_ts_state and out = ?buf]
    by (auto dest!: parse_ts_packet_length split: if_splits prod.splits)
  obtain f where f: "BuildH264TsFrameSlices sample_units [] [] False 0 0 = Some f" "tf_ts_bytes f = 188"
    using sample_slices by blast
  let ?hdr = "\<lparr>tb_data = tb_data hdr, tb_capacity = 262144\<rparr> :: TsSegmentBuffer"
  obtain cc out where run: "AppendTsPayloadToBuffer (tf_pes_slices f) (tf_dts_90k f) (video_continuity st) ?hdr = (cc, out, True)"
      "376 \<le> length (tb_data out)" "length (tb_data out) \<le> 564"
    using AppendTsPayload_spec [of "tf_pes_slices f" "tf_ts_bytes f" ?hdr "tf_dts_90k f" "video_continuity st"]
      BuildH264TsFrameSlices_ok [OF f(1)] f(2) h(2)
    by (auto simp: slices_ok_def dest!: carries_length)
  have start: "StartSegment (\<lambda>_. True) CodecH264 0 0 (new_hls_maker\<lparr>hm_last_pts_us := 0\<rparr>)
     = new_hls_maker\<lparr>hm_next_segment_sequence := 2, hm_ts_muxer_state := st, hm_last_pts_us := 0,
         hm_current_segment := ResetSegmentState\<lparr>sg_started := True, sg_sequence := 1,
           sg_body := Some \<lparr>bb_data = tb_data hdr, bb_capacity = 262144\<rparr>\<rparr>\<rparr>"
    by (simp add: StartSegment_def new_hls_maker_def default_hls_options_def ClampSegmentCapacity_def
     kInitialHlsSegmentBytes_def AllocateBody_def SegmentBuffer_def CommitSegmentBuffer_def ResetSegmentState_def TimestampUsTo90k_def h)
  define m where "m = new_hls_maker\<lparr>hm_next_segment_sequence := 2, hm_ts_muxer_state := st, hm_last_pts_us := 0,
         hm_current_segment := ResetSegmentState\<lparr>sg_started := True, sg_sequence := 1,
           sg_body := Some \<lparr>bb_data = tb_data hdr, bb_capacity = 262144\<rparr>\<rparr>\<rparr>"
  let ?e = "hls_sample 0"
  have e: "codec (ev_frame ?e) = CodecH264" "pts_us (ev_frame ?e) = 0" "dts_us (ev_frame ?e) = 0" "ev_keyframe ?e"
    "ev_mem ?e = (\<lambda>_ _. True)" "ev_sps ?e = []" "ev_pps ?e = []" "\<not> ev_prepend ?e" "fp_h264_units (ev_payload ?e) = sample_units"
    by (simp_all add: hls_sample_def empty_media_frame_def empty_frame_payload_def)
  have configured: "Hls_Configure default_hls_options new_hls_maker = new_hls_maker"
    by (simp add: Hls_Configure_def new_hls_maker_def)
  have observed: "ObserveFrameTiming (ev_frame ?e) new_hls_maker = new_hls_maker\<lparr>hm_last_pts_us := 0\<rparr>"
    by (simp add: ObserveFrameTiming_def e new_hls_maker_def)
  have idle: "\<not> ForceFinalize (new_hls_maker\<lparr>hm_last_pts_us := 0\<rparr>) (ev_frame ?e) (ev_keyframe ?e) (ev_duration_ms ?e)"
    "\<not> sg_started (hm_current_segment (new_hls_maker\<lparr>hm_last_pts_us := 0\<rparr>))"
    by (simp_all add: ForceFinalize_def new_hls_maker_def ResetSegmentState_def)
  have app: "append_to ?e m = (m\<lparr>hm_current_segment := (hm_current_segment m)\<lparr>sg_body := Some \<lparr>bb_data = tb_data out, bb_capacity = 262144\<rparr>\<rparr>,
      hm_ts_muxer_state := st\<lparr>video_continuity := cc\<rparr>\<rparr>, True)"
    using h run by (simp add: AppendFrameToSegment_def m_def e f EnsureSegmentCapacity_def SegmentBuffer_def CommitSegmentBuffer_def
      new_hls_maker_def default_hls_options_def)
  have "sg_started (hm_current_segment m)" by (simp add: m_def)
  then have "append_event ?e (Hls_Configure default_hls_options new_hls_maker) = Some (m\<lparr>hm_current_segment := (hm_current_segment m)\<lparr>
       sg_last_pts_us := 0, sg_last_dts_us := 0, sg_body := Some \<lparr>bb_data = tb_data out, bb_capacity = 262144\<rparr>\<rparr>,
      hm_ts_muxer_state := st\<lparr>video_continuity := cc\<rparr>\<rparr>, True, False)"
    using idle app start [folded m_def]
    by (simp add: append_event_def AppendFrame_def configured observed e Let_def)
  then show ?thesis using run by (simp add: m_def new_hls_maker_def ResetSegmentState_def)
qed

lemma append_event_cut:
  assumes "ForceFinalize (ObserveFrameTiming (ev_frame e) m) (ev_frame e) (ev_keyframe e) (ev_duration_ms e)"
    and "FinalizeCurrentSegment (ev_mem e) (ObserveFrameTiming (ev_frame e) m) = Some (n, True)"
  shows "\<exists>m' ok created. append_event e m = Some (m', ok, created) \<and> hm_segments m' = hm_segments n"
proof -
  let ?f = "ev_frame e"
  define n1 where "n1 = (if True \<and> ev_keyframe e then StartSegment (ev_mem e AllocStart) (codec ?f) (pts_us ?f) (dts_us ?f) n else n)"
  define n2 where "n2 = (if ev_keyframe e \<and> \<not> sg_started (hm_current_segment n1)
     then StartSegment (ev_mem e AllocRestart) (codec ?f) (pts_us ?f) (dts_us ?f) n1 else n1)"
  obtain n3 ok where app: "append_to e n2 = (n3, ok)" by fastforce
  have n2: "hm_segments n2 = hm_segments n" by (simp add: n2_def n1_def StartSegment_window)
  have "hm_segments n3 = hm_segments n2" using AppendFrameToSegment_same [OF app] by (simp add: same_window_def)
  then show ?thesis using n2
    by (simp only: append_event_def AppendFrame_def Let_def assms(1) if_True assms(2) option.map prod.case n1_def [symmetric]
        option.case n2_def [symmetric] app) auto
qed

lemma sample_run_segment:
  "\<exists>m s. hls_run [hls_sample 0, hls_sample 2000000] (Hls_Configure default_hls_options new_hls_maker) = Some m
     \<and> hm_segments m = [s] \<and> ms_sequence s = 1"
proof -
  let ?e = "hls_sample 2000000"
  obtain m b where m: "append_event (hls_sample 0) (Hls_Configure default_hls_options new_hls_maker) = Some (m, True, False)"
      "hm_current_segment m = ResetSegmentState\<lparr>sg_started := True, sg_sequence := 1, sg_body := Some \<lparr>bb_data = b, bb_capacity = 262144\<rparr>\<rparr>"
      "376 \<le> length b" "length b \<le> 564" "hm_segments m = []" "hm_options m = default_hls_options" "hm_cached_bytes m = 0"
      "hm_last_pts_us m = 0" "hm_last_frame_duration_us m = 33333"
    using sample_run_start by blast
  let ?m = "ObserveFrameTiming (ev_frame ?e) m"
  have cur: "hm_current_segment ?m = hm_current_segment m" "hm_segments ?m = []" "hm_options ?m = default_hls_options" "hm_cached_bytes ?m = 0"
    using m by (simp_all add: ObserveFrameTiming_def Let_def)
  have "b \<noteq> []" using m(3) by auto
  then obtain n s where n: "FinalizeCurrentSegment (ev_mem ?e) ?m = Some (n, True)" "hm_segments n = [s]" "ms_sequence s = 1"
    using m(2-4) cur
    by (simp add: FinalizeCurrentSegment_def PushFinalizedSegment_def
       ResetSegmentState_def body_size_def default_hls_options_def RememberSegmentCapacity_def ref_bytes_def AddHlsCachedBytes_def EvictLoop.simps Let_def)
  have force: "ForceFinalize ?m (ev_frame ?e) (ev_keyframe ?e) (ev_duration_ms ?e)"
    using m by (simp add: ForceFinalize_def ObserveFrameTiming_def hls_sample_def ResetSegmentState_def)
  have "\<exists>m' ok c. append_event ?e m = Some (m', ok, c) \<and> hm_segments m' = [s]"
    using append_event_cut [OF force n(1)] n(2) by simp
  with m(1) n(3) show ?thesis by auto
qed

section \<open>The playlist\<close>

lemma PlaylistLoop_eq:
  "PlaylistLoop ss entries d = (entries @ map (\<lambda>s. \<lparr>he_sequence = ms_sequence s, he_duration_us = ms_duration_us s\<rparr>) ss,
     foldl max d (map ms_duration_us ss))"
  by (induction ss arbitrary: entries d) simp_all

lemma foldl_max_le: "(d :: int) \<le> foldl max d xs" "x \<in> set xs \<Longrightarrow> x \<le> foldl max d xs"
proof -
  show le: "(d :: int) \<le> foldl max d xs" for d by (induction xs arbitrary: d) (auto intro: order_trans [OF max.cobounded1])
  show "x \<in> set xs \<Longrightarrow> x \<le> foldl max d xs"
  proof (induction xs arbitrary: d)
    case (Cons y ys)
    have "max d y \<le> foldl max (max d y) ys" for d y :: int and ys
      by (induction ys arbitrary: d y) (simp, metis foldl_Cons max.bounded_iff)
    then show ?case using Cons by auto
  qed simp
qed

lemma FindSegment_unique:
  assumes "sorted_wrt (<) (map ms_sequence ss)" and "s \<in> set ss"
  shows "FindSegmentLoop ss (ms_sequence s) = s"
  using assms by (induction ss) auto

lemma drop_window: "drop (if length xs > d then length xs - d else 0) xs = rev (take d (rev xs))"
  by (simp add: take_rev)



section \<open>What the segments contain\<close>

text \<open>
  The contract between the maker and a container format: a started segment is well formed, frames keep
  it so, and finalising a well-formed segment gives a well-formed reference. Then every segment of
  every window is well formed.
\<close>

locale segment_format =
  fixes opt_ok :: "HlsMakerOptions \<Rightarrow> bool" and frame_ok :: "hls_event \<Rightarrow> bool" and seg_ok :: "SegmentState \<Rightarrow> bool" and ref_wf :: "MediaSegmentRef \<Rightarrow> bool"
  assumes seg_start: "opt_ok (hm_options m) \<Longrightarrow> frame_ok e \<Longrightarrow>
      sg_started (hm_current_segment (StartSegment mem (codec (ev_frame e)) (pts_us (ev_frame e)) (dts_us (ev_frame e)) m)) \<Longrightarrow>
      seg_ok (hm_current_segment (StartSegment mem (codec (ev_frame e)) (pts_us (ev_frame e)) (dts_us (ev_frame e)) m))"
    and seg_append: "opt_ok (hm_options m) \<Longrightarrow> frame_ok e \<Longrightarrow> seg_ok (hm_current_segment m) \<Longrightarrow> append_to e m = (m', True) \<Longrightarrow>
      seg_ok (hm_current_segment m')"
    and seg_times: "seg_ok sg \<Longrightarrow> seg_ok (sg\<lparr>sg_last_pts_us := a, sg_last_dts_us := b\<rparr>)"
    and seg_final: "seg_ok (hm_current_segment m) \<Longrightarrow> ms_body (final_ref mems m) \<noteq> None \<Longrightarrow> ref_wf (final_ref mems m)"
begin

definition content_ok :: "HlsMaker \<Rightarrow> bool" where
  "content_ok m \<longleftrightarrow> hls_inv m \<and> opt_ok (hm_options m) \<and> (sg_started (hm_current_segment m) \<longrightarrow> seg_ok (hm_current_segment m))
     \<and> (\<forall>s \<in> set (hm_segments m). ref_wf s)"

lemma content_append:
  assumes "content_ok m" and "frame_ok e"
  shows "\<exists>m' ok created. append_event e m = Some (m', ok, created) \<and> content_ok m'"
proof (rule append_event_keeps)
  fix m m' ok assume m: "content_ok m" "FinalizeCurrentSegment (ev_mem e) m = Some (m', ok)"
  have "hls_inv m" using m(1) by (simp add: content_ok_def)
  note f = Finalize_spec [OF this, of "ev_mem e"]
  show "content_ok m'"
  proof (cases "finalizable m")
    case True
    then have "seg_ok (hm_current_segment m)" using m(1) by (simp add: content_ok_def finalizable_def Let_def)
    then have "ms_body (final_ref (ev_mem e) m) \<noteq> None \<Longrightarrow> ref_wf (final_ref (ev_mem e) m)" by (rule seg_final)
    then show ?thesis using f m True
      by (auto simp: content_ok_def simp del: drop_append dest!: in_set_dropD split: if_splits)
  next
    case False
    then show ?thesis using f m by auto
  qed
next
  fix m mem assume m: "content_ok m"
  show "content_ok (StartSegment mem (codec (ev_frame e)) (pts_us (ev_frame e)) (dts_us (ev_frame e)) m)"
    using m seg_start [OF _ assms(2)] by (auto simp: content_ok_def StartSegment_inv StartSegment_window)
next
  fix m m' assume m: "content_ok m" "sg_started (hm_current_segment m)" "append_to e m = (m', True)"
  let ?m = "m'\<lparr>hm_current_segment := (hm_current_segment m')\<lparr>sg_last_pts_us := pts_us (ev_frame e), sg_last_dts_us := dts_us (ev_frame e)\<rparr>\<rparr>"
  note same = AppendFrameToSegment_same [OF m(3)]
  have "hls_inv ?m" using hls_inv_same_window [of m ?m] m same same_segmentD [of "hm_current_segment m" "hm_current_segment m'"]
    by (simp add: content_ok_def same_window_def)
  moreover have "seg_ok (hm_current_segment ?m)"
    using seg_times seg_append [OF _ assms(2) _ m(3)] m(1,2) by (simp add: content_ok_def)
  ultimately show "content_ok ?m" using m(1) same by (simp add: content_ok_def same_window_def)
next
  fix m m' assume m: "content_ok m" "append_to e m = (m', False)"
  note same = AppendFrameToSegment_same [OF m(2)]
  have "hls_inv (m'\<lparr>hm_current_segment := ResetSegmentState\<rparr>)"
    using hls_inv_same_window [of m "m'\<lparr>hm_current_segment := ResetSegmentState\<rparr>"] m(1) same
    by (simp add: content_ok_def same_window_def ResetSegmentState_def)
  then show "content_ok (m'\<lparr>hm_current_segment := ResetSegmentState\<rparr>)"
    using m(1) same by (simp add: content_ok_def same_window_def ResetSegmentState_def)
qed (use assms(1) in \<open>auto simp: content_ok_def ObserveFrameTiming_inv ObserveFrameTiming_options ObserveFrameTiming_same(2)\<close>)

lemma content_run:
  assumes "content_ok m" and "\<forall>e \<in> set es. frame_ok e" and "hls_run es m = Some m'"
  shows "content_ok m'"
  using assms
proof (induction es arbitrary: m)
  case (Cons e es)
  obtain m1 ok c where "append_event e m = Some (m1, ok, c)" "content_ok m1"
    using content_append [of m e] Cons.prems by auto
  with Cons show ?case by auto
qed simp

lemma content_segments:
  assumes "opt_ok options" and "\<forall>e \<in> set es. frame_ok e"
    and "hls_run es (Hls_Configure options new_hls_maker) = Some m" and "s \<in> set (hm_segments m)"
  shows "ref_wf s"
proof -
  have "content_ok (Hls_Configure options new_hls_maker)"
    using new_maker_inv [of options] assms(1) by (simp add: content_ok_def Hls_Configure_def new_hls_maker_def ResetSegmentState_def)
  from content_run [OF this assms(2,3)] assms(4) show ?thesis by (simp add: content_ok_def)
qed

end

subsection \<open>Transport stream segments\<close>

text \<open>
  The body of a transport stream segment: the two program tables, then complete access units, each
  of them packets that carry one PES packet.
\<close>

inductive ts_body :: "bytes \<Rightarrow> bool" where
  ts_tables: "parse_ts_packet pat = Some p \<Longrightarrow> tp_pid p = 0 \<Longrightarrow> parse_section p = Some [0, 1, 0xc1, 0, 0, 0, 1, 0xf0, 0]
    \<Longrightarrow> parse_ts_packet pmt = Some q \<Longrightarrow> tp_pid q = 0x1000
    \<Longrightarrow> parse_section q = Some [0, 1, 0xc1, 0, 0, 0xe1, 0, 0xf0, 0, 0x1b, 0xe1, 0, 0xf0, 0] \<Longrightarrow> ts_body (pat @ pmt)"
| ts_access_unit: "ts_body b \<Longrightarrow> carries True pcr cc pkts d \<Longrightarrow> parse_pes d \<noteq> None \<Longrightarrow> ts_body (b @ concat pkts)"

definition ts_segment_ok :: "SegmentState \<Rightarrow> bool" where
  "ts_segment_ok sg \<longleftrightarrow> sg_format sg = FormatTs \<and> (\<exists>b. sg_body sg = Some b \<and> ts_body (bb_data b))"

definition ts_ref_wf :: "MediaSegmentRef \<Rightarrow> bool" where
  "ts_ref_wf s \<longleftrightarrow> ms_format s = FormatTs \<and> (\<exists>b. ms_body s = Some b \<and> ts_body b)"

lemma ts_segment_times: "ts_segment_ok (sg\<lparr>sg_last_pts_us := a, sg_last_dts_us := b\<rparr>) = ts_segment_ok sg"
  by (simp add: ts_segment_ok_def)

lemma EnsureSegmentCapacity_same_data:
  assumes "EnsureSegmentCapacity mem options sg n = (sg', ok)" and "sg_body sg = Some b"
  shows "\<exists>b'. sg_body sg' = Some b' \<and> bb_data b' = bb_data b"
  using EnsureSegmentCapacity_same [OF assms(1)] assms(2) by (cases "sg_body sg'") auto

lemma StartSegment_ts:
  assumes "cdc \<noteq> CodecH265" and "sg_started (hm_current_segment (StartSegment mem cdc pts dts m))"
  shows "ts_segment_ok (hm_current_segment (StartSegment mem cdc pts dts m))"
proof -
  define cap where "cap = ClampSegmentCapacity (hm_options m) (hm_next_segment_capacity m)"
  let ?buf = "\<lparr>tb_data = [], tb_capacity = cap\<rparr> :: TsSegmentBuffer"
  have alloc: "AllocateBody mem cap = Some \<lparr>bb_data = [], bb_capacity = cap\<rparr>"
    using assms(2) by (auto simp: StartSegment_def Let_def cap_def AllocateBody_def ResetSegmentState_def split: if_splits)
  obtain state out ok where h: "AppendTsSegmentHeader cdc (hm_ts_muxer_state m) ?buf = (state, out, ok)"
    by (metis prod.exhaust)
  have seg: "hm_current_segment (StartSegment mem cdc pts dts m) =
      (if ok \<and> length (tb_data out) \<le> cap then
        ResetSegmentState\<lparr>sg_started := True, sg_format := FormatTs,
                 sg_sequence := hm_next_segment_sequence m, sg_start_pts_us := pts, sg_start_dts_us := dts,
                 sg_last_pts_us := pts, sg_last_dts_us := dts, sg_base_decode_time_90k := TimestampUsTo90k dts,
                 sg_body := Some \<lparr>bb_data = tb_data out, bb_capacity = cap\<rparr>\<rparr>
       else ResetSegmentState)"
    using assms(1) alloc h
    by (auto simp: StartSegment_def Let_def cap_def [symmetric] SegmentBuffer_def CommitSegmentBuffer_def)
  with assms(2) have ok: "ok" by (auto simp: ResetSegmentState_def split: if_splits)
  from AppendTsSegmentHeader_tables [where cdc = cdc and state = "hm_ts_muxer_state m" and out = ?buf] h ok
  have "ts_body (tb_data out)" by (auto intro!: ts_tables)
  with seg assms(2) show ?thesis by (auto simp: ts_segment_ok_def ResetSegmentState_def split: if_splits)
qed

lemma AppendFrame_ts:
  assumes "codec frame \<noteq> CodecH265" and "ts_segment_ok (hm_current_segment m)"
    and "AppendFrameToSegment mem fp vps sps pps prepend frame m = (m', True)"
  shows "ts_segment_ok (hm_current_segment m')"
proof -
  obtain b where b: "sg_body (hm_current_segment m) = Some b" "ts_body (bb_data b)"
    using assms(2) by (auto simp: ts_segment_ok_def)
  obtain f where f: "BuildH264TsFrameSlices (fp_h264_units fp) sps pps prepend (pts_us frame) (dts_us frame) = Some f"
    using assms(1,3) b by (auto simp: AppendFrameToSegment_def split: option.splits if_splits)
  note fs = BuildH264TsFrameSlices_ok [OF f]
  obtain sg ok where cap: "EnsureSegmentCapacity (mem AllocGrow) (hm_options m) (hm_current_segment m) (tf_ts_bytes f) = (sg, ok)"
    by fastforce
  obtain b' where b': "sg_body sg = Some b'" "bb_data b' = bb_data b"
    using EnsureSegmentCapacity_same_data [OF cap b(1)] by blast
  obtain cc out appended where run: "AppendTsPayloadToBuffer (tf_pes_slices f) (tf_dts_90k f)
      (video_continuity (hm_ts_muxer_state m)) (SegmentBuffer sg) = (cc, out, appended)" by (metis prod.exhaust)
  have ok: "ok" "appended" and m': "hm_current_segment m' = sg\<lparr>sg_body := Some (b'\<lparr>bb_data := tb_data out\<rparr>)\<rparr>"
    using assms(1,3) b f cap b' run
    by (auto simp: AppendFrameToSegment_def CommitSegmentBuffer_def split: if_splits)
  have fits: "length (tb_data (SegmentBuffer sg)) + tf_ts_bytes f \<le> tb_capacity (SegmentBuffer sg)"
    using run ok(2) fs by (auto simp: AppendTsPayloadToBuffer_def Let_def split: if_splits)
  obtain pkts where "tb_data out = bb_data b @ concat pkts"
      and c: "carries True (tf_dts_90k f) (video_continuity (hm_ts_muxer_state m)) pkts (concat (tl_slices (tf_pes_slices f)))"
    using AppendTsPayload_spec [OF _ _ fits, of "tf_pes_slices f" "tf_dts_90k f" "video_continuity (hm_ts_muxer_state m)"] fs run b'
    by (auto simp: slices_ok_def SegmentBuffer_def)
  moreover have "parse_pes (concat (tl_slices (tf_pes_slices f))) \<noteq> None" using fs by (simp add: parse_PesHeader)
  ultimately have "ts_body (tb_data out)" using ts_access_unit [OF b(2) c] by simp
  then show ?thesis using m' EnsureSegmentCapacity_same [OF cap] same_segmentD(3) [of "hm_current_segment m" sg] assms(2)
    by (simp add: ts_segment_ok_def)
qed

interpretation ts_format: segment_format "\<lambda>options. True" "\<lambda>e. codec (ev_frame e) \<noteq> CodecH265" ts_segment_ok ts_ref_wf
proof unfold_locales
  fix m :: HlsMaker and mems
  assume "ts_segment_ok (hm_current_segment m)" "ms_body (final_ref mems m) \<noteq> None"
  then show "ts_ref_wf (final_ref mems m)" by (auto simp: ts_segment_ok_def ts_ref_wf_def final_ref_def Let_def)
qed (simp_all add: StartSegment_ts AppendFrame_ts ts_segment_times)

text \<open>
  Claim C30. Every segment of every window of a stream that is not H.265 is a transport stream that a
  player can read from its first byte: a program association and a program map table with the right
  check sums, then complete PES packets, each in packets of 188 bytes.
\<close>

theorem hls_ts_segments:
  assumes "\<forall>e \<in> set es. codec (ev_frame e) \<noteq> CodecH265"
    and "hls_run es (Hls_Configure options new_hls_maker) = Some m" and "s \<in> set (hm_segments m)"
  shows "ts_ref_wf s"
  using ts_format.content_segments [OF TrueI assms] .

theorem hls_ts_segments_witness:
  "\<exists>m s. hls_run [hls_sample 0, hls_sample 2000000] (Hls_Configure default_hls_options new_hls_maker) = Some m
     \<and> hm_segments m = [s] \<and> ts_ref_wf s"
proof -
  obtain m s where m: "hls_run [hls_sample 0, hls_sample 2000000] (Hls_Configure default_hls_options new_hls_maker) = Some m"
      "hm_segments m = [s]"
    using sample_run_segment by blast
  have "codec (ev_frame (hls_sample t)) \<noteq> CodecH265" for t by (simp add: hls_sample_def empty_media_frame_def)
  then show ?thesis using hls_ts_segments [OF _ m(1), of s] m by simp
qed

subsection \<open>Fragmented MP4 segments\<close>

lemma GrowLoop_spec:
  assumes "GrowLoop max_bytes extra sz cap = Some cap'"
  shows "extra \<le> cap' - sz \<and> cap' \<le> max cap max_bytes"
  using assms
proof (induction max_bytes extra sz cap rule: GrowLoop.induct)
  case (1 max_bytes extra sz cap)
  then show ?case by (subst (asm) (2) GrowLoop.simps) (auto simp: Let_def max_def split: if_splits)
qed

lemma EnsureSegmentCapacity_room:
  assumes "EnsureSegmentCapacity mem options sg extra = (sg', True)" and "sg_body sg = Some b" and "0 < extra"
  shows "\<exists>b'. sg_body sg' = Some b' \<and> bb_data b' = bb_data b \<and> length (bb_data b) + extra \<le> bb_capacity b'
     \<and> bb_capacity b' \<le> max (bb_capacity b) (ho_max_segment_bytes options)"
proof -
  let ?sz = "length (bb_data b)"
  show ?thesis
  proof (cases "extra \<le> bb_capacity b - ?sz")
    case True
    then show ?thesis using assms by (auto simp: EnsureSegmentCapacity_def Let_def split: if_splits)
  next
    case False
    then obtain cap' where g: "GrowLoop (ho_max_segment_bytes options) extra ?sz (bb_capacity b) = Some cap'"
      using assms by (auto simp: EnsureSegmentCapacity_def Let_def split: if_splits option.splits)
    then have "sg_body sg' = Some \<lparr>bb_data = bb_data b, bb_capacity = cap'\<rparr>"
      using assms False by (auto simp: EnsureSegmentCapacity_def Let_def AllocateBody_def split: if_splits)
    with GrowLoop_spec [OF g] assms(3) show ?thesis by auto
  qed
qed

abbreviation kept_nals :: "NalUnit list \<Rightarrow> bytes list" where
  "kept_nals us \<equiv> map (\<lambda>u. bv_bytes (unit_view u)) (filter (\<lambda>u. \<not> Fmp4Skips u) us)"

abbreviation prefixed :: "bytes list \<Rightarrow> bytes" where
  "prefixed ns \<equiv> concat (map (\<lambda>n. be32 (word_of_nat (length n)) @ n) ns)"

lemma WriteU32_fresh: "WriteU32 (replicate 4 0) 0 v = be32 v"
proof -
  have "replicate 4 0 = [0, 0, 0, 0 :: u8]" by (simp add: eval_nat_numeral)
  then show ?thesis by (simp add: WriteU32_def be32_def)
qed

lemma Fmp4SampleLoop_spec:
  assumes "length (bb_data body) + 4 * length us + sum_list (map (\<lambda>u. bv_size (unit_view u)) us) \<le> bb_capacity body"
    and "bb_capacity body \<le> UINT32_MAX" and "n \<le> length (bb_data body)"
  shows "Fmp4SampleLoop us body n = (body\<lparr>bb_data := bb_data body @ prefixed (kept_nals us)\<rparr>,
     n + length (prefixed (kept_nals us)), n + length (prefixed (kept_nals us)) > 0)"
  using assms
proof (induction us arbitrary: body n)
  case (Cons u us)
  show ?case
  proof (cases "Fmp4Skips u")
    case True
    with Cons show ?thesis by simp
  next
    case False
    let ?k = "bv_size (unit_view u)" and ?d = "bv_bytes (unit_view u)"
    let ?b = "body\<lparr>bb_data := bb_data body @ be32 (word_of_nat ?k) @ ?d\<rparr>"
    have k: "length (bb_data body) + 4 + ?k \<le> bb_capacity body" "?k = length ?d" using Cons.prems(1) by (simp_all add: bv_size_def)
    have room: "\<not> UINT32_MAX - ?k - 4 < n" using k(1) Cons.prems(2,3) by linarith
    have arith: "u32_sub (u32_sub UINT32_MAX ?k) 4 = UINT32_MAX - ?k - 4" "u32_add (u32_add (length (bb_data body)) 4) ?k = length (bb_data body) + 4 + ?k"
      "u32_add n (u32_add 4 ?k) = n + (4 + ?k)"
      using k Cons.prems(2,3) by (simp_all add: u32_sub_exact u32_add_exact)
    have "Fmp4SampleLoop us ?b (n + (4 + ?k)) = (?b\<lparr>bb_data := bb_data ?b @ prefixed (kept_nals us)\<rparr>,
       n + (4 + ?k) + length (prefixed (kept_nals us)), n + (4 + ?k) + length (prefixed (kept_nals us)) > 0)"
      by (rule Cons.IH) (use Cons.prems k in \<open>simp_all\<close>)
    moreover have "Fmp4SampleLoop (u # us) body n = Fmp4SampleLoop us ?b (n + (4 + ?k))"
      using False k(1) Cons.prems(2,3) room by (simp add: arith WriteU32_fresh Let_def)
    ultimately show ?thesis using False k(2) by simp
  qed
qed simp

lemma length_prefixed_le: "length (prefixed (kept_nals us)) \<le> 4 * length us + sum_list (map (\<lambda>u. bv_size (unit_view u)) us)"
  by (induction us) (simp_all add: bv_size_def)

text \<open>
  A fragmented MP4 segment under construction: its samples, with their recorded sizes, are the body cut
  into pieces, and each piece is a sequence of length-prefixed NAL units.
\<close>

definition sample_ok :: "bytes \<Rightarrow> bool" where
  "sample_ok d \<longleftrightarrow> d \<noteq> [] \<and> (\<exists>nals. avcc_split d = Some nals)"

definition fmp4_segment_ok :: "SegmentState \<Rightarrow> bool" where
  "fmp4_segment_ok sg \<longleftrightarrow> sg_format sg = FormatFmp4
     \<and> (\<exists>b ds. sg_body sg = Some b \<and> bb_data b = concat ds \<and> bb_capacity b \<le> 2 ^ 24 \<and> length (bb_data b) \<le> bb_capacity b
          \<and> map (\<lambda>s. unat (fs_size s)) (sg_samples sg) = map length ds \<and> list_all sample_ok ds)"

definition fmp4_ref_wf :: "MediaSegmentRef \<Rightarrow> bool" where
  "fmp4_ref_wf s \<longleftrightarrow> ms_format s = FormatFmp4
     \<and> (\<exists>b base samples. ms_body s = Some b \<and> parse_fragment b = Some (ms_sequence s mod 2 ^ 32, base, samples)
          \<and> samples \<noteq> [] \<and> (\<forall>(s, d) \<in> set samples. unat (fs_size s) = length d \<and> sample_ok d))"

definition fmp4_frame_ok :: "hls_event \<Rightarrow> bool" where
  "fmp4_frame_ok e \<longleftrightarrow> codec (ev_frame e) = CodecH265 \<and> PayloadSize (ev_frame e) + 256 \<le> UINT32_MAX
     \<and> length (units (fp_h265_units (ev_payload e))) \<le> kMaxNalUnitsPerFrame
     \<and> sum_list (map (\<lambda>u. bv_size (unit_view u)) (units (fp_h265_units (ev_payload e)))) \<le> PayloadSize (ev_frame e)"

lemma ClampSegmentCapacity_le: "ClampSegmentCapacity options c \<le> max 1 (ho_max_segment_bytes options)"
  by (auto simp: ClampSegmentCapacity_def Let_def max_def)

lemma StartSegment_fmp4:
  assumes "ho_max_segment_bytes (hm_options m) \<le> 2 ^ 24"
    and "sg_started (hm_current_segment (StartSegment mem CodecH265 pts dts m))"
  shows "fmp4_segment_ok (hm_current_segment (StartSegment mem CodecH265 pts dts m))"
  using assms ClampSegmentCapacity_le [of "hm_options m" "hm_next_segment_capacity m"]
  by (auto simp: StartSegment_def Let_def AllocateBody_def fmp4_segment_ok_def ResetSegmentState_def
      split: if_splits intro!: exI [of _ "[]"])

lemma kept_sized:
  assumes "sum_list (map (\<lambda>u. bv_size (unit_view u)) us) \<le> UINT32_MAX"
  shows "list_all nal_sized (kept_nals us)"
proof -
  have "length (bv_bytes (unit_view u)) \<le> UINT32_MAX" if "u \<in> set us" for u
    using member_le_sum_list [of "bv_size (unit_view u)" "map (\<lambda>u. bv_size (unit_view u)) us"] that assms by (simp add: bv_size_def)
  then show ?thesis by (auto simp: list_all_iff nal_sized_def Fmp4Skips_def bv_size_def)
qed

lemma AppendFrame_fmp4:
  assumes opt: "ho_max_segment_bytes (hm_options m) \<le> 2 ^ 24" and e: "fmp4_frame_ok e"
    and ok: "fmp4_segment_ok (hm_current_segment m)" and app: "append_to e m = (m', True)"
  shows "fmp4_segment_ok (hm_current_segment m')"
proof -
  let ?us = "units (fp_h265_units (ev_payload e))"
  obtain b ds where b: "sg_body (hm_current_segment m) = Some b" "bb_data b = concat ds" "bb_capacity b \<le> 2 ^ 24"
      "map (\<lambda>s. unat (fs_size s)) (sg_samples (hm_current_segment m)) = map length ds" "list_all sample_ok ds"
    using ok by (auto simp: fmp4_segment_ok_def)
  obtain m1 ok1 where init: "EnsureInitSegment (ev_mem e) (ev_frame e) (ev_vps e) (ev_sps e) (ev_pps e) m = (m1, ok1)" by fastforce
  have m1: "hm_current_segment m1 = hm_current_segment m" "hm_options m1 = hm_options m"
    using EnsureInitSegment_same [OF init] by (simp_all add: same_window_def)
  define extra where "extra = PayloadSize (ev_frame e) + 256"
  have extra: "size_t_add (PayloadSize (ev_frame e)) (kMaxNalUnitsPerFrame * 4) = extra"
    using e by (simp add: fmp4_frame_ok_def size_t_add_def kMaxNalUnitsPerFrame_def extra_def)
  obtain sg ok2 where cap: "EnsureSegmentCapacity (ev_mem e AllocGrow) (hm_options m) (hm_current_segment m) extra = (sg, ok2)"
    by fastforce
  have ok2: "ok1" "ok2" using app e b init cap m1 by (auto simp: AppendFrameToSegment_def fmp4_frame_ok_def extra split: if_splits)
  obtain b' where b': "sg_body sg = Some b'" "bb_data b' = bb_data b" "length (bb_data b) + extra \<le> bb_capacity b'" "bb_capacity b' \<le> 2 ^ 24"
    using EnsureSegmentCapacity_room [OF cap [unfolded ok2(2) [THEN eqTrueI]] b(1)] b(3) opt by (auto simp: extra_def)
  define d where "d = prefixed (kept_nals ?us)"
  have run: "AppendH265Fmp4SamplePayload (fp_h265_units (ev_payload e)) b'
      = (b'\<lparr>bb_data := bb_data b @ d\<rparr>, length d, length d > 0)"
    using Fmp4SampleLoop_spec [of b' ?us 0] b' e
    by (simp add: AppendH265Fmp4SamplePayload_def fmp4_frame_ok_def extra_def kMaxNalUnitsPerFrame_def d_def)
  have "append_to e m = (if d \<noteq> []
      then (m1\<lparr>hm_current_segment := sg\<lparr>sg_body := Some (b'\<lparr>bb_data := bb_data b @ d\<rparr>),
              sg_samples := sg_samples sg @ [MakeFmp4Sample m1 (ev_frame e) (length d)]\<rparr>\<rparr>, True)
      else (m1\<lparr>hm_current_segment := sg\<lparr>sg_body := Some (b'\<lparr>bb_data := bb_data b @ d\<rparr>)\<rparr>\<rparr>, False))"
    using e by (simp add: AppendFrameToSegment_def fmp4_frame_ok_def b(1) init m1 cap ok2 b'(1) run extra Let_def)
  then have m': "d \<noteq> []" "hm_current_segment m' = sg\<lparr>sg_body := Some (b'\<lparr>bb_data := bb_data b @ d\<rparr>),
      sg_samples := sg_samples sg @ [MakeFmp4Sample m1 (ev_frame e) (length d)]\<rparr>"
    using app by (auto split: if_splits)
  have "length d \<le> extra"
    using length_prefixed_le [of ?us] e by (simp add: d_def fmp4_frame_ok_def kMaxNalUnitsPerFrame_def extra_def)
  then have size: "length (bb_data b) + length d \<le> bb_capacity b'" using b'(3) by simp
  have "list_all nal_sized (kept_nals ?us)" using e by (intro kept_sized) (simp add: fmp4_frame_ok_def)
  then have "avcc_split d = Some (kept_nals ?us)" by (simp only: d_def avcc_split_concat)
  then have "sample_ok d" using m'(1) by (simp add: sample_ok_def)
  moreover have "unat (fs_size (MakeFmp4Sample m1 (ev_frame e) (length d))) = length d"
    using size b'(4) by (simp add: MakeFmp4Sample_def unat_of_nat)
  ultimately show ?thesis
    using EnsureSegmentCapacity_same [OF cap] same_segmentD(3) [of "hm_current_segment m" sg] ok b b' m' size
    by (auto simp: fmp4_segment_ok_def intro!: exI [of _ "ds @ [d]"])
qed

lemma fmp4_final:
  assumes "fmp4_segment_ok (hm_current_segment m)" and "ms_body (final_ref mems m) \<noteq> None"
  shows "fmp4_ref_wf (final_ref mems m)"
proof -
  let ?sg = "hm_current_segment m"
  obtain b ds where b: "sg_format ?sg = FormatFmp4" "sg_body ?sg = Some b" "bb_data b = concat ds"
      "length (bb_data b) \<le> 2 ^ 24" "map (\<lambda>s. unat (fs_size s)) (sg_samples ?sg) = map length ds" "list_all sample_ok ds"
    using assms(1) by (auto simp: fmp4_segment_ok_def)
  let ?bytes = "Fmp4SegmentBytes (sg_sequence ?sg) (sg_base_decode_time_90k ?sg) (sg_samples ?sg) (concat ds)"
  have body: "ms_body (final_ref mems m) = Some ?bytes" and ne: "sg_samples ?sg \<noteq> []"
    using assms(2) b(1-3)
    by (auto simp: final_ref_def Let_def BuildFinalizedFmp4Segment_def MediaBufferFromString_def split: if_splits option.splits)
  have len: "length (sg_samples ?sg) = length ds" using b(5) by (metis length_map)
  have "length ds \<le> length (concat ds)"
    using b(6) by (induction ds) (auto simp: sample_ok_def neq_Nil_conv)
  then have "length (sg_samples ?sg) \<le> 2 ^ 24" "length (concat ds) \<le> 2 ^ 31" using b(3,4) len by simp_all
  from parse_fragment_segment [OF this] sample_bytes_concat [OF b(5), of "[]"]
  have "parse_fragment ?bytes = Some (sg_sequence ?sg mod 2 ^ 32, unat (sg_base_decode_time_90k ?sg), zip (sg_samples ?sg) ds)"
    by simp
  moreover have "unat (fs_size s) = length d \<and> sample_ok d" if elem: "(s, d) \<in> set (zip (sg_samples ?sg) ds)" for s d
  proof -
    obtain i where "i < length ds" "s = sg_samples ?sg ! i" "d = ds ! i"
      using elem by (force simp: in_set_zip)
    then show ?thesis using b(5,6) len by (metis (mono_tags, lifting) list_all_length nth_map)
  qed
  moreover have "zip (sg_samples ?sg) ds \<noteq> []" using ne len by (cases "sg_samples ?sg"; cases ds) auto
  ultimately show ?thesis using b(1) body
    unfolding fmp4_ref_wf_def by (auto simp: final_ref_def Let_def)
qed

lemma fmp4_segment_times: "fmp4_segment_ok (sg\<lparr>sg_last_pts_us := a, sg_last_dts_us := b\<rparr>) = fmp4_segment_ok sg"
  by (simp add: fmp4_segment_ok_def)

interpretation fmp4_format: segment_format "\<lambda>options. ho_max_segment_bytes options \<le> 2 ^ 24" fmp4_frame_ok fmp4_segment_ok fmp4_ref_wf
proof unfold_locales
  fix m e mem
  assume "ho_max_segment_bytes (hm_options m) \<le> 2 ^ 24" "fmp4_frame_ok e"
    "sg_started (hm_current_segment (StartSegment mem (codec (ev_frame e)) (pts_us (ev_frame e)) (dts_us (ev_frame e)) m))"
  then show "fmp4_segment_ok (hm_current_segment (StartSegment mem (codec (ev_frame e)) (pts_us (ev_frame e)) (dts_us (ev_frame e)) m))"
    using StartSegment_fmp4 by (simp add: fmp4_frame_ok_def)
qed (simp_all add: AppendFrame_fmp4 fmp4_final fmp4_segment_times)

text \<open>
  Claim C31. Every segment of every window of an H.265 stream is a movie fragment that a player can take
  apart: it carries the number of the segment, at least one sample, and each sample has the size its
  table entry gives and is a sequence of length-prefixed NAL units. The frames must have at most 64
  NAL units that lie in their payload, and the segment limit is at most 16 MiB (the default is 4 MiB).
\<close>

theorem hls_fmp4_segments:
  assumes "ho_max_segment_bytes options \<le> 2 ^ 24" and "\<forall>e \<in> set es. fmp4_frame_ok e"
    and "hls_run es (Hls_Configure options new_hls_maker) = Some m" and "s \<in> set (hm_segments m)"
  shows "fmp4_ref_wf s"
  using fmp4_format.content_segments [OF assms] .

subsection \<open>A concrete H.265 stream\<close>

definition hevc_units :: H265NalUnitList where
  "hevc_units = \<lparr>units = [\<lparr>unit_view = \<lparr>bv_addr = 4, bv_bytes = [0x26, 0x01, 0xaf]\<rparr>, unit_type = 19\<rparr>], overflow = False\<rparr>"

definition hevc_sample :: "int \<Rightarrow> hls_event" where
  "hevc_sample us = \<lparr>ev_mem = \<lambda>_ _. True,
     ev_frame = empty_media_frame\<lparr>codec := CodecH265, frame_type := FrameIdr, pts_us := us, dts_us := us,
        payload := Some \<lparr>bv_addr = 0, bv_bytes = [0, 0, 0, 1, 0x26, 0x01, 0xaf]\<rparr>\<rparr>,
     ev_payload = empty_frame_payload\<lparr>fp_h265_units := hevc_units\<rparr>, ev_vps = [0x40], ev_sps = [0x42], ev_pps = [0x44],
     ev_keyframe = True, ev_prepend = False, ev_duration_ms = 1000\<rparr>"


lemma hevc_record: "\<exists>r c. BuildH265HvccRecord [0x40] [0x42] [0x44] = Some (r, c) \<and> length r \<le> 100"
  by (simp add: BuildH265HvccRecord_def Let_def ExtractH265ProfileFromVps_def H265NalRbsp_def DefaultH265MainProfile_def
      AppendH265ProfileTierLevel_def AppendHvccArray_def wire_simps)

lemma hevc_init: "length r \<le> 100 \<Longrightarrow> BuildInitSegment r w h \<noteq> [] \<and> length (BuildInitSegment r w h) \<le> 2000"
  by (simp add: BuildInitSegment_def Let_def length_Mp4Box wire_simps BuildFtypBox_def BuildMvhdBox_def BuildTkhdBox_def BuildMdhdBox_def BuildHdlrBox_def
   BuildVmhdBox_def BuildDinfBox_def BuildStblBox_def BuildStsdBox_def Mp4FullBox_eq mp4_matrix_def Mp4Box_def [of "''ftyp''"])

lemma hevc_fields:
  "codec (ev_frame (hevc_sample t)) = CodecH265" "pts_us (ev_frame (hevc_sample t)) = t" "dts_us (ev_frame (hevc_sample t)) = t"
  "ev_keyframe (hevc_sample t)" "ev_mem (hevc_sample t) = (\<lambda>_ _. True)" "ev_vps (hevc_sample t) = [0x40]" "ev_sps (hevc_sample t) = [0x42]"
  "ev_pps (hevc_sample t) = [0x44]" "fp_h265_units (ev_payload (hevc_sample t)) = hevc_units" "PayloadSize (ev_frame (hevc_sample t)) = 7"
  "ev_duration_ms (hevc_sample t) = 1000"
  by (simp_all add: hevc_sample_def empty_media_frame_def empty_frame_payload_def PayloadSize_def bv_size_def)

lemma hevc_payload:
  "AppendH265Fmp4SamplePayload hevc_units \<lparr>bb_data = [], bb_capacity = 262144\<rparr>
     = (\<lparr>bb_data = [0, 0, 0, 3, 0x26, 0x01, 0xaf], bb_capacity = 262144\<rparr>, 7, True)"
  by (simp add: hevc_units_def AppendH265Fmp4SamplePayload_def Fmp4Skips_def bv_size_def u32_add_def u32_sub_def WriteU32_fresh be32_def
     IsH265ParameterSetNal_def kH265NalTypeVps_def kH265NalTypeSps_def kH265NalTypePps_def kH265NalTypeAud_def)

lemma MediaBufferFromString_small: "d \<noteq> [] \<Longrightarrow> length d \<le> 1000 \<Longrightarrow> MediaBufferFromString (\<lambda>_. True) d = Some d"
  by (simp add: MediaBufferFromString_def AllocateBody_def)

lemma hevc_run_segment:
  "\<exists>m s. hls_run [hevc_sample 0, hevc_sample 2000000] (Hls_Configure default_hls_options new_hls_maker) = Some m
     \<and> hm_segments m = [s] \<and> ms_sequence s = 1"
proof -
  let ?e = "hevc_sample 0" and ?e2 = "hevc_sample 2000000"
  obtain r c where r: "BuildH265HvccRecord [0x40] [0x42] [0x44] = Some (r, c)" "length r \<le> 100" using hevc_record by blast
  define init where "init = BuildInitSegment r (Mp4TrackDimension (width (ev_frame ?e)) 1920) (Mp4TrackDimension (height (ev_frame ?e)) 1080)"
  have init: "init \<noteq> []" "length init \<le> 2000" using hevc_init [OF r(2)] by (simp_all add: init_def)
  have configured: "Hls_Configure default_hls_options new_hls_maker = new_hls_maker"
    by (simp add: Hls_Configure_def new_hls_maker_def)
  have observed: "ObserveFrameTiming (ev_frame ?e) new_hls_maker = new_hls_maker\<lparr>hm_last_pts_us := 0\<rparr>"
    by (simp add: ObserveFrameTiming_def hevc_fields new_hls_maker_def)
  have idle: "\<not> ForceFinalize (new_hls_maker\<lparr>hm_last_pts_us := 0\<rparr>) (ev_frame ?e) (ev_keyframe ?e) (ev_duration_ms ?e)"
    "\<not> sg_started (hm_current_segment (new_hls_maker\<lparr>hm_last_pts_us := 0\<rparr>))"
    by (simp_all add: ForceFinalize_def new_hls_maker_def ResetSegmentState_def)
  define sg where "sg = ResetSegmentState\<lparr>sg_started := True, sg_format := FormatFmp4, sg_sequence := 1\<rparr>"
  define m where "m = new_hls_maker\<lparr>hm_next_segment_sequence := 2, hm_last_pts_us := 0,
         hm_current_segment := sg\<lparr>sg_body := Some \<lparr>bb_data = [], bb_capacity = 262144\<rparr>\<rparr>\<rparr>"
  have start: "StartSegment (\<lambda>_. True) CodecH265 0 0 (new_hls_maker\<lparr>hm_last_pts_us := 0\<rparr>) = m"
    by (simp add: StartSegment_def m_def sg_def new_hls_maker_def default_hls_options_def ClampSegmentCapacity_def
     kInitialHlsSegmentBytes_def AllocateBody_def ResetSegmentState_def TimestampUsTo90k_def)
  define smp where "smp = MakeFmp4Sample m (ev_frame ?e) 7"
  define sg' where "sg' = sg\<lparr>sg_body := Some \<lparr>bb_data = [0, 0, 0, 3, 0x26, 0x01, 0xaf], bb_capacity = 262144\<rparr>, sg_samples := [smp]\<rparr>"
  have sg_fields: "sg_started sg'" "sg_format sg' = FormatFmp4" "sg_sequence sg' = 1"
      "sg_body sg' = Some \<lparr>bb_data = [0, 0, 0, 3, 0x26, 0x01, 0xaf], bb_capacity = 262144\<rparr>"
    by (simp_all add: sg'_def sg_def)
  define m' where "m' = m\<lparr>hm_init_segment := Some init, hm_codec_string := c, hm_current_segment := sg'\<rparr>"
  have app: "append_to ?e m = (m', True)"
    using init r
    by (simp add: AppendFrameToSegment_def m_def m'_def sg'_def sg_def hevc_fields EnsureSegmentCapacity_def EnsureInitSegment_def
      new_hls_maker_def default_hls_options_def init_def [symmetric] MediaBufferFromString_def AllocateBody_def size_t_add_def
      kMaxNalUnitsPerFrame_def hevc_payload smp_def MakeFmp4Sample_def ResetSegmentState_def)
  have "sg_started (hm_current_segment m)" by (simp add: m_def sg_def)
  then have first: "append_event ?e (Hls_Configure default_hls_options new_hls_maker) = Some (m', True, False)"
    using idle app start
    by (simp add: append_event_def AppendFrame_def configured observed hevc_fields Let_def m'_def sg'_def sg_def ResetSegmentState_def)
  let ?m = "ObserveFrameTiming (ev_frame ?e2) m'"
  have cur: "hm_current_segment ?m = sg'" "hm_segments ?m = []" "hm_options ?m = default_hls_options" "hm_cached_bytes ?m = 0"
    by (simp_all add: ObserveFrameTiming_def Let_def m'_def m_def new_hls_maker_def)
  have len: "Fmp4SegmentBytes q t [smp] [0, 0, 0, 3, 0x26, 0x01, 0xaf] \<noteq> [] \<and> length (Fmp4SegmentBytes q t [smp] [0, 0, 0, 3, 0x26, 0x01, 0xaf]) \<le> 1000" for q t
    by (simp add: Fmp4SegmentBytes_def parse_moof moof_length_def length_Mp4Box Mp4Box_def [of "''mdat''"])
  obtain bytes where bytes: "BuildFinalizedFmp4Segment (ev_mem ?e2) sg' = Some bytes" "length bytes \<le> 1000"
    using len [of "sg_sequence sg" "sg_base_decode_time_90k sg"] MediaBufferFromString_small
    by (simp add: BuildFinalizedFmp4Segment_def hevc_fields sg'_def)
  obtain n s where n: "FinalizeCurrentSegment (ev_mem ?e2) ?m = Some (n, True)" "hm_segments n = [s]" "ms_sequence s = 1"
    using cur bytes
    by (simp add: FinalizeCurrentSegment_def PushFinalizedSegment_def
       ResetSegmentState_def sg_fields body_size_def default_hls_options_def RememberSegmentCapacity_def ref_bytes_def AddHlsCachedBytes_def EvictLoop.simps Let_def)
  have force: "ForceFinalize ?m (ev_frame ?e2) (ev_keyframe ?e2) (ev_duration_ms ?e2)"
    using cur by (simp add: ForceFinalize_def hevc_fields sg'_def sg_def ResetSegmentState_def)
  have "\<exists>m'' ok c. append_event ?e2 m' = Some (m'', ok, c) \<and> hm_segments m'' = [s]"
    using append_event_cut [OF force n(1)] n(2) by simp
  with first n(3) show ?thesis by auto
qed

theorem hls_fmp4_segments_witness:
  "\<exists>m s. hls_run [hevc_sample 0, hevc_sample 2000000] (Hls_Configure default_hls_options new_hls_maker) = Some m
     \<and> hm_segments m = [s] \<and> fmp4_ref_wf s"
proof -
  obtain m s where m: "hls_run [hevc_sample 0, hevc_sample 2000000] (Hls_Configure default_hls_options new_hls_maker) = Some m"
      "hm_segments m = [s]"
    using hevc_run_segment by blast
  have "fmp4_frame_ok (hevc_sample t)" for t
    by (simp add: fmp4_frame_ok_def hevc_fields hevc_units_def kMaxNalUnitsPerFrame_def bv_size_def)
  then show ?thesis using hls_fmp4_segments [OF _ _ m(1), of s] m by (simp add: default_hls_options_def)
qed

end
