(* ===== verification/Socket_Types.thy ===== *)
theory Socket_Types
  imports Stream_Prelude
begin

text \<open>
  Types of \<open>libs/socket_io/include/socket_io.h\<close> that the RTSP server and the WebRTC transport share: the address of a peer and
  the reason a connection was closed.
\<close>

datatype TcpCloseReason =
  TcpNormal | TcpRemoteClose | TcpParseError | TcpAuthFailed | TcpQueueFull | TcpPendingLimit | TcpSendStall
| TcpReadTimeout | TcpWriteTimeout | TcpInternalError

record SocketAddress =
  sa_ip :: bytes
  sa_port :: u16

definition no_address :: SocketAddress where
  "no_address = \<lparr>sa_ip = [], sa_port = 0\<rparr>"

end
