(* ===== verification/Stun_Packet.thy ===== *)
theory Stun_Packet
  imports Byte_Writer Socket_Types
begin

text \<open>
  \<open>libs/webrtc/src/stun_packet.{h,cpp}\<close>: the STUN messages of ICE connectivity checks. A packet
  \<open>(const uint8_t *data, size_t size)\<close> and a \<open>std::string\<close> are lists of bytes. \<open>HMAC\<close> with \<open>EVP_sha1\<close> belongs
  to OpenSSL: it is the argument \<open>hmac\<close>, key first, of the functions that use it; all that is relied on
  is that a digest has 20 bytes.
\<close>

section \<open>Model\<close>

definition kStunHeaderSize :: nat where "kStunHeaderSize = 20"
definition kTransactionIdSize :: nat where "kTransactionIdSize = 12"
definition kMagicCookie :: u32 where "kMagicCookie = 0x2112A442"
definition kFingerprintXor :: u32 where "kFingerprintXor = 0x5354554e"
definition kBindingRequestType :: u16 where "kBindingRequestType = 0x0001"
definition kBindingSuccessResponseType :: u16 where "kBindingSuccessResponseType = 0x0101"
definition kAttrUsername :: u16 where "kAttrUsername = 0x0006"
definition kAttrMessageIntegrity :: u16 where "kAttrMessageIntegrity = 0x0008"
definition kAttrXorMappedAddress :: u16 where "kAttrXorMappedAddress = 0x0020"
definition kAttrPriority :: u16 where "kAttrPriority = 0x0024"
definition kAttrUseCandidate :: u16 where "kAttrUseCandidate = 0x0025"
definition kAttrFingerprint :: u16 where "kAttrFingerprint = 0x8028"

lemmas stun_constants = kStunHeaderSize_def kTransactionIdSize_def kMagicCookie_def kFingerprintXor_def
  kBindingRequestType_def kBindingSuccessResponseType_def kAttrUsername_def kAttrMessageIntegrity_def
  kAttrXorMappedAddress_def kAttrPriority_def kAttrUseCandidate_def kAttrFingerprint_def

definition kCrc32Table :: "u32 list" where
  "kCrc32Table =
    [
     0, 0x77073096, 0xee0e612c, 0x990951ba, 0x76dc419, 0x706af48f, 0xe963a535, 0x9e6495a3,
     0xedb8832, 0x79dcb8a4, 0xe0d5e91e, 0x97d2d988, 0x9b64c2b, 0x7eb17cbd, 0xe7b82d07, 0x90bf1d91,
     0x1db71064, 0x6ab020f2, 0xf3b97148, 0x84be41de, 0x1adad47d, 0x6ddde4eb, 0xf4d4b551, 0x83d385c7,
     0x136c9856, 0x646ba8c0, 0xfd62f97a, 0x8a65c9ec, 0x14015c4f, 0x63066cd9, 0xfa0f3d63, 0x8d080df5,
     0x3b6e20c8, 0x4c69105e, 0xd56041e4, 0xa2677172, 0x3c03e4d1, 0x4b04d447, 0xd20d85fd, 0xa50ab56b,
     0x35b5a8fa, 0x42b2986c, 0xdbbbc9d6, 0xacbcf940, 0x32d86ce3, 0x45df5c75, 0xdcd60dcf, 0xabd13d59,
     0x26d930ac, 0x51de003a, 0xc8d75180, 0xbfd06116, 0x21b4f4b5, 0x56b3c423, 0xcfba9599, 0xb8bda50f,
     0x2802b89e, 0x5f058808, 0xc60cd9b2, 0xb10be924, 0x2f6f7c87, 0x58684c11, 0xc1611dab, 0xb6662d3d,
     0x76dc4190, 0x1db7106, 0x98d220bc, 0xefd5102a, 0x71b18589, 0x6b6b51f, 0x9fbfe4a5, 0xe8b8d433,
     0x7807c9a2, 0xf00f934, 0x9609a88e, 0xe10e9818, 0x7f6a0dbb, 0x86d3d2d, 0x91646c97, 0xe6635c01,
     0x6b6b51f4, 0x1c6c6162, 0x856530d8, 0xf262004e, 0x6c0695ed, 0x1b01a57b, 0x8208f4c1, 0xf50fc457,
     0x65b0d9c6, 0x12b7e950, 0x8bbeb8ea, 0xfcb9887c, 0x62dd1ddf, 0x15da2d49, 0x8cd37cf3, 0xfbd44c65,
     0x4db26158, 0x3ab551ce, 0xa3bc0074, 0xd4bb30e2, 0x4adfa541, 0x3dd895d7, 0xa4d1c46d, 0xd3d6f4fb,
     0x4369e96a, 0x346ed9fc, 0xad678846, 0xda60b8d0, 0x44042d73, 0x33031de5, 0xaa0a4c5f, 0xdd0d7cc9,
     0x5005713c, 0x270241aa, 0xbe0b1010, 0xc90c2086, 0x5768b525, 0x206f85b3, 0xb966d409, 0xce61e49f,
     0x5edef90e, 0x29d9c998, 0xb0d09822, 0xc7d7a8b4, 0x59b33d17, 0x2eb40d81, 0xb7bd5c3b, 0xc0ba6cad,
     0xedb88320, 0x9abfb3b6, 0x3b6e20c, 0x74b1d29a, 0xead54739, 0x9dd277af, 0x4db2615, 0x73dc1683,
     0xe3630b12, 0x94643b84, 0xd6d6a3e, 0x7a6a5aa8, 0xe40ecf0b, 0x9309ff9d, 0xa00ae27, 0x7d079eb1,
     0xf00f9344, 0x8708a3d2, 0x1e01f268, 0x6906c2fe, 0xf762575d, 0x806567cb, 0x196c3671, 0x6e6b06e7,
     0xfed41b76, 0x89d32be0, 0x10da7a5a, 0x67dd4acc, 0xf9b9df6f, 0x8ebeeff9, 0x17b7be43, 0x60b08ed5,
     0xd6d6a3e8, 0xa1d1937e, 0x38d8c2c4, 0x4fdff252, 0xd1bb67f1, 0xa6bc5767, 0x3fb506dd, 0x48b2364b,
     0xd80d2bda, 0xaf0a1b4c, 0x36034af6, 0x41047a60, 0xdf60efc3, 0xa867df55, 0x316e8eef, 0x4669be79,
     0xcb61b38c, 0xbc66831a, 0x256fd2a0, 0x5268e236, 0xcc0c7795, 0xbb0b4703, 0x220216b9, 0x5505262f,
     0xc5ba3bbe, 0xb2bd0b28, 0x2bb45a92, 0x5cb36a04, 0xc2d7ffa7, 0xb5d0cf31, 0x2cd99e8b, 0x5bdeae1d,
     0x9b64c2b0, 0xec63f226, 0x756aa39c, 0x26d930a, 0x9c0906a9, 0xeb0e363f, 0x72076785, 0x5005713,
     0x95bf4a82, 0xe2b87a14, 0x7bb12bae, 0xcb61b38, 0x92d28e9b, 0xe5d5be0d, 0x7cdcefb7, 0xbdbdf21,
     0x86d3d2d4, 0xf1d4e242, 0x68ddb3f8, 0x1fda836e, 0x81be16cd, 0xf6b9265b, 0x6fb077e1, 0x18b74777,
     0x88085ae6, 0xff0f6a70, 0x66063bca, 0x11010b5c, 0x8f659eff, 0xf862ae69, 0x616bffd3, 0x166ccf45,
     0xa00ae278, 0xd70dd2ee, 0x4e048354, 0x3903b3c2, 0xa7672661, 0xd06016f7, 0x4969474d, 0x3e6e77db,
     0xaed16a4a, 0xd9d65adc, 0x40df0b66, 0x37d83bf0, 0xa9bcae53, 0xdebb9ec5, 0x47b2cf7f, 0x30b5ffe9,
     0xbdbdf21c, 0xcabac28a, 0x53b39330, 0x24b4a3a6, 0xbad03605, 0xcdd70693, 0x54de5729, 0x23d967bf,
     0xb3667a2e, 0xc4614ab8, 0x5d681b02, 0x2a6f2b94, 0xb40bbe37, 0xc30c8ea1, 0x5a05df1b, 0x2d02ef8d
    ]"

datatype StunParseResult =
  StunOk | StunNotStun | StunUnsupported | StunMalformed | StunBadUsername | StunBadMessageIntegrity | StunBadFingerprint

record StunBindingRequest =
  sr_transaction_id :: bytes
  sr_username :: bytes
  sr_priority :: u32
  sr_has_message_integrity :: bool
  sr_has_fingerprint :: bool
  sr_use_candidate :: bool

definition empty_stun_request :: StunBindingRequest where
  "empty_stun_request = \<lparr>sr_transaction_id = replicate 12 0, sr_username = [], sr_priority = 0,
     sr_has_message_integrity = False, sr_has_fingerprint = False, sr_use_candidate = False\<rparr>"

text \<open>\<open>Read16(data + offset)\<close> and \<open>Read32(data + offset)\<close>.\<close>

definition Read16 :: "bytes \<Rightarrow> nat \<Rightarrow> u16" where
  "Read16 d offset = push_bit 8 (ucast (d ! offset)) OR ucast (d ! (offset + 1))"

definition Read32 :: "bytes \<Rightarrow> nat \<Rightarrow> u32" where
  "Read32 d offset = push_bit 24 (ucast (d ! offset)) OR push_bit 16 (ucast (d ! (offset + 1)))
     OR push_bit 8 (ucast (d ! (offset + 2))) OR ucast (d ! (offset + 3))"

definition Write16 :: "bytes \<Rightarrow> u16 \<Rightarrow> bytes" where
  "Write16 d v = (d @ [ucast (drop_bit 8 v AND 0xff)]) @ [ucast (v AND 0xff)]"

definition Write32 :: "bytes \<Rightarrow> u32 \<Rightarrow> bytes" where
  "Write32 d v = (((d @ [ucast (drop_bit 24 v AND 0xff)]) @ [ucast (drop_bit 16 v AND 0xff)])
     @ [ucast (drop_bit 8 v AND 0xff)]) @ [ucast (v AND 0xff)]"

definition Set16 :: "bytes \<Rightarrow> nat \<Rightarrow> u16 \<Rightarrow> bytes" where
  "Set16 d offset v = d[offset := ucast (drop_bit 8 v AND 0xff), offset + 1 := ucast (v AND 0xff)]"

text \<open>Rounding up by clearing the two low bits.\<close>

definition PaddedSize :: "nat \<Rightarrow> nat" where
  "PaddedSize n = (n + 3) div 4 * 4"

fun Crc32Loop :: "bytes \<Rightarrow> u32 \<Rightarrow> u32" where
  "Crc32Loop [] crc = crc"
| "Crc32Loop (b # bs) crc = Crc32Loop bs (kCrc32Table ! unat ((crc XOR ucast b) AND 0xff) XOR drop_bit 8 crc)"

definition Crc32 :: "bytes \<Rightarrow> u32" where
  "Crc32 d = Crc32Loop d 0xffffffff XOR 0xffffffff"

definition CheckHeader :: "bytes \<Rightarrow> bool" where
  "CheckHeader d =
     (if length d < kStunHeaderSize \<or> d ! 0 AND 0xc0 \<noteq> 0 then False
      else if Read32 d 4 \<noteq> kMagicCookie then False
      else
        let message_length = Read16 d 2
        in unat message_length mod 4 = 0 \<and> unat message_length + kStunHeaderSize = length d)"

definition IsStunPacket :: "bytes \<Rightarrow> bool" where
  "IsStunPacket d = CheckHeader d"

text \<open>The byte \<open>0x3a\<close> is the colon.\<close>

definition UsernameMatchesLocalUfrag :: "bytes \<Rightarrow> bytes \<Rightarrow> bool" where
  "UsernameMatchesLocalUfrag username local_ufrag =
     (if length username \<le> length local_ufrag \<or> username ! length local_ufrag \<noteq> 0x3a then False
      else take (length local_ufrag) username = local_ufrag)"

definition AddAttribute :: "bytes \<Rightarrow> u16 \<Rightarrow> bytes \<Rightarrow> bytes" where
  "AddAttribute d type v =
     (let d = Write16 (Write16 d type) (word_of_nat (length v));
          d = d @ v;
          padding_size = PaddedSize (length v) - length v
      in d @ replicate padding_size 0)"

subsection \<open>The mapped address\<close>

text \<open>The decimal digits of one part of the address, with the running value.\<close>

fun ParseOctet :: "bytes \<Rightarrow> nat \<Rightarrow> nat option" where
  "ParseOctet [] v = Some v"
| "ParseOctet (c # cs) v =
     (if c < 0x30 \<or> c > 0x39 then None
      else let v = v * 10 + unat (c - 0x30) in if v > 255 then None else ParseOctet cs v)"

function IpLoop :: "bytes \<Rightarrow> nat \<Rightarrow> nat \<Rightarrow> nat \<Rightarrow> nat list \<Rightarrow> (nat \<times> nat list) option" where
  "IpLoop ip i part_index start parts =
     (if i \<le> length ip \<and> part_index < 4 then
        if i \<noteq> length ip \<and> ip ! i \<noteq> 0x2e then IpLoop ip (i + 1) part_index start parts
        else if i = start then None
        else case ParseOctet (take (i - start) (drop start ip)) 0 of
               None \<Rightarrow> None
             | Some v \<Rightarrow> IpLoop ip (i + 1) (part_index + 1) (i + 1) (parts[part_index := v])
      else Some (part_index, parts))"
  by pat_completeness auto
termination
  by (relation "measure (\<lambda>(ip, i, part_index, start, parts). length ip + 1 - i)") auto

declare IpLoop.simps [simp del]

definition AddXorMappedAddress :: "bytes \<Rightarrow> SocketAddress \<Rightarrow> bytes" where
  "AddXorMappedAddress d peer =
     (case IpLoop (sa_ip peer) 0 0 0 [0, 0, 0, 0] of
        None \<Rightarrow> d
      | Some (part_index, parts) \<Rightarrow>
          if part_index \<noteq> 4 then d
          else
            let xport = sa_port peer XOR ucast (drop_bit 16 kMagicCookie);
                address = push_bit 24 (word_of_nat (parts ! 0)) OR push_bit 16 (word_of_nat (parts ! 1))
                  OR push_bit 8 (word_of_nat (parts ! 2)) OR word_of_nat (parts ! 3);
                xaddress = address XOR kMagicCookie;
                v = [0, 0x01, ucast (drop_bit 8 xport AND 0xff), ucast (xport AND 0xff),
                     ucast (drop_bit 24 xaddress AND 0xff), ucast (drop_bit 16 xaddress AND 0xff),
                     ucast (drop_bit 8 xaddress AND 0xff), ucast (xaddress AND 0xff)]
            in AddAttribute d kAttrXorMappedAddress v)"

subsection \<open>Parsing a binding request\<close>

record stun_scan =
  sc_request :: StunBindingRequest
  sc_message_integrity :: bytes
  sc_message_integrity_offset :: nat
  sc_has_message_integrity :: bool
  sc_has_fingerprint :: bool
  sc_fingerprint :: u32

text \<open>The \<open>switch\<close> over the type of the attribute at \<open>offset\<close> with value \<open>v\<close>; \<open>None\<close> is \<open>kMalformed\<close>.\<close>

definition StunAttribute :: "u16 \<Rightarrow> nat \<Rightarrow> bytes \<Rightarrow> stun_scan \<Rightarrow> stun_scan option" where
  "StunAttribute type offset v sc =
     (if type = kAttrUsername then Some (sc\<lparr>sc_request := (sc_request sc)\<lparr>sr_username := v\<rparr>\<rparr>)
      else if type = kAttrMessageIntegrity then
        if length v \<noteq> 20 then None
        else Some (sc\<lparr>sc_message_integrity := v, sc_has_message_integrity := True, sc_message_integrity_offset := offset\<rparr>)
      else if type = kAttrFingerprint then
        if length v \<noteq> 4 then None
        else Some (sc\<lparr>sc_has_fingerprint := True, sc_fingerprint := Read32 v 0\<rparr>)
      else if type = kAttrPriority then
        Some (if length v = 4 then sc\<lparr>sc_request := (sc_request sc)\<lparr>sr_priority := Read32 v 0\<rparr>\<rparr> else sc)
      else if type = kAttrUseCandidate then Some (sc\<lparr>sc_request := (sc_request sc)\<lparr>sr_use_candidate := True\<rparr>\<rparr>)
      else Some sc)"

function StunAttrLoop :: "bytes \<Rightarrow> nat \<Rightarrow> stun_scan \<Rightarrow> stun_scan option" where
  "StunAttrLoop d offset sc =
     (if offset < length d then
        if offset + 4 > length d then None
        else
          let type = Read16 d offset;
              attr_size = unat (Read16 d (offset + 2));
              value_offset = offset + 4;
              next_offset = value_offset + PaddedSize attr_size
          in if value_offset + attr_size > length d \<or> next_offset > length d then None
             else case StunAttribute type offset (take attr_size (drop value_offset d)) sc of
                    None \<Rightarrow> None
                  | Some sc \<Rightarrow> StunAttrLoop d next_offset sc
      else Some sc)"
  by pat_completeness auto
termination
  by (relation "measure (\<lambda>(d, offset, sc). length d - offset)") auto

declare StunAttrLoop.simps [simp del]

text \<open>
  The result and the request. On \<open>kMalformed\<close> the code leaves the attributes read so far in the request,
  which no caller looks at then; the model returns the request without them.
\<close>

definition ParseStunBindingRequest ::
  "(bytes \<Rightarrow> bytes \<Rightarrow> bytes) \<Rightarrow> bytes \<Rightarrow> bytes \<Rightarrow> bytes \<Rightarrow> StunParseResult \<times> StunBindingRequest" where
  "ParseStunBindingRequest hmac d local_ufrag local_password =
     (if \<not> CheckHeader d then (StunNotStun, empty_stun_request)
      else if Read16 d 0 \<noteq> kBindingRequestType then (StunUnsupported, empty_stun_request)
      else
        let request = empty_stun_request\<lparr>sr_transaction_id := take kTransactionIdSize (drop 8 d)\<rparr>;
            sc = \<lparr>sc_request = request, sc_message_integrity = replicate 20 0, sc_message_integrity_offset = 0,
                  sc_has_message_integrity = False, sc_has_fingerprint = False, sc_fingerprint = 0\<rparr>
        in case StunAttrLoop d kStunHeaderSize sc of
             None \<Rightarrow> (StunMalformed, request)
           | Some sc \<Rightarrow>
               let request = sc_request sc in
               if \<not> UsernameMatchesLocalUfrag (sr_username request) local_ufrag then (StunBadUsername, request)
               else if \<not> sc_has_message_integrity sc then (StunBadMessageIntegrity, request)
               else
                 let integrity_length = word_of_nat (sc_message_integrity_offset sc + 24 - kStunHeaderSize);
                     integrity_data = Set16 (take (sc_message_integrity_offset sc) d) 2 integrity_length
                 in if hmac local_password integrity_data \<noteq> sc_message_integrity sc
                    then (StunBadMessageIntegrity, request)
                    else if sc_has_fingerprint sc \<and> length d < 8 then (StunMalformed, request)
                    else if sc_has_fingerprint sc \<and> Crc32 (take (length d - 8) d) XOR kFingerprintXor \<noteq> sc_fingerprint sc
                    then (StunBadFingerprint, request)
                    else (StunOk, request\<lparr>sr_has_message_integrity := True, sr_has_fingerprint := sc_has_fingerprint sc\<rparr>))"

subsection \<open>The response\<close>

definition BuildStunBindingSuccessResponse ::
  "(bytes \<Rightarrow> bytes \<Rightarrow> bytes) \<Rightarrow> StunBindingRequest \<Rightarrow> bytes \<Rightarrow> SocketAddress \<Rightarrow> bytes" where
  "BuildStunBindingSuccessResponse hmac request local_password peer =
     (let response = Write32 (Write16 (Write16 [] kBindingSuccessResponseType) 0) kMagicCookie;
          response = response @ sr_transaction_id request;
          response = AddXorMappedAddress response peer;
          length_with_integrity = word_of_nat (length response - kStunHeaderSize + 24);
          response = Set16 response 2 length_with_integrity;
          integrity = hmac local_password response;
          response = AddAttribute response kAttrMessageIntegrity integrity;
          final_length = word_of_nat (length response - kStunHeaderSize + 8);
          response = Set16 response 2 final_length;
          fingerprint = Crc32 response XOR kFingerprintXor
      in AddAttribute response kAttrFingerprint
           [ucast (drop_bit 24 fingerprint AND 0xff), ucast (drop_bit 16 fingerprint AND 0xff),
            ucast (drop_bit 8 fingerprint AND 0xff), ucast (fingerprint AND 0xff)])"

definition StunParseResultName :: "StunParseResult \<Rightarrow> string" where
  "StunParseResultName result =
     (case result of
        StunOk \<Rightarrow> ''ok'' | StunNotStun \<Rightarrow> ''not_stun'' | StunUnsupported \<Rightarrow> ''unsupported'' | StunMalformed \<Rightarrow> ''malformed''
      | StunBadUsername \<Rightarrow> ''bad_username'' | StunBadMessageIntegrity \<Rightarrow> ''bad_message_integrity''
      | StunBadFingerprint \<Rightarrow> ''bad_fingerprint'')"

section \<open>The check sum\<close>

text \<open>The reflected CRC-32, one bit at a time.\<close>

definition crc_step :: "u32 \<Rightarrow> u32" where
  "crc_step c = (if bit c 0 then drop_bit 1 c XOR 0xEDB88320 else drop_bit 1 c)"

definition crc32_bitwise :: "bytes \<Rightarrow> u32" where
  "crc32_bitwise d = foldl (\<lambda>c b. (crc_step ^^ 8) (c XOR ucast b)) 0xffffffff d XOR 0xffffffff"

lemma crc_step_xor: "crc_step (a XOR b) = crc_step a XOR crc_step b"
  by (auto simp: crc_step_def bit_xor_iff drop_bit_xor ac_simps)

lemma crc_steps_xor: "(crc_step ^^ n) (a XOR b) = (crc_step ^^ n) a XOR (crc_step ^^ n) b"
  by (induction n) (simp_all add: crc_step_xor)

text \<open>While the low bits are clear, a step is a shift.\<close>

lemma crc_steps_shift: "(\<forall>i < n. \<not> bit c i) \<Longrightarrow> (crc_step ^^ n) c = drop_bit n c"
proof (induction n)
  case (Suc n)
  then have "(crc_step ^^ n) c = drop_bit n c" by simp
  moreover have "\<not> bit (drop_bit n c) 0" using Suc.prems by (simp add: bit_drop_bit_eq)
  ultimately show ?case by (simp add: crc_step_def [of "drop_bit n c"])
qed simp

definition crc_entries :: "nat \<Rightarrow> u32 list" where
  "crc_entries k = map (\<lambda>i. (crc_step ^^ 8) (word_of_nat i)) [0..<2 ^ k]"

lemma word_of_nat_top: "i < 2 ^ k \<Longrightarrow> (word_of_nat (2 ^ k) :: u32) + word_of_nat i = word_of_nat (2 ^ k) XOR word_of_nat i"
proof -
  assume i: "i < 2 ^ k"
  have "(word_of_nat (2 ^ k) :: u32) AND word_of_nat i = 0"
  proof (rule bit_eqI)
    fix n
    have "\<not> bit i k" using i by (metis bit_take_bit_iff less_irrefl take_bit_nat_eq_self)
    then show "bit ((word_of_nat (2 ^ k) :: u32) AND word_of_nat i) n = bit 0 n"
      by (auto simp: bit_simps)
  qed
  then show ?thesis by (simp only: disjunctive_add_eq_xor)
qed

lemma crc_entries_Suc: "crc_entries (Suc k) = crc_entries k @ map (\<lambda>x. (crc_step ^^ 8) (word_of_nat (2 ^ k)) XOR x) (crc_entries k)"
proof -
  have "[0..<2 ^ Suc k] = [0..<2 ^ k] @ map (\<lambda>i. 2 ^ k + i) [0..<2 ^ k]"
    using upt_add_eq_append [of 0 "2 ^ k" "2 ^ k"] map_add_upt [of "2 ^ k" "2 ^ k"] by (simp add: mult_2 add.commute)
  then show ?thesis by (simp add: crc_entries_def word_of_nat_top crc_steps_xor del: of_nat_power)
qed

lemma crc_steps_8: "(crc_step ^^ 8) c = crc_step (crc_step (crc_step (crc_step (crc_step (crc_step (crc_step (crc_step c)))))))"
  by (simp add: eval_nat_numeral)

lemma crc_basis:
  "(crc_step ^^ 8) 1 = 0x77073096" "(crc_step ^^ 8) 2 = 0xee0e612c" "(crc_step ^^ 8) 4 = 0x076dc419" "(crc_step ^^ 8) 8 = 0x0edb8832"
  "(crc_step ^^ 8) 16 = 0x1db71064" "(crc_step ^^ 8) 32 = 0x3b6e20c8" "(crc_step ^^ 8) 64 = 0x76dc4190" "(crc_step ^^ 8) 128 = 0xedb88320"
  unfolding crc_steps_8 by (simp_all add: crc_step_def)

lemma crc_entries_0: "crc_entries 0 = [0]" by (simp add: crc_entries_def crc_steps_8 crc_step_def)

lemma crc_table: "crc_entries 8 = kCrc32Table"
proof -
  have n: "(8 :: nat) = Suc (Suc (Suc (Suc (Suc (Suc (Suc (Suc 0)))))))" by simp
  show ?thesis unfolding kCrc32Table_def n crc_entries_Suc crc_entries_0
    unfolding n [symmetric]
    by (simp add: crc_basis)
qed

lemma crc_table_nth: "i < 256 \<Longrightarrow> kCrc32Table ! i = (crc_step ^^ 8) (word_of_nat i)"
  by (simp add: crc_table [symmetric] crc_entries_def)

lemma crc_table_step: "kCrc32Table ! unat (c AND 0xff) XOR drop_bit 8 c = (crc_step ^^ 8) c"
proof -
  have low: "c AND 0xff = take_bit 8 c" by (simp add: take_bit_eq_mask mask_eq_exp_minus_1)
  have "unat (c AND 0xff) < 256" 
    using take_bit_nat_less_exp [of 8 "unat c"] by (simp only: low unsigned_take_bit_eq) simp
  then have t: "kCrc32Table ! unat (c AND 0xff) = (crc_step ^^ 8) (c AND 0xff)" by (simp add: crc_table_nth)
  let ?high = "push_bit 8 (drop_bit 8 c)"
  have "(crc_step ^^ 8) ?high = drop_bit 8 ?high"
    by (rule crc_steps_shift) (simp add: bit_simps)
  moreover have "drop_bit 8 ?high = drop_bit 8 c"
    by (rule bit_word_eqI) (auto simp: bit_simps dest: bit_imp_le_length)
  moreover have "c = take_bit 8 c XOR ?high"
    by (rule bit_word_eqI) (auto simp: bit_simps)
  ultimately show ?thesis using t crc_steps_xor [of 8 "take_bit 8 c" ?high] unfolding low by metis
qed

lemma Crc32Loop_bitwise: "Crc32Loop d crc = foldl (\<lambda>c b. (crc_step ^^ 8) (c XOR ucast b)) crc d"
proof (induction d arbitrary: crc)
  case (Cons b d)
  have "drop_bit 8 (ucast b :: u32) = 0" by (rule bit_word_eqI) (auto simp: bit_simps dest: bit_imp_le_length)
  then have "kCrc32Table ! unat ((crc XOR ucast b) AND 0xff) XOR drop_bit 8 crc = (crc_step ^^ 8) (crc XOR ucast b)"
    using crc_table_step [of "crc XOR ucast b"] by simp
  then show ?case by (simp add: Cons.IH)
qed simp

text \<open>
  The table-driven check sum of the fingerprint attribute is the bitwise CRC-32 of the
  standard (reflected polynomial \<open>0xEDB88320\<close>), for messages of any length; every entry of the table is
  the right one.
\<close>

lemma stun_crc32_table:
  "Crc32 d = crc32_bitwise d"
  by (simp add: Crc32_def crc32_bitwise_def Crc32Loop_bitwise)

section \<open>Messages\<close>

text \<open>Attributes and messages as RFC 8489 encodes them.\<close>

definition stun_attr :: "u16 \<times> bytes \<Rightarrow> bytes" where
  "stun_attr a = be16 (fst a) @ be16 (word_of_nat (length (snd a))) @ snd a
     @ replicate (PaddedSize (length (snd a)) - length (snd a)) 0"

abbreviation stun_attrs :: "(u16 \<times> bytes) list \<Rightarrow> bytes" where
  "stun_attrs as \<equiv> concat (map stun_attr as)"

definition stun_header :: "u16 \<Rightarrow> nat \<Rightarrow> bytes \<Rightarrow> bytes" where
  "stun_header type n tid = be16 type @ be16 (word_of_nat n) @ be32 kMagicCookie @ tid"

text \<open>The digest covers everything before it, with a length that includes the digest.\<close>

definition stun_digest :: "(bytes \<Rightarrow> bytes \<Rightarrow> bytes) \<Rightarrow> bytes \<Rightarrow> u16 \<Rightarrow> bytes \<Rightarrow> (u16 \<times> bytes) list \<Rightarrow> u16 \<times> bytes" where
  "stun_digest hmac key type tid as =
     (kAttrMessageIntegrity, hmac key (stun_header type (length (stun_attrs as) + 24) tid @ stun_attrs as))"

definition stun_print :: "u16 \<Rightarrow> bytes \<Rightarrow> (u16 \<times> bytes) list \<Rightarrow> u16 \<times> bytes" where
  "stun_print type tid as =
     (kAttrFingerprint, be32 (crc32_bitwise (stun_header type (length (stun_attrs as) + 8) tid @ stun_attrs as) XOR kFingerprintXor))"

definition stun_message :: "u16 \<Rightarrow> bytes \<Rightarrow> (u16 \<times> bytes) list \<Rightarrow> bytes" where
  "stun_message type tid as = stun_header type (length (stun_attrs as)) tid @ stun_attrs as"

lemma PaddedSize_ge: "n \<le> PaddedSize n" "PaddedSize n mod 4 = 0" "PaddedSize n \<le> n + 3"
  unfolding PaddedSize_def using div_mult_mod_eq [of "n + 3" 4] mod_less_divisor [of 4 "n + 3"]
  by (linarith, simp, simp only: div_times_less_eq_dividend)

lemma length_stun_attr: "length (stun_attr a) = 4 + PaddedSize (length (snd a))"
  using PaddedSize_ge(1) by (simp add: stun_attr_def)

lemma length_stun_attrs_mod: "length (stun_attrs as) mod 4 = 0"
proof (induction as)
  case (Cons a as)
  have "(4 + PaddedSize (length (snd a)) + length (stun_attrs as)) mod 4 = 0"
    using PaddedSize_ge(2) [of "length (snd a)"] Cons by (simp add: mod_add_eq [symmetric] del: mod_add_eq)
  then show ?case by (simp add: length_stun_attr)
qed simp

lemma length_stun_header: "length tid = 12 \<Longrightarrow> length (stun_header type n tid) = 20"
  by (simp add: stun_header_def)

lemma Write_be [wire_simps]: "Write16 d v = d @ be16 v" "Write32 d w = d @ be32 w"
  by (simp_all add: Write16_def Write32_def be16_def be32_def)

lemma AddAttribute_attr: "AddAttribute d type v = d @ stun_attr (type, v)"
  by (simp add: AddAttribute_def stun_attr_def wire_simps Let_def)

lemma be16_join: "push_bit 8 (ucast (ucast (drop_bit 8 v) :: u8)) OR ucast (ucast v :: u8) = (v :: u16)"
  by (rule bit_word_eqI) (auto simp: bit_simps)

lemma be32_join: "push_bit 24 (ucast (ucast (drop_bit 24 v) :: u8)) OR push_bit 16 (ucast (ucast (drop_bit 16 v) :: u8))
    OR push_bit 8 (ucast (ucast (drop_bit 8 v) :: u8)) OR ucast (ucast v :: u8) = (v :: u32)"
proof (rule bit_word_eqI)
  fix n assume "n < LENGTH(32)"
  then show "bit (push_bit 24 (ucast (ucast (drop_bit 24 v) :: u8)) OR push_bit 16 (ucast (ucast (drop_bit 16 v) :: u8))
    OR push_bit 8 (ucast (ucast (drop_bit 8 v) :: u8)) OR ucast (ucast v :: u8) :: u32) n = bit v n"
    by ((cases "n < 8"; cases "n < 16"; cases "n < 24"), simp_all add: bit_simps not_less less_diff_conv2)
qed

lemma Read16_at: "Read16 (pre @ be16 v @ rest) (length pre) = v"
  using be16_join [of v] by (simp add: Read16_def be16_def nth_append)

lemma Read32_at: "Read32 (pre @ be32 v @ rest) (length pre) = v"
  using be32_join [of v] by (simp add: Read32_def be32_def nth_append)

lemma Read32_be32 [simp]: "Read32 (be32 v) 0 = v"
  using Read32_at [of "[]" v "[]"] by simp

lemma Set16_header:
  "Set16 (stun_header type n tid @ rest) 2 (word_of_nat m) = stun_header type m tid @ rest"
  by (simp add: Set16_def stun_header_def be16_def be32_def numeral_2_eq_2 numeral_3_eq_3)

lemma stun_header_fields:
  assumes "length tid = 12"
  shows "Read16 (stun_header type n tid @ rest) 0 = type" "Read16 (stun_header type n tid @ rest) 2 = word_of_nat n"
    "Read32 (stun_header type n tid @ rest) 4 = kMagicCookie" "take 12 (drop 8 (stun_header type n tid @ rest)) = tid"
    "(stun_header type n tid @ rest) ! 0 = ucast (drop_bit 8 type)"
  using Read16_at [of "[]" type "be16 (word_of_nat n) @ be32 kMagicCookie @ tid @ rest"]
    Read16_at [of "be16 type" "word_of_nat n" "be32 kMagicCookie @ tid @ rest"]
    Read32_at [of "be16 type @ be16 (word_of_nat n)" kMagicCookie "tid @ rest"] assms
  by (simp_all add: stun_header_def) (simp add: be16_def)

lemma CheckHeader_message:
  assumes "length tid = 12" "length (stun_attrs as) < 2 ^ 16" "ucast (drop_bit 8 type) AND (0xc0 :: u8) = 0"
  shows "CheckHeader (stun_message type tid as)"
  using stun_header_fields [OF assms(1), of type "length (stun_attrs as)" "stun_attrs as"] assms length_stun_header [OF assms(1)]
    length_stun_attrs_mod [of as]
  by (simp add: CheckHeader_def stun_message_def kStunHeaderSize_def unat_of_nat)

subsection \<open>Scanning attributes\<close>

text \<open>The effect of the attribute loop on a sequence of attributes that starts at \<open>off\<close>.\<close>

fun scan_attrs :: "nat \<Rightarrow> (u16 \<times> bytes) list \<Rightarrow> stun_scan \<Rightarrow> stun_scan option" where
  "scan_attrs off [] sc = Some sc"
| "scan_attrs off (a # as) sc =
     Option.bind (StunAttribute (fst a) off (snd a) sc) (scan_attrs (off + length (stun_attr a)) as)"

lemma StunAttrLoop_attrs:
  assumes "\<forall>a \<in> set as. length (snd a) < 2 ^ 16"
  shows "StunAttrLoop (pre @ stun_attrs as) (length pre) sc = scan_attrs (length pre) as sc"
  using assms
proof (induction as arbitrary: pre sc)
  case Nil
  then show ?case by (simp add: StunAttrLoop.simps)
next
  case (Cons a as)
  let ?d = "pre @ stun_attrs (a # as)" and ?n = "length (snd a)"
  let ?pad = "replicate (PaddedSize ?n - ?n) 0"
  have n: "?n < 2 ^ 16" using Cons.prems by simp
  have d: "?d = pre @ be16 (fst a) @ be16 (word_of_nat ?n) @ snd a @ ?pad @ stun_attrs as"
    by (simp add: stun_attr_def)
  have type: "Read16 ?d (length pre) = fst a" unfolding d by (rule Read16_at)
  have "Read16 ((pre @ be16 (fst a)) @ be16 (word_of_nat ?n) @ snd a @ ?pad @ stun_attrs as) (length (pre @ be16 (fst a))) = word_of_nat ?n"
    by (rule Read16_at)
  then have sz: "unat (Read16 ?d (length pre + 2)) = ?n" using n unfolding d by (simp add: unat_of_nat)
  have v: "take ?n (drop (length pre + 4) ?d) = snd a"
    unfolding d by simp
  have len: "length ?d = length pre + 4 + PaddedSize ?n + length (stun_attrs as)"
    by (simp add: length_stun_attr)
  have "StunAttrLoop ?d (length pre) sc = (case StunAttribute (fst a) (length pre) (snd a) sc of None \<Rightarrow> None
      | Some sc \<Rightarrow> StunAttrLoop ?d (length pre + 4 + PaddedSize ?n) sc)"
    using len PaddedSize_ge(1) [of ?n] by (subst StunAttrLoop.simps) (simp only: type sz v Let_def, simp)
  also have "\<dots> = Option.bind (StunAttribute (fst a) (length pre) (snd a) sc)
      (scan_attrs (length pre + length (stun_attr a)) as)"
    using Cons.IH [of "pre @ stun_attr a"] Cons.prems by (auto simp: length_stun_attr add.assoc split: option.splits)
  finally show ?case by simp
qed

lemma scan_attrs_append: "scan_attrs off (as @ bs) sc = Option.bind (scan_attrs off as sc) (scan_attrs (off + length (stun_attrs as)) bs)"
  by (induction as arbitrary: off sc) (auto simp: add.assoc bind_eq_None_conv split: Option.bind_splits)

lemma StunAttrLoop_message:
  assumes "length tid = 12" and "\<forall>a \<in> set as. length (snd a) < 2 ^ 16"
  shows "StunAttrLoop (stun_message type tid as) 20 sc = scan_attrs 20 as sc"
  using StunAttrLoop_attrs [OF assms(2), of "stun_header type (length (stun_attrs as)) tid" sc] length_stun_header [OF assms(1)]
  by (simp add: stun_message_def)

lemma attr_sizes: "length (stun_attrs as) < 2 ^ 16 \<Longrightarrow> a \<in> set as \<Longrightarrow> length (snd a) < 2 ^ 16"
proof (induction as)
  case (Cons b as)
  then show ?case using PaddedSize_ge(1) [of "length (snd a)"] by (auto simp: length_stun_attr)
qed simp

section \<open>Requests\<close>

definition new_scan :: "bytes \<Rightarrow> stun_scan" where
  "new_scan tid = \<lparr>sc_request = empty_stun_request\<lparr>sr_transaction_id := tid\<rparr>, sc_message_integrity = replicate 20 0,
     sc_message_integrity_offset = 0, sc_has_message_integrity = False, sc_has_fingerprint = False, sc_fingerprint = 0\<rparr>"

text \<open>The parser on a message that the encoder above has built.\<close>

lemma Parse_message:
  assumes "length tid = 12" and "length (stun_attrs as) < 2 ^ 16" and "scan_attrs 20 as (new_scan tid) = Some sc"
  shows "ParseStunBindingRequest hmac (stun_message kBindingRequestType tid as) ufrag pw =
     (let d = stun_message kBindingRequestType tid as; request = sc_request sc; off = sc_message_integrity_offset sc in
      if \<not> UsernameMatchesLocalUfrag (sr_username request) ufrag then (StunBadUsername, request)
      else if \<not> sc_has_message_integrity sc \<or> hmac pw (Set16 (take off d) 2 (word_of_nat (off + 24 - 20))) \<noteq> sc_message_integrity sc
      then (StunBadMessageIntegrity, request)
      else if sc_has_fingerprint sc \<and> Crc32 (take (length d - 8) d) XOR kFingerprintXor \<noteq> sc_fingerprint sc
      then (StunBadFingerprint, request)
      else (StunOk, request\<lparr>sr_has_message_integrity := True, sr_has_fingerprint := sc_has_fingerprint sc\<rparr>))"
proof -
  have head: "CheckHeader (stun_message kBindingRequestType tid as)"
    by (rule CheckHeader_message [OF assms(1,2)]) (simp add: kBindingRequestType_def)
  have type: "Read16 (stun_message kBindingRequestType tid as) 0 = kBindingRequestType"
    "take 12 (drop 8 (stun_message kBindingRequestType tid as)) = tid"
    using stun_header_fields [OF assms(1)] by (simp_all add: stun_message_def)
  have loop: "StunAttrLoop (stun_message kBindingRequestType tid as) 20 (new_scan tid) = Some sc"
    using StunAttrLoop_message [OF assms(1)] attr_sizes [OF assms(2)] assms(3) by simp
  have len: "\<not> length (stun_message kBindingRequestType tid as) < 8"
    using length_stun_header [OF assms(1)] by (simp add: stun_message_def)
  show ?thesis
    using head type loop len unfolding ParseStunBindingRequest_def new_scan_def [symmetric]
    by (simp add: new_scan_def [symmetric] kStunHeaderSize_def kTransactionIdSize_def Let_def)
qed

definition known_attr :: "u16 \<Rightarrow> bool" where
  "known_attr t \<longleftrightarrow> t \<in> {kAttrUsername, kAttrMessageIntegrity, kAttrFingerprint, kAttrPriority, kAttrUseCandidate}"

lemma scan_unknown: "\<forall>a \<in> set as. \<not> known_attr (fst a) \<Longrightarrow> scan_attrs off as sc = Some sc"
  by (induction as arbitrary: off) (simp_all add: StunAttribute_def known_attr_def)

text \<open>A connectivity check: attributes, digest, and the fingerprint when \<open>print\<close>.\<close>

definition check_attrs :: "bytes \<Rightarrow> u32 \<Rightarrow> bool \<Rightarrow> (u16 \<times> bytes) list \<Rightarrow> (u16 \<times> bytes) list" where
  "check_attrs user priority use_candidate extra =
     (kAttrUsername, user) # (kAttrPriority, be32 priority) # (if use_candidate then [(kAttrUseCandidate, [])] else []) @ extra"

definition signed_attrs :: "(bytes \<Rightarrow> bytes \<Rightarrow> bytes) \<Rightarrow> bytes \<Rightarrow> u16 \<Rightarrow> bytes \<Rightarrow> (u16 \<times> bytes) list \<Rightarrow> bool \<Rightarrow> (u16 \<times> bytes) list" where
  "signed_attrs hmac key type tid as print =
     (let as = as @ [stun_digest hmac key type tid as] in if print then as @ [stun_print type tid as] else as)"

lemma length_attr_digest: "length (hmac key d) = 20 \<Longrightarrow> length (stun_attr (t, hmac key d)) = 24"
  by (simp add: length_stun_attr PaddedSize_def)

text \<open>The bytes that digest and fingerprint cover are a prefix of the message, up to its length field.\<close>

lemma digest_prefix:
  assumes "length tid = 12"
  shows "Set16 (take (20 + length (stun_attrs as)) (stun_message type tid (as @ bs))) 2 (word_of_nat (20 + length (stun_attrs as) + 24 - 20))
    = stun_header type (length (stun_attrs as) + 24) tid @ stun_attrs as"
proof -
  have "take (20 + length (stun_attrs as)) (stun_message type tid (as @ bs))
      = stun_header type (length (stun_attrs (as @ bs))) tid @ stun_attrs as"
    using length_stun_header [OF assms] by (simp add: stun_message_def)
  then show ?thesis using Set16_header [where rest = "stun_attrs as" and m = "length (stun_attrs as) + 24"] by (simp add: add.commute)
qed

lemma print_prefix:
  assumes "length tid = 12"
  shows "take (length (stun_message type tid (as @ [stun_print type tid as])) - 8) (stun_message type tid (as @ [stun_print type tid as]))
    = stun_header type (length (stun_attrs as) + 8) tid @ stun_attrs as"
  using length_stun_header [OF assms] by (simp add: stun_message_def length_stun_attr stun_print_def PaddedSize_def)

lemma scan_check:
  assumes "\<forall>a \<in> set extra. \<not> known_attr (fst a)"
  shows "scan_attrs 20 (check_attrs user priority use_candidate extra) (new_scan tid)
    = Some ((new_scan tid)\<lparr>sc_request := empty_stun_request\<lparr>sr_transaction_id := tid, sr_username := user,
        sr_priority := priority, sr_use_candidate := use_candidate\<rparr>\<rparr>)"
  using scan_unknown [OF assms]
  by (simp add: check_attrs_def StunAttribute_def new_scan_def stun_constants empty_stun_request_def)

lemma scan_signed:
  assumes "scan_attrs 20 as (new_scan tid) = Some sc" and "length (snd (stun_digest hmac key type tid as)) = 20"
    and "sc_has_fingerprint sc = False"
  shows "\<exists>sc'. scan_attrs 20 (signed_attrs hmac key type tid as print) (new_scan tid) = Some sc'
     \<and> sc_request sc' = sc_request sc \<and> sc_has_message_integrity sc' \<and> sc_message_integrity_offset sc' = 20 + length (stun_attrs as)
     \<and> sc_message_integrity sc' = snd (stun_digest hmac key type tid as) \<and> sc_has_fingerprint sc' = print
     \<and> (print \<longrightarrow> sc_fingerprint sc' = Read32 (snd (stun_print type tid (as @ [stun_digest hmac key type tid as]))) 0)"
  using assms by (simp add: signed_attrs_def Let_def scan_attrs_append)
    (simp add: StunAttribute_def stun_digest_def stun_print_def stun_constants)

lemma Parse_check:
  assumes "length tid = 12" and "\<forall>key d. length (hmac key d) = 20" and "\<forall>a \<in> set extra. \<not> known_attr (fst a)"
    and "length (stun_attrs (signed_attrs hmac pw kBindingRequestType tid
          (check_attrs (ufrag @ [0x3a] @ remote) priority use_candidate extra) print)) < 2 ^ 16"
  shows "ParseStunBindingRequest hmac (stun_message kBindingRequestType tid (signed_attrs hmac pw kBindingRequestType tid
        (check_attrs (ufrag @ [0x3a] @ remote) priority use_candidate extra) print)) ufrag pw
     = (StunOk, \<lparr>sr_transaction_id = tid, sr_username = ufrag @ [0x3a] @ remote, sr_priority = priority,
          sr_has_message_integrity = True, sr_has_fingerprint = print, sr_use_candidate = use_candidate\<rparr>)"
proof -
  let ?T = kBindingRequestType
  define as where "as = check_attrs (ufrag @ [0x3a] @ remote) priority use_candidate extra"
  define all where "all = signed_attrs hmac pw ?T tid as print"
  define req where "req = empty_stun_request\<lparr>sr_transaction_id := tid, sr_username := ufrag @ [0x3a] @ remote,
        sr_priority := priority, sr_use_candidate := use_candidate\<rparr>"
  have scan: "scan_attrs 20 as (new_scan tid) = Some ((new_scan tid)\<lparr>sc_request := req\<rparr>)"
    unfolding as_def req_def by (rule scan_check [OF assms(3)])
  have dl: "length (snd (stun_digest hmac pw ?T tid as)) = 20" using assms(2) by (simp add: stun_digest_def)
  have nf: "sc_has_fingerprint ((new_scan tid)\<lparr>sc_request := req\<rparr>) = False" by (simp add: new_scan_def)
  obtain sc where sc: "scan_attrs 20 all (new_scan tid) = Some sc"
      "sc_request sc = req"
      "sc_has_message_integrity sc" "sc_message_integrity_offset sc = 20 + length (stun_attrs as)"
      "sc_message_integrity sc = snd (stun_digest hmac pw ?T tid as)" "sc_has_fingerprint sc = print"
      "print \<longrightarrow> sc_fingerprint sc = Read32 (snd (stun_print ?T tid (as @ [stun_digest hmac pw ?T tid as]))) 0"
    using scan_signed [OF scan dl nf, of print] unfolding all_def [symmetric] by auto
  obtain bs where bs: "all = as @ bs" by (cases print) (auto simp: all_def signed_attrs_def Let_def)
  have digest: "hmac pw (Set16 (take (20 + length (stun_attrs as)) (stun_message ?T tid all)) 2
      (word_of_nat (20 + length (stun_attrs as) + 24 - 20))) = snd (stun_digest hmac pw ?T tid as)"
    unfolding bs digest_prefix [OF assms(1)] by (simp add: stun_digest_def)
  have fp: "Crc32 (take (length (stun_message ?T tid all) - 8) (stun_message ?T tid all)) XOR kFingerprintXor = sc_fingerprint sc" if print
  proof -
    have "all = (as @ [stun_digest hmac pw ?T tid as]) @ [stun_print ?T tid (as @ [stun_digest hmac pw ?T tid as])]"
      using that by (simp add: all_def signed_attrs_def)
    then show ?thesis using sc(7) that print_prefix [OF assms(1), of ?T "as @ [stun_digest hmac pw ?T tid as]"]
      by (simp add: stun_print_def Crc32_def crc32_bitwise_def Crc32Loop_bitwise)
  qed
  have user: "UsernameMatchesLocalUfrag (sr_username req) ufrag"
    by (simp add: req_def UsernameMatchesLocalUfrag_def)
  have "length (stun_attrs all) < 2 ^ 16" using assms(4) unfolding all_def as_def .
  from Parse_message [OF assms(1) this sc(1), of hmac ufrag pw] sc digest fp user
  have "ParseStunBindingRequest hmac (stun_message ?T tid all) ufrag pw
      = (StunOk, (sc_request sc)\<lparr>sr_has_message_integrity := True, sr_has_fingerprint := print\<rparr>)"
    by (simp add: Let_def)
  then show ?thesis unfolding all_def as_def sc(2) by (simp add: req_def empty_stun_request_def)
qed

text \<open>
  Claim C18. A connectivity check that a peer builds by the standard (any extra attributes of types the
  parser does not know, any 20-byte digest function) is accepted, with or without fingerprint, and
  the parsed request has exactly the transaction id, user name, priority and nomination flag sent.
\<close>

theorem stun_request_roundtrip:
  assumes "length tid = 12" and "\<forall>key d. length (hmac key d) = 20" and "\<forall>a \<in> set extra. \<not> known_attr (fst a)"
    and "length (stun_attrs (signed_attrs hmac pw kBindingRequestType tid
          (check_attrs (ufrag @ [0x3a] @ remote) priority use_candidate extra) print)) < 2 ^ 16"
  shows "ParseStunBindingRequest hmac (stun_message kBindingRequestType tid (signed_attrs hmac pw kBindingRequestType tid
        (check_attrs (ufrag @ [0x3a] @ remote) priority use_candidate extra) print)) ufrag pw
     = (StunOk, \<lparr>sr_transaction_id = tid, sr_username = ufrag @ [0x3a] @ remote, sr_priority = priority,
          sr_has_message_integrity = True, sr_has_fingerprint = print, sr_use_candidate = use_candidate\<rparr>)"
  using Parse_check [OF assms] .

theorem stun_request_roundtrip_witness:
  "fst (ParseStunBindingRequest (\<lambda>key d. replicate 20 (of_nat (length key + length d)))
     (stun_message kBindingRequestType (replicate 12 7) (signed_attrs (\<lambda>key d. replicate 20 (of_nat (length key + length d))) [1, 2, 3]
        kBindingRequestType (replicate 12 7) (check_attrs ([0x61, 0x62] @ [0x3a] @ [0x63]) 0x7e0000ff True [(0x802a, [1, 2, 3])]) True))
     [0x61, 0x62] [1, 2, 3]) = StunOk"
  by (subst stun_request_roundtrip)
    (simp_all add: known_attr_def stun_constants signed_attrs_def check_attrs_def length_stun_attr stun_digest_def stun_print_def
      PaddedSize_def Let_def)

subsection \<open>Authenticity\<close>

text \<open>What the attribute loop has recorded about the digest is what stands in the packet.\<close>

definition scan_sound :: "bytes \<Rightarrow> stun_scan \<Rightarrow> bool" where
  "scan_sound d sc \<longleftrightarrow> (sc_has_message_integrity sc \<longrightarrow>
     20 \<le> sc_message_integrity_offset sc \<and> sc_message_integrity_offset sc + 24 \<le> length d
     \<and> sc_message_integrity sc = take 20 (drop (sc_message_integrity_offset sc + 4) d)
     \<and> Read16 d (sc_message_integrity_offset sc) = kAttrMessageIntegrity)"

lemma StunAttrLoop_sound:
  "StunAttrLoop d offset sc = Some sc' \<Longrightarrow> 20 \<le> offset \<Longrightarrow> scan_sound d sc \<Longrightarrow>
     scan_sound d sc' \<and> sr_transaction_id (sc_request sc') = sr_transaction_id (sc_request sc)"
proof (induction d offset sc arbitrary: sc' rule: StunAttrLoop.induct)
  case (1 d offset sc)
  show ?case
  proof (cases "offset < length d")
    case False
    then show ?thesis using 1(2,4) by (simp add: StunAttrLoop.simps)
  next
    case True
    define n where "n = unat (Read16 d (offset + 2))"
    define v where "v = take n (drop (offset + 4) d)"
    obtain sc1 where fit: "offset + 4 + n \<le> length d" "offset + 4 \<le> length d" "offset + 4 + PaddedSize n \<le> length d"
      and sc1: "StunAttribute (Read16 d offset) offset v sc = Some sc1"
      and rest: "StunAttrLoop d (offset + 4 + PaddedSize n) sc1 = Some sc'"
      using 1(2) True by (subst (asm) StunAttrLoop.simps) (auto simp: Let_def n_def v_def split: if_splits option.splits)
    have v: "length v = n" using fit by (simp add: v_def)
    have "scan_sound d sc1 \<and> sr_transaction_id (sc_request sc1) = sr_transaction_id (sc_request sc)"
      using sc1 1(3,4) fit v
      by (auto simp: StunAttribute_def scan_sound_def stun_constants v_def split: if_splits)
    moreover have "scan_sound d sc1 \<Longrightarrow> scan_sound d sc' \<and> sr_transaction_id (sc_request sc') = sr_transaction_id (sc_request sc1)"
      using 1(1) [OF True _ refl refl refl refl _ sc1 [unfolded v_def n_def] rest [unfolded n_def]] fit 1(3)
      by (simp add: n_def)
    ultimately show ?thesis by simp
  qed
qed

text \<open>
  Claim C17. No packet is accepted without the right digest: for any bytes, when the parser answers \<open>kOk\<close>
  the packet has a valid header of a binding request, its user name starts with the local fragment and
  a colon, and inside the packet stands a 20-byte digest attribute that is the digest, under the local
  password, of the bytes before it with the length field set to its end.
\<close>

theorem stun_request_authentic:
  assumes "ParseStunBindingRequest hmac d local_ufrag local_password = (StunOk, request)"
  shows "IsStunPacket d \<and> Read16 d 0 = kBindingRequestType \<and> sr_transaction_id request = take 12 (drop 8 d)
     \<and> take (length local_ufrag + 1) (sr_username request) = local_ufrag @ [0x3a]
     \<and> (\<exists>off. 20 \<le> off \<and> off + 24 \<le> length d \<and> Read16 d off = kAttrMessageIntegrity
          \<and> take 20 (drop (off + 4) d) = hmac local_password (Set16 (take off d) 2 (word_of_nat (off + 24 - 20))))"
proof -
  define sc0 where "sc0 = new_scan (take 12 (drop 8 d))"
  have head: "CheckHeader d" "Read16 d 0 = kBindingRequestType"
    using assms by (auto simp: ParseStunBindingRequest_def split: if_splits)
  obtain sc where loop: "StunAttrLoop d 20 sc0 = Some sc" and user: "UsernameMatchesLocalUfrag (sr_username (sc_request sc)) local_ufrag"
    and mi: "sc_has_message_integrity sc"
      "hmac local_password (Set16 (take (sc_message_integrity_offset sc) d) 2
         (word_of_nat (sc_message_integrity_offset sc + 24 - 20))) = sc_message_integrity sc"
    and req: "request = (sc_request sc)\<lparr>sr_has_message_integrity := True, sr_has_fingerprint := sc_has_fingerprint sc\<rparr>"
    using assms head unfolding ParseStunBindingRequest_def sc0_def new_scan_def kStunHeaderSize_def kTransactionIdSize_def
    by (auto simp: Let_def split: if_splits option.splits)
  have "scan_sound d sc \<and> sr_transaction_id (sc_request sc) = take 12 (drop 8 d)"
    using StunAttrLoop_sound [OF loop] by (simp add: sc0_def new_scan_def scan_sound_def)
  moreover have "take (length local_ufrag + 1) (sr_username (sc_request sc)) = local_ufrag @ [0x3a]"
    using user by (auto simp: UsernameMatchesLocalUfrag_def take_Suc_conv_app_nth split: if_splits)
  ultimately show ?thesis using head mi req
    by (auto simp: IsStunPacket_def scan_sound_def intro!: exI [of _ "sc_message_integrity_offset sc"])
qed

definition sample_hmac :: "bytes \<Rightarrow> bytes \<Rightarrow> bytes" where
  "sample_hmac key d = replicate 20 (word_of_nat (length key + length d))"

lemma sample_check:
  "ParseStunBindingRequest sample_hmac (stun_message kBindingRequestType (replicate 12 7) (signed_attrs sample_hmac [1, 2, 3]
        kBindingRequestType (replicate 12 7) (check_attrs ([0x61, 0x62] @ [0x3a] @ [0x63]) 5 True []) False)) [0x61, 0x62] [1, 2, 3]
   = (StunOk, \<lparr>sr_transaction_id = replicate 12 7, sr_username = [0x61, 0x62] @ [0x3a] @ [0x63], sr_priority = 5,
          sr_has_message_integrity = True, sr_has_fingerprint = False, sr_use_candidate = True\<rparr>)"
  by (rule Parse_check) (simp_all add: sample_hmac_def known_attr_def stun_constants signed_attrs_def check_attrs_def length_stun_attr
      stun_digest_def PaddedSize_def Let_def)

theorem stun_request_authentic_witness:
  "\<exists>d request. ParseStunBindingRequest sample_hmac d [0x61, 0x62] [1, 2, 3] = (StunOk, request)
     \<and> take 3 (sr_username request) = [0x61, 0x62, 0x3a]"
proof -
  obtain d request where p: "ParseStunBindingRequest sample_hmac d [0x61, 0x62] [1, 2, 3] = (StunOk, request)"
    using sample_check by blast
  have "take 3 (sr_username request) = [0x61, 0x62, 0x3a]"
    using stun_request_authentic [OF p] by (simp add: numeral_3_eq_3)
  with p show ?thesis by blast
qed

text \<open>
  The digest does not protect what follows it: an attribute appended behind it is obeyed, although
  the standard has receivers ignore it. Whoever sees one check without nomination can replay it as
  one that nominates the candidate.
\<close>

lemma stun_appended_nomination:
  assumes "length tid = 12" and "\<forall>key d. length (hmac key d) = 20"
    and "length (stun_attrs (signed_attrs hmac pw kBindingRequestType tid (check_attrs (ufrag @ [0x3a] @ remote) priority False []) False
          @ [(kAttrUseCandidate, [])])) < 2 ^ 16"
  shows "\<exists>request. ParseStunBindingRequest hmac (stun_message kBindingRequestType tid
          (signed_attrs hmac pw kBindingRequestType tid (check_attrs (ufrag @ [0x3a] @ remote) priority False []) False
             @ [(kAttrUseCandidate, [])])) ufrag pw = (StunOk, request) \<and> sr_use_candidate request"
proof -
  let ?T = kBindingRequestType
  define as where "as = check_attrs (ufrag @ [0x3a] @ remote) priority False []"
  define sig where "sig = signed_attrs hmac pw ?T tid as False"
  have "scan_attrs 20 as (new_scan tid) = Some ((new_scan tid)\<lparr>sc_request := empty_stun_request\<lparr>sr_transaction_id := tid,
      sr_username := ufrag @ [0x3a] @ remote, sr_priority := priority, sr_use_candidate := False\<rparr>\<rparr>)"
    unfolding as_def by (rule scan_check) simp
  from scan_signed [OF this, of hmac pw ?T False] assms(2)
  obtain sc where sc: "scan_attrs 20 sig (new_scan tid) = Some sc" "sc_has_message_integrity sc" "sc_message_integrity_offset sc = 20 + length (stun_attrs as)"
      "sc_message_integrity sc = snd (stun_digest hmac pw ?T tid as)" "sc_has_fingerprint sc = False"
      "sr_username (sc_request sc) = ufrag @ [0x3a] @ remote"
    unfolding sig_def by (auto simp: stun_digest_def new_scan_def)
  define sc' where "sc' = sc\<lparr>sc_request := (sc_request sc)\<lparr>sr_use_candidate := True\<rparr>\<rparr>"
  have scan: "scan_attrs 20 (sig @ [(kAttrUseCandidate, [])]) (new_scan tid) = Some sc'"
    using sc(1) by (simp add: scan_attrs_append StunAttribute_def stun_constants sc'_def)
  have split: "sig @ [(kAttrUseCandidate, [])] = as @ [stun_digest hmac pw ?T tid as, (kAttrUseCandidate, [])]"
    by (simp add: sig_def signed_attrs_def)
  have digest: "hmac pw (Set16 (take (20 + length (stun_attrs as)) (stun_message ?T tid (sig @ [(kAttrUseCandidate, [])]))) 2
      (word_of_nat (20 + length (stun_attrs as) + 24 - 20))) = snd (stun_digest hmac pw ?T tid as)"
    unfolding split digest_prefix [OF assms(1)] by (simp add: stun_digest_def)
  have "length (stun_attrs (sig @ [(kAttrUseCandidate, [])])) < 2 ^ 16" using assms(3) unfolding sig_def as_def .
  from Parse_message [OF assms(1) this scan, of hmac ufrag pw] sc digest
  show ?thesis unfolding sig_def [symmetric] as_def [symmetric]
    by (auto simp: Let_def sc'_def UsernameMatchesLocalUfrag_def)
qed

section \<open>Responses\<close>

definition dec_value :: "bytes \<Rightarrow> nat \<Rightarrow> nat" where
  "dec_value cs a = foldl (\<lambda>a c. a * 10 + unat (c - 0x30)) a cs"

text \<open>The decimal notation of one octet.\<close>

definition octet :: "bytes \<Rightarrow> nat \<Rightarrow> bool" where
  "octet cs v \<longleftrightarrow> cs \<noteq> [] \<and> (\<forall>c \<in> set cs. 0x30 \<le> c \<and> c \<le> 0x39) \<and> dec_value cs 0 = v \<and> v \<le> 255"

lemma dec_value_mono: "a \<le> dec_value cs a"
proof (induction cs arbitrary: a)
  case (Cons c cs)
  have "a \<le> a * 10 + unat (c - 0x30)" by simp
  also have "\<dots> \<le> dec_value (c # cs) a" using Cons [of "a * 10 + unat (c - 0x30)"] by (simp add: dec_value_def)
  finally show ?case .
qed (simp add: dec_value_def)

lemma ParseOctet_dec: "\<forall>c \<in> set cs. 0x30 \<le> c \<and> c \<le> 0x39 \<Longrightarrow> dec_value cs a \<le> 255 \<Longrightarrow> ParseOctet cs a = Some (dec_value cs a)"
proof (induction cs arbitrary: a)
  case (Cons c cs)
  have "dec_value (c # cs) a = dec_value cs (a * 10 + unat (c - 0x30))" by (simp add: dec_value_def)
  then show ?case using Cons dec_value_mono [of "a * 10 + unat (c - 0x30)" cs] by (auto simp: Let_def not_less)
qed (simp add: dec_value_def)

lemma IpLoop_skip:
  assumes "k < 4" and "\<forall>c \<in> set cs. c \<noteq> 0x2e"
  shows "IpLoop (pre @ cs @ rest) (length pre) k start parts = IpLoop (pre @ cs @ rest) (length pre + length cs) k start parts"
  using assms
proof (induction cs arbitrary: pre)
  case (Cons c cs)
  have "IpLoop (pre @ (c # cs) @ rest) (length pre) k start parts = IpLoop ((pre @ [c]) @ cs @ rest) (length (pre @ [c])) k start parts"
    using Cons.prems by (subst IpLoop.simps) (simp add: nth_append)
  then show ?case using Cons.IH [of "pre @ [c]"] Cons.prems by simp
qed simp

lemma IpLoop_octet:
  assumes "octet cs v" and "k < 4" and "rest = [] \<or> hd rest = 0x2e"
  shows "IpLoop (pre @ cs @ rest) (length pre) k (length pre) parts
     = IpLoop (pre @ cs @ rest) (length pre + length cs + 1) (k + 1) (length pre + length cs + 1) (parts[k := v])"
proof -
  have digits: "\<forall>c \<in> set cs. c \<noteq> 0x2e" using assms(1) by (auto simp: octet_def)
  have "ParseOctet cs 0 = Some v" using assms(1) ParseOctet_dec [of cs 0] by (auto simp: octet_def)
  moreover have "\<not> (rest \<noteq> [] \<and> (cs @ rest) ! length cs \<noteq> 0x2e)"
    using assms(3) by (cases rest) auto
  ultimately show ?thesis
    using IpLoop_skip [OF assms(2) digits, of pre rest "length pre" parts] assms(1,2)
    by (auto simp: IpLoop.simps [of _ "length pre + length cs"] octet_def)
qed

definition dotted :: "bytes list \<Rightarrow> bytes" where
  "dotted os = os ! 0 @ [0x2e] @ os ! 1 @ [0x2e] @ os ! 2 @ [0x2e] @ os ! 3"

lemma IpLoop_dotted:
  assumes "octet a va" "octet b vb" "octet c vc" "octet d vd"
  shows "IpLoop (dotted [a, b, c, d]) 0 0 0 [0, 0, 0, 0] = Some (4, [va, vb, vc, vd])"
  using IpLoop_octet [OF assms(1), of 0 "[0x2e] @ b @ [0x2e] @ c @ [0x2e] @ d" "[]" "[0, 0, 0, 0]"]
    IpLoop_octet [OF assms(2), of 1 "[0x2e] @ c @ [0x2e] @ d" "a @ [0x2e]" "[va, 0, 0, 0]"]
    IpLoop_octet [OF assms(3), of 2 "[0x2e] @ d" "a @ [0x2e] @ b @ [0x2e]" "[va, vb, 0, 0]"]
    IpLoop_octet [OF assms(4), of 3 "[]" "a @ [0x2e] @ b @ [0x2e] @ c @ [0x2e]" "[va, vb, vc, 0]"]
    IpLoop.simps [of "dotted [a, b, c, d]" "length (dotted [a, b, c, d]) + 1" 4]
  by (simp add: dotted_def numeral_eq_Suc add.assoc)

text \<open>A client's reading of the mapped address: family, port and the four octets.\<close>

definition read_mapped :: "bytes \<Rightarrow> (u8 \<times> nat \<times> nat list) option" where
  "read_mapped v =
     (if length v \<noteq> 8 then None
      else Some (v ! 1, unat (Read16 v 2 XOR 0x2112),
             map (\<lambda>i. unat (v ! (4 + i) XOR [0x21, 0x12, 0xa4, 0x42] ! i)) [0..<4]))"

lemma be32_split: "be32 (push_bit 24 (ucast a) OR push_bit 16 (ucast b) OR push_bit 8 (ucast c) OR ucast d) = [a, b, c, d]"
  unfolding be32_def
  by (intro list.inject [THEN iffD2] conjI refl; rule bit_word_eqI; auto simp: bit_simps dest: bit_imp_le_length)

lemma be32_xor: "be32 (x XOR y) = map2 (XOR) (be32 x) (be32 y)"
  by (simp add: be32_def) (intro conjI; rule bit_word_eqI; simp add: bit_simps)

lemma byte_of_nat: "n \<le> 255 \<Longrightarrow> (word_of_nat n :: u32) = ucast (word_of_nat n :: u8)"
proof -
  assume "n \<le> 255"
  then have "unat (word_of_nat n :: u32) = unat (ucast (word_of_nat n :: u8) :: u32)"
    by (simp only: unsigned_ucast_eq) (simp add: unat_of_nat take_bit_eq_mod)
  then show ?thesis by (rule unsigned_word_eqI)
qed

lemma address_bytes:
  assumes "a \<le> 255" "b \<le> 255" "c \<le> 255" "d \<le> 255"
  shows "be32 ((push_bit 24 (word_of_nat a) OR push_bit 16 (word_of_nat b) OR push_bit 8 (word_of_nat c) OR word_of_nat d) XOR kMagicCookie)
    = [word_of_nat a XOR 0x21, word_of_nat b XOR 0x12, word_of_nat c XOR 0xa4, word_of_nat d XOR 0x42]"
proof -
  have cookie: "be32 kMagicCookie = [0x21, 0x12, 0xa4, 0x42]" by (simp add: be32_def kMagicCookie_def)
  show ?thesis unfolding be32_xor byte_of_nat [OF assms(1)] byte_of_nat [OF assms(2)] byte_of_nat [OF assms(3)] byte_of_nat [OF assms(4)]
    be32_split cookie by simp
qed

text \<open>The attribute \<open>AddXorMappedAddress\<close> writes for an address in dotted notation.\<close>

definition mapped_value :: "u16 \<Rightarrow> nat list \<Rightarrow> bytes" where
  "mapped_value port vs = [0, 1] @ be16 (port XOR 0x2112)
     @ [word_of_nat (vs ! 0) XOR 0x21, word_of_nat (vs ! 1) XOR 0x12, word_of_nat (vs ! 2) XOR 0xa4, word_of_nat (vs ! 3) XOR 0x42]"

lemma read_mapped_value:
  assumes "a \<le> 255" "b \<le> 255" "c \<le> 255" "d \<le> 255"
  shows "read_mapped (mapped_value port [a, b, c, d]) = Some (1, unat port, [a, b, c, d])"
proof -
  have port: "Read16 (mapped_value port [a, b, c, d]) 2 = port XOR 0x2112"
    using Read16_at [of "[0, 1]" "port XOR 0x2112"] by (simp add: mapped_value_def numeral_2_eq_2)
  have byte: "unat (word_of_nat n :: u8) = n" if "n \<le> 255" for n using that by (simp add: unat_of_nat)
  show ?thesis
    by (simp add: read_mapped_def port) (simp add: mapped_value_def be16_def upt_rec numeral_eq_Suc xor.assoc, simp add: assms byte)
qed

lemma AddXorMappedAddress_dotted:
  assumes "octet a va" "octet b vb" "octet c vc" "octet d vd" and "sa_ip peer = dotted [a, b, c, d]"
  shows "AddXorMappedAddress buf peer = buf @ stun_attr (kAttrXorMappedAddress, mapped_value (sa_port peer) [va, vb, vc, vd])"
proof -
  have "va \<le> 255" "vb \<le> 255" "vc \<le> 255" "vd \<le> 255" using assms by (auto simp: octet_def)
  note bytes = address_bytes [OF this]
  have "(ucast (drop_bit 16 kMagicCookie) :: u16) = 0x2112" by (simp add: kMagicCookie_def)
  then show ?thesis using bytes assms(5) IpLoop_dotted [OF assms(1-4)]
    by (simp add: AddXorMappedAddress_def AddAttribute_attr Let_def mapped_value_def be16_def be32_def)
qed

text \<open>
  Claim C38. The answer to a check from an IPv4 peer is what a client of the standard needs: a success
  response with the request's transaction id and three attributes, the peer's own address and port
  masked with the cookie, the digest under the local password, and the fingerprint; the length
  field and all covered prefixes are right, so that the client's checks succeed.
\<close>

theorem stun_response_roundtrip:
  assumes "length (sr_transaction_id request) = 12" and "\<forall>key d. length (hmac key d) = 20"
    and "octet a va" "octet b vb" "octet c vc" "octet d vd" and "sa_ip peer = dotted [a, b, c, d]"
  shows "\<exists>v. BuildStunBindingSuccessResponse hmac request pw peer =
        stun_message kBindingSuccessResponseType (sr_transaction_id request)
          (signed_attrs hmac pw kBindingSuccessResponseType (sr_transaction_id request) [(kAttrXorMappedAddress, v)] True)
     \<and> read_mapped v = Some (1, unat (sa_port peer), [va, vb, vc, vd])
     \<and> IsStunPacket (BuildStunBindingSuccessResponse hmac request pw peer)"
proof -
  let ?T = kBindingSuccessResponseType and ?tid = "sr_transaction_id request"
  define v where "v = mapped_value (sa_port peer) [va, vb, vc, vd]"
  define as where "as = [(kAttrXorMappedAddress, v)]"
  define dig where "dig = stun_digest hmac pw ?T ?tid as"
  have len_v: "length v = 8" by (simp add: v_def mapped_value_def)
  have len_as: "length (stun_attrs as) = 12" by (simp add: as_def length_stun_attr len_v PaddedSize_def)
  have len_dig: "length (stun_attr dig) = 24"
    using assms(2) by (simp add: dig_def stun_digest_def length_stun_attr PaddedSize_def)
  have head: "Write32 (Write16 (Write16 [] ?T) 0) kMagicCookie @ ?tid = stun_header ?T 0 ?tid"
    by (simp add: stun_header_def wire_simps)
  have body: "AddXorMappedAddress (stun_header ?T 0 ?tid) peer = stun_header ?T 0 ?tid @ stun_attrs as"
    using AddXorMappedAddress_dotted [OF assms(3-7)] by (simp add: as_def v_def)
  have hlen: "length (stun_header ?T n ?tid) = 20" for n by (rule length_stun_header [OF assms(1)])
  have signed: "AddAttribute (stun_header ?T 36 ?tid @ stun_attrs as) kAttrMessageIntegrity (hmac pw (stun_header ?T 36 ?tid @ stun_attrs as))
      = stun_header ?T 36 ?tid @ stun_attrs (as @ [dig])"
    by (simp add: AddAttribute_attr dig_def stun_digest_def len_as)
  have print: "stun_attr (kAttrFingerprint, be32 (Crc32 (stun_header ?T 44 ?tid @ stun_attrs (as @ [dig])) XOR kFingerprintXor))
      = stun_attr (stun_print ?T ?tid (as @ [dig]))"
    by (simp add: stun_print_def len_as len_dig Crc32_def crc32_bitwise_def Crc32Loop_bitwise)
  have be: "[ucast (drop_bit 24 w AND 0xff), ucast (drop_bit 16 w AND 0xff), ucast (drop_bit 8 w AND 0xff), ucast (w AND 0xff)] = be32 w"
    for w :: u32 by (simp add: be32_def)
  have e1: "Set16 (stun_header ?T 0 ?tid @ stun_attrs as) 2 (word_of_nat (length (stun_header ?T 0 ?tid @ stun_attrs as) - 20 + 24))
      = stun_header ?T 36 ?tid @ stun_attrs as"
    using Set16_header [of ?T 0 ?tid "stun_attrs as" 36] by (simp add: hlen len_as)
  have e2: "Set16 (stun_header ?T 36 ?tid @ stun_attrs (as @ [dig])) 2 (word_of_nat (length (stun_header ?T 36 ?tid @ stun_attrs (as @ [dig])) - 20 + 8))
      = stun_header ?T 44 ?tid @ stun_attrs (as @ [dig])"
    using Set16_header [of ?T 36 ?tid "stun_attrs (as @ [dig])" 44] by (simp add: hlen len_as len_dig)
  have all: "BuildStunBindingSuccessResponse hmac request pw peer = stun_header ?T 44 ?tid @ stun_attrs (as @ [dig, stun_print ?T ?tid (as @ [dig])])"
    unfolding BuildStunBindingSuccessResponse_def Let_def head body kStunHeaderSize_def e1 signed e2 be
    unfolding AddAttribute_attr print
    by simp
  have sig: "signed_attrs hmac pw ?T ?tid as True = as @ [dig, stun_print ?T ?tid (as @ [dig])]"
    by (simp add: signed_attrs_def dig_def)
  have total: "length (stun_attrs (as @ [dig, stun_print ?T ?tid (as @ [dig])])) = 44"
    using len_as len_dig length_stun_attr [of "stun_print ?T ?tid (as @ [dig])"] by (simp add: stun_print_def PaddedSize_def)
  have msg: "BuildStunBindingSuccessResponse hmac request pw peer = stun_message ?T ?tid (signed_attrs hmac pw ?T ?tid as True)"
    unfolding all sig stun_message_def total ..
  moreover have "IsStunPacket (stun_message ?T ?tid (signed_attrs hmac pw ?T ?tid as True))"
    unfolding IsStunPacket_def
    by (rule CheckHeader_message [OF assms(1)]) (simp_all only: sig total, simp_all add: kBindingSuccessResponseType_def)
  moreover have "read_mapped v = Some (1, unat (sa_port peer), [va, vb, vc, vd])"
    unfolding v_def using assms(3-6) by (intro read_mapped_value) (auto simp: octet_def)
  ultimately show ?thesis unfolding as_def by auto
qed

theorem stun_response_roundtrip_witness:
  "IsStunPacket (BuildStunBindingSuccessResponse sample_hmac (empty_stun_request\<lparr>sr_transaction_id := replicate 12 7\<rparr>) [1, 2]
      \<lparr>sa_ip = dotted [[0x31, 0x30], [0x30], [0x30], [0x32, 0x35, 0x35]], sa_port = 5000\<rparr>)"
proof -
  have "octet [0x31, 0x30] 10" "octet [0x30] 0" "octet [0x32, 0x35, 0x35] 255"
    by (simp_all add: octet_def dec_value_def)
  then show ?thesis
    using stun_response_roundtrip [of "empty_stun_request\<lparr>sr_transaction_id := replicate 12 7\<rparr>" sample_hmac
        "[0x31, 0x30]" 10 "[0x30]" 0 "[0x30]" 0 "[0x32, 0x35, 0x35]" 255
        "\<lparr>sa_ip = dotted [[0x31, 0x30], [0x30], [0x30], [0x32, 0x35, 0x35]], sa_port = 5000\<rparr>" "[1, 2]"]
    by (auto simp: sample_hmac_def)
qed

end
