(* ===== verification/Http_Text.thy ===== *)
theory Http_Text
  imports Stream_Prelude "HOL-Library.List_Lexorder"
begin

text \<open>
  What the text protocols use of the C++ library: searching in a \<open>std::string\<close>, the character classes of
  the \<open>C\<close> locale, \<open>strtoul\<close> and \<open>strtoull\<close>, and \<open>std::map<std::string, std::string>\<close>. Strings are lists of
  bytes. A position in a text that only moves forward is represented by the rest of the text.
\<close>

section \<open>Searching\<close>

text \<open>\<open>text.find(pat)\<close>: the number of bytes in front of the first occurrence.\<close>

fun find_sub :: "bytes \<Rightarrow> bytes \<Rightarrow> nat option" where
  "find_sub pat [] = (if pat = [] then Some 0 else None)"
| "find_sub pat (c # cs) =
     (if take (length pat) (c # cs) = pat then Some 0 else map_option Suc (find_sub pat cs))"

abbreviation find_char :: "u8 \<Rightarrow> bytes \<Rightarrow> nat option" where
  "find_char c \<equiv> find_sub [c]"

definition CRLF :: bytes where "CRLF = [0x0d, 0x0a]"

lemma find_sub_Some:
  "find_sub pat s = Some n \<Longrightarrow> n + length pat \<le> length s \<and> take (length pat) (drop n s) = pat"
proof (induction s arbitrary: n)
  case (Cons c cs)
  show ?case
  proof (cases "take (length pat) (c # cs) = pat")
    case True
    then have "length pat \<le> length (c # cs)" by (metis length_take min.cobounded1 min_def)
    then show ?thesis using Cons.prems True by simp
  next
    case False
    then show ?thesis using Cons by auto
  qed
qed (auto split: if_splits)

lemma find_sub_first:
  "find_sub pat s = Some n \<Longrightarrow> k < n \<Longrightarrow> take (length pat) (drop k s) \<noteq> pat"
proof (induction s arbitrary: n k)
  case (Cons c cs)
  then show ?case by (cases k) (auto split: if_splits)
qed (auto split: if_splits)

lemma find_sub_append: "find_sub pat s = Some n \<Longrightarrow> find_sub pat (s @ t) = Some n"
proof (induction s arbitrary: n)
  case (Cons c cs)
  show ?case
  proof (cases "take (length pat) (c # cs) = pat")
    case True
    then have "length pat \<le> length (c # cs)" by (metis length_take min.cobounded1 min_def)
    then have "take (length pat) ((c # cs) @ t) = pat" using True by (simp only: take_append) simp
    then show ?thesis using Cons.prems True by simp
  next
    case False
    then obtain m where m: "n = Suc m" "find_sub pat cs = Some m" using Cons.prems by auto
    have "length pat \<le> length (c # cs)" using find_sub_Some [OF m(2)] by simp
    then have "take (length pat) ((c # cs) @ t) \<noteq> pat" using False by (simp only: take_append) simp
    then show ?thesis using Cons.IH [OF m(2)] m(1) by simp
  qed
qed (cases t; auto split: if_splits)

lemma find_sub_at:
  assumes "take (length pat) (drop n s) = pat" and "\<forall>k < n. take (length pat) (drop k s) \<noteq> pat" and "n \<le> length s"
  shows "find_sub pat s = Some n"
  using assms
proof (induction n arbitrary: s)
  case 0
  then show ?case by (cases s) auto
next
  case (Suc n)
  then obtain c cs where s: "s = c # cs" by (cases s) auto
  have "take (length pat) s \<noteq> pat" using Suc.prems(2) by (auto dest: spec [of _ 0])
  moreover have "find_sub pat cs = Some n"
    by (rule Suc.IH) (use Suc.prems s in \<open>auto dest: spec [of _ "Suc k" for k]\<close>)
  ultimately show ?case by (simp add: s)
qed

lemma find_char_append: "c \<notin> set s \<Longrightarrow> find_char c (s @ c # t) = Some (length s)"
  by (induction s) auto

lemma find_char_None: "find_char c s = None \<longleftrightarrow> c \<notin> set s"
  by (induction s) auto

lemma find_char_Some: "find_char c s = Some n \<Longrightarrow> n < length s \<and> s ! n = c \<and> c \<notin> set (take n s)"
proof (induction s arbitrary: n)
  case (Cons x s)
  then show ?case by (cases n) (auto split: if_splits)
qed simp

text \<open>A text without line feeds holds no line end; the first one is where it ends.\<close>

lemma take_1_set: "take (Suc 0) s = [x] \<Longrightarrow> x \<in> set s"
  by (cases s) auto

lemma find_CRLF_None: "0x0a \<notin> set s \<Longrightarrow> find_sub CRLF s = None"
  by (induction s) (auto simp: CRLF_def take_Cons' split: if_splits dest: take_1_set)

lemma find_CRLF_line: "0x0a \<notin> set s \<Longrightarrow> find_sub CRLF (s @ CRLF @ t) = Some (length s)"
  by (induction s) (auto simp: CRLF_def take_Cons' split: if_splits dest: take_1_set)

section \<open>Characters\<close>

definition is_space :: "u8 \<Rightarrow> bool" where
  "is_space c \<longleftrightarrow> c = 0x20 \<or> (0x09 \<le> c \<and> c \<le> 0x0d)"

definition to_lower :: "u8 \<Rightarrow> u8" where
  "to_lower c = (if 0x41 \<le> c \<and> c \<le> 0x5a then c + 0x20 else c)"

text \<open>The digit value of a character in bases up to 16.\<close>

definition digit_value :: "u8 \<Rightarrow> nat" where
  "digit_value c =
     (if 0x30 \<le> c \<and> c \<le> 0x39 then unat (c - 0x30)
      else if 0x61 \<le> c \<and> c \<le> 0x66 then unat (c - 0x61) + 10
      else if 0x41 \<le> c \<and> c \<le> 0x46 then unat (c - 0x41) + 10
      else 16)"

text \<open>
  \<open>strtoul(text, &end, base)\<close> with a result of at most \<open>max_value\<close>: the value, whether it is out of range,
  and the text at \<open>end\<close>. The C string ends at the first zero byte.
\<close>

fun scan_digits :: "nat \<Rightarrow> bytes \<Rightarrow> nat \<Rightarrow> nat \<times> bytes" where
  "scan_digits base [] v = (v, [])"
| "scan_digits base (c # cs) v = (if digit_value c < base then scan_digits base cs (v * base + digit_value c) else (v, c # cs))"

definition skip_prefix :: "nat \<Rightarrow> bytes \<Rightarrow> bytes" where
  "skip_prefix base s =
     (if base = 16 \<and> length s > 2 \<and> s ! 0 = 0x30 \<and> (s ! 1 = 0x78 \<or> s ! 1 = 0x58) \<and> digit_value (s ! 2) < 16 then drop 2 s else s)"

definition c_strtoul :: "nat \<Rightarrow> nat \<Rightarrow> bytes \<Rightarrow> nat \<times> bool \<times> bytes" where
  "c_strtoul base max_value text =
     (let text = takeWhile (\<lambda>c. c \<noteq> 0) text;
          s = dropWhile is_space text;
          negative = (s \<noteq> [] \<and> hd s = 0x2d);
          s = (if s \<noteq> [] \<and> (hd s = 0x2d \<or> hd s = 0x2b) then tl s else s);
          s = skip_prefix base s
      in if s = [] \<or> digit_value (hd s) \<ge> base then (0, False, text)
         else case scan_digits base s 0 of (v, rest) \<Rightarrow>
           if v > max_value then (max_value, True, rest)
           else (if negative then (max_value + 1 - v) mod (max_value + 1) else v, False, rest))"

section \<open>Maps\<close>

text \<open>\<open>std::map\<close> with its keys in order; \<open>m[key] = value\<close>.\<close>

fun map_set :: "bytes \<Rightarrow> bytes \<Rightarrow> (bytes \<times> bytes) list \<Rightarrow> (bytes \<times> bytes) list" where
  "map_set k v [] = [(k, v)]"
| "map_set k v ((k', v') # m) =
     (if k = k' then (k, v) # m else if k < k' then (k, v) # (k', v') # m else (k', v') # map_set k v m)"

lemma map_set_map_of: "map_of (map_set k v m) = (map_of m)(k \<mapsto> v)"
  by (induction k v m rule: map_set.induct) (auto simp: fun_eq_iff)

lemma map_set_keys: "set (map fst (map_set k v m)) = insert k (set (map fst m))"
  by (induction k v m rule: map_set.induct) auto

lemma map_set_sorted: "sorted_wrt (<) (map fst m) \<Longrightarrow> sorted_wrt (<) (map fst (map_set k v m))"
proof (induction k v m rule: map_set.induct)
  case (2 k v k' v' m)
  then show ?case using map_set_keys [of k v m] by (auto simp del: set_map)
qed simp

end
