(* ===== verification/Http_Protocol.thy ===== *)
theory Http_Protocol
  imports Http_Text
begin

text \<open>
  \<open>libs/http/src/http_protocol.{h,cpp}\<close>: parsing of HTTP requests from the received bytes, chunked bodies,
  headers, and response headers. \<open>size_t\<close> and \<open>unsigned long\<close> have
  32 bits on the target. Sums of sizes are exact: they do not exceed the size of the receive buffer
  plus the body limit. \<open>ParseRawRequest\<close> reads the \<open>Connection\<close> header from a request it has moved from;
  what a moved-from \<open>std::map\<close> holds is left open by the language, so it is the argument \<open>moved\<close>.
\<close>

section \<open>Model\<close>

datatype HttpMethod = HttpGet | HttpPost | HttpPut | HttpDelete

record HttpRequest =
  hr_method :: HttpMethod
  hr_path :: bytes
  hr_query_string :: bytes
  hr_headers :: "(bytes \<times> bytes) list"
  hr_body :: bytes
  hr_client_ip :: bytes
  hr_request_id :: bytes

definition empty_http_request :: HttpRequest where
  "empty_http_request = \<lparr>hr_method = HttpGet, hr_path = [], hr_query_string = [], hr_headers = [], hr_body = [],
     hr_client_ip = [], hr_request_id = []\<rparr>"

record HttpResponse =
  rs_status_code :: nat
  rs_headers :: "(bytes \<times> bytes) list"
  rs_body :: bytes

datatype RawParseStatus = RawComplete | RawIncomplete | RawBadRequest | RawPayloadTooLarge

record RawParseResult =
  rp_status :: RawParseStatus
  rp_request :: HttpRequest
  rp_consumed_bytes :: nat
  rp_keep_alive :: bool

text \<open>A result that only has a status.\<close>

definition raw_status :: "RawParseStatus \<Rightarrow> RawParseResult" where
  "raw_status st = \<lparr>rp_status = st, rp_request = empty_http_request, rp_consumed_bytes = 0, rp_keep_alive = False\<rparr>"

definition HttpStatusText :: "nat \<Rightarrow> string" where
  "HttpStatusText status_code =
     (if status_code = 200 then ''OK'' else if status_code = 201 then ''Created''
      else if status_code = 204 then ''No Content'' else if status_code = 400 then ''Bad Request''
      else if status_code = 401 then ''Unauthorized'' else if status_code = 403 then ''Forbidden''
      else if status_code = 404 then ''Not Found'' else if status_code = 409 then ''Conflict''
      else if status_code = 413 then ''Payload Too Large'' else if status_code = 500 then ''Internal Server Status''
      else if status_code = 501 then ''Not Implemented'' else if status_code = 503 then ''Service Unavailable''
      else ''Status'')"

definition ParseMethod :: "bytes \<Rightarrow> HttpMethod" where
  "ParseMethod v =
     (if v = ascii ''GET'' then HttpGet else if v = ascii ''POST'' then HttpPost
      else if v = ascii ''PUT'' then HttpPut else if v = ascii ''DELETE'' then HttpDelete else HttpGet)"

definition ToLower :: "bytes \<Rightarrow> bytes" where
  "ToLower v = map to_lower v"

definition Trim :: "bytes \<Rightarrow> bytes" where
  "Trim v = rev (dropWhile is_space (rev (dropWhile is_space v)))"

fun GetHeaderLoop :: "bytes \<Rightarrow> (bytes \<times> bytes) list \<Rightarrow> bytes" where
  "GetHeaderLoop lower_name [] = []"
| "GetHeaderLoop lower_name (item # items) =
     (if ToLower (fst item) = lower_name then snd item else GetHeaderLoop lower_name items)"

definition GetHeader :: "HttpRequest \<Rightarrow> bytes \<Rightarrow> bytes" where
  "GetHeader request name = GetHeaderLoop (ToLower name) (hr_headers request)"

text \<open>The loop over the codings of \<open>Transfer-Encoding\<close>; \<open>0x2c\<close> is the comma.\<close>

function CodingLoop :: "bytes \<Rightarrow> bool" where
  "CodingLoop rest =
     (case find_char 0x2c rest of
        None \<Rightarrow> Trim rest = ascii ''chunked''
      | Some n \<Rightarrow> if Trim (take n rest) = ascii ''chunked'' then True else CodingLoop (drop (n + 1) rest))"
  by pat_completeness auto
termination
  by (relation "measure length") (auto dest: find_char_Some)

declare CodingLoop.simps [simp del]

definition TransferEncodingIsChunked :: "HttpRequest \<Rightarrow> bool" where
  "TransferEncodingIsChunked request = CodingLoop (ToLower (GetHeader request (ascii ''Transfer-Encoding'')))"

text \<open>\<open>strtoull\<close> has 64 bits; \<open>0x3b\<close> is the semicolon.\<close>

definition ParseChunkSizeLine :: "bytes \<Rightarrow> nat option" where
  "ParseChunkSizeLine line =
     (let size_text = Trim (case find_char 0x3b line of None \<Rightarrow> line | Some n \<Rightarrow> take n line) in
      if size_text = [] then None
      else case c_strtoul 16 (2 ^ 64 - 1) size_text of (parsed, erange, rest) \<Rightarrow>
        if rest = takeWhile (\<lambda>c. c \<noteq> 0) size_text \<or> rest \<noteq> [] \<or> erange \<or> parsed > SIZE_MAX then None
        else Some parsed)"

text \<open>
  \<open>ParseChunkedBody\<close> from position \<open>pos\<close>, where \<open>rest\<close> stands in the buffer: status, body and the number of
  bytes consumed.
\<close>

function ChunkLoop :: "nat \<Rightarrow> bytes \<Rightarrow> nat \<Rightarrow> bytes \<Rightarrow> RawParseStatus \<times> bytes \<times> nat" where
  "ChunkLoop max_body_bytes rest pos body =
     (case find_sub CRLF rest of
        None \<Rightarrow> (RawIncomplete, body, 0)
      | Some n \<Rightarrow>
          (case ParseChunkSizeLine (take n rest) of
             None \<Rightarrow> (RawBadRequest, body, 0)
           | Some chunk_size \<Rightarrow>
               let rest = drop (n + 2) rest; pos = pos + n + 2 in
               if chunk_size = 0 then
                 if length rest < 2 then (RawIncomplete, body, 0)
                 else if take 2 rest = CRLF then (RawComplete, body, pos + 2)
                 else (case find_sub (CRLF @ CRLF) rest of
                         None \<Rightarrow> (RawIncomplete, body, 0)
                       | Some t \<Rightarrow> (RawComplete, body, pos + t + 4))
               else if chunk_size > max_body_bytes \<or> length body > max_body_bytes - chunk_size
               then (RawPayloadTooLarge, body, 0)
               else if length rest < chunk_size + 2 then (RawIncomplete, body, 0)
               else if take 2 (drop chunk_size rest) \<noteq> CRLF then (RawBadRequest, body, 0)
               else ChunkLoop max_body_bytes (drop (chunk_size + 2) rest) (pos + chunk_size + 2) (body @ take chunk_size rest)))"
  by pat_completeness auto
termination
  by (relation "measure (\<lambda>(m, rest, pos, body). length rest)") (auto dest!: find_sub_Some)

declare ChunkLoop.simps [simp del]

definition ParseChunkedBody :: "bytes \<Rightarrow> nat \<Rightarrow> nat \<Rightarrow> RawParseStatus \<times> bytes \<times> nat" where
  "ParseChunkedBody raw body_offset max_body_bytes = ChunkLoop max_body_bytes (drop body_offset raw) body_offset []"

subsection \<open>Responses\<close>

text \<open>\<open>std::to_string\<close>.\<close>

fun show_nat :: "nat \<Rightarrow> bytes" where
  "show_nat n = (if n < 10 then [word_of_nat (48 + n)] else show_nat (n div 10) @ [word_of_nat (48 + n mod 10)])"

declare show_nat.simps [simp del]

definition SerializeResponseHeaderWithBodySize :: "HttpResponse \<Rightarrow> nat \<Rightarrow> bytes" where
  "SerializeResponseHeaderWithBodySize response body_size =
     (let out = ascii ''HTTP/1.1 '' @ show_nat (rs_status_code response) @ ascii '' ''
            @ ascii (HttpStatusText (rs_status_code response)) @ CRLF;
          has_length = (\<exists>h \<in> set (rs_headers response). ToLower (fst h) = ascii ''content-length'');
          has_connection = (\<exists>h \<in> set (rs_headers response). ToLower (fst h) = ascii ''connection'');
          out = out @ concat (map (\<lambda>h. fst h @ ascii '': '' @ snd h @ CRLF) (rs_headers response));
          out = (if \<not> has_length then out @ ascii ''Content-Length: '' @ show_nat body_size @ CRLF else out);
          out = (if \<not> has_connection then out @ ascii ''Connection: close'' @ CRLF else out)
      in out @ CRLF)"

definition SerializeResponseHeader :: "HttpResponse \<Rightarrow> bytes" where
  "SerializeResponseHeader response = SerializeResponseHeaderWithBodySize response (length (rs_body response))"

definition SerializeResponse :: "HttpResponse \<Rightarrow> bytes" where
  "SerializeResponse response = SerializeResponseHeader response @ rs_body response"

subsection \<open>Requests\<close>

text \<open>The loop over the header lines; \<open>0x3a\<close> is the colon, \<open>None\<close> a line without one.\<close>

function HeaderLoop :: "bytes \<Rightarrow> (bytes \<times> bytes) list \<Rightarrow> (bytes \<times> bytes) list option" where
  "HeaderLoop rest headers =
     (if rest = [] then Some headers
      else
        let line_end = find_sub CRLF rest;
            line = (case line_end of None \<Rightarrow> rest | Some n \<Rightarrow> take n rest)
        in case find_char 0x3a line of
             None \<Rightarrow> None
           | Some colon \<Rightarrow>
               let headers = map_set (Trim (take colon line)) (Trim (drop (colon + 1) line)) headers
               in (case line_end of None \<Rightarrow> Some headers | Some n \<Rightarrow> HeaderLoop (drop (n + 2) rest) headers))"
  by pat_completeness auto
termination
  by (relation "measure (\<lambda>(rest, headers). length rest)") (auto simp: Let_def)

declare HeaderLoop.simps [simp del]

text \<open>Request line and headers of a header block: the request without its body, and the version.\<close>

definition ParseHeaderBlock :: "bytes \<Rightarrow> bytes \<Rightarrow> (HttpRequest \<times> bytes) option" where
  "ParseHeaderBlock header_block client_ip =
     (let first_line_end = find_sub CRLF header_block;
          request_line = (case first_line_end of None \<Rightarrow> header_block | Some n \<Rightarrow> take n header_block)
      in case find_char 0x20 request_line of
           None \<Rightarrow> None
         | Some method_end \<Rightarrow>
             (case find_char 0x20 (drop (method_end + 1) request_line) of
                None \<Rightarrow> None
              | Some target_len \<Rightarrow>
                  let method_text = take method_end request_line;
                      target = take target_len (drop (method_end + 1) request_line);
                      version = drop (method_end + 1 + target_len + 1) request_line
                  in if method_text \<notin> {ascii ''GET'', ascii ''POST'', ascii ''PUT'', ascii ''DELETE''} then None
                     else if version \<noteq> ascii ''HTTP/1.0'' \<and> version \<noteq> ascii ''HTTP/1.1'' then None
                     else
                       (case HeaderLoop (case first_line_end of None \<Rightarrow> [] | Some n \<Rightarrow> drop (n + 2) header_block) [] of
                          None \<Rightarrow> None
                        | Some headers \<Rightarrow>
                            Some (empty_http_request\<lparr>hr_method := ParseMethod method_text, hr_client_ip := client_ip,
                                    hr_path := (case find_char 0x3f target of None \<Rightarrow> target | Some q \<Rightarrow> take q target),
                                    hr_query_string := (case find_char 0x3f target of None \<Rightarrow> [] | Some q \<Rightarrow> drop (q + 1) target),
                                    hr_headers := headers\<rparr>, version))))"

definition KeepAlive :: "bytes \<Rightarrow> HttpRequest \<Rightarrow> bool" where
  "KeepAlive version request =
     (let connection = ToLower (Trim (GetHeader request (ascii ''Connection''))) in
      if version = ascii ''HTTP/1.1'' then connection \<noteq> ascii ''close'' else connection = ascii ''keep-alive'')"

text \<open>The framing of the body and the result, once the header is parsed.\<close>

definition FrameBody ::
  "((bytes \<times> bytes) list \<Rightarrow> (bytes \<times> bytes) list) \<Rightarrow> bytes \<Rightarrow> nat \<Rightarrow> nat \<Rightarrow> HttpRequest \<Rightarrow> bytes \<Rightarrow> RawParseResult" where
  "FrameBody moved raw max_body_bytes body_offset request version =
     (let received_body_size = length raw - body_offset;
          content_length_text = GetHeader request (ascii ''Content-Length'');
          chunked_body = TransferEncodingIsChunked request;
          complete = (\<lambda>request consumed. \<lparr>rp_status = RawComplete, rp_request = request, rp_consumed_bytes = consumed,
             rp_keep_alive = KeepAlive version (request\<lparr>hr_headers := moved (hr_headers request)\<rparr>)\<rparr>)
      in if chunked_body \<and> content_length_text \<noteq> [] then raw_status RawBadRequest
         else if chunked_body then
           (case ParseChunkedBody raw body_offset max_body_bytes of
              (st, body, consumed_bytes) \<Rightarrow>
                if st \<noteq> RawComplete then raw_status st
                else complete (request\<lparr>hr_body := body\<rparr>) consumed_bytes)
         else if content_length_text \<noteq> [] then
           (case c_strtoul 10 (2 ^ 32 - 1) content_length_text of
              (expected_body_size, erange, rest) \<Rightarrow>
                if rest \<noteq> [] then raw_status RawBadRequest
                else if expected_body_size > max_body_bytes then raw_status RawPayloadTooLarge
                else if received_body_size < expected_body_size then raw_status RawIncomplete
                else complete (request\<lparr>hr_body := take expected_body_size (drop body_offset raw)\<rparr>)
                       (body_offset + expected_body_size))
         else if received_body_size > max_body_bytes then raw_status RawPayloadTooLarge
         else complete request body_offset)"

definition ParseRawRequest ::
  "((bytes \<times> bytes) list \<Rightarrow> (bytes \<times> bytes) list) \<Rightarrow> bytes \<Rightarrow> nat \<Rightarrow> nat \<Rightarrow> bytes \<Rightarrow> RawParseResult" where
  "ParseRawRequest moved raw max_header_bytes max_body_bytes client_ip =
     (case find_sub (CRLF @ CRLF) raw of
        None \<Rightarrow> raw_status (if length raw > max_header_bytes then RawPayloadTooLarge else RawIncomplete)
      | Some header_end \<Rightarrow>
          if header_end > max_header_bytes then raw_status RawPayloadTooLarge
          else
            case ParseHeaderBlock (take header_end raw) client_ip of
              None \<Rightarrow> raw_status RawBadRequest
            | Some (request, version) \<Rightarrow> FrameBody moved raw max_body_bytes (header_end + 4) request version)"

section \<open>Bounds and stability\<close>

lemma drop_past: "n \<le> length xs \<Longrightarrow> drop n (xs @ ys) = drop n xs @ ys"
  by simp

lemma take_within: "n \<le> length xs \<Longrightarrow> take n (xs @ ys) = take n xs"
  by simp

lemma CRLF_length [simp]: "length CRLF = 2"
  by (simp add: CRLF_def)

lemma ChunkLoop_bounds:
  "ChunkLoop max_body rest pos body = (RawComplete, b, c) \<Longrightarrow> length body \<le> max_body \<Longrightarrow>
     length b \<le> max_body \<and> pos < c \<and> c \<le> pos + length rest"
proof (induction max_body rest pos body arbitrary: b c rule: ChunkLoop.induct)
  case (1 max_body rest pos body)
  obtain n k where n: "find_sub CRLF rest = Some n" and k: "ParseChunkSizeLine (take n rest) = Some k"
    using 1(2) by (subst (asm) ChunkLoop.simps) (auto split: option.splits)
  let ?rest = "drop (n + 2) rest" and ?pos = "pos + n + 2"
  have len: "n + 2 \<le> length rest" using find_sub_Some [OF n] by simp
  show ?case
  proof (cases "k = 0")
    case True
    then show ?thesis using 1(2,3) n k len
      by (subst (asm) ChunkLoop.simps)
        (auto simp: Let_def not_less split: if_splits option.splits dest!: find_sub_Some)
  next
    case False
    then have ok: "k \<le> max_body" "length body \<le> max_body - k" "k + 2 \<le> length ?rest" "take 2 (drop k ?rest) = CRLF"
      and rec: "ChunkLoop max_body (drop (k + 2) ?rest) (?pos + k + 2) (body @ take k ?rest) = (RawComplete, b, c)"
      using 1(2) n k by (subst (asm) ChunkLoop.simps; auto simp: Let_def split: if_splits)+
    have "length (body @ take k ?rest) \<le> max_body" using ok(1-3) by simp
    from 1(1) [OF n k refl refl False _ _ _ rec this] ok len show ?thesis by auto
  qed
qed

lemma ChunkLoop_stable:
  "ChunkLoop max_body rest pos body = (st, b, c) \<Longrightarrow> st \<noteq> RawIncomplete \<Longrightarrow>
     ChunkLoop max_body (rest @ extra) pos body = (st, b, c)"
proof (induction max_body rest pos body arbitrary: st b c rule: ChunkLoop.induct)
  case (1 max_body rest pos body)
  obtain n where n: "find_sub CRLF rest = Some n"
    using 1(2,3) by (subst (asm) ChunkLoop.simps) (auto split: option.splits)
  have len: "n + 2 \<le> length rest" using find_sub_Some [OF n] by simp
  note m = find_sub_append [OF n, of extra]
  show ?case
  proof (cases "ParseChunkSizeLine (take n rest)")
    case None
    then show ?thesis using 1(2) n m len by (subst ChunkLoop.simps, subst (asm) ChunkLoop.simps) simp
  next
    case (Some k)
    let ?rest = "drop (n + 2) rest" and ?pos = "pos + n + 2"
    show ?thesis
    proof (cases "k = 0")
      case True
      show ?thesis
      proof (cases "take 2 ?rest = CRLF")
        case False
        then obtain t where "find_sub (CRLF @ CRLF) ?rest = Some t" "2 \<le> length ?rest" "take 2 ?rest \<noteq> CRLF"
          using 1(2,3) n Some True by (subst (asm) ChunkLoop.simps) (auto simp: Let_def split: if_splits option.splits)
        then show ?thesis using 1(2) n m len Some True find_sub_append [of "CRLF @ CRLF" ?rest t extra]
          by (subst ChunkLoop.simps, subst (asm) ChunkLoop.simps) (simp add: Let_def not_less)
      next
        case True': True
        then have "2 \<le> length ?rest" by (metis CRLF_length length_take min.cobounded1 min_def)
        then show ?thesis using 1(2) n m len Some True True'
          by (subst ChunkLoop.simps, subst (asm) ChunkLoop.simps) (simp add: Let_def not_less)
      qed
    next
      case False
      show ?thesis
      proof (cases "k > max_body \<or> length body > max_body - k")
        case True
        then show ?thesis using 1(2) n m len Some False
          by (subst ChunkLoop.simps, subst (asm) ChunkLoop.simps) (auto simp: Let_def)
      next
        case fits: False
        have room: "k + 2 \<le> length ?rest"
          using 1(2,3) n Some False fits by (subst (asm) ChunkLoop.simps) (auto simp: Let_def not_less split: if_splits)
        have eq: "drop k ((drop (n + 2) rest) @ extra) = drop k ?rest @ extra" "take k (drop (n + 2) rest @ extra) = take k ?rest"
          "take 2 (drop k ?rest @ extra) = take 2 (drop k ?rest)" "drop (k + 2) (drop (n + 2) rest @ extra) = drop (k + 2) ?rest @ extra"
          using room by simp_all
        show ?thesis
        proof (cases "take 2 (drop k ?rest) = CRLF")
          case True
          then have rec: "ChunkLoop max_body (drop (k + 2) ?rest) (?pos + k + 2) (body @ take k ?rest) = (st, b, c)"
            using 1(2) n Some False fits room by (subst (asm) ChunkLoop.simps) (auto simp: Let_def split: if_splits)
          have "ChunkLoop max_body (drop (k + 2) ?rest @ extra) (?pos + k + 2) (body @ take k ?rest) = (st, b, c)"
            by (rule 1(1) [OF n Some refl refl False fits _ _ rec 1(3)]) (use room True in auto)
          then show ?thesis using n m len Some False fits room True
            by (subst ChunkLoop.simps) (auto simp: Let_def eq drop_past take_within not_less simp del: drop_drop drop_append take_append)
        next
          case bad: False
          then show ?thesis using 1(2) n m len Some False fits room
            by (subst ChunkLoop.simps, subst (asm) ChunkLoop.simps)
              (simp add: Let_def eq drop_past take_within not_less del: drop_drop drop_append take_append)
        qed
      qed
    qed
  qed
qed

text \<open>The header part of a request and its body, as \<open>ParseRawRequest\<close> sees them.\<close>

lemma ParseHeaderBlock_no_body: "ParseHeaderBlock block ip = Some (request, version) \<Longrightarrow> hr_body request = []"
  by (auto simp: ParseHeaderBlock_def empty_http_request_def Let_def split: option.splits if_splits)

lemma headers_only: "GetHeader (request\<lparr>hr_body := b\<rparr>) name = GetHeader request name"
  "TransferEncodingIsChunked (request\<lparr>hr_body := b\<rparr>) = TransferEncodingIsChunked request"
  by (simp_all add: GetHeader_def TransferEncodingIsChunked_def)

lemma raw_status_sel [simp]: "rp_status (raw_status st) = st"
  by (simp add: raw_status_def)

lemma c_strtoul_obtain: "\<exists>n e t. c_strtoul base m s = (n, e, t)"
  by (metis prod_cases3)

text \<open>The cases in which the framing succeeds.\<close>

lemma FrameBody_complete:
  assumes "FrameBody moved raw max_body off request version = r" and "rp_status r = RawComplete" and "off \<le> length raw"
    and "hr_body request = []"
  shows "off \<le> rp_consumed_bytes r \<and> rp_consumed_bytes r \<le> length raw \<and> length (hr_body (rp_request r)) \<le> max_body"
proof (cases "TransferEncodingIsChunked request")
  case True
  obtain st b c where body: "ParseChunkedBody raw off max_body = (st, b, c)" by (metis prod_cases3)
  then have "st = RawComplete" "rp_request r = request\<lparr>hr_body := b\<rparr>" "rp_consumed_bytes r = c"
    using assms(1,2) True by (auto simp: FrameBody_def Let_def split: if_splits)
  with body ChunkLoop_bounds [of max_body "drop off raw" off "[]" b c] assms(3) show ?thesis by (simp add: ParseChunkedBody_def)
next
  case False
  obtain n e t where n: "c_strtoul 10 (2 ^ 32 - 1) (GetHeader request (ascii ''Content-Length'')) = (n, e, t)"
    using c_strtoul_obtain by blast
  show ?thesis using assms False n by (auto simp: FrameBody_def Let_def not_less split: if_splits)
qed

lemma FrameBody_stable:
  assumes "FrameBody moved raw max_body off request version = r" and "rp_status r \<in> {RawComplete, RawBadRequest}" and "off \<le> length raw"
    and "rp_status r = RawComplete \<Longrightarrow> GetHeader (rp_request r) (ascii ''Content-Length'') \<noteq> []
       \<or> TransferEncodingIsChunked (rp_request r) \<or> length raw + length extra \<le> rp_consumed_bytes r + max_body"
  shows "FrameBody moved (raw @ extra) max_body off request version = r"
proof (cases "TransferEncodingIsChunked request")
  case True
  obtain st b c where body: "ParseChunkedBody raw off max_body = (st, b, c)" by (metis prod_cases3)
  show ?thesis
  proof (cases "GetHeader request (ascii ''Content-Length'') = []")
    case cl: True
    then have "st \<noteq> RawIncomplete" using assms(1,2) True body by (auto simp: FrameBody_def Let_def split: if_splits)
    then have "ParseChunkedBody (raw @ extra) off max_body = (st, b, c)"
      using ChunkLoop_stable [of max_body "drop off raw" off "[]" st b c extra] body assms(3) by (simp add: ParseChunkedBody_def)
    then show ?thesis using assms(1) True cl body by (simp add: FrameBody_def Let_def)
  qed (use assms(1) True in \<open>simp add: FrameBody_def Let_def\<close>)
next
  case False
  obtain n e t where n: "c_strtoul 10 (2 ^ 32 - 1) (GetHeader request (ascii ''Content-Length'')) = (n, e, t)"
    using c_strtoul_obtain by blast
  show ?thesis
  proof (cases "GetHeader request (ascii ''Content-Length'') = []")
    case cl: True
    then have ok: "rp_status r = RawComplete" "rp_request r = request" "rp_consumed_bytes r = off" "length raw - off \<le> max_body"
      using assms(1,2) False by (auto simp: FrameBody_def Let_def split: if_splits)
    then have "length raw + length extra \<le> off + max_body" using assms(4) cl False by simp
    then show ?thesis using assms(1) False cl ok(4) by (simp add: FrameBody_def Let_def)
  next
    case cl: False
    show ?thesis
    proof (cases "t = [] \<and> n \<le> max_body")
      case True
      then have "n \<le> length raw - off" using assms(1,2) False cl n by (auto simp: FrameBody_def Let_def not_less split: if_splits)
      then show ?thesis using assms(1,3) False cl n True by (simp add: FrameBody_def Let_def)
    qed (use assms(1) False cl n in \<open>auto simp: FrameBody_def Let_def\<close>)
  qed
qed

text \<open>A verdict other than \<open>kIncomplete\<close> and \<open>kPayloadTooLarge\<close> was reached behind the end of the header.\<close>

lemma ParseRawRequest_header:
  assumes "rp_status (ParseRawRequest moved raw max_header max_body ip) \<in> {RawComplete, RawBadRequest}"
  obtains h where "find_sub (CRLF @ CRLF) raw = Some h" "h \<le> max_header" "h + 4 \<le> length raw"
      "\<And>extra. ParseRawRequest moved (raw @ extra) max_header max_body ip =
         (case ParseHeaderBlock (take h raw) ip of
            None \<Rightarrow> raw_status RawBadRequest
          | Some (request, version) \<Rightarrow> FrameBody moved (raw @ extra) max_body (h + 4) request version)"
proof -
  obtain h where h: "find_sub (CRLF @ CRLF) raw = Some h" "h \<le> max_header"
    using assms by (auto simp: ParseRawRequest_def split: option.splits if_splits)
  have "h + 4 \<le> length raw" using find_sub_Some [OF h(1)] by simp
  with h find_sub_append [OF h(1)] that show thesis by (simp add: ParseRawRequest_def)
qed

text \<open>
  For any bytes, a complete request lies inside the receive buffer: it consumes at least the
  four bytes of the header end and at most what has been received, its header is within the header
  limit, and its body within the body limit.
\<close>

lemma http_request_bounded:
  assumes "ParseRawRequest moved raw max_header max_body ip = r" and "rp_status r = RawComplete"
  shows "4 \<le> rp_consumed_bytes r \<and> rp_consumed_bytes r \<le> length raw \<and> length (hr_body (rp_request r)) \<le> max_body
     \<and> (\<exists>header_end \<le> max_header. find_sub (CRLF @ CRLF) raw = Some header_end \<and> header_end + 4 \<le> rp_consumed_bytes r)"
proof -
  have "rp_status (ParseRawRequest moved raw max_header max_body ip) \<in> {RawComplete, RawBadRequest}" using assms by simp
  then obtain h where h: "find_sub (CRLF @ CRLF) raw = Some h" "h \<le> max_header" "h + 4 \<le> length raw"
    "\<And>extra. ParseRawRequest moved (raw @ extra) max_header max_body ip =
         (case ParseHeaderBlock (take h raw) ip of
            None \<Rightarrow> raw_status RawBadRequest
          | Some (request, version) \<Rightarrow> FrameBody moved (raw @ extra) max_body (h + 4) request version)"
    by (rule ParseRawRequest_header) blast
  obtain request version where head: "ParseHeaderBlock (take h raw) ip = Some (request, version)"
    and "FrameBody moved raw max_body (h + 4) request version = r"
    using h(4) [of "[]"] assms by (auto split: option.splits)
  from FrameBody_complete [OF this(2) assms(2) h(3) ParseHeaderBlock_no_body [OF head]] h show ?thesis by auto
qed

text \<open>
  Claim C16. A verdict does not change when more bytes arrive: a buffer that starts with a complete request
  gives the same request, and a buffer that starts with a malformed one is refused in the same way, however
  the network cuts the stream. The exception is a complete request without \<open>Content-Length\<close> and
  chunked coding, which is accepted only while at most \<open>max_body\<close> bytes wait behind it.
\<close>

theorem http_verdict_stable:
  assumes "ParseRawRequest moved raw max_header max_body ip = r" and "rp_status r \<in> {RawComplete, RawBadRequest}"
    and "rp_status r = RawComplete \<Longrightarrow> GetHeader (rp_request r) (ascii ''Content-Length'') \<noteq> []
       \<or> TransferEncodingIsChunked (rp_request r) \<or> length raw + length extra \<le> rp_consumed_bytes r + max_body"
  shows "ParseRawRequest moved (raw @ extra) max_header max_body ip = r"
proof -
  obtain h where h: "h + 4 \<le> length raw"
    "\<And>extra. ParseRawRequest moved (raw @ extra) max_header max_body ip =
         (case ParseHeaderBlock (take h raw) ip of
            None \<Rightarrow> raw_status RawBadRequest
          | Some (request, version) \<Rightarrow> FrameBody moved (raw @ extra) max_body (h + 4) request version)"
    using assms(2) unfolding assms(1) [symmetric] by (rule ParseRawRequest_header) blast
  show ?thesis
  proof (cases "ParseHeaderBlock (take h raw) ip")
    case None
    then show ?thesis using h(2) [of "[]"] h(2) [of extra] assms(1) by simp
  next
    case (Some rv)
    then obtain request version where head: "ParseHeaderBlock (take h raw) ip = Some (request, version)" by (cases rv) auto
    then have "FrameBody moved raw max_body (h + 4) request version = r" using h(2) [of "[]"] assms(1) by simp
    from FrameBody_stable [OF this assms(2) h(1) assms(3)] head show ?thesis using h(2) [of extra] by simp
  qed
qed

theorem http_verdict_stable_witness:
  "ParseRawRequest id (ascii ''GET / HTTP/1.1'' @ CRLF @ CRLF @ ascii ''GET'') 100 100 []
     = ParseRawRequest id (ascii ''GET / HTTP/1.1'' @ CRLF @ CRLF) 100 100 []"
proof -
  let ?raw = "ascii ''GET / HTTP/1.1'' @ CRLF @ CRLF"
  have "rp_status (ParseRawRequest id ?raw 100 100 []) = RawComplete" by code_simp
  then show ?thesis using http_verdict_stable [OF refl, of id ?raw 100 100 "[]" "ascii ''GET''"] by simp
qed

end
