(* ===== verification/Http_Messages.thy ===== *)
theory Http_Messages
  imports Http_Protocol
begin

text \<open>
  Requests as clients write them, and the proof that \<open>ParseRawRequest\<close> reads them back: request line,
  header lines, and a body framed by \<open>Content-Length\<close> or by chunked coding.
\<close>

section \<open>Lines\<close>

definition line_ok :: "bytes \<Rightarrow> bool" where
  "line_ok l \<longleftrightarrow> l \<noteq> [] \<and> 0x0a \<notin> set l"

fun joined_text :: "bytes list \<Rightarrow> bytes" where
  "joined_text [] = []"
| "joined_text [l] = l"
| "joined_text (l # l' # ls) = l @ CRLF @ joined_text (l' # ls)"

lemma find_sub_skip:
  assumes "\<forall>k < length s. take (length pat) (drop k (s @ t)) \<noteq> pat"
  shows "find_sub pat (s @ t) = map_option (\<lambda>n. length s + n) (find_sub pat t)"
  using assms
proof (induction s)
  case Nil
  then show ?case by (simp add: option.map_ident)
next
  case (Cons c s)
  have "take (length pat) (c # s @ t) \<noteq> pat" using Cons.prems by (auto dest: spec [of _ 0])
  moreover have "\<forall>k < length s. take (length pat) (drop k (s @ t)) \<noteq> pat"
    using Cons.prems by (auto dest: spec [of _ "Suc k" for k])
  ultimately show ?case using Cons.IH by (simp add: option.map_comp comp_def)
qed

lemma no_break_in_line:
  assumes "0x0a \<notin> set l" and "k < length l"
  shows "take 4 (drop k (l @ CRLF @ t)) \<noteq> CRLF @ CRLF"
proof
  assume "take 4 (drop k (l @ CRLF @ t)) = CRLF @ CRLF"
  then have "take 4 (drop k (l @ CRLF @ t)) ! 1 = 0x0a" by (simp add: CRLF_def)
  then have "(l @ CRLF @ t) ! (k + 1) = 0x0a" using assms(2) by (simp del: drop_append take_append)
  then show False using assms by (cases "k + 1 < length l") (auto simp: nth_append CRLF_def not_less le_Suc_eq dest: nth_mem)
qed

lemma line_starts: "line_ok l \<Longrightarrow> take 2 (l @ CRLF @ t) \<noteq> CRLF"
  by (cases l; cases "tl l") (auto simp: line_ok_def CRLF_def)

lemma joined_starts: "ls \<noteq> [] \<Longrightarrow> list_all line_ok ls \<Longrightarrow> take 2 (joined_text ls @ CRLF @ t) \<noteq> CRLF"
  using line_starts by (cases ls rule: joined_text.cases) auto

lemma header_end:
  assumes "ls \<noteq> []" and "list_all line_ok ls"
  shows "find_sub (CRLF @ CRLF) (joined_text ls @ CRLF @ CRLF @ t) = Some (length (joined_text ls))"
  using assms
proof (induction ls rule: joined_text.induct)
  case (2 l)
  have "find_sub (CRLF @ CRLF) (l @ CRLF @ CRLF @ t) = map_option (\<lambda>n. length l + n) (find_sub (CRLF @ CRLF) (CRLF @ CRLF @ t))"
    by (rule find_sub_skip) (use 2 no_break_in_line [of l _ "CRLF @ t"] in \<open>auto simp: line_ok_def\<close>)
  also have "find_sub (CRLF @ CRLF) (CRLF @ CRLF @ t) = Some 0" by (simp add: CRLF_def)
  finally show ?case by simp
next
  case (3 l l' ls)
  let ?t = "joined_text (l' # ls) @ CRLF @ CRLF @ t"
  have start: "take 2 ?t \<noteq> CRLF" using joined_starts [of "l' # ls" "CRLF @ t"] 3 by simp
  have "take 4 (drop k ((l @ CRLF) @ ?t)) \<noteq> CRLF @ CRLF" if "k < length (l @ CRLF)" for k
  proof -
    consider "k < length l" | "k = length l" | "k = length l + 1" using \<open>k < length (l @ CRLF)\<close> by fastforce
    then show ?thesis
    proof cases
      case 1
      then show ?thesis using no_break_in_line [of l k ?t] 3 by (simp add: line_ok_def)
    next
      case 2
      then show ?thesis using start by (simp add: take_append CRLF_def numeral_eq_Suc)
    next
      case 3
      then show ?thesis by (simp add: CRLF_def)
    qed
  qed
  then have "find_sub (CRLF @ CRLF) ((l @ CRLF) @ ?t) = map_option (\<lambda>n. length (l @ CRLF) + n) (find_sub (CRLF @ CRLF) ?t)"
    by (intro find_sub_skip) simp
  then show ?case using 3 by simp
qed simp

section \<open>Headers\<close>

definition header_line :: "bytes \<times> bytes \<Rightarrow> bytes" where
  "header_line h = fst h @ [0x3a, 0x20] @ snd h"

definition header_ok :: "bytes \<times> bytes \<Rightarrow> bool" where
  "header_ok h \<longleftrightarrow> 0x3a \<notin> set (fst h) \<and> 0x0a \<notin> set (fst h @ snd h) \<and> Trim (fst h) = fst h \<and> Trim (snd h) = snd h"

definition set_headers :: "(bytes \<times> bytes) list \<Rightarrow> (bytes \<times> bytes) list \<Rightarrow> (bytes \<times> bytes) list" where
  "set_headers m hs = foldl (\<lambda>m h. map_set (fst h) (snd h) m) m hs"

lemma Trim_space: "Trim (0x20 # v) = Trim v"
  by (simp add: Trim_def is_space_def)

lemma header_line_ok: "header_ok h \<Longrightarrow> line_ok (header_line h)"
  by (auto simp: header_ok_def line_ok_def header_line_def)

lemma HeaderLoop_joined:
  assumes "list_all header_ok hs"
  shows "HeaderLoop (joined_text (map header_line hs)) m = Some (set_headers m hs)"
  using assms
proof (induction hs arbitrary: m)
  case Nil
  then show ?case by (simp add: HeaderLoop.simps set_headers_def)
next
  case (Cons h hs)
  have ok: "header_ok h" using Cons.prems by simp
  have lf: "0x0a \<notin> set (header_line h)" using header_line_ok [OF ok] by (simp add: line_ok_def)
  have colon: "find_char 0x3a (header_line h) = Some (length (fst h))"
    using ok find_char_append [of "0x3a" "fst h" "0x20 # snd h"] by (simp add: header_line_def header_ok_def)
  have parts: "Trim (take (length (fst h)) (header_line h)) = fst h" "Trim (drop (length (fst h) + 1) (header_line h)) = snd h"
    using ok by (simp_all add: header_line_def header_ok_def Trim_space)
  have ne: "header_line h \<noteq> []" by (simp add: header_line_def)
  show ?case
  proof (cases hs)
    case Nil
    then show ?thesis using colon parts ne find_CRLF_None [OF lf] by (simp add: HeaderLoop.simps set_headers_def)
  next
    case (Cons h' hs')
    have "HeaderLoop (joined_text (map header_line (h # hs))) m
        = HeaderLoop (joined_text (map header_line hs)) (map_set (fst h) (snd h) m)"
      using colon parts ne find_CRLF_line [OF lf, of "joined_text (map header_line hs)"] Cons
      by (subst HeaderLoop.simps) (simp add: Let_def)
    then show ?thesis using Cons.IH [of "map_set (fst h) (snd h) m"] Cons.prems by (simp add: set_headers_def)
  qed
qed

lemma map_set_subset: "set (map_set k v m) \<subseteq> insert (k, v) (set m)"
proof (induction k v m rule: map_set.induct)
  case (2 k v k' v' m)
  then show ?case by (cases "k = k'"; cases "k < k'") auto
qed simp

lemma map_set_in: "(k, v) \<in> set (map_set k v m)"
  using map_of_SomeD [of "map_set k v m" k v] by (simp add: map_set_map_of)

lemma set_headers_subset: "set (set_headers m hs) \<subseteq> set m \<union> set hs"
proof (induction hs arbitrary: m)
  case (Cons h hs)
  then show ?case using map_set_subset [of "fst h" "snd h" m] by (fastforce simp: set_headers_def)
qed (simp add: set_headers_def)

lemma set_headers_last: "h \<in> set (set_headers m (hs @ [h]))"
  using map_set_in [of "fst h" "snd h"] by (simp add: set_headers_def)

text \<open>Looking up a name that occurs at most once.\<close>

lemma GetHeaderLoop_unique:
  "\<exists>h \<in> set m. ToLower (fst h) = name \<Longrightarrow> \<forall>h \<in> set m. ToLower (fst h) = name \<longrightarrow> snd h = v \<Longrightarrow> GetHeaderLoop name m = v"
  by (induction m) auto

lemma GetHeaderLoop_absent: "\<forall>h \<in> set m. ToLower (fst h) \<noteq> name \<Longrightarrow> GetHeaderLoop name m = []"
  by (induction m) auto

section \<open>Numbers\<close>

definition hex_char :: "nat \<Rightarrow> u8" where
  "hex_char d = (if d < 10 then word_of_nat (48 + d) else word_of_nat (87 + d))"

fun show_hex :: "nat \<Rightarrow> bytes" where
  "show_hex n = (if n < 16 then [hex_char n] else show_hex (n div 16) @ [hex_char (n mod 16)])"

declare show_hex.simps [simp del]

lemma digit_char: "d < 10 \<Longrightarrow> digit_value (word_of_nat (48 + d)) = d"
proof -
  have "list_all (\<lambda>d. digit_value (word_of_nat (48 + d)) = d) [0..<10]" by code_simp
  then show "d < 10 \<Longrightarrow> ?thesis" by (simp add: list_all_iff)
qed

lemma digit_hex_char: "d < 16 \<Longrightarrow> digit_value (hex_char d) = d"
proof -
  have "list_all (\<lambda>d. digit_value (hex_char d) = d) [0..<16]" by code_simp
  then show "d < 16 \<Longrightarrow> ?thesis" by (simp add: list_all_iff)
qed

lemma scan_digits_append: "\<forall>c \<in> set s. digit_value c < base \<Longrightarrow>
    scan_digits base (s @ t) v = scan_digits base t (foldl (\<lambda>v c. v * base + digit_value c) v s)"
  by (induction s arbitrary: v) auto

definition digits :: "nat \<Rightarrow> bytes \<Rightarrow> nat \<Rightarrow> bool" where
  "digits base s n \<longleftrightarrow> s \<noteq> [] \<and> (\<forall>c \<in> set s. digit_value c < base) \<and> foldl (\<lambda>v c. v * base + digit_value c) 0 s = n"

lemma show_nat_digits: "digits 10 (show_nat n) n"
proof (induction n rule: show_nat.induct)
  case (1 n)
  show ?case
  proof (cases "n < 10")
    case True
    then show ?thesis by (subst show_nat.simps) (simp add: digits_def digit_char [simplified])
  next
    case False
    then show ?thesis using 1 by (subst show_nat.simps) (auto simp: digits_def digit_char [simplified])
  qed
qed

lemma show_hex_digits: "digits 16 (show_hex n) n"
proof (induction n rule: show_hex.induct)
  case (1 n)
  show ?case
  proof (cases "n < 16")
    case True
    then show ?thesis by (subst show_hex.simps) (simp add: digits_def digit_hex_char)
  next
    case False
    then show ?thesis using 1 by (subst show_hex.simps) (auto simp: digits_def digit_hex_char)
  qed
qed

text \<open>A character that is a digit is none of the special ones.\<close>

lemma digit_not_special: "digit_value c < 16 \<Longrightarrow>
    c \<noteq> 0 \<and> \<not> is_space c \<and> c \<noteq> 0x2d \<and> c \<noteq> 0x2b \<and> c \<noteq> 0x78 \<and> c \<noteq> 0x58 \<and> c \<noteq> 0x3b \<and> c \<noteq> 0x0a \<and> c \<noteq> 0x0d"
  by (auto simp: digit_value_def is_space_def word_le_nat_alt split: if_splits)

lemma c_strtoul_digits:
  assumes "digits base s n" and "base \<in> {10, 16}" and "n \<le> max_value"
  shows "c_strtoul base max_value s = (n, False, [])"
proof -
  have d: "s \<noteq> []" "\<forall>c \<in> set s. digit_value c < base" "foldl (\<lambda>v c. v * base + digit_value c) 0 s = n"
    using assms(1) by (simp_all add: digits_def)
  have sp: "c \<in> set s \<Longrightarrow> c \<noteq> 0 \<and> \<not> is_space c \<and> c \<noteq> 0x2d \<and> c \<noteq> 0x2b \<and> c \<noteq> 0x78 \<and> c \<noteq> 0x58" for c
    using d(2) assms(2) digit_not_special [of c] by fastforce
  have tw: "takeWhile (\<lambda>c. c \<noteq> 0) s = s" using sp by (simp add: takeWhile_eq_all_conv)
  have dw: "dropWhile is_space s = s" using sp d(1) by (cases s) auto
  have hd: "hd s \<noteq> 0x2d" "hd s \<noteq> 0x2b" using sp d(1) by (auto dest: hd_in_set)
  have pre: "skip_prefix base s = s" using sp [OF nth_mem [of 1 s]] by (auto simp: skip_prefix_def)
  have "digit_value (hd s) < base" using d by (auto dest: hd_in_set)
  moreover have "scan_digits base s 0 = (n, [])" using scan_digits_append [OF d(2), of "[]" 0] d(3) by simp
  ultimately show ?thesis unfolding c_strtoul_def Let_def tw dw using assms(3) d(1) hd by (simp add: pre)
qed

lemma Trim_id: "s \<noteq> [] \<Longrightarrow> \<not> is_space (hd s) \<Longrightarrow> \<not> is_space (last s) \<Longrightarrow> Trim s = s"
proof -
  assume s: "s \<noteq> []" "\<not> is_space (hd s)" "\<not> is_space (last s)"
  have dw: "t \<noteq> [] \<Longrightarrow> \<not> is_space (hd t) \<Longrightarrow> dropWhile is_space t = t" for t by (cases t) auto
  show ?thesis using dw [of s] dw [of "rev s"] s by (simp add: Trim_def hd_rev)
qed

lemma Trim_digits: "digits base s n \<Longrightarrow> base \<le> 16 \<Longrightarrow> Trim s = s"
proof (rule Trim_id)
  assume "digits base s n" "base \<le> 16"
  then show "s \<noteq> []" "\<not> is_space (hd s)" "\<not> is_space (last s)"
    using digit_not_special [of "hd s"] digit_not_special [of "last s"]
    by (auto simp: digits_def dest: hd_in_set last_in_set order.strict_trans2)
qed

lemma ParseChunkSizeLine_hex: "n \<le> SIZE_MAX \<Longrightarrow> ParseChunkSizeLine (show_hex n) = Some n"
proof -
  assume n: "n \<le> SIZE_MAX"
  note d = show_hex_digits [of n]
  have sp: "c \<in> set (show_hex n) \<Longrightarrow> c \<noteq> 0 \<and> c \<noteq> 0x3b" for c
    using d digit_not_special [of c] by (auto simp: digits_def)
  have none: "find_char 0x3b (show_hex n) = None" using sp by (auto simp: find_char_None)
  have ne: "show_hex n \<noteq> []" using d by (simp add: digits_def)
  have tw: "takeWhile (\<lambda>c. c \<noteq> 0) (show_hex n) = show_hex n" using sp by (simp add: takeWhile_eq_all_conv)
  have tr: "Trim (show_hex n) = show_hex n" using Trim_digits [OF d] by simp
  have "n \<le> 2 ^ 64 - 1" using n by simp
  then have num: "c_strtoul 16 (2 ^ 64 - 1) (show_hex n) = (n, False, [])" using c_strtoul_digits [OF d] by blast
  show ?thesis unfolding ParseChunkSizeLine_def Let_def none option.case tr num prod.case tw using n ne by simp
qed

section \<open>Chunked bodies\<close>

definition chunk_ok :: "bytes \<Rightarrow> bool" where
  "chunk_ok c \<longleftrightarrow> c \<noteq> [] \<and> length c \<le> SIZE_MAX"

lemma chunk_ok_code [code]: "chunk_ok c \<longleftrightarrow> c \<noteq> [] \<and> int (length c) \<le> 4294967295"
  by (simp add: chunk_ok_def)

definition print_chunk :: "bytes \<Rightarrow> bytes" where
  "print_chunk c = show_hex (length c) @ CRLF @ c @ CRLF"

definition print_chunks :: "bytes list \<Rightarrow> bytes" where
  "print_chunks cs = concat (map print_chunk cs) @ show_hex 0 @ CRLF @ CRLF"

lemma show_hex_line: "find_sub CRLF (show_hex n @ CRLF @ t) = Some (length (show_hex n))"
proof (rule find_CRLF_line)
  show "0x0a \<notin> set (show_hex n)" using show_hex_digits [of n] digit_not_special [of "0x0a"] by (auto simp: digits_def)
qed

lemma ChunkLoop_step:
  assumes "find_sub CRLF rest = Some n" and "ParseChunkSizeLine (take n rest) = Some k"
  shows "drop (n + 2) rest = CRLF @ t \<Longrightarrow> k = 0 \<Longrightarrow> ChunkLoop max_body rest pos body = (RawComplete, body, pos + n + 4)"
    and "drop (n + 2) rest = c @ CRLF @ t \<Longrightarrow> c \<noteq> [] \<Longrightarrow> k = length c \<Longrightarrow> length body + length c \<le> max_body \<Longrightarrow>
      ChunkLoop max_body rest pos body = ChunkLoop max_body t (pos + n + 2 + length c + 2) (body @ c)"
proof -
  show "drop (n + 2) rest = CRLF @ t \<Longrightarrow> k = 0 \<Longrightarrow> ChunkLoop max_body rest pos body = (RawComplete, body, pos + n + 4)"
    by (simp add: ChunkLoop.simps [of max_body rest pos body] assms Let_def)
  assume t: "drop (n + 2) rest = c @ CRLF @ t" and c: "c \<noteq> []" "k = length c" "length body + length c \<le> max_body"
  have "drop (length c + 2) (c @ CRLF @ t) = t" "\<not> max_body < length c" "\<not> max_body - length c < length body" using c by simp_all
  then show "ChunkLoop max_body rest pos body = ChunkLoop max_body t (pos + n + 2 + length c + 2) (body @ c)"
    unfolding ChunkLoop.simps [of max_body rest pos body] assms option.case Let_def t c(2) using c(1) by simp
qed

lemma ChunkLoop_end: "ChunkLoop max_body (show_hex 0 @ CRLF @ CRLF @ rest) pos body = (RawComplete, body, pos + length (show_hex 0) + 4)"
  by (rule ChunkLoop_step(1) [OF show_hex_line [of 0 "CRLF @ rest"]]) (simp_all add: ParseChunkSizeLine_hex)

lemma ChunkLoop_chunk:
  assumes "chunk_ok c" and "length body + length c \<le> max_body"
  shows "ChunkLoop max_body (print_chunk c @ t) pos body = ChunkLoop max_body t (pos + length (print_chunk c)) (body @ c)"
proof -
  let ?s = "show_hex (length c) @ CRLF @ c @ CRLF @ t"
  have "ChunkLoop max_body ?s pos body = ChunkLoop max_body t (pos + length (show_hex (length c)) + 2 + length c + 2) (body @ c)"
    by (rule ChunkLoop_step(2) [OF show_hex_line [of "length c" "c @ CRLF @ t"]])
      (use assms in \<open>simp_all add: ParseChunkSizeLine_hex chunk_ok_def\<close>)
  then show ?thesis by (simp add: print_chunk_def ac_simps)
qed

lemma ChunkLoop_chunks:
  assumes "list_all chunk_ok cs" and "length body + length (concat cs) \<le> max_body"
  shows "ChunkLoop max_body (print_chunks cs @ rest) pos body
     = (RawComplete, body @ concat cs, pos + length (print_chunks cs))"
  using assms
proof (induction cs arbitrary: pos body)
  case Nil
  then show ?case using ChunkLoop_end [of max_body rest pos body] by (simp add: print_chunks_def)
next
  case (Cons c cs)
  have "print_chunks (c # cs) @ rest = print_chunk c @ print_chunks cs @ rest" by (simp add: print_chunks_def)
  then show ?case using Cons.IH [of "body @ c" "pos + length (print_chunk c)"] Cons.prems ChunkLoop_chunk [of c body max_body]
    by (simp add: print_chunks_def)
qed

section \<open>Requests\<close>

datatype client_body = NoBody | Sized bytes | Chunked "bytes list"

record client_request =
  cr_method :: bytes
  cr_path :: bytes
  cr_query :: "bytes option"
  cr_version :: bytes
  cr_headers :: "(bytes \<times> bytes) list"
  cr_body :: client_body

fun body_headers :: "client_body \<Rightarrow> (bytes \<times> bytes) list" where
  "body_headers NoBody = []"
| "body_headers (Sized b) = [(ascii ''Content-Length'', show_nat (length b))]"
| "body_headers (Chunked cs) = [(ascii ''Transfer-Encoding'', ascii ''chunked'')]"

fun print_body :: "client_body \<Rightarrow> bytes" where
  "print_body NoBody = []"
| "print_body (Sized b) = b"
| "print_body (Chunked cs) = print_chunks cs"

fun body_bytes :: "client_body \<Rightarrow> bytes" where
  "body_bytes NoBody = []"
| "body_bytes (Sized b) = b"
| "body_bytes (Chunked cs) = concat cs"

definition all_headers :: "client_request \<Rightarrow> (bytes \<times> bytes) list" where
  "all_headers r = cr_headers r @ body_headers (cr_body r)"

definition print_target :: "client_request \<Rightarrow> bytes" where
  "print_target r = cr_path r @ (case cr_query r of None \<Rightarrow> [] | Some q \<Rightarrow> 0x3f # q)"

definition request_line :: "client_request \<Rightarrow> bytes" where
  "request_line r = cr_method r @ [0x20] @ print_target r @ [0x20] @ cr_version r"

definition print_header :: "client_request \<Rightarrow> bytes" where
  "print_header r = joined_text (request_line r # map header_line (all_headers r))"

definition print_request :: "client_request \<Rightarrow> bytes" where
  "print_request r = print_header r @ CRLF @ CRLF @ print_body (cr_body r)"

definition request_ok :: "client_request \<Rightarrow> bool" where
  "request_ok r \<longleftrightarrow>
     cr_method r \<in> {ascii ''GET'', ascii ''POST'', ascii ''PUT'', ascii ''DELETE''}
   \<and> cr_version r \<in> {ascii ''HTTP/1.0'', ascii ''HTTP/1.1''}
   \<and> 0x20 \<notin> set (print_target r) \<and> 0x0a \<notin> set (print_target r) \<and> 0x3f \<notin> set (cr_path r)
   \<and> list_all header_ok (cr_headers r)
   \<and> list_all (\<lambda>h. ToLower (fst h) \<noteq> ascii ''content-length'' \<and> ToLower (fst h) \<noteq> ascii ''transfer-encoding'') (cr_headers r)
   \<and> (case cr_body r of Chunked cs \<Rightarrow> list_all chunk_ok cs | _ \<Rightarrow> True)"

text \<open>What the server makes of it.\<close>

definition received :: "client_request \<Rightarrow> bytes \<Rightarrow> HttpRequest" where
  "received r ip = empty_http_request\<lparr>hr_method := ParseMethod (cr_method r), hr_client_ip := ip, hr_path := cr_path r,
     hr_query_string := (case cr_query r of None \<Rightarrow> [] | Some q \<Rightarrow> q), hr_headers := set_headers [] (all_headers r),
     hr_body := body_bytes (cr_body r)\<rparr>"

lemma print_header_block:
  "print_header r = (if all_headers r = [] then request_line r else request_line r @ CRLF @ joined_text (map header_line (all_headers r)))"
  by (cases "all_headers r") (simp_all add: print_header_def)

lemma show_nat_header_ok: "header_ok (ascii ''Content-Length'', show_nat n)"
proof -
  have "0x0a \<notin> set (show_nat n)" using show_nat_digits [of n] digit_not_special [of "0x0a"] by (auto simp: digits_def)
  moreover have "Trim (ascii ''Content-Length'') = ascii ''Content-Length''" by code_simp
  moreover have "0x3a \<notin> set (ascii ''Content-Length'')" "0x0a \<notin> set (ascii ''Content-Length'')" by code_simp+
  ultimately show ?thesis using Trim_digits [OF show_nat_digits] by (simp add: header_ok_def)
qed

lemma chunked_header_ok: "header_ok (ascii ''Transfer-Encoding'', ascii ''chunked'')"
  by code_simp

lemma all_headers_ok: "request_ok r \<Longrightarrow> list_all header_ok (all_headers r)"
  by (cases "cr_body r") (auto simp: request_ok_def all_headers_def show_nat_header_ok chunked_header_ok)

lemma request_line_ok: "request_ok r \<Longrightarrow> line_ok (request_line r)"
proof -
  assume "request_ok r"
  moreover have "0x0a \<notin> set (ascii ''GET'')" "0x0a \<notin> set (ascii ''POST'')" "0x0a \<notin> set (ascii ''PUT'')" "0x0a \<notin> set (ascii ''DELETE'')"
    "0x0a \<notin> set (ascii ''HTTP/1.0'')" "0x0a \<notin> set (ascii ''HTTP/1.1'')" by code_simp+
  ultimately show ?thesis by (auto simp: request_ok_def request_line_def line_ok_def)
qed

lemma print_header_end:
  "request_ok r \<Longrightarrow> find_sub (CRLF @ CRLF) (print_header r @ CRLF @ CRLF @ t) = Some (length (print_header r))"
  unfolding print_header_def
  by (rule header_end) (use request_line_ok all_headers_ok header_line_ok in \<open>auto simp: list_all_iff\<close>)

lemma request_line_parts:
  assumes "request_ok r"
  shows "find_char 0x20 (request_line r) = Some (length (cr_method r))"
    and "find_char 0x20 (drop (length (cr_method r) + 1) (request_line r)) = Some (length (print_target r))"
proof -
  have "0x20 \<notin> set (ascii ''GET'')" "0x20 \<notin> set (ascii ''POST'')" "0x20 \<notin> set (ascii ''PUT'')" "0x20 \<notin> set (ascii ''DELETE'')"
    by code_simp+
  then have "0x20 \<notin> set (cr_method r)" using assms by (auto simp: request_ok_def)
  from find_char_append [OF this, of "print_target r @ [0x20] @ cr_version r"]
  show "find_char 0x20 (request_line r) = Some (length (cr_method r))" by (simp add: request_line_def)
  have "0x20 \<notin> set (print_target r)" using assms by (simp add: request_ok_def)
  from find_char_append [OF this, of "cr_version r"]
  show "find_char 0x20 (drop (length (cr_method r) + 1) (request_line r)) = Some (length (print_target r))"
    by (simp add: request_line_def)
qed

lemma print_target_parts:
  assumes "request_ok r"
  shows "(case find_char 0x3f (print_target r) of None \<Rightarrow> print_target r | Some q \<Rightarrow> take q (print_target r)) = cr_path r"
    and "(case find_char 0x3f (print_target r) of None \<Rightarrow> [] | Some q \<Rightarrow> drop (q + 1) (print_target r))
       = (case cr_query r of None \<Rightarrow> [] | Some q \<Rightarrow> q)"
proof -
  have path: "0x3f \<notin> set (cr_path r)" using assms by (simp add: request_ok_def)
  then have "find_char 0x3f (print_target r) = (case cr_query r of None \<Rightarrow> None | Some q \<Rightarrow> Some (length (cr_path r)))"
    using find_char_append [OF path] by (simp add: print_target_def find_char_None split: option.splits)
  then show "(case find_char 0x3f (print_target r) of None \<Rightarrow> print_target r | Some q \<Rightarrow> take q (print_target r)) = cr_path r"
    and "(case find_char 0x3f (print_target r) of None \<Rightarrow> [] | Some q \<Rightarrow> drop (q + 1) (print_target r))
       = (case cr_query r of None \<Rightarrow> [] | Some q \<Rightarrow> q)"
    by (simp_all add: print_target_def split: option.splits)
qed

lemma request_line_split:
  assumes "request_ok r"
  shows "(case find_sub CRLF (print_header r) of None \<Rightarrow> print_header r | Some n \<Rightarrow> take n (print_header r)) = request_line r"
    and "(case find_sub CRLF (print_header r) of None \<Rightarrow> [] | Some n \<Rightarrow> drop (n + 2) (print_header r))
       = joined_text (map header_line (all_headers r))"
proof -
  have lf: "0x0a \<notin> set (request_line r)" using request_line_ok [OF assms] by (simp add: line_ok_def)
  show "(case find_sub CRLF (print_header r) of None \<Rightarrow> print_header r | Some n \<Rightarrow> take n (print_header r)) = request_line r"
    and "(case find_sub CRLF (print_header r) of None \<Rightarrow> [] | Some n \<Rightarrow> drop (n + 2) (print_header r))
       = joined_text (map header_line (all_headers r))"
    by (simp_all add: print_header_block find_CRLF_None [OF lf] find_CRLF_line [OF lf])
qed

lemma ParseHeaderBlock_print:
  assumes "request_ok r"
  shows "ParseHeaderBlock (print_header r) ip = Some ((received r ip)\<lparr>hr_body := []\<rparr>, cr_version r)"
proof -
  have "take (length (cr_method r)) (request_line r) = cr_method r"
    "take (length (print_target r)) (drop (length (cr_method r) + 1) (request_line r)) = print_target r"
    "drop (length (cr_method r) + 1 + length (print_target r) + 1) (request_line r) = cr_version r"
    by (simp_all add: request_line_def)
  moreover have "\<not> (cr_method r \<notin> {ascii ''GET'', ascii ''POST'', ascii ''PUT'', ascii ''DELETE''})"
    "\<not> (cr_version r \<noteq> ascii ''HTTP/1.0'' \<and> cr_version r \<noteq> ascii ''HTTP/1.1'')"
    using assms by (auto simp: request_ok_def)
  ultimately show ?thesis
    unfolding ParseHeaderBlock_def Let_def request_line_split [OF assms] request_line_parts [OF assms] option.case
      HeaderLoop_joined [OF all_headers_ok [OF assms]]
    by (simp only: if_False option.case print_target_parts [OF assms]) (simp add: received_def empty_http_request_def)
qed

text \<open>The framing headers of a printed request.\<close>

lemma GetHeader_received:
  assumes "request_ok r" and "n \<in> {ascii ''Content-Length'', ascii ''Transfer-Encoding''}"
  shows "GetHeader (received r ip) n = (case body_headers (cr_body r) of [h] \<Rightarrow> if fst h = n then snd h else [] | _ \<Rightarrow> [])"
proof -
  let ?m = "set_headers [] (all_headers r)"
  have names: "ToLower (ascii ''Content-Length'') = ascii ''content-length''" "ToLower (ascii ''Transfer-Encoding'') = ascii ''transfer-encoding''"
    "ascii ''content-length'' \<noteq> ascii ''transfer-encoding''" "ascii ''Content-Length'' \<noteq> ascii ''Transfer-Encoding''" by code_simp+
  have other: "h \<in> set (cr_headers r) \<Longrightarrow> ToLower (fst h) \<noteq> ToLower n" for h
    using assms names by (auto simp: request_ok_def list_all_iff)
  have sub: "set ?m \<subseteq> set (cr_headers r) \<union> set (body_headers (cr_body r))"
    using set_headers_subset [of "[]" "all_headers r"] by (simp add: all_headers_def)
  show ?thesis
  proof (cases "\<exists>h \<in> set (body_headers (cr_body r)). ToLower (fst h) = ToLower n")
    case False
    then have "GetHeaderLoop (ToLower n) ?m = []" using sub other by (intro GetHeaderLoop_absent) auto
    then show ?thesis using False by (cases "cr_body r") (auto simp: GetHeader_def received_def)
  next
    case True
    then obtain h where h: "body_headers (cr_body r) = [h]" "ToLower (fst h) = ToLower n" by (cases "cr_body r") auto
    have "h \<in> set ?m" using set_headers_last [of h "[]" "cr_headers r"] h(1) by (simp add: all_headers_def)
    then have "GetHeaderLoop (ToLower n) ?m = snd h" using sub other h by (intro GetHeaderLoop_unique) auto
    moreover have "fst h = n" using h assms(2) names by (cases "cr_body r") auto
    ultimately show ?thesis using h(1) by (simp add: GetHeader_def received_def)
  qed
qed

lemma TransferEncodingIsChunked_received:
  assumes "request_ok r"
  shows "TransferEncodingIsChunked (received r ip) \<longleftrightarrow> (\<exists>cs. cr_body r = Chunked cs)"
proof -
  have "CodingLoop (ToLower (ascii ''chunked''))" "\<not> CodingLoop (ToLower [])" by code_simp+
  moreover have "ascii ''Content-Length'' \<noteq> ascii ''Transfer-Encoding''" by code_simp
  ultimately show ?thesis
    by (cases "cr_body r") (simp_all add: TransferEncodingIsChunked_def GetHeader_received [OF assms])
qed

lemma ContentLength_received:
  assumes "request_ok r"
  shows "GetHeader (received r ip) (ascii ''Content-Length'') = (case cr_body r of Sized b \<Rightarrow> show_nat (length b) | _ \<Rightarrow> [])"
proof -
  have "ascii ''Content-Length'' \<noteq> ascii ''Transfer-Encoding''" by code_simp
  then show ?thesis by (cases "cr_body r") (simp_all add: GetHeader_received [OF assms])
qed

text \<open>The server's limits for a printed request with \<open>rest\<close> waiting behind it.\<close>

definition within_limits :: "client_request \<Rightarrow> bytes \<Rightarrow> nat \<Rightarrow> nat \<Rightarrow> bool" where
  "within_limits r rest max_header max_body \<longleftrightarrow>
     length (print_header r) \<le> max_header \<and> length (body_bytes (cr_body r)) \<le> max_body \<and> max_body \<le> SIZE_MAX
   \<and> (cr_body r = NoBody \<longrightarrow> length rest \<le> max_body)"

definition accepted :: "((bytes \<times> bytes) list \<Rightarrow> (bytes \<times> bytes) list) \<Rightarrow> client_request \<Rightarrow> bytes \<Rightarrow> RawParseResult" where
  "accepted moved r ip = \<lparr>rp_status = RawComplete, rp_request = received r ip, rp_consumed_bytes = length (print_request r),
     rp_keep_alive = KeepAlive (cr_version r) ((received r ip)\<lparr>hr_headers := moved (hr_headers (received r ip))\<rparr>)\<rparr>"

lemma ParseRawRequest_print:
  assumes "request_ok r" and "within_limits r rest max_header max_body"
  shows "ParseRawRequest moved (print_request r @ rest) max_header max_body ip = accepted moved r ip"
proof -
  let ?raw = "print_request r @ rest" and ?off = "length (print_header r) + 4" and ?rq = "(received r ip)\<lparr>hr_body := []\<rparr>"
  have head: "find_sub (CRLF @ CRLF) ?raw = Some (length (print_header r))"
    using print_header_end [OF assms(1), of "print_body (cr_body r) @ rest"] by (simp add: print_request_def)
  have "ParseRawRequest moved ?raw max_header max_body ip = FrameBody moved ?raw max_body ?off ?rq (cr_version r)"
    using assms(2) head ParseHeaderBlock_print [OF assms(1), of ip]
    by (simp add: ParseRawRequest_def within_limits_def) (simp add: print_request_def)
  moreover have body: "drop ?off ?raw = print_body (cr_body r) @ rest" by (simp add: print_request_def)
  have len: "length ?raw - ?off = length (print_body (cr_body r)) + length rest" by (simp add: print_request_def)
  have "FrameBody moved ?raw max_body ?off ?rq (cr_version r) = accepted moved r ip"
  proof (cases "cr_body r")
    case NoBody
    then show ?thesis using assms(2) len
      by (simp add: FrameBody_def Let_def headers_only TransferEncodingIsChunked_received [OF assms(1)]
          ContentLength_received [OF assms(1)] within_limits_def accepted_def)
        (simp add: received_def print_request_def)
  next
    case (Sized b)
    have d: "digits 10 (show_nat (length b)) (length b)" by (rule show_nat_digits)
    have "c_strtoul 10 (2 ^ 32 - 1) (show_nat (length b)) = (length b, False, [])"
      by (rule c_strtoul_digits [OF d]) (use assms(2) Sized in \<open>simp_all add: within_limits_def\<close>)
    then show ?thesis using assms(2) Sized len body d
      by (simp add: FrameBody_def Let_def headers_only TransferEncodingIsChunked_received [OF assms(1)]
          ContentLength_received [OF assms(1)] within_limits_def accepted_def digits_def)
        (simp add: received_def print_request_def)
  next
    case (Chunked cs)
    have "list_all chunk_ok cs" using assms(1) Chunked by (simp add: request_ok_def)
    then have "ParseChunkedBody ?raw ?off max_body = (RawComplete, concat cs, ?off + length (print_chunks cs))"
      using ChunkLoop_chunks [of cs "[]" max_body rest ?off] assms(2) Chunked body
      by (simp add: ParseChunkedBody_def within_limits_def)
    then show ?thesis using Chunked
      by (simp add: FrameBody_def Let_def headers_only TransferEncodingIsChunked_received [OF assms(1)]
          ContentLength_received [OF assms(1)] accepted_def)
        (simp add: received_def print_request_def)
  qed
  ultimately show ?thesis by simp
qed

end
