(* ===== verification/Http_Request_Splitter.thy ===== *)
theory Http_Request_Splitter
  imports Http_Messages
begin

text \<open>
  \<open>libs/http/src/http_request_splitter.{h,cpp}\<close>: the receive buffer of a connection, from which complete
  requests are cut one by one. The lemmas show what it answers to a buffer that starts with a printed
  request, whole or cut short.
\<close>

section \<open>Model\<close>

datatype HttpRequestSplitStatus = SplitComplete | SplitIncomplete | SplitBadRequest | SplitPayloadTooLarge

record HttpRequestSplitOptions =
  so_max_header_bytes :: nat
  so_max_body_bytes :: nat

record HttpRequestSplitResult =
  sr_status :: HttpRequestSplitStatus
  sr_request :: HttpRequest
  sr_keep_alive :: bool

record HttpRequestSplitter =
  recv_buffer :: bytes

definition split_result :: "HttpRequestSplitStatus \<Rightarrow> HttpRequestSplitResult" where
  "split_result st = \<lparr>sr_status = st, sr_request = empty_http_request, sr_keep_alive = False\<rparr>"

fun SplitStatusFromRawStatus :: "RawParseStatus \<Rightarrow> HttpRequestSplitStatus" where
  "SplitStatusFromRawStatus RawComplete = SplitComplete"
| "SplitStatusFromRawStatus RawIncomplete = SplitIncomplete"
| "SplitStatusFromRawStatus RawPayloadTooLarge = SplitPayloadTooLarge"
| "SplitStatusFromRawStatus RawBadRequest = SplitBadRequest"

definition LowerAscii :: "bytes \<Rightarrow> bytes" where
  "LowerAscii v = map (\<lambda>c. if 0x41 \<le> c \<and> c \<le> 0x5a then c - 0x41 + 0x61 else c) v"

definition is_blank :: "u8 \<Rightarrow> bool" where
  "is_blank c \<longleftrightarrow> c = 0x20 \<or> c = 0x09"

definition TrimAscii :: "bytes \<Rightarrow> bytes" where
  "TrimAscii v = rev (dropWhile is_blank (rev (dropWhile is_blank v)))"

text \<open>The loop of \<open>HeaderValue\<close>; \<open>Some v\<close> is \<open>true\<close> with \<open>*value = v\<close>.\<close>

function HeaderValueLoop :: "bytes \<Rightarrow> bytes \<Rightarrow> bytes option" where
  "HeaderValueLoop lower_name rest =
     (if rest = [] then None
      else
        let line_end = find_sub CRLF rest;
            line = (case line_end of None \<Rightarrow> rest | Some n \<Rightarrow> take n rest);
            next = (case line_end of None \<Rightarrow> None | Some n \<Rightarrow> HeaderValueLoop lower_name (drop (n + 2) rest))
        in case find_char 0x3a line of
             None \<Rightarrow> next
           | Some colon \<Rightarrow>
               if LowerAscii (TrimAscii (take colon line)) = lower_name then Some (TrimAscii (drop (colon + 1) line)) else next)"
  by pat_completeness auto
termination
  by (relation "measure (\<lambda>(name, rest). length rest)") auto

declare HeaderValueLoop.simps [simp del]

definition HeaderValue :: "bytes \<Rightarrow> bytes \<Rightarrow> bytes option" where
  "HeaderValue header_block name = HeaderValueLoop (LowerAscii name) header_block"

function AsciiCodingLoop :: "bytes \<Rightarrow> bool" where
  "AsciiCodingLoop rest =
     (case find_char 0x2c rest of
        None \<Rightarrow> TrimAscii rest = ascii ''chunked''
      | Some n \<Rightarrow> if TrimAscii (take n rest) = ascii ''chunked'' then True else AsciiCodingLoop (drop (n + 1) rest))"
  by pat_completeness auto
termination
  by (relation "measure length") (auto dest: find_char_Some)

declare AsciiCodingLoop.simps [simp del]

definition HeaderHasChunkedTransferEncoding :: "bytes \<Rightarrow> bool" where
  "HeaderHasChunkedTransferEncoding header_block =
     (case HeaderValue header_block (ascii ''Transfer-Encoding'') of
        None \<Rightarrow> False
      | Some transfer_encoding \<Rightarrow> AsciiCodingLoop (LowerAscii transfer_encoding))"

definition ChunkedRequestRawLimit :: "nat \<Rightarrow> nat \<Rightarrow> nat" where
  "ChunkedRequestRawLimit header_bytes max_body_bytes =
     (let body_limit = max_body_bytes;
          chunk_overhead_limit = 4096 + body_limit div 2;
          max_size = SIZE_MAX
      in if header_bytes > max_size - body_limit \<or> header_bytes + body_limit > max_size - chunk_overhead_limit then max_size
         else header_bytes + body_limit + chunk_overhead_limit)"

definition HttpRequestSplitter_Append :: "bytes option \<Rightarrow> nat \<Rightarrow> HttpRequestSplitter \<Rightarrow> HttpRequestSplitter \<times> bool" where
  "HttpRequestSplitter_Append data sz sp =
     (case data of
        None \<Rightarrow> (sp, False)
      | Some d \<Rightarrow> (sp\<lparr>recv_buffer := recv_buffer sp @ take sz d\<rparr>, True))"

definition HttpRequestSplitter_Clear :: "HttpRequestSplitter \<Rightarrow> HttpRequestSplitter" where
  "HttpRequestSplitter_Clear sp = sp\<lparr>recv_buffer := []\<rparr>"

definition HttpRequestSplitter_BufferedBytes :: "HttpRequestSplitter \<Rightarrow> nat" where
  "HttpRequestSplitter_BufferedBytes sp = length (recv_buffer sp)"

definition ShouldSendContinue :: "nat \<Rightarrow> nat \<Rightarrow> HttpRequestSplitter \<Rightarrow> bool" where
  "ShouldSendContinue max_header_bytes max_body_bytes sp =
     (case find_sub (CRLF @ CRLF) (recv_buffer sp) of
        None \<Rightarrow> False
      | Some header_end \<Rightarrow>
          if header_end > max_header_bytes then False
          else
            let header_block = take header_end (recv_buffer sp) in
            case HeaderValue header_block (ascii ''Expect'') of
              None \<Rightarrow> False
            | Some expect \<Rightarrow>
                if find_sub (ascii ''100-continue'') (LowerAscii expect) = None then False
                else
                  case HeaderValue header_block (ascii ''Content-Length'') of
                    None \<Rightarrow> False
                  | Some content_length_text \<Rightarrow>
                      case c_strtoul 10 (2 ^ 32 - 1) content_length_text of
                        (parsed, erange, rest) \<Rightarrow>
                          if rest = takeWhile (\<lambda>c. c \<noteq> 0) content_length_text \<or> rest \<noteq> [] \<or> parsed = 0 \<or> parsed > max_body_bytes
                          then False
                          else length (recv_buffer sp) - header_end - 4 < parsed)"

definition SplitNext ::
  "((bytes \<times> bytes) list \<Rightarrow> (bytes \<times> bytes) list) \<Rightarrow> HttpRequestSplitOptions \<Rightarrow> bytes \<Rightarrow> HttpRequestSplitter
     \<Rightarrow> HttpRequestSplitter \<times> HttpRequestSplitResult" where
  "SplitNext moved options client_ip sp =
     (if recv_buffer sp = [] then (sp, split_result SplitIncomplete)
      else
        case find_sub (CRLF @ CRLF) (recv_buffer sp) of
          None \<Rightarrow> (sp, split_result (if length (recv_buffer sp) > so_max_header_bytes options then SplitPayloadTooLarge else SplitIncomplete))
        | Some header_end \<Rightarrow>
            if header_end > so_max_header_bytes options then (sp, split_result SplitPayloadTooLarge)
            else
              let parsed = ParseRawRequest moved (recv_buffer sp) (so_max_header_bytes options) (so_max_body_bytes options) client_ip in
              if rp_status parsed = RawIncomplete
               \<and> HeaderHasChunkedTransferEncoding (take header_end (recv_buffer sp))
               \<and> length (recv_buffer sp) > ChunkedRequestRawLimit (header_end + 4) (so_max_body_bytes options)
              then (sp, split_result SplitPayloadTooLarge)
              else if SplitStatusFromRawStatus (rp_status parsed) \<noteq> SplitComplete
              then (sp, split_result (SplitStatusFromRawStatus (rp_status parsed)))
              else if rp_consumed_bytes parsed = 0 \<or> rp_consumed_bytes parsed > length (recv_buffer sp)
              then (sp, split_result SplitBadRequest)
              else (sp\<lparr>recv_buffer := drop (rp_consumed_bytes parsed) (recv_buffer sp)\<rparr>,
                    \<lparr>sr_status = SplitComplete, sr_request = rp_request parsed, sr_keep_alive = rp_keep_alive parsed\<rparr>))"

section \<open>Requests cut short\<close>

text \<open>
  A request that the server is willing to take however it is cut: three bytes of the header end may
  arrive before the fourth, and a chunked request may not have more framing than the raw limit.
\<close>

definition sendable :: "HttpRequestSplitOptions \<Rightarrow> client_request \<Rightarrow> bytes \<Rightarrow> bool" where
  "sendable options r rest \<longleftrightarrow>
     request_ok r \<and> within_limits r rest (so_max_header_bytes options) (so_max_body_bytes options)
   \<and> length (print_header r) + 3 \<le> so_max_header_bytes options
   \<and> length (print_request r) \<le> ChunkedRequestRawLimit (length (print_header r) + 4) (so_max_body_bytes options)"

lemma find_sub_take: "find_sub pat s = Some n \<Longrightarrow> k < n + length pat \<Longrightarrow> find_sub pat (take k s) = None"
proof (rule ccontr)
  assume n: "find_sub pat s = Some n" and k: "k < n + length pat" and "find_sub pat (take k s) \<noteq> None"
  then obtain m where m: "find_sub pat (take k s) = Some m" by auto
  then have "find_sub pat (take k s @ drop k s) = Some m" by (rule find_sub_append)
  with n find_sub_Some [OF m] k show False by simp
qed

lemma SplitStatusFromRawStatus_iff [simp]:
  "SplitStatusFromRawStatus st = SplitComplete \<longleftrightarrow> st = RawComplete"
  "SplitStatusFromRawStatus st = SplitIncomplete \<longleftrightarrow> st = RawIncomplete"
  by (cases st; simp)+

lemma print_request_length: "length (print_request r) = length (print_header r) + 4 + length (print_body (cr_body r))"
  by (simp add: print_request_def)

lemma cut_in_header:
  assumes "request_ok r" and "k < length (print_header r) + 4"
  shows "find_sub (CRLF @ CRLF) (take k (print_request r)) = None"
  using find_sub_take [of "CRLF @ CRLF" "print_request r" "length (print_header r)" k]
    print_header_end [OF assms(1), of "print_body (cr_body r)"] assms(2) by (simp add: print_request_def)

lemma cut_past_header:
  "\<not> k < length (print_header r) + 4 \<Longrightarrow>
     take k (print_request r) = print_header r @ CRLF @ CRLF @ take (k - (length (print_header r) + 4)) (print_body (cr_body r))"
  by (simp add: print_request_def numeral_eq_Suc)

lemma cut_in_chunks:
  assumes "list_all chunk_ok cs" and "length (concat cs) \<le> max_body" and "k < length (print_chunks cs)"
  obtains b c where "ChunkLoop max_body (take k (print_chunks cs)) pos [] = (RawIncomplete, b, c)"
proof -
  obtain st b c where p: "ChunkLoop max_body (take k (print_chunks cs)) pos [] = (st, b, c)" by (metis prod_cases3)
  have "st = RawIncomplete"
  proof (rule ccontr)
    assume "st \<noteq> RawIncomplete"
    from ChunkLoop_stable [OF p this, of "drop k (print_chunks cs)"]
    have "ChunkLoop max_body (print_chunks cs) pos [] = (st, b, c)" by simp
    with ChunkLoop_chunks [OF assms(1), of "[]" max_body "[]" pos] assms(2)
    have st: "st = RawComplete" "c = pos + length (print_chunks cs)" by simp_all
    with p ChunkLoop_bounds [of max_body "take k (print_chunks cs)" pos "[]" b c] assms(3) show False by simp
  qed
  with p that show thesis by simp
qed

lemma ParseRawRequest_cut:
  assumes "request_ok r" and "within_limits r rest max_header max_body" and "length (print_header r) + 3 \<le> max_header"
    and "k < length (print_request r)"
  shows "rp_status (ParseRawRequest moved (take k (print_request r)) max_header max_body ip) = RawIncomplete"
proof (cases "k < length (print_header r) + 4")
  case True
  then show ?thesis using cut_in_header [OF assms(1) True] assms(3,4) by (simp add: ParseRawRequest_def)
next
  case False
  let ?raw = "take k (print_request r)" and ?off = "length (print_header r) + 4" and ?rq = "(received r ip)\<lparr>hr_body := []\<rparr>"
  let ?k = "k - ?off"
  have split: "?raw = print_header r @ CRLF @ CRLF @ take ?k (print_body (cr_body r))" by (rule cut_past_header [OF False])
  have head: "find_sub (CRLF @ CRLF) ?raw = Some (length (print_header r))" unfolding split by (rule print_header_end [OF assms(1)])
  have "take (length (print_header r)) ?raw = print_header r" unfolding split by simp
  then have "ParseRawRequest moved ?raw max_header max_body ip = FrameBody moved ?raw max_body ?off ?rq (cr_version r)"
    using head assms(3) ParseHeaderBlock_print [OF assms(1), of ip] by (simp add: ParseRawRequest_def del: take_take)
  moreover have body: "drop ?off ?raw = take ?k (print_body (cr_body r))" unfolding split by simp
  have len: "length ?raw - ?off = ?k" "?k < length (print_body (cr_body r))"
    using False assms(4) print_request_length [of r] by simp_all
  have "rp_status (FrameBody moved ?raw max_body ?off ?rq (cr_version r)) = RawIncomplete"
  proof (cases "cr_body r")
    case NoBody
    then show ?thesis using len by simp
  next
    case (Sized b)
    have d: "digits 10 (show_nat (length b)) (length b)" by (rule show_nat_digits)
    have "c_strtoul 10 (2 ^ 32 - 1) (show_nat (length b)) = (length b, False, [])"
      by (rule c_strtoul_digits [OF d]) (use assms(2) Sized in \<open>simp_all add: within_limits_def\<close>)
    then show ?thesis using assms(2) Sized len d
      by (simp add: FrameBody_def Let_def headers_only TransferEncodingIsChunked_received [OF assms(1)]
          ContentLength_received [OF assms(1)] within_limits_def digits_def)
  next
    case (Chunked cs)
    have "list_all chunk_ok cs" using assms(1) Chunked by (simp add: request_ok_def)
    then obtain b c where "ChunkLoop max_body (take ?k (print_chunks cs)) ?off [] = (RawIncomplete, b, c)"
      using cut_in_chunks [of cs max_body ?k] assms(2) Chunked len(2) by (auto simp: within_limits_def)
    then have "ParseChunkedBody ?raw ?off max_body = (RawIncomplete, b, c)" using body Chunked by (simp add: ParseChunkedBody_def)
    then show ?thesis using Chunked
      by (simp add: FrameBody_def Let_def headers_only TransferEncodingIsChunked_received [OF assms(1)]
          ContentLength_received [OF assms(1)])
  qed
  ultimately show ?thesis by simp
qed

text \<open>The two answers of the splitter to a sendable request.\<close>

lemma SplitNext_cut:
  assumes "sendable options r rest" and "k < length (print_request r)" and "recv_buffer sp = take k (print_request r)"
  shows "SplitNext moved options ip sp = (sp, split_result SplitIncomplete)"
proof (cases "k < length (print_header r) + 4")
  case True
  then show ?thesis using cut_in_header [of r k] assms by (simp add: SplitNext_def sendable_def)
next
  case False
  have ok: "request_ok r" using assms(1) by (simp add: sendable_def)
  have head: "find_sub (CRLF @ CRLF) (recv_buffer sp) = Some (length (print_header r))"
    unfolding assms(3) cut_past_header [OF False] by (rule print_header_end [OF ok])
  have "rp_status (ParseRawRequest moved (recv_buffer sp) (so_max_header_bytes options) (so_max_body_bytes options) ip) = RawIncomplete"
    unfolding assms(3) by (rule ParseRawRequest_cut) (use assms in \<open>auto simp: sendable_def\<close>)
  then show ?thesis using assms head False by (simp add: SplitNext_def sendable_def Let_def)
qed

lemma SplitNext_whole:
  assumes "sendable options r rest" and "recv_buffer sp = print_request r @ rest"
  shows "SplitNext moved options ip sp =
     (sp\<lparr>recv_buffer := rest\<rparr>, \<lparr>sr_status = SplitComplete, sr_request = received r ip, sr_keep_alive = rp_keep_alive (accepted moved r ip)\<rparr>)"
proof -
  have ok: "request_ok r" "within_limits r rest (so_max_header_bytes options) (so_max_body_bytes options)"
    and hdr: "length (print_header r) \<le> so_max_header_bytes options" using assms(1) by (auto simp: sendable_def)
  have head: "find_sub (CRLF @ CRLF) (recv_buffer sp) = Some (length (print_header r))"
    using print_header_end [OF ok(1), of "print_body (cr_body r) @ rest"] assms(2) by (simp add: print_request_def)
  have "rp_consumed_bytes (accepted moved r ip) = length (print_request r)" "rp_status (accepted moved r ip) = RawComplete"
    "rp_request (accepted moved r ip) = received r ip" by (simp_all add: accepted_def)
  moreover have "0 < length (print_request r)" by (simp add: print_request_length)
  moreover have "recv_buffer sp \<noteq> []" using assms(2) by (simp add: print_request_def CRLF_def)
  ultimately show ?thesis
    using head hdr ParseRawRequest_print [OF ok, of moved ip] assms(2) by (simp add: SplitNext_def Let_def)
qed

text \<open>For any bytes: a request that is cut off leaves the rest of the buffer, and everything else leaves it unchanged.\<close>

lemma split_result_eq [simp]: "split_result a = split_result b \<longleftrightarrow> a = b"
  by (simp add: split_result_def)

lemma SplitNext_cases:
  obtains st where "SplitNext moved options ip sp = (sp, split_result st)" "st \<noteq> SplitComplete"
  | k r where "SplitNext moved options ip sp = (sp\<lparr>recv_buffer := drop k (recv_buffer sp)\<rparr>, r)" "sr_status r = SplitComplete"
      "0 < k" "k \<le> length (recv_buffer sp)"
proof -
  let ?p = "ParseRawRequest moved (recv_buffer sp) (so_max_header_bytes options) (so_max_body_bytes options) ip"
  let ?r = "\<lparr>sr_status = SplitComplete, sr_request = rp_request ?p, sr_keep_alive = rp_keep_alive ?p\<rparr>"
  have "(\<exists>st. SplitNext moved options ip sp = (sp, split_result st) \<and> st \<noteq> SplitComplete)
      \<or> (SplitNext moved options ip sp = (sp\<lparr>recv_buffer := drop (rp_consumed_bytes ?p) (recv_buffer sp)\<rparr>, ?r)
          \<and> 0 < rp_consumed_bytes ?p \<and> rp_consumed_bytes ?p \<le> length (recv_buffer sp))"
    unfolding SplitNext_def Let_def by (auto split: option.split)
  with that show thesis by fastforce
qed

end
