(* ===== verification/Http_Session.thy ===== *)
theory Http_Session
  imports Http_Request_Splitter Media_Types
begin

text \<open>
  \<open>libs/http/src/http_session.{h,cpp}\<close>: the state of one HTTP connection, from its receive buffer through
  the queue of pipelined requests to the media stream it may turn into, with the generations of its
  timeout. All operations run under the mutex of \<open>HttpServer\<close>, so a run of a session is a sequence of
  them. A shared pointer is a number, \<open>None\<close> being the null pointer.
\<close>

section \<open>Model\<close>

datatype HttpMediaClientType = ClientNone | ClientFlv | ClientMjpeg | ClientEventStream

datatype HttpMediaStreamState = MediaNone | MediaOpening | MediaAttached | MediaClosing

record HttpMediaClientHandle =
  mc_type :: HttpMediaClientType
  mc_id :: nat
  mc_event_stream_subscription :: "nat option"
  mc_stream_id :: StreamId

definition no_media_client :: HttpMediaClientHandle where
  "no_media_client = \<lparr>mc_type = ClientNone, mc_id = 0, mc_event_stream_subscription = None, mc_stream_id = StreamMain\<rparr>"

record PendingHttpRequest =
  pr_request :: HttpRequest
  pr_close_after_response :: bool

datatype HttpSessionParseFailure = FailNone | FailBadRequest | FailPayloadTooLarge

record HttpSessionParseOptions =
  po_max_request_header_bytes :: nat
  po_max_request_body_bytes :: nat
  po_max_pipelined_requests :: nat
  po_max_requests_per_connection :: nat
  po_enable_keep_alive :: bool

record HttpRequestLog =
  log_connection_id :: nat
  log_client_ip :: bytes
  log_method :: HttpMethod
  log_path :: bytes
  log_query_size :: nat
  log_body_size :: nat

record HttpSessionParseResult =
  pa_success :: bool
  pa_has_pending :: bool
  pa_failure :: HttpSessionParseFailure

record ClosedHttpSessionInfo =
  ci_media_client :: HttpMediaClientHandle
  ci_was_streaming :: bool

record HttpSessionStreamingInfo =
  si_connection_id :: nat
  si_client_ip :: bytes
  si_media_type :: HttpMediaClientType
  si_stream_state :: HttpMediaStreamState
  si_media_client :: HttpMediaClientHandle
  si_stream_id :: StreamId
  si_streaming :: bool

record RenewedHttpSessionTimeout =
  rt_generation :: nat
  rt_replaced_timer_id :: nat

record HttpSession =
  hs_connection_id :: nat
  hs_client_ip :: bytes
  hs_splitter :: HttpRequestSplitter
  hs_pending_requests :: "PendingHttpRequest list"
  hs_requests :: nat
  hs_timeout_generation :: nat
  hs_timer_id :: nat
  hs_media_client :: HttpMediaClientHandle
  hs_media_type :: HttpMediaClientType
  hs_stream_state :: HttpMediaStreamState
  hs_stream_id :: StreamId
  hs_processing :: bool
  hs_closing :: bool
  hs_streaming :: bool
  hs_continue_sent :: bool

definition HttpSession_new :: "nat \<Rightarrow> bytes \<Rightarrow> HttpSession" where
  "HttpSession_new connection_id client_ip = \<lparr>hs_connection_id = connection_id, hs_client_ip = client_ip,
     hs_splitter = \<lparr>recv_buffer = []\<rparr>, hs_pending_requests = [], hs_requests = 0, hs_timeout_generation = 0, hs_timer_id = 0,
     hs_media_client = no_media_client, hs_media_type = ClientNone, hs_stream_state = MediaNone, hs_stream_id = StreamMain,
     hs_processing = False, hs_closing = False, hs_streaming = False, hs_continue_sent = False\<rparr>"

definition AppendRequestBytes :: "bytes option \<Rightarrow> nat \<Rightarrow> HttpSession \<Rightarrow> HttpSession \<times> bool" where
  "AppendRequestBytes data sz s =
     (if data = None \<or> hs_closing s \<or> hs_streaming s then (s, False)
      else case HttpRequestSplitter_Append data sz (hs_splitter s) of
        (sp, ok) \<Rightarrow> (s\<lparr>hs_timeout_generation := hs_timeout_generation s + 1, hs_splitter := sp\<rparr>, ok))"

definition TakeContinueExpectation :: "HttpSessionParseOptions \<Rightarrow> HttpSession \<Rightarrow> HttpSession \<times> bool" where
  "TakeContinueExpectation options s =
     (if hs_continue_sent s then (s, False)
      else if \<not> ShouldSendContinue (po_max_request_header_bytes options) (po_max_request_body_bytes options) (hs_splitter s)
      then (s, False)
      else (s\<lparr>hs_continue_sent := True\<rparr>, True))"

definition FailureFromSplitStatus :: "HttpRequestSplitStatus \<Rightarrow> HttpSessionParseFailure" where
  "FailureFromSplitStatus status = (if status = SplitPayloadTooLarge then FailPayloadTooLarge else FailBadRequest)"

definition split_options :: "HttpSessionParseOptions \<Rightarrow> HttpRequestSplitOptions" where
  "split_options options = \<lparr>so_max_header_bytes = po_max_request_header_bytes options,
     so_max_body_bytes = po_max_request_body_bytes options\<rparr>"

definition request_log :: "HttpSession \<Rightarrow> HttpRequest \<Rightarrow> HttpRequestLog" where
  "request_log s request = \<lparr>log_connection_id = hs_connection_id s, log_client_ip = hs_client_ip s,
     log_method = hr_method request, log_path = hr_path request, log_query_size = length (hr_query_string request),
     log_body_size = length (hr_body request)\<rparr>"

definition parse_ok :: "HttpSession \<Rightarrow> HttpSessionParseResult" where
  "parse_ok s = \<lparr>pa_success = True, pa_has_pending = (hs_pending_requests s \<noteq> []), pa_failure = FailNone\<rparr>"

text \<open>
  The loop of \<open>ParsePendingRequests\<close>; the first argument counts \<open>max_pipelined_requests - parsed_requests\<close>,
  and \<open>logs\<close> is \<open>*request_logs\<close>, \<open>None\<close> for the null pointer.
\<close>

fun ParseLoop ::
  "nat \<Rightarrow> ((bytes \<times> bytes) list \<Rightarrow> (bytes \<times> bytes) list) \<Rightarrow> HttpSessionParseOptions \<Rightarrow> HttpRequestLog list option \<Rightarrow> HttpSession
     \<Rightarrow> HttpSession \<times> HttpSessionParseResult \<times> HttpRequestLog list option" where
  "ParseLoop 0 moved options logs s = (s, parse_ok s, logs)"
| "ParseLoop (Suc n) moved options logs s =
     (if hs_closing s then (s, parse_ok s, logs)
      else if HttpRequestSplitter_BufferedBytes (hs_splitter s) = 0 then (s, parse_ok s, logs)
      else case SplitNext moved (split_options options) (hs_client_ip s) (hs_splitter s) of
        (sp, split) \<Rightarrow>
          let s = s\<lparr>hs_splitter := sp\<rparr> in
          if sr_status split = SplitIncomplete then (s, parse_ok s, logs)
          else if sr_status split \<noteq> SplitComplete
          then (s\<lparr>hs_closing := True\<rparr>,
                \<lparr>pa_success = False, pa_has_pending = (hs_pending_requests s \<noteq> []), pa_failure = FailureFromSplitStatus (sr_status split)\<rparr>, logs)
          else
            let requests = hs_requests s + 1;
                close = (\<not> po_enable_keep_alive options \<or> \<not> sr_keep_alive split \<or> requests \<ge> po_max_requests_per_connection options);
                s = s\<lparr>hs_requests := requests,
                      hs_pending_requests := hs_pending_requests s @ [\<lparr>pr_request = sr_request split, pr_close_after_response = close\<rparr>],
                      hs_continue_sent := False\<rparr>;
                logs = map_option (\<lambda>l. l @ [request_log s (sr_request split)]) logs
            in if close
               then (s\<lparr>hs_closing := True, hs_splitter := HttpRequestSplitter_Clear (hs_splitter s)\<rparr>,
                     \<lparr>pa_success = True, pa_has_pending = True, pa_failure = FailNone\<rparr>, logs)
               else ParseLoop n moved options logs s)"

definition ParsePendingRequests where
  "ParsePendingRequests moved options logs s = ParseLoop (po_max_pipelined_requests options) moved options logs s"

definition TakeNextRequest :: "HttpSession \<Rightarrow> HttpSession \<times> PendingHttpRequest option" where
  "TakeNextRequest s =
     (if hs_processing s then (s, None)
      else case hs_pending_requests s of
        [] \<Rightarrow> (s, None)
      | p # ps \<Rightarrow> (s\<lparr>hs_pending_requests := ps, hs_processing := True\<rparr>, Some p))"

definition CompleteKeepAliveRequest where
  "CompleteKeepAliveRequest moved options logs s = ParsePendingRequests moved options logs (s\<lparr>hs_processing := False\<rparr>)"

definition BeginStream :: "HttpMediaClientType \<Rightarrow> StreamId \<Rightarrow> HttpSession \<Rightarrow> HttpSession \<times> bool" where
  "BeginStream type sid s =
     (if type = ClientNone \<or> \<not> hs_processing s \<or> hs_streaming s then (s, False)
      else (s\<lparr>hs_processing := False, hs_closing := True, hs_streaming := True, hs_media_client := no_media_client,
              hs_media_type := type, hs_stream_state := MediaOpening, hs_stream_id := sid, hs_pending_requests := [],
              hs_splitter := HttpRequestSplitter_Clear (hs_splitter s), hs_timeout_generation := hs_timeout_generation s + 1\<rparr>, True))"

definition AttachStreamClient :: "HttpMediaClientHandle \<Rightarrow> HttpSession \<Rightarrow> HttpSession \<times> bool" where
  "AttachStreamClient client s =
     (if \<not> hs_streaming s \<or> mc_type client = ClientNone \<or> mc_id client = 0 \<or> hs_stream_state s \<noteq> MediaOpening
       \<or> mc_type client \<noteq> hs_media_type s \<or> mc_stream_id client \<noteq> hs_stream_id s then (s, False)
      else (s\<lparr>hs_media_client := client, hs_media_type := mc_type client, hs_stream_state := MediaAttached,
              hs_stream_id := mc_stream_id client\<rparr>, True))"

definition MarkStreamClosing :: "HttpSession \<Rightarrow> HttpSession \<times> bool" where
  "MarkStreamClosing s =
     (if \<not> hs_streaming s then (s, False)
      else (s\<lparr>hs_stream_state := MediaClosing, hs_closing := True, hs_timeout_generation := hs_timeout_generation s + 1\<rparr>, True))"

definition RenewTimeout :: "HttpSession \<Rightarrow> HttpSession \<times> RenewedHttpSessionTimeout" where
  "RenewTimeout s =
     (s\<lparr>hs_timer_id := 0, hs_timeout_generation := hs_timeout_generation s + 1\<rparr>,
      \<lparr>rt_generation = hs_timeout_generation s + 1, rt_replaced_timer_id = hs_timer_id s\<rparr>)"

definition InstallTimeout :: "nat \<Rightarrow> nat \<Rightarrow> HttpSession \<Rightarrow> HttpSession \<times> bool" where
  "InstallTimeout generation timer_id s =
     (if timer_id = 0 \<or> hs_timeout_generation s \<noteq> generation then (s, False)
      else (s\<lparr>hs_timer_id := timer_id\<rparr>, True))"

definition CancelTimeout :: "HttpSession \<Rightarrow> HttpSession \<times> nat" where
  "CancelTimeout s = (s\<lparr>hs_timer_id := 0, hs_timeout_generation := hs_timeout_generation s + 1\<rparr>, hs_timer_id s)"

definition ExpireTimeout :: "nat \<Rightarrow> HttpSession \<Rightarrow> HttpSession \<times> bool" where
  "ExpireTimeout generation s =
     (if hs_timeout_generation s \<noteq> generation \<or> hs_timer_id s = 0 then (s, False)
      else (s\<lparr>hs_timer_id := 0\<rparr>, True))"

definition TakeMediaClient :: "HttpSession \<Rightarrow> HttpSession \<times> HttpMediaClientHandle" where
  "TakeMediaClient s = (s\<lparr>hs_media_client := no_media_client\<rparr>, hs_media_client s)"

definition HttpSession_Close :: "HttpSession \<Rightarrow> HttpSession \<times> ClosedHttpSessionInfo" where
  "HttpSession_Close s =
     (case TakeMediaClient s of (s', client) \<Rightarrow> (s', \<lparr>ci_media_client = client, ci_was_streaming = hs_streaming s\<rparr>))"

definition StreamingInfo :: "HttpSession \<Rightarrow> HttpSessionStreamingInfo" where
  "StreamingInfo s = \<lparr>si_connection_id = hs_connection_id s, si_client_ip = hs_client_ip s, si_media_type = hs_media_type s,
     si_stream_state = hs_stream_state s, si_media_client = hs_media_client s, si_stream_id = hs_stream_id s,
     si_streaming = hs_streaming s\<rparr>"

section \<open>Runs\<close>

datatype SessionOp =
  OpAppend "bytes option" nat | OpContinue | OpParse "HttpRequestLog list option" | OpTake
| OpCompleteKeepAlive "HttpRequestLog list option" | OpBeginStream HttpMediaClientType StreamId
| OpAttach HttpMediaClientHandle | OpMarkClosing | OpRenew | OpInstall nat nat | OpCancel | OpExpire nat | OpClose

fun session_op ::
  "((bytes \<times> bytes) list \<Rightarrow> (bytes \<times> bytes) list) \<Rightarrow> HttpSessionParseOptions \<Rightarrow> SessionOp \<Rightarrow> HttpSession \<Rightarrow> HttpSession" where
  "session_op moved options (OpAppend data sz) s = fst (AppendRequestBytes data sz s)"
| "session_op moved options OpContinue s = fst (TakeContinueExpectation options s)"
| "session_op moved options (OpParse logs) s = fst (ParsePendingRequests moved options logs s)"
| "session_op moved options OpTake s = fst (TakeNextRequest s)"
| "session_op moved options (OpCompleteKeepAlive logs) s = fst (CompleteKeepAliveRequest moved options logs s)"
| "session_op moved options (OpBeginStream type sid) s = fst (BeginStream type sid s)"
| "session_op moved options (OpAttach client) s = fst (AttachStreamClient client s)"
| "session_op moved options OpMarkClosing s = fst (MarkStreamClosing s)"
| "session_op moved options OpRenew s = fst (RenewTimeout s)"
| "session_op moved options (OpInstall generation timer_id) s = fst (InstallTimeout generation timer_id s)"
| "session_op moved options OpCancel s = fst (CancelTimeout s)"
| "session_op moved options (OpExpire generation) s = fst (ExpireTimeout generation s)"
| "session_op moved options OpClose s = fst (HttpSession_Close s)"

text \<open>The sessions a connection can be in.\<close>

inductive session_reachable for moved options where
  session_new: "session_reachable moved options (HttpSession_new cid ip)"
| session_next: "session_reachable moved options s \<Longrightarrow> session_reachable moved options (session_op moved options op s)"

section \<open>Invariant\<close>

definition stream_inv :: "HttpSession \<Rightarrow> bool" where
  "stream_inv s \<longleftrightarrow>
     (if hs_streaming s
      then hs_closing s \<and> \<not> hs_processing s \<and> hs_pending_requests s = [] \<and> recv_buffer (hs_splitter s) = []
         \<and> hs_media_type s \<noteq> ClientNone \<and> hs_stream_state s \<noteq> MediaNone
      else hs_media_client s = no_media_client \<and> hs_stream_state s = MediaNone)
   \<and> (hs_media_client s \<noteq> no_media_client \<longrightarrow>
        hs_stream_state s \<in> {MediaAttached, MediaClosing} \<and> mc_id (hs_media_client s) \<noteq> 0
        \<and> mc_type (hs_media_client s) = hs_media_type s \<and> mc_stream_id (hs_media_client s) = hs_stream_id s)"

definition pending_inv :: "HttpSessionParseOptions \<Rightarrow> HttpSession \<Rightarrow> bool" where
  "pending_inv options s \<longleftrightarrow>
     length (hs_pending_requests s) \<le> hs_requests s \<and> hs_requests s \<le> max 1 (po_max_requests_per_connection options)
   \<and> list_all (\<lambda>p. \<not> pr_close_after_response p) (butlast (hs_pending_requests s))
   \<and> (\<not> hs_closing s \<longrightarrow> (hs_requests s = 0 \<or> hs_requests s < po_max_requests_per_connection options)
        \<and> list_all (\<lambda>p. \<not> pr_close_after_response p) (hs_pending_requests s))"

definition session_inv :: "HttpSessionParseOptions \<Rightarrow> HttpSession \<Rightarrow> bool" where
  "session_inv options s \<longleftrightarrow> stream_inv s \<and> pending_inv options s"

lemmas session_inv_defs = session_inv_def stream_inv_def pending_inv_def

lemma ParseLoop_closing: "hs_closing s \<Longrightarrow> ParseLoop n moved options logs s = (s, parse_ok s, logs)"
  by (cases n) simp_all

text \<open>One round of the loop, in the three cases that change the session.\<close>

definition queued :: "HttpSessionParseOptions \<Rightarrow> HttpRequestSplitResult \<Rightarrow> HttpRequestSplitter \<Rightarrow> HttpSession \<Rightarrow> HttpSession" where
  "queued options split sp s =
     (let close = (\<not> po_enable_keep_alive options \<or> \<not> sr_keep_alive split \<or> hs_requests s + 1 \<ge> po_max_requests_per_connection options);
          s = s\<lparr>hs_splitter := sp, hs_requests := hs_requests s + 1,
                hs_pending_requests := hs_pending_requests s @ [\<lparr>pr_request = sr_request split, pr_close_after_response = close\<rparr>],
                hs_continue_sent := False\<rparr>
      in if close then s\<lparr>hs_closing := True, hs_splitter := HttpRequestSplitter_Clear sp\<rparr> else s)"

lemma ParseLoop_rule:
  assumes "P s"
    and "\<And>s. P s \<Longrightarrow> \<not> hs_closing s \<Longrightarrow> P (s\<lparr>hs_closing := True\<rparr>)"
    and "\<And>s sp split. P s \<Longrightarrow> \<not> hs_closing s \<Longrightarrow> P (queued options split sp s)"
  shows "P (fst (ParseLoop n moved options logs s))"
  using assms(1)
proof (induction n arbitrary: logs s)
  case (Suc n)
  obtain sp split where split: "SplitNext moved (split_options options) (hs_client_ip s) (hs_splitter s) = (sp, split)" by force
  show ?case
  proof (cases "hs_closing s \<or> recv_buffer (hs_splitter s) = []")
    case True
    then show ?thesis using Suc.prems by (auto simp: HttpRequestSplitter_BufferedBytes_def)
  next
    case False
    show ?thesis
    proof (cases "sr_status split = SplitComplete")
      case True
      let ?q = "queued options split sp s"
      have q: "P ?q" using assms(3) Suc.prems False by simp
      have "\<exists>logs'. fst (ParseLoop (Suc n) moved options logs s) = (if hs_closing ?q then ?q else fst (ParseLoop n moved options logs' ?q))"
        using False True split
        by (simp add: queued_def HttpRequestSplitter_BufferedBytes_def Let_def) blast
      then obtain logs' where same: "fst (ParseLoop (Suc n) moved options logs s) = (if hs_closing ?q then ?q else fst (ParseLoop n moved options logs' ?q))"
        by blast
      show ?thesis unfolding same using q Suc.IH [OF q] by simp
    next
      case other: False
      have "sp = hs_splitter s" by (rule SplitNext_cases [of moved "split_options options" "hs_client_ip s" "hs_splitter s"]) (use split other in auto)
      then have "s\<lparr>hs_splitter := sp\<rparr> = s" by simp
      then show ?thesis using False other split Suc.prems assms(2) [OF Suc.prems]
        by (simp add: HttpRequestSplitter_BufferedBytes_def)
    qed
  qed
qed simp

lemma queued_inv:
  assumes "session_inv options s" and "\<not> hs_closing s"
  shows "session_inv options (queued options split sp s)"
proof -
  have s: "\<not> hs_streaming s" "hs_media_client s = no_media_client" "hs_stream_state s = MediaNone"
    "length (hs_pending_requests s) \<le> hs_requests s" "hs_requests s = 0 \<or> hs_requests s < po_max_requests_per_connection options"
    "list_all (\<lambda>p. \<not> pr_close_after_response p) (hs_pending_requests s)"
    using assms by (auto simp: session_inv_defs split: if_splits)
  then have "stream_inv (queued options split sp s)" by (simp add: stream_inv_def queued_def Let_def)
  moreover have "pending_inv options (queued options split sp s)"
    using s(4-6) assms(2) by (auto simp: pending_inv_def queued_def Let_def)
  ultimately show ?thesis by (simp add: session_inv_def)
qed

lemma closing_inv: "session_inv options s \<Longrightarrow> session_inv options (s\<lparr>hs_closing := True\<rparr>)"
  by (simp add: session_inv_defs split: if_splits)

lemma ParseLoop_inv: "session_inv options s \<Longrightarrow> session_inv options (fst (ParseLoop n moved options logs s))"
  by (rule ParseLoop_rule) (simp_all add: queued_inv closing_inv)

lemma session_op_inv: "session_inv options s \<Longrightarrow> session_inv options (session_op moved options op s)"
proof (cases op)
  case (OpAppend data sz)
  then show "session_inv options s \<Longrightarrow> ?thesis"
    by (auto simp: AppendRequestBytes_def HttpRequestSplitter_Append_def session_inv_defs split: option.splits prod.splits)
next
  case (OpParse logs)
  then show "session_inv options s \<Longrightarrow> ?thesis" by (simp add: ParsePendingRequests_def ParseLoop_inv)
next
  case (OpCompleteKeepAlive logs)
  have "session_inv options s \<Longrightarrow> session_inv options (s\<lparr>hs_processing := False\<rparr>)" by (auto simp: session_inv_defs split: if_splits)
  then show "session_inv options s \<Longrightarrow> ?thesis"
    using OpCompleteKeepAlive by (simp add: CompleteKeepAliveRequest_def ParsePendingRequests_def ParseLoop_inv)
next
  case OpTake
  then show "session_inv options s \<Longrightarrow> ?thesis"
    by (cases "hs_pending_requests s") (auto simp: TakeNextRequest_def session_inv_defs split: if_splits)
qed (auto simp: TakeContinueExpectation_def BeginStream_def HttpRequestSplitter_Clear_def AttachStreamClient_def
    MarkStreamClosing_def RenewTimeout_def InstallTimeout_def CancelTimeout_def ExpireTimeout_def HttpSession_Close_def
    TakeMediaClient_def session_inv_defs no_media_client_def split: if_splits)

lemma session_reachable_inv: "session_reachable moved options s \<Longrightarrow> session_inv options s"
proof (induction rule: session_reachable.induct)
  case (session_new cid ip)
  then show ?case by (simp add: session_inv_defs HttpSession_new_def)
next
  case (session_next s op)
  then show ?case by (simp add: session_op_inv)
qed

text \<open>
  Claim C24. In every reachable state of a connection: a connection that became a media stream takes no more
  requests (it is closing, runs no request, has none queued and no buffered bytes) and a media client is
  attached only to a stream of its own type and stream id; no more requests are queued than were
  accepted, no more were accepted than the limit per connection allows; and only the last queued
  request may be marked to close the connection, which then accepts no further bytes.
\<close>

theorem http_session_invariant:
  assumes "session_reachable moved options s"
  shows "(hs_streaming s \<longrightarrow> hs_closing s \<and> \<not> hs_processing s \<and> hs_pending_requests s = [] \<and> recv_buffer (hs_splitter s) = [])
    \<and> (hs_media_client s \<noteq> no_media_client \<longrightarrow> hs_streaming s \<and> hs_stream_state s \<in> {MediaAttached, MediaClosing}
         \<and> mc_type (hs_media_client s) = hs_media_type s \<and> mc_stream_id (hs_media_client s) = hs_stream_id s)
    \<and> length (hs_pending_requests s) \<le> hs_requests s
    \<and> hs_requests s \<le> max 1 (po_max_requests_per_connection options)
    \<and> list_all (\<lambda>p. \<not> pr_close_after_response p) (butlast (hs_pending_requests s))
    \<and> ((\<exists>p \<in> set (hs_pending_requests s). pr_close_after_response p) \<longrightarrow> snd (AppendRequestBytes data sz s) = False)"
  using session_reachable_inv [OF assms]
  by (auto simp: session_inv_defs AppendRequestBytes_def list_all_iff split: if_splits)

definition witness_options :: HttpSessionParseOptions where
  "witness_options = \<lparr>po_max_request_header_bytes = 100, po_max_request_body_bytes = 1000, po_max_pipelined_requests = 4,
     po_max_requests_per_connection = 10, po_enable_keep_alive = True\<rparr>"

definition witness_requests :: "client_request list" where
  "witness_requests =
     [\<lparr>cr_method = ascii ''GET'', cr_path = ascii ''/a'', cr_query = Some (ascii ''x=1''), cr_version = ascii ''HTTP/1.1'',
        cr_headers = [(ascii ''Host'', ascii ''c'')], cr_body = NoBody\<rparr>,
      \<lparr>cr_method = ascii ''POST'', cr_path = ascii ''/b'', cr_query = None, cr_version = ascii ''HTTP/1.1'',
        cr_headers = [], cr_body = Sized (ascii ''ok'')\<rparr>,
      \<lparr>cr_method = ascii ''PUT'', cr_path = ascii ''/c'', cr_query = None, cr_version = ascii ''HTTP/1.1'',
        cr_headers = [], cr_body = Chunked [ascii ''he'', ascii ''llo'']\<rparr>]"

text \<open>A connection that becomes an FLV stream on its first request.\<close>

definition witness_session :: HttpSession where
  "witness_session =
     session_op id witness_options (OpBeginStream ClientFlv StreamSub)
      (session_op id witness_options OpTake
        (session_op id witness_options (OpParse None)
          (session_op id witness_options (OpAppend (Some (ascii ''GET /live HTTP/1.1'' @ CRLF @ CRLF)) 22) (HttpSession_new 1 [])))) "

theorem http_session_invariant_witness:
  "session_reachable id witness_options witness_session
   \<and> hs_streaming witness_session \<and> hs_closing witness_session \<and> hs_pending_requests witness_session = []"
proof -
  have r: "session_reachable id witness_options witness_session"
    unfolding witness_session_def by (intro session_reachable.intros)
  have "hs_streaming witness_session" by code_simp
  then show ?thesis using http_session_invariant [OF r] r by simp
qed

section \<open>Timeouts\<close>

definition session_run ::
  "((bytes \<times> bytes) list \<Rightarrow> (bytes \<times> bytes) list) \<Rightarrow> HttpSessionParseOptions \<Rightarrow> SessionOp list \<Rightarrow> HttpSession \<Rightarrow> HttpSession" where
  "session_run moved options ops s = foldl (\<lambda>s op. session_op moved options op s) s ops"

lemma session_run_simps [simp]:
  "session_run moved options [] s = s"
  "session_run moved options (op # ops) s = session_run moved options ops (session_op moved options op s)"
  "session_run moved options (ops @ ops') s = session_run moved options ops' (session_run moved options ops s)"
  by (simp_all add: session_run_def)

text \<open>An operation that starts a new generation.\<close>

fun renews :: "SessionOp \<Rightarrow> HttpSession \<Rightarrow> bool" where
  "renews (OpAppend data sz) s = snd (AppendRequestBytes data sz s)"
| "renews (OpBeginStream type sid) s = snd (BeginStream type sid s)"
| "renews OpMarkClosing s = snd (MarkStreamClosing s)"
| "renews OpRenew s = True"
| "renews OpCancel s = True"
| "renews op s = False"

lemma ParseLoop_timer:
  "hs_timeout_generation (fst (ParseLoop n moved options logs s)) = hs_timeout_generation s
   \<and> hs_timer_id (fst (ParseLoop n moved options logs s)) = hs_timer_id s"
  by (rule ParseLoop_rule) (auto simp: queued_def Let_def)

lemma session_op_generation:
  "hs_timeout_generation (session_op moved options op s) = hs_timeout_generation s + (if renews op s then 1 else 0)"
proof (cases op)
  case (OpAppend data sz)
  then show ?thesis by (auto simp: AppendRequestBytes_def HttpRequestSplitter_Append_def split: option.splits)
qed (auto simp: ParsePendingRequests_def CompleteKeepAliveRequest_def ParseLoop_timer TakeContinueExpectation_def TakeNextRequest_def
    BeginStream_def AttachStreamClient_def MarkStreamClosing_def RenewTimeout_def InstallTimeout_def CancelTimeout_def
    ExpireTimeout_def HttpSession_Close_def TakeMediaClient_def split: list.splits)

lemma session_op_timer:
  "hs_timer_id (session_op moved options op s) \<noteq> 0 \<Longrightarrow>
     hs_timer_id s \<noteq> 0 \<or> (\<exists>timer_id. op = OpInstall (hs_timeout_generation s) timer_id \<and> timer_id \<noteq> 0)"
  by (cases op) (auto simp: ParsePendingRequests_def CompleteKeepAliveRequest_def ParseLoop_timer TakeContinueExpectation_def TakeNextRequest_def
    AppendRequestBytes_def HttpRequestSplitter_Append_def
    BeginStream_def AttachStreamClient_def MarkStreamClosing_def RenewTimeout_def InstallTimeout_def CancelTimeout_def
    ExpireTimeout_def HttpSession_Close_def TakeMediaClient_def split: list.splits option.splits if_splits)

lemma session_run_generation:
  "hs_timeout_generation s \<le> hs_timeout_generation (session_run moved options ops s)"
proof (induction ops arbitrary: s)
  case (Cons op ops)
  then show ?case using Cons [of "session_op moved options op s"] session_op_generation [of moved options op s] by simp
qed simp

lemma session_run_renewed:
  assumes "renews op (session_run moved options before s)"
  shows "hs_timeout_generation s < hs_timeout_generation (session_run moved options (before @ op # after) s)"
  using session_run_generation [of s moved options before]
    session_run_generation [of "session_op moved options op (session_run moved options before s)" moved options after]
    session_op_generation [of moved options op "session_run moved options before s"] assms by simp

lemma session_run_installed:
  "hs_timer_id (session_run moved options ops s) \<noteq> 0 \<Longrightarrow> hs_timer_id s = 0 \<Longrightarrow>
     hs_timeout_generation (session_run moved options ops s) = hs_timeout_generation s \<Longrightarrow>
     \<exists>timer_id. timer_id \<noteq> 0 \<and> OpInstall (hs_timeout_generation s) timer_id \<in> set ops"
proof (induction ops arbitrary: s)
  case (Cons op ops)
  let ?s = "session_op moved options op s"
  have gen: "hs_timeout_generation ?s = hs_timeout_generation s"
    using Cons.prems(3) session_run_generation [of ?s moved options ops] session_op_generation [of moved options op s] by simp
  show ?case
  proof (cases "hs_timer_id ?s = 0")
    case True
    then show ?thesis using Cons.IH [of ?s] Cons.prems gen by auto
  next
    case False
    then show ?thesis using session_op_timer [OF False] Cons.prems(2) by auto
  qed
qed simp

text \<open>
  Claim C25. A timer closes the connection only if nothing happened since it was started: when the timer of the
  generation that \<open>RenewTimeout\<close> returned expires successfully, no later operation accepted bytes,
  began or ended a stream, or renewed or cancelled the timeout, and a timer of exactly this generation was installed.
\<close>

theorem http_timer_current:
  assumes "snd (RenewTimeout s0) = t"
    and "snd (ExpireTimeout (rt_generation t) (session_run moved options ops (fst (RenewTimeout s0))))"
  shows "(\<forall>before op after. ops = before @ op # after \<longrightarrow> \<not> renews op (session_run moved options before (fst (RenewTimeout s0))))
    \<and> (\<exists>timer_id. timer_id \<noteq> 0 \<and> OpInstall (rt_generation t) timer_id \<in> set ops)"
proof -
  let ?s = "fst (RenewTimeout s0)"
  have s: "hs_timeout_generation ?s = rt_generation t" "hs_timer_id ?s = 0" using assms(1) by (auto simp: RenewTimeout_def)
  have e: "hs_timeout_generation (session_run moved options ops ?s) = rt_generation t" "hs_timer_id (session_run moved options ops ?s) \<noteq> 0"
    using assms(2) by (auto simp: ExpireTimeout_def split: if_splits)
  have "\<not> renews op (session_run moved options before ?s)" if "ops = before @ op # after" for before op after
    using session_run_renewed [of op moved options before ?s after] e(1) s(1) that by auto
  moreover have "\<exists>timer_id. timer_id \<noteq> 0 \<and> OpInstall (rt_generation t) timer_id \<in> set ops"
    using session_run_installed [OF e(2) s(2)] e(1) s(1) by simp
  ultimately show ?thesis by blast
qed

theorem http_timer_current_witness:
  "\<exists>timer_id. timer_id \<noteq> 0 \<and> OpInstall 1 timer_id \<in> set [OpInstall 1 7, OpTake]"
proof -
  let ?s = "HttpSession_new 1 []"
  have "snd (ExpireTimeout (rt_generation (snd (RenewTimeout ?s)))
      (session_run id witness_options [OpInstall 1 7, OpTake] (fst (RenewTimeout ?s))))" by code_simp
  moreover have "rt_generation (snd (RenewTimeout ?s)) = 1" by code_simp
  ultimately show ?thesis using http_timer_current [OF refl, of ?s id witness_options "[OpInstall 1 7, OpTake]"] by simp
qed

section \<open>Pipelined requests\<close>

text \<open>
  What \<open>HttpServer\<close> does with a session: bytes arrive and are parsed, the next request is handed out,
  a request is completed. The second component collects the requests that were handed out.
\<close>

datatype FeedOp = FeedBytes bytes | FeedTake | FeedComplete

fun feed_op ::
  "((bytes \<times> bytes) list \<Rightarrow> (bytes \<times> bytes) list) \<Rightarrow> HttpSessionParseOptions \<Rightarrow> FeedOp \<Rightarrow> HttpSession \<times> HttpRequest list
     \<Rightarrow> HttpSession \<times> HttpRequest list" where
  "feed_op moved options (FeedBytes d) (s, out) =
     (let s = fst (AppendRequestBytes (Some d) (length d) s);
          s = fst (TakeContinueExpectation options s)
      in (fst (ParsePendingRequests moved options None s), out))"
| "feed_op moved options FeedTake (s, out) =
     (case TakeNextRequest s of (s, None) \<Rightarrow> (s, out) | (s, Some p) \<Rightarrow> (s, out @ [pr_request p]))"
| "feed_op moved options FeedComplete (s, out) = (fst (CompleteKeepAliveRequest moved options None s), out)"

definition feed_all where
  "feed_all moved options ops st = foldl (\<lambda>st op. feed_op moved options op st) st ops"

lemma feed_all_simps [simp]:
  "feed_all moved options [] st = st"
  "feed_all moved options (op # ops) st = feed_all moved options ops (feed_op moved options op st)"
  "feed_all moved options (ops @ ops') st = feed_all moved options ops' (feed_all moved options ops st)"
  by (simp_all add: feed_all_def)

fun fed_bytes :: "FeedOp list \<Rightarrow> bytes" where
  "fed_bytes [] = []"
| "fed_bytes (FeedBytes d # ops) = d @ fed_bytes ops"
| "fed_bytes (_ # ops) = fed_bytes ops"

abbreviation print_requests :: "client_request list \<Rightarrow> bytes" where
  "print_requests rs \<equiv> concat (map print_request rs)"

text \<open>Requests that the server takes on one connection, each behind the other.\<close>

definition requests_ok where
  "requests_ok moved options ip rs \<longleftrightarrow>
     (\<forall>r \<in> set rs. sendable (split_options options) r (print_requests rs) \<and> rp_keep_alive (accepted moved r ip))
   \<and> po_enable_keep_alive options \<and> length rs < po_max_requests_per_connection options"

text \<open>Where the requests are: handed out, queued, or still among the received and the coming bytes.\<close>

definition in_flight ::
  "client_request list \<Rightarrow> bytes \<Rightarrow> HttpSession \<times> HttpRequest list \<Rightarrow> client_request list \<Rightarrow> bytes \<Rightarrow> bool" where
  "in_flight rs ip st waiting coming \<longleftrightarrow>
     map (\<lambda>r. received r ip) rs = snd st @ map pr_request (hs_pending_requests (fst st)) @ map (\<lambda>r. received r ip) waiting
   \<and> recv_buffer (hs_splitter (fst st)) @ coming = print_requests waiting
   \<and> (\<exists>before. rs = before @ waiting) \<and> hs_requests (fst st) + length waiting = length rs
   \<and> hs_client_ip (fst st) = ip \<and> \<not> hs_closing (fst st) \<and> \<not> hs_streaming (fst st)"

lemma sendable_mono: "sendable options r rest \<Longrightarrow> length rest' \<le> length rest \<Longrightarrow> sendable options r rest'"
  by (auto simp: sendable_def within_limits_def)

lemma print_request_ne: "print_request r \<noteq> []"
  by (simp add: print_request_def CRLF_def)

lemma ParseLoop_in_flight:
  assumes ok: "requests_ok moved options ip rs"
  shows "in_flight rs ip (s, out) waiting coming \<Longrightarrow>
    \<exists>waiting'. in_flight rs ip (fst (ParseLoop n moved options logs s), out) waiting' coming
      \<and> (n \<noteq> 0 \<longrightarrow> coming = [] \<longrightarrow> waiting' = [] \<or> hs_pending_requests (fst (ParseLoop n moved options logs s)) \<noteq> [])
      \<and> hs_processing (fst (ParseLoop n moved options logs s)) = hs_processing s"
proof (induction n arbitrary: s logs waiting)
  case 0
  then show ?case by auto
next
  case (Suc n)
  have fl: "recv_buffer (hs_splitter s) @ coming = print_requests waiting" "\<not> hs_closing s" "hs_client_ip s = ip"
    using Suc.prems by (simp_all add: in_flight_def)
  show ?case
  proof (cases "recv_buffer (hs_splitter s) = []")
    case True
    then have "coming = [] \<Longrightarrow> waiting = []" using fl(1) print_request_ne by (cases waiting) auto
    then show ?thesis using True Suc.prems by (auto simp: HttpRequestSplitter_BufferedBytes_def)
  next
    case False
    then obtain r waiting' where w: "waiting = r # waiting'" using fl(1) by (cases waiting) auto
    obtain before where rs: "rs = before @ r # waiting'" using Suc.prems w by (auto simp: in_flight_def)
    then have send: "sendable (split_options options) r (print_requests rs)" and ka: "rp_keep_alive (accepted moved r ip)"
      using ok by (auto simp: requests_ok_def)
    consider (cut) k where "k < length (print_request r)" "recv_buffer (hs_splitter s) = take k (print_request r)" "coming \<noteq> []"
      | (whole) rest where "recv_buffer (hs_splitter s) = print_request r @ rest" "rest @ coming = print_requests waiting'"
      using cut_or_whole [of "recv_buffer (hs_splitter s)" coming "print_request r" "print_requests waiting'"] fl(1) w by auto
    then show ?thesis
    proof cases
      case cut
      from SplitNext_cut [OF send cut(1,2), of moved ip] have "fst (ParseLoop (Suc n) moved options logs s) = s"
        using fl False by (simp add: HttpRequestSplitter_BufferedBytes_def split_result_def)
      then show ?thesis using Suc.prems cut(3) by metis
    next
      case whole
      have "length rest \<le> length (print_requests rs)" using arg_cong [OF whole(2), of length] rs by simp
      from SplitNext_whole [OF sendable_mono [OF send this] whole(1), of moved ip]
      have sn: "SplitNext moved (split_options options) (hs_client_ip s) (hs_splitter s) = ((hs_splitter s)\<lparr>recv_buffer := rest\<rparr>,
        \<lparr>sr_status = SplitComplete, sr_request = received r ip, sr_keep_alive = True\<rparr>)" using ka fl(3) by simp
      let ?s = "s\<lparr>hs_splitter := (hs_splitter s)\<lparr>recv_buffer := rest\<rparr>, hs_requests := hs_requests s + 1,
          hs_pending_requests := hs_pending_requests s @ [\<lparr>pr_request = received r ip, pr_close_after_response = False\<rparr>],
          hs_continue_sent := False\<rparr>"
      have "hs_requests s + 1 \<le> length rs" using Suc.prems w by (simp add: in_flight_def)
      then have "\<not> po_max_requests_per_connection options \<le> hs_requests s + 1" "po_enable_keep_alive options"
        using ok by (simp_all add: requests_ok_def)
      then obtain logs' where step: "fst (ParseLoop (Suc n) moved options logs s) = fst (ParseLoop n moved options logs' ?s)"
        using sn fl(2) False by (simp add: HttpRequestSplitter_BufferedBytes_def Let_def)
      have next_fl: "in_flight rs ip (?s, out) waiting' coming" using Suc.prems w whole(2) rs by (auto simp: in_flight_def)
      have "hs_pending_requests (fst (ParseLoop n moved options logs' ?s)) \<noteq> []"
        by (rule ParseLoop_rule) (auto simp: queued_def Let_def)
      moreover obtain waiting'' where "in_flight rs ip (fst (ParseLoop n moved options logs' ?s), out) waiting'' coming"
        "hs_processing (fst (ParseLoop n moved options logs' ?s)) = hs_processing ?s"
        using Suc.IH [OF next_fl, of logs'] by blast
      ultimately show ?thesis unfolding step by (intro exI [of _ waiting'']) simp
    qed
  qed
qed

lemma feed_in_flight:
  assumes "requests_ok moved options ip rs" and "in_flight rs ip (s, out) waiting (fed_bytes [op] @ coming)"
  shows "\<exists>waiting'. in_flight rs ip (feed_op moved options op (s, out)) waiting' coming"
proof (cases op)
  case (FeedBytes d)
  let ?s = "fst (TakeContinueExpectation options (fst (AppendRequestBytes (Some d) (length d) s)))"
  have "in_flight rs ip (?s, out) waiting coming"
    using assms(2) FeedBytes
    by (auto simp: in_flight_def TakeContinueExpectation_def AppendRequestBytes_def HttpRequestSplitter_Append_def)
  from ParseLoop_in_flight [OF assms(1) this] FeedBytes show ?thesis by (auto simp: ParsePendingRequests_def Let_def)
next
  case FeedTake
  then show ?thesis using assms(2)
    by (intro exI [of _ waiting]) (cases "hs_pending_requests s"; auto simp: in_flight_def TakeNextRequest_def)
next
  case FeedComplete
  have "in_flight rs ip (s\<lparr>hs_processing := False\<rparr>, out) waiting coming" using assms(2) FeedComplete by (simp add: in_flight_def)
  from ParseLoop_in_flight [OF assms(1) this] FeedComplete show ?thesis
    by (auto simp: CompleteKeepAliveRequest_def ParsePendingRequests_def)
qed

lemma feed_all_in_flight:
  assumes "requests_ok moved options ip rs"
  shows "in_flight rs ip st waiting (fed_bytes ops @ coming) \<Longrightarrow> \<exists>waiting'. in_flight rs ip (feed_all moved options ops st) waiting' coming"
proof (induction ops arbitrary: st waiting)
  case (Cons op ops)
  have "fed_bytes (op # ops) = fed_bytes [op] @ fed_bytes ops" by (cases op) simp_all
  then obtain waiting' where "in_flight rs ip (feed_op moved options op st) waiting' (fed_bytes ops @ coming)"
    using feed_in_flight [OF assms, of "fst st" "snd st" waiting op "fed_bytes ops @ coming"] Cons.prems by auto
  then show ?case using Cons.IH by simp
qed auto

text \<open>One round of the server on a connection on which nothing more arrives.\<close>

lemma round_in_flight:
  assumes "requests_ok moved options ip rs" and "po_max_pipelined_requests options \<noteq> 0" and "in_flight rs ip (s, out) waiting []"
  shows "\<exists>s' out' waiting'. feed_all moved options [FeedComplete, FeedTake] (s, out) = (s', out') \<and> in_flight rs ip (s', out') waiting' []
     \<and> length rs - length out' \<le> length rs - length out - 1"
proof -
  let ?s = "fst (CompleteKeepAliveRequest moved options None s)"
  have "in_flight rs ip (s\<lparr>hs_processing := False\<rparr>, out) waiting []" using assms(3) by (simp add: in_flight_def)
  then obtain waiting' where fl: "in_flight rs ip (?s, out) waiting' []" "waiting' = [] \<or> hs_pending_requests ?s \<noteq> []" "\<not> hs_processing ?s"
    using ParseLoop_in_flight [OF assms(1), of "s\<lparr>hs_processing := False\<rparr>" out waiting "[]" "po_max_pipelined_requests options" None] assms(2)
    by (auto simp: CompleteKeepAliveRequest_def ParsePendingRequests_def)
  show ?thesis
  proof (cases "hs_pending_requests ?s")
    case Nil
    then have "length out = length rs" using fl(1,2) arg_cong [of "map (\<lambda>r. received r ip) rs" out length] by (auto simp: in_flight_def)
    then show ?thesis using fl Nil by (auto simp: TakeNextRequest_def)
  next
    case (Cons p ps)
    then show ?thesis using fl by (auto simp: TakeNextRequest_def in_flight_def)
  qed
qed

lemma rounds_in_flight:
  assumes "requests_ok moved options ip rs" and "po_max_pipelined_requests options \<noteq> 0"
  shows "in_flight rs ip (s, out) waiting [] \<Longrightarrow> length rs - length out \<le> n \<Longrightarrow>
     snd (feed_all moved options (concat (replicate n [FeedComplete, FeedTake])) (s, out)) = map (\<lambda>r. received r ip) rs"
proof (induction n arbitrary: s out waiting)
  case 0
  then obtain rest where eq: "map (\<lambda>r. received r ip) rs = out @ rest" by (auto simp: in_flight_def)
  moreover have "rest = []" using arg_cong [OF eq, of length] 0(2) by simp
  ultimately show ?case by simp
next
  case (Suc n)
  obtain s' out' waiting' where r: "feed_all moved options [FeedComplete, FeedTake] (s, out) = (s', out')"
    "in_flight rs ip (s', out') waiting' []" "length rs - length out' \<le> length rs - length out - 1"
    using round_in_flight [OF assms Suc.prems(1)] by blast
  then show ?case using Suc.IH [OF r(2)] Suc.prems(2) by simp
qed

text \<open>
  Claim C5. However the network cuts a stream of well-formed keep-alive requests, and however the arrival of the pieces
  interleaves with the handing out and completing of requests, the connection hands out a prefix of
  exactly these requests in their order; and after at most one more round per request it has handed out all of them.
\<close>

theorem http_pipeline_in_order:
  assumes "requests_ok moved options ip rs" and "po_max_pipelined_requests options \<noteq> 0"
    and "fed_bytes ops = print_requests rs"
  shows "(\<exists>more. map (\<lambda>r. received r ip) rs = snd (feed_all moved options ops (HttpSession_new cid ip, [])) @ more)
    \<and> snd (feed_all moved options (ops @ concat (replicate (length rs) [FeedComplete, FeedTake])) (HttpSession_new cid ip, []))
        = map (\<lambda>r. received r ip) rs"
proof -
  have "in_flight rs ip (HttpSession_new cid ip, []) rs (fed_bytes ops @ [])" using assms(3) by (simp add: in_flight_def HttpSession_new_def)
  from feed_all_in_flight [OF assms(1) this] obtain waiting
    where fl: "in_flight rs ip (feed_all moved options ops (HttpSession_new cid ip, [])) waiting []" by blast
  obtain s out where st: "feed_all moved options ops (HttpSession_new cid ip, []) = (s, out)" by force
  show ?thesis using rounds_in_flight [OF assms(1,2), of s out waiting "length rs"] fl st by (auto simp: in_flight_def)
qed

lemma sendable_small:
  assumes "request_ok r" "length (print_header r) + 3 \<le> so_max_header_bytes options" "length (print_request r) \<le> 4096"
    "length (body_bytes (cr_body r)) \<le> so_max_body_bytes options" "length rest \<le> so_max_body_bytes options" "so_max_body_bytes options \<le> SIZE_MAX"
  shows "sendable options r rest"
proof -
  have "4096 \<le> ChunkedRequestRawLimit h b" for h b by (simp add: ChunkedRequestRawLimit_def Let_def)
  then show ?thesis using assms by (auto simp: sendable_def within_limits_def intro: order.trans)
qed

lemma witness_requests_ok: "requests_ok (\<lambda>_. []) witness_options [] witness_requests"
proof -
  have "list_all (\<lambda>r. request_ok r \<and> length (print_header r) + 3 \<le> 100 \<and> length (print_request r) \<le> 200
      \<and> length (body_bytes (cr_body r)) \<le> 100 \<and> rp_keep_alive (accepted (\<lambda>_. []) r [])) witness_requests" by code_simp
  moreover have "length (print_requests witness_requests) \<le> 300" by code_simp
  moreover have "length witness_requests = 3" by code_simp
  ultimately show ?thesis
    by (auto simp: requests_ok_def list_all_iff witness_options_def split_options_def intro!: sendable_small)
qed

theorem http_pipeline_in_order_witness:
  "snd (feed_all (\<lambda>_. []) witness_options
     ([FeedBytes (take 9 (print_requests witness_requests)), FeedTake, FeedBytes (drop 9 (print_requests witness_requests))]
        @ concat (replicate (length witness_requests) [FeedComplete, FeedTake])) (HttpSession_new 1 [], []))
   = map (\<lambda>r. received r []) witness_requests"
proof -
  let ?ops = "[FeedBytes (take 9 (print_requests witness_requests)), FeedTake, FeedBytes (drop 9 (print_requests witness_requests))]"
  have "po_max_pipelined_requests witness_options \<noteq> 0" by code_simp
  moreover have "fed_bytes ?ops = print_requests witness_requests" by simp
  ultimately show ?thesis using http_pipeline_in_order [OF witness_requests_ok, of ?ops 1] by blast
qed

end
