(* ===== verification/Http_Query_String.thy ===== *)
theory Http_Query_String
  imports Http_Protocol
begin

text \<open>
  \<open>libs/http/src/http_query_string.cpp\<close>: percent decoding and the look-up of a query parameter, with the proof that
  parameters written by a percent-encoding client are found.
\<close>

section \<open>Model\<close>

definition HexValue :: "u8 \<Rightarrow> int" where
  "HexValue c =
     (if 0x30 \<le> c \<and> c \<le> 0x39 then uint (c - 0x30)
      else if 0x61 \<le> c \<and> c \<le> 0x66 then 10 + uint (c - 0x61)
      else if 0x41 \<le> c \<and> c \<le> 0x46 then 10 + uint (c - 0x41)
      else - 1)"

text \<open>The loop over \<open>value\<close> from position \<open>i\<close> on; \<open>0x2b\<close> is the plus sign, \<open>0x25\<close> the percent sign.\<close>

function DecodeUrlComponent :: "bytes \<Rightarrow> bytes" where
  "DecodeUrlComponent value =
     (case value of
        [] \<Rightarrow> []
      | c # rest \<Rightarrow>
          if c = 0x2b then 0x20 # DecodeUrlComponent rest
          else if c = 0x25 \<and> 2 < length value \<and> HexValue (rest ! 0) \<ge> 0 \<and> HexValue (rest ! 1) \<ge> 0
          then word_of_int (HexValue (rest ! 0) * 16 + HexValue (rest ! 1)) # DecodeUrlComponent (drop 2 rest)
          else c # DecodeUrlComponent rest)"
  by pat_completeness auto
termination
  by (relation "measure length") auto

declare DecodeUrlComponent.simps [simp del]

text \<open>\<open>0x26\<close> is the ampersand, \<open>0x3d\<close> the equals sign.\<close>

function QueryLoop :: "bytes \<Rightarrow> bytes \<Rightarrow> bytes" where
  "QueryLoop rest name =
     (let end = find_char 0x26 rest;
          part = (case end of None \<Rightarrow> rest | Some n \<Rightarrow> take n rest);
          equal = find_char 0x3d part;
          key = DecodeUrlComponent (case equal of None \<Rightarrow> part | Some e \<Rightarrow> take e part)
      in if key = name then (case equal of None \<Rightarrow> [] | Some e \<Rightarrow> DecodeUrlComponent (drop (e + 1) part))
         else (case end of None \<Rightarrow> [] | Some n \<Rightarrow> QueryLoop (drop (n + 1) rest) name))"
  by pat_completeness auto
termination
  by (relation "measure (\<lambda>(rest, name). length rest)") (auto dest: find_char_Some [OF sym])

declare QueryLoop.simps [simp del]

definition QueryValue :: "HttpRequest \<Rightarrow> bytes \<Rightarrow> bytes" where
  "QueryValue request name = QueryLoop (hr_query_string request) name"

section \<open>Encoded parameters\<close>

definition upper_hex :: "nat \<Rightarrow> u8" where
  "upper_hex d = (if d < 10 then word_of_nat (48 + d) else word_of_nat (55 + d))"

definition unreserved :: "u8 \<Rightarrow> bool" where
  "unreserved c \<longleftrightarrow> (0x30 \<le> c \<and> c \<le> 0x39) \<or> (0x41 \<le> c \<and> c \<le> 0x5a) \<or> (0x61 \<le> c \<and> c \<le> 0x7a) \<or> c \<in> {0x2d, 0x2e, 0x5f, 0x7e}"

definition encode_byte :: "u8 \<Rightarrow> bytes" where
  "encode_byte c = (if unreserved c then [c] else [0x25, upper_hex (unat c div 16), upper_hex (unat c mod 16)])"

definition encode_component :: "bytes \<Rightarrow> bytes" where
  "encode_component s = concat (map encode_byte s)"

lemma upper_hex_value: "d < 16 \<Longrightarrow> HexValue (upper_hex d) = int d"
proof -
  have "list_all (\<lambda>d. HexValue (upper_hex d) = int d) [0..<16]" by code_simp
  then show "d < 16 \<Longrightarrow> ?thesis" by (simp add: list_all_iff)
qed

lemma upper_hex_unreserved: "d < 16 \<Longrightarrow> unreserved (upper_hex d)"
proof -
  have "list_all (\<lambda>d. unreserved (upper_hex d)) [0..<16]" by code_simp
  then show "d < 16 \<Longrightarrow> ?thesis" by (simp add: list_all_iff)
qed

lemma byte_of_nibbles: "word_of_nat (unat c div 16) * 16 + word_of_nat (unat c mod 16) = (c :: u8)"
proof -
  have "word_of_nat (unat c div 16 * 16 + unat c mod 16) = c" by (simp only: div_mult_mod_eq) simp
  then show ?thesis by (simp only: of_nat_add of_nat_mult of_nat_numeral)
qed

lemma unat_query_byte: "unat (c :: u8) < 256"
  using unsigned_less [of c] by simp

lemma decode_encode_byte: "DecodeUrlComponent (encode_byte c @ t) = c # DecodeUrlComponent t"
proof (cases "unreserved c")
  case True
  moreover have "\<not> unreserved 0x2b" "\<not> unreserved 0x25" by code_simp+
  ultimately have "c \<noteq> 0x2b" "c \<noteq> 0x25" by auto
  then show ?thesis using True by (simp add: encode_byte_def DecodeUrlComponent.simps [of "c # t"])
next
  case False
  have n: "unat c div 16 < 16" "unat c mod 16 < 16" using unat_query_byte [of c] by auto
  show ?thesis using False n
    by (subst DecodeUrlComponent.simps) (simp add: encode_byte_def upper_hex_value byte_of_nibbles)
qed

lemma decode_encode: "DecodeUrlComponent (encode_component s) = s"
  by (induction s) (simp_all add: encode_component_def decode_encode_byte, simp add: DecodeUrlComponent.simps)

lemma encode_no_separator: "0x26 \<notin> set (encode_component s)" "0x3d \<notin> set (encode_component s)"
proof -
  have u: "\<not> unreserved 0x26" "\<not> unreserved 0x3d" by code_simp+
  have "x \<in> set (encode_component s) \<Longrightarrow> unreserved x \<or> x = 0x25" for x
  proof -
    assume "x \<in> set (encode_component s)"
    then obtain c where c: "x \<in> set (encode_byte c)" by (auto simp: encode_component_def)
    have "unat c div 16 < 16" "unat c mod 16 < 16" using unat_query_byte [of c] by auto
    then show ?thesis using c upper_hex_unreserved by (auto simp: encode_byte_def split: if_splits)
  qed
  with u show "0x26 \<notin> set (encode_component s)" "0x3d \<notin> set (encode_component s)" by fastforce+
qed

definition print_parameter :: "bytes \<times> bytes \<Rightarrow> bytes" where
  "print_parameter p = encode_component (fst p) @ [0x3d] @ encode_component (snd p)"

fun print_query :: "(bytes \<times> bytes) list \<Rightarrow> bytes" where
  "print_query [] = []"
| "print_query [p] = print_parameter p"
| "print_query (p # ps) = print_parameter p @ [0x26] @ print_query ps"

lemma print_parameter_parts:
  "0x26 \<notin> set (print_parameter p)" "find_char 0x3d (print_parameter p) = Some (length (encode_component (fst p)))"
  "DecodeUrlComponent (take (length (encode_component (fst p))) (print_parameter p)) = fst p"
  "DecodeUrlComponent (drop (length (encode_component (fst p)) + 1) (print_parameter p)) = snd p"
  using encode_no_separator [of "fst p"] encode_no_separator [of "snd p"]
    find_char_append [of "0x3d" "encode_component (fst p)" "encode_component (snd p)"]
  by (simp_all add: print_parameter_def decode_encode)

lemma QueryLoop_one: "QueryLoop (print_parameter p) name = (if fst p = name then snd p else [])"
  using print_parameter_parts [of p] by (subst QueryLoop.simps) (auto simp: find_char_None [THEN iffD2] Let_def)

lemma QueryLoop_more:
  "QueryLoop (print_parameter p @ 0x26 # t) name = (if fst p = name then snd p else QueryLoop t name)"
  using print_parameter_parts [of p] find_char_append [OF print_parameter_parts(1) [of p], of t]
  by (subst QueryLoop.simps) (auto simp: Let_def)

lemma QueryLoop_query: "ps \<noteq> [] \<Longrightarrow> QueryLoop (print_query ps) name = (case map_of ps name of None \<Rightarrow> [] | Some v \<Rightarrow> v)"
proof (induction ps rule: print_query.induct)
  case (2 p)
  then show ?case by (cases p) (simp add: QueryLoop_one)
next
  case (3 p p' ps)
  then show ?case by (cases p) (simp add: QueryLoop_more)
qed simp

text \<open>
  Every parameter that a client percent-encodes into a query string is read back, whatever bytes name and value
  consist of: the value of the first parameter of that name, and the empty string for a name that does not occur.
\<close>

lemma http_query_roundtrip:
  assumes "hr_query_string request = print_query ps" and "ps \<noteq> []"
  shows "QueryValue request name = (case map_of ps name of None \<Rightarrow> [] | Some v \<Rightarrow> v)"
  using QueryLoop_query [OF assms(2), of name] assms(1) by (simp add: QueryValue_def)

end
