(* ===== verification/Framed_Stream.thy ===== *)
theory Framed_Stream
  imports Stream_Prelude
begin

text \<open>
  The contract between a byte stream and a component that cuts messages off its front: what is cut off a
  buffer that starts with a whole message, and that nothing is cut off a message that has not arrived
  completely. A client of the contract gets all messages of a stream in order, however the stream
  is cut into pieces.
\<close>

text \<open>A connection that splits its buffer whenever a piece arrives: the messages, and the buffer at the end.\<close>

fun feed_pieces :: "(bytes \<Rightarrow> 'm list \<times> bytes) \<Rightarrow> bytes \<Rightarrow> bytes list \<Rightarrow> 'm list \<times> bytes" where
  "feed_pieces split buf [] = ([], buf)"
| "feed_pieces split buf (p # ps) =
     (let rest = snd (split (buf @ p)) in
      (fst (split (buf @ p)) @ fst (feed_pieces split rest ps), snd (feed_pieces split rest ps)))"

text \<open>
  \<open>step\<close> takes one message off the buffer; \<open>split\<close> repeats it and returns the messages and the buffer left;
  \<open>wire\<close> writes a message.
\<close>

locale framed_stream =
  fixes step :: "bytes \<Rightarrow> ('m \<times> bytes) option"
    and split :: "bytes \<Rightarrow> 'm list \<times> bytes"
    and wire :: "'m \<Rightarrow> bytes"
    and ok :: "'m \<Rightarrow> bool"
  assumes step_nil: "step [] = None"
    and step_whole: "ok m \<Longrightarrow> step (wire m @ rest) = Some (m, rest)"
    and step_cut: "ok m \<Longrightarrow> k < length (wire m) \<Longrightarrow> step (take k (wire m)) = None"
    and split_none: "step b = None \<Longrightarrow> split b = ([], b)"
    and split_some: "step b = Some (m, rest) \<Longrightarrow> split b = (m # fst (split rest), snd (split rest))"
begin

lemma wire_ne: "ok m \<Longrightarrow> wire m \<noteq> []"
  using step_whole [of m "[]"] step_nil by auto

text \<open>What one call returns from a buffer that starts a stream of messages.\<close>

lemma split_prefix:
  assumes "list_all ok ms" and "buf @ coming = concat (map wire ms)"
  shows "\<exists>waiting. ms = fst (split buf) @ waiting \<and> list_all ok waiting
     \<and> snd (split buf) @ coming = concat (map wire waiting) \<and> (coming = [] \<longrightarrow> waiting = [])"
  using assms
proof (induction ms arbitrary: buf)
  case Nil
  then show ?case using split_none [OF step_nil] by simp
next
  case (Cons m ms)
  have m: "ok m" "list_all ok ms" using Cons.prems(1) by simp_all
  consider (cut) k where "k < length (wire m)" "buf = take k (wire m)" "coming \<noteq> []"
    | (whole) rest where "buf = wire m @ rest" "rest @ coming = concat (map wire ms)"
    using cut_or_whole [of buf coming "wire m" "concat (map wire ms)"] Cons.prems(2) by auto
  then show ?case
  proof cases
    case cut
    then have "split buf = ([], buf)" using split_none step_cut m(1) by simp
    then show ?thesis using Cons.prems cut(3) by simp
  next
    case whole
    have "split buf = (m # fst (split rest), snd (split rest))" using split_some step_whole [OF m(1)] whole(1) by blast
    with Cons.IH [OF m(2) whole(2)] show ?thesis by auto
  qed
qed

lemma pieces_delivered:
  assumes "list_all ok ms" and "buf @ concat pieces = concat (map wire ms)" and "buf = [] \<or> pieces \<noteq> []"
  shows "feed_pieces split buf pieces = (ms, [])"
  using assms
proof (induction pieces arbitrary: buf ms)
  case Nil
  then show ?case using wire_ne by (cases ms) auto
next
  case (Cons p ps)
  obtain waiting where w: "ms = fst (split (buf @ p)) @ waiting" "list_all ok waiting"
    "snd (split (buf @ p)) @ concat ps = concat (map wire waiting)" "concat ps = [] \<longrightarrow> waiting = []"
    using split_prefix [of ms "buf @ p" "concat ps"] Cons.prems by auto
  show ?case
  proof (cases "ps = []")
    case True
    then show ?thesis using w by simp
  next
    case False
    from Cons.IH [OF w(2,3)] False w(1) show ?thesis by (simp add: Let_def)
  qed
qed

end

end
