(* ===== verification/Rtsp_Splitter.thy ===== *)
theory Rtsp_Splitter
  imports Http_Text Framed_Stream
begin

text \<open>
  \<open>libs/rtsp/src/rtsp_splitter.{h,cpp}\<close>: RTSP requests and interleaved RTP/RTCP frames share one TCP connection;
  the splitter cuts both off the receive buffer.
\<close>

section \<open>Model\<close>

datatype RtspSplitterStatus = RtspSplitOk | RtspSplitNeedMoreData | RtspSplitPayloadTooLarge

record RtspInterleavedPacket =
  ip_channel :: u8
  ip_payload :: bytes

record RtspSplitterResult =
  rsr_status :: RtspSplitterStatus
  rsr_requests :: "bytes list"
  rsr_interleaved_packets :: "RtspInterleavedPacket list"

record RtspSplitter =
  rtsp_recv_buffer :: bytes

definition RtspSplitter_Append :: "bytes option \<Rightarrow> nat \<Rightarrow> RtspSplitter \<Rightarrow> RtspSplitter \<times> bool" where
  "RtspSplitter_Append data sz sp =
     (case data of
        None \<Rightarrow> (sp, False)
      | Some d \<Rightarrow> (sp\<lparr>rtsp_recv_buffer := rtsp_recv_buffer sp @ take sz d\<rparr>, True))"

text \<open>The loop of \<open>Split\<close>, with the buffer and the result so far; \<open>0x24\<close> is the dollar sign.\<close>

function RtspSplitLoop :: "nat \<Rightarrow> bytes \<Rightarrow> RtspSplitterResult \<Rightarrow> bytes \<times> RtspSplitterResult" where
  "RtspSplitLoop max_request_bytes buf result =
     (if buf = [] then (buf, result)
      else if buf ! 0 = 0x24 then
        if length buf < 4 then (buf, result\<lparr>rsr_status := RtspSplitNeedMoreData\<rparr>)
        else
          let channel = buf ! 1;
              payload_size = unat (buf ! 2) * 256 + unat (buf ! 3)
          in if length buf < 4 + payload_size then (buf, result\<lparr>rsr_status := RtspSplitNeedMoreData\<rparr>)
             else RtspSplitLoop max_request_bytes (drop (4 + payload_size) buf)
                    (result\<lparr>rsr_interleaved_packets := rsr_interleaved_packets result
                       @ [\<lparr>ip_channel = channel, ip_payload = take payload_size (drop 4 buf)\<rparr>]\<rparr>)
      else
        case find_sub (CRLF @ CRLF) buf of
          None \<Rightarrow> (buf, result\<lparr>rsr_status :=
                     if length buf > max_request_bytes then RtspSplitPayloadTooLarge else RtspSplitNeedMoreData\<rparr>)
        | Some end \<Rightarrow>
            if end + 4 > max_request_bytes then (buf, result\<lparr>rsr_status := RtspSplitPayloadTooLarge\<rparr>)
            else RtspSplitLoop max_request_bytes (drop (end + 4) buf)
                   (result\<lparr>rsr_requests := rsr_requests result @ [take (end + 4) buf]\<rparr>))"
  by pat_completeness auto
termination
  by (relation "measure (\<lambda>(n, buf, result). length buf)") auto

declare RtspSplitLoop.simps [simp del]

definition RtspSplitter_Split :: "nat \<Rightarrow> RtspSplitter \<Rightarrow> RtspSplitter \<times> RtspSplitterResult" where
  "RtspSplitter_Split max_request_bytes sp =
     (case RtspSplitLoop max_request_bytes (rtsp_recv_buffer sp)
             \<lparr>rsr_status = RtspSplitOk, rsr_requests = [], rsr_interleaved_packets = []\<rparr> of
        (buf, result) \<Rightarrow> (sp\<lparr>rtsp_recv_buffer := buf\<rparr>, result))"

definition RtspSplitter_Clear :: "RtspSplitter \<Rightarrow> RtspSplitter" where
  "RtspSplitter_Clear sp = sp\<lparr>rtsp_recv_buffer := []\<rparr>"

definition RtspSplitter_BufferedBytes :: "RtspSplitter \<Rightarrow> nat" where
  "RtspSplitter_BufferedBytes sp = length (rtsp_recv_buffer sp)"

section \<open>Messages\<close>

datatype rtsp_message = RequestMessage bytes | InterleavedMessage u8 bytes

fun rtsp_wire :: "rtsp_message \<Rightarrow> bytes" where
  "rtsp_wire (RequestMessage raw) = raw"
| "rtsp_wire (InterleavedMessage channel d) =
     [0x24, channel, word_of_nat (length d div 256), word_of_nat (length d mod 256)] @ d"

text \<open>A request ends with its first empty line and fits; a frame has a 16-bit length.\<close>

fun rtsp_message_ok :: "nat \<Rightarrow> rtsp_message \<Rightarrow> bool" where
  "rtsp_message_ok max_bytes (RequestMessage raw) \<longleftrightarrow>
     4 \<le> length raw \<and> raw ! 0 \<noteq> 0x24 \<and> find_sub (CRLF @ CRLF) raw = Some (length raw - 4) \<and> length raw \<le> max_bytes"
| "rtsp_message_ok max_bytes (InterleavedMessage channel d) \<longleftrightarrow> length d \<le> UINT16_MAX"

text \<open>One turn of the loop, as a message.\<close>

definition rtsp_step :: "nat \<Rightarrow> bytes \<Rightarrow> (rtsp_message \<times> bytes) option" where
  "rtsp_step max_bytes buf =
     (if buf = [] then None
      else if buf ! 0 = 0x24 then
        let n = unat (buf ! 2) * 256 + unat (buf ! 3) in
        if length buf < 4 \<or> length buf < 4 + n then None
        else Some (InterleavedMessage (buf ! 1) (take n (drop 4 buf)), drop (4 + n) buf)
      else
        case find_sub (CRLF @ CRLF) buf of
          None \<Rightarrow> None
        | Some e \<Rightarrow> if e + 4 > max_bytes then None else Some (RequestMessage (take (e + 4) buf), drop (e + 4) buf))"

function rtsp_split :: "nat \<Rightarrow> bytes \<Rightarrow> rtsp_message list \<times> bytes" where
  "rtsp_split max_bytes buf =
     (case rtsp_step max_bytes buf of
        None \<Rightarrow> ([], buf)
      | Some (m, rest) \<Rightarrow> (m # fst (rtsp_split max_bytes rest), snd (rtsp_split max_bytes rest)))"
  by pat_completeness auto
termination
  by (relation "measure (\<lambda>(n, buf). length buf)") (auto simp: rtsp_step_def Let_def split: if_splits option.splits)

declare rtsp_split.simps [simp del]

definition requests_of :: "rtsp_message list \<Rightarrow> bytes list" where
  "requests_of ms = concat (map (\<lambda>m. case m of RequestMessage raw \<Rightarrow> [raw] | InterleavedMessage c d \<Rightarrow> []) ms)"

definition packets_of :: "rtsp_message list \<Rightarrow> RtspInterleavedPacket list" where
  "packets_of ms = concat (map (\<lambda>m. case m of RequestMessage raw \<Rightarrow> [] | InterleavedMessage c d \<Rightarrow> [\<lparr>ip_channel = c, ip_payload = d\<rparr>]) ms)"

fun add_message :: "rtsp_message \<Rightarrow> RtspSplitterResult \<Rightarrow> RtspSplitterResult" where
  "add_message (RequestMessage raw) result = result\<lparr>rsr_requests := rsr_requests result @ [raw]\<rparr>"
| "add_message (InterleavedMessage c d) result =
     result\<lparr>rsr_interleaved_packets := rsr_interleaved_packets result @ [\<lparr>ip_channel = c, ip_payload = d\<rparr>]\<rparr>"

lemma RtspSplitLoop_none:
  assumes "rtsp_step max_bytes buf = None"
  shows "\<exists>st. RtspSplitLoop max_bytes buf result = (buf, result\<lparr>rsr_status := st\<rparr>)"
proof (cases "buf = []")
  case True
  then show ?thesis by (intro exI [of _ "rsr_status result"]) (simp add: RtspSplitLoop.simps)
next
  case False
  show ?thesis
  proof (cases "buf ! 0 = 0x24")
    case True
    with False assms have "length buf < 4 \<or> length buf < 4 + (unat (buf ! 2) * 256 + unat (buf ! 3))"
      by (auto simp: rtsp_step_def Let_def split: if_splits)
    with False True show ?thesis unfolding RtspSplitLoop.simps [of max_bytes buf result] Let_def by auto
  next
    case other: False
    with False assms show ?thesis unfolding RtspSplitLoop.simps [of max_bytes buf result]
      by (auto simp: rtsp_step_def split: option.splits if_splits)
  qed
qed

lemma RtspSplitLoop_some:
  assumes "rtsp_step max_bytes buf = Some (m, rest)"
  shows "RtspSplitLoop max_bytes buf result = RtspSplitLoop max_bytes rest (add_message m result)"
proof (cases "buf ! 0 = 0x24")
  case True
  let ?n = "unat (buf ! 2) * 256 + unat (buf ! 3)"
  have "buf \<noteq> []" "\<not> length buf < 4" "\<not> length buf < 4 + ?n" "m = InterleavedMessage (buf ! 1) (take ?n (drop 4 buf))" "rest = drop (4 + ?n) buf"
    using assms True by (auto simp: rtsp_step_def Let_def split: if_splits)
  then show ?thesis unfolding RtspSplitLoop.simps [of max_bytes buf result] Let_def using True by simp
next
  case False
  then have "buf \<noteq> []" using assms by (auto simp: rtsp_step_def)
  with assms False show ?thesis unfolding RtspSplitLoop.simps [of max_bytes buf result]
    by (auto simp: rtsp_step_def split: option.splits if_splits)
qed

lemma add_message_lists:
  "rsr_requests (add_message m result) = rsr_requests result @ requests_of [m]"
  "rsr_interleaved_packets (add_message m result) = rsr_interleaved_packets result @ packets_of [m]"
  by (cases m; simp add: requests_of_def packets_of_def)+

lemma RtspSplitLoop_split:
  "fst (RtspSplitLoop max_bytes buf result) = snd (rtsp_split max_bytes buf)
   \<and> rsr_requests (snd (RtspSplitLoop max_bytes buf result)) = rsr_requests result @ requests_of (fst (rtsp_split max_bytes buf))
   \<and> rsr_interleaved_packets (snd (RtspSplitLoop max_bytes buf result))
       = rsr_interleaved_packets result @ packets_of (fst (rtsp_split max_bytes buf))"
proof (induction max_bytes buf arbitrary: result rule: rtsp_split.induct)
  case (1 max_bytes buf)
  show ?case
  proof (cases "rtsp_step max_bytes buf")
    case None
    from RtspSplitLoop_none [OF None, of result] obtain st where "RtspSplitLoop max_bytes buf result = (buf, result\<lparr>rsr_status := st\<rparr>)" ..
    then show ?thesis using None by (simp add: rtsp_split.simps [of max_bytes buf] requests_of_def packets_of_def)
  next
    case (Some p)
    then obtain m rest where s: "rtsp_step max_bytes buf = Some (m, rest)" by (cases p) auto
    have "rtsp_split max_bytes buf = (m # fst (rtsp_split max_bytes rest), snd (rtsp_split max_bytes rest))"
      by (subst rtsp_split.simps) (simp add: s)
    then show ?thesis using 1(1) [OF s refl, of "add_message m result"] RtspSplitLoop_some [OF s, of result]
      by (simp add: add_message_lists) (simp add: requests_of_def packets_of_def)
  qed
qed

lemma rtsp_step_whole: "rtsp_message_ok max_bytes m \<Longrightarrow> rtsp_step max_bytes (rtsp_wire m @ rest) = Some (m, rest)"
proof (cases m)
  case (RequestMessage raw)
  assume ok: "rtsp_message_ok max_bytes m"
  then have "find_sub (CRLF @ CRLF) (raw @ rest) = Some (length raw - 4)" using RequestMessage by (auto intro: find_sub_append)
  then show ?thesis using ok RequestMessage by (auto simp: rtsp_step_def nth_append)
next
  case (InterleavedMessage c d)
  assume "rtsp_message_ok max_bytes m"
  then have "unat (word_of_nat (length d div 256) :: u8) = length d div 256"
    using InterleavedMessage by (simp add: unat_of_nat)
  moreover have "unat (word_of_nat (length d mod 256) :: u8) = length d mod 256" by (simp add: unat_of_nat)
  moreover have "drop (4 + length d) ([0x24, c, a, b] @ d @ rest) = rest" for a b :: u8 by (simp add: numeral_eq_Suc)
  ultimately show ?thesis using InterleavedMessage by (simp add: rtsp_step_def Let_def)
qed

lemma rtsp_step_cut:
  assumes "rtsp_message_ok max_bytes m" and "k < length (rtsp_wire m)"
  shows "rtsp_step max_bytes (take k (rtsp_wire m)) = None"
proof (cases m)
  case (RequestMessage raw)
  have "find_sub (CRLF @ CRLF) (take k raw) = None"
  proof (rule ccontr)
    assume "find_sub (CRLF @ CRLF) (take k raw) \<noteq> None"
    then obtain n where n: "find_sub (CRLF @ CRLF) (take k raw) = Some n" by auto
    from find_sub_append [OF this, of "drop k raw"] have "find_sub (CRLF @ CRLF) raw = Some n" by simp
    moreover have "n + 4 \<le> k" using find_sub_Some [OF n] by (simp add: CRLF_def)
    ultimately show False using assms RequestMessage by auto
  qed
  then show ?thesis using assms RequestMessage by (auto simp: rtsp_step_def)
next
  case (InterleavedMessage c d)
  have n: "unat (word_of_nat (length d div 256) :: u8) = length d div 256" "unat (word_of_nat (length d mod 256) :: u8) = length d mod 256"
    using InterleavedMessage assms(1) by (simp_all add: unat_of_nat)
  show ?thesis
  proof (cases "k < 4")
    case False
    then have "take k (rtsp_wire m) ! 0 = 0x24" "take k (rtsp_wire m) ! 2 = word_of_nat (length d div 256)"
      "take k (rtsp_wire m) ! 3 = word_of_nat (length d mod 256)" using InterleavedMessage by simp_all
    then show ?thesis using n False assms(2) InterleavedMessage by (simp add: rtsp_step_def Let_def)
  qed (use InterleavedMessage assms(2) in \<open>auto simp: rtsp_step_def Let_def\<close>)
qed

interpretation rtsp_stream: framed_stream "rtsp_step max_bytes" "rtsp_split max_bytes" rtsp_wire "rtsp_message_ok max_bytes" for max_bytes
proof unfold_locales
  show "rtsp_step max_bytes [] = None" by (simp add: rtsp_step_def)
  show "rtsp_step max_bytes b = None \<Longrightarrow> rtsp_split max_bytes b = ([], b)" for b by (subst rtsp_split.simps) simp
  show "rtsp_step max_bytes b = Some (m, rest) \<Longrightarrow>
      rtsp_split max_bytes b = (m # fst (rtsp_split max_bytes rest), snd (rtsp_split max_bytes rest))" for b m rest
    by (subst rtsp_split.simps) simp
qed (simp_all add: rtsp_step_whole rtsp_step_cut)

section \<open>A connection\<close>

text \<open>The requests and the frames a connection gets from the pieces of the stream.\<close>

fun rtsp_receive :: "nat \<Rightarrow> bytes list \<Rightarrow> RtspSplitter \<Rightarrow> bytes list \<times> RtspInterleavedPacket list \<times> RtspSplitter" where
  "rtsp_receive max_bytes [] sp = ([], [], sp)"
| "rtsp_receive max_bytes (p # ps) sp =
     (case RtspSplitter_Split max_bytes (fst (RtspSplitter_Append (Some p) (length p) sp)) of
        (sp, result) \<Rightarrow>
          (case rtsp_receive max_bytes ps sp of
             (requests, packets, sp) \<Rightarrow> (rsr_requests result @ requests, rsr_interleaved_packets result @ packets, sp)))"

lemma rtsp_receive_pieces:
  "rtsp_receive max_bytes ps sp =
     (requests_of (fst (feed_pieces (rtsp_split max_bytes) (rtsp_recv_buffer sp) ps)),
      packets_of (fst (feed_pieces (rtsp_split max_bytes) (rtsp_recv_buffer sp) ps)),
      sp\<lparr>rtsp_recv_buffer := snd (feed_pieces (rtsp_split max_bytes) (rtsp_recv_buffer sp) ps)\<rparr>)"
proof (induction ps arbitrary: sp)
  case Nil
  then show ?case by (simp add: requests_of_def packets_of_def)
next
  case (Cons p ps)
  let ?empty = "\<lparr>rsr_status = RtspSplitOk, rsr_requests = [], rsr_interleaved_packets = []\<rparr>"
  obtain buf result where loop: "RtspSplitLoop max_bytes (rtsp_recv_buffer sp @ p) ?empty = (buf, result)" by force
  with RtspSplitLoop_split [of max_bytes "rtsp_recv_buffer sp @ p" ?empty]
  have "buf = snd (rtsp_split max_bytes (rtsp_recv_buffer sp @ p))"
    "rsr_requests result = requests_of (fst (rtsp_split max_bytes (rtsp_recv_buffer sp @ p)))"
    "rsr_interleaved_packets result = packets_of (fst (rtsp_split max_bytes (rtsp_recv_buffer sp @ p)))" by simp_all
  with loop Cons show ?case
    by (simp add: RtspSplitter_Split_def RtspSplitter_Append_def Let_def) (simp add: requests_of_def packets_of_def)
qed

text \<open>
  Claim C26. However the network cuts a stream of RTSP requests and interleaved frames, the connection gets exactly
  the requests and exactly the frames of the stream, each in order, and nothing is left in the buffer.
\<close>

theorem rtsp_stream_split:
  assumes "list_all (rtsp_message_ok max_bytes) ms" and "concat pieces = concat (map rtsp_wire ms)"
  shows "rtsp_receive max_bytes pieces \<lparr>rtsp_recv_buffer = []\<rparr> = (requests_of ms, packets_of ms, \<lparr>rtsp_recv_buffer = []\<rparr>)"
  using rtsp_stream.pieces_delivered [OF assms(1), of "[]" pieces] assms(2) by (simp add: rtsp_receive_pieces)

theorem rtsp_stream_split_witness:
  "rtsp_receive 100 [[0x24, 1, 0], [2, 7, 8] @ ascii ''OPTIONS * RTSP/1.0'' @ [0x0d], [0x0a, 0x0d, 0x0a]] \<lparr>rtsp_recv_buffer = []\<rparr>
     = ([ascii ''OPTIONS * RTSP/1.0'' @ CRLF @ CRLF], [\<lparr>ip_channel = 1, ip_payload = [7, 8]\<rparr>], \<lparr>rtsp_recv_buffer = []\<rparr>)"
proof -
  let ?ms = "[InterleavedMessage 1 [7, 8], RequestMessage (ascii ''OPTIONS * RTSP/1.0'' @ CRLF @ CRLF)]"
  have "rtsp_message_ok 100 (RequestMessage (ascii ''OPTIONS * RTSP/1.0'' @ CRLF @ CRLF))" by code_simp
  then have "list_all (rtsp_message_ok 100) ?ms" by simp
  from rtsp_stream_split [OF this, of "[[0x24, 1, 0], [2, 7, 8] @ ascii ''OPTIONS * RTSP/1.0'' @ [0x0d], [0x0a, 0x0d, 0x0a]]"]
  show ?thesis by (simp add: CRLF_def requests_of_def packets_of_def)
qed

end
