(* ===== verification/Rtsp_Session.thy ===== *)
theory Rtsp_Session
  imports Rtsp_Splitter Media_Types Socket_Types
begin

text \<open>
  \<open>libs/rtsp/src/rtsp_session.{h,cpp}\<close> and \<open>rtsp_session_table.{h,cpp}\<close>: the state of one RTSP control connection and
  the table of all of them. The state machine goes from \<open>kInit\<close> through \<open>kReady\<close> (after SETUP) to \<open>kPlaying\<close>. A
  session of the table is shared with the callers by reference; the model reads it from the table and writes it back.
\<close>

section \<open>Sessions\<close>

datatype RtspSessionState = RtspInit | RtspReady | RtspPlaying | RtspClosed

datatype RtspTransportMode = TcpInterleaved | Udp

record RtspSessionStats =
  rst_session_id :: u64
  rst_stream_id :: StreamId
  rst_transport :: RtspTransportMode
  rst_pending_bytes :: nat
  rst_sent_rtp_packets :: nat
  rst_sent_rtp_bytes :: nat
  rst_received_rtcp_packets :: nat
  rst_received_rtcp_bytes :: nat
  rst_last_rtcp_ms :: int
  rst_dropped_frames :: nat

record RtspSession =
  rs_session_id :: u64
  rs_connection_id :: nat
  rs_peer :: SocketAddress
  rs_state :: RtspSessionState
  rs_stream_id :: StreamId
  rs_transport :: RtspTransportMode
  rs_interleaved_rtp_channel :: u8
  rs_rtp_socket_id :: nat
  rs_rtcp_socket_id :: nat
  rs_client_rtp_port :: u16
  rs_udp_rtp_peer :: SocketAddress
  rs_udp_rtcp_peer :: SocketAddress
  rs_rtp_sequence :: u16
  rs_ssrc :: u32
  rs_play_rtp_timestamp :: u32
  rs_last_rtcp_sender_report_ms :: int
  rs_stream_info :: "MediaStreamInfo option"
  rs_keyframe_seen :: bool
  rs_subscription_id :: nat
  rs_subscription_generation :: nat
  rs_start_frames :: "MediaFrame list"
  rs_drain_timer_id :: nat
  rs_authenticated :: bool
  rs_authenticated_stream_id :: StreamId
  rs_authenticated_user :: bytes
  rs_close_reason :: TcpCloseReason
  rs_stats :: RtspSessionStats
  rs_splitter :: RtspSplitter

definition kDefaultSsrcBase :: u32 where "kDefaultSsrcBase = 0x52545350"

definition SameAddress :: "SocketAddress \<Rightarrow> SocketAddress \<Rightarrow> bool" where
  "SameAddress l r \<longleftrightarrow> sa_ip l = sa_ip r \<and> sa_port l = sa_port r"

definition RtspSession_new :: "nat \<Rightarrow> SocketAddress \<Rightarrow> u64 \<Rightarrow> RtspSession" where
  "RtspSession_new connection_id peer session_id =
     \<lparr>rs_session_id = session_id, rs_connection_id = connection_id, rs_peer = peer, rs_state = RtspInit,
      rs_stream_id = StreamMain, rs_transport = TcpInterleaved, rs_interleaved_rtp_channel = 0,
      rs_rtp_socket_id = 0, rs_rtcp_socket_id = 0, rs_client_rtp_port = 0,
      rs_udp_rtp_peer = no_address, rs_udp_rtcp_peer = no_address, rs_rtp_sequence = 1,
      rs_ssrc = kDefaultSsrcBase XOR ucast session_id, rs_play_rtp_timestamp = 0, rs_last_rtcp_sender_report_ms = 0,
      rs_stream_info = None, rs_keyframe_seen = False, rs_subscription_id = 0, rs_subscription_generation = 0,
      rs_start_frames = [], rs_drain_timer_id = 0, rs_authenticated = False, rs_authenticated_stream_id = StreamMain,
      rs_authenticated_user = [], rs_close_reason = TcpNormal,
      rs_stats = \<lparr>rst_session_id = session_id, rst_stream_id = StreamMain, rst_transport = TcpInterleaved, rst_pending_bytes = 0,
        rst_sent_rtp_packets = 0, rst_sent_rtp_bytes = 0, rst_received_rtcp_packets = 0, rst_received_rtcp_bytes = 0,
        rst_last_rtcp_ms = 0, rst_dropped_frames = 0\<rparr>,
      rs_splitter = \<lparr>rtsp_recv_buffer = []\<rparr>\<rparr>"

definition RtspSession_AppendBytes :: "bytes option \<Rightarrow> nat \<Rightarrow> RtspSession \<Rightarrow> RtspSession \<times> bool" where
  "RtspSession_AppendBytes data sz s =
     (case RtspSplitter_Append data sz (rs_splitter s) of (sp, ok) \<Rightarrow> (s\<lparr>rs_splitter := sp\<rparr>, ok))"

definition RtspSession_SplitRequests :: "nat \<Rightarrow> RtspSession \<Rightarrow> RtspSession \<times> RtspSplitterResult" where
  "RtspSession_SplitRequests max_request_bytes s =
     (case RtspSplitter_Split max_request_bytes (rs_splitter s) of (sp, result) \<Rightarrow> (s\<lparr>rs_splitter := sp\<rparr>, result))"

definition IsReadyForPlay :: "RtspSession \<Rightarrow> bool" where
  "IsReadyForPlay s \<longleftrightarrow> rs_state s = RtspReady \<or> rs_state s = RtspPlaying"

definition MarkDescribed :: "StreamId \<Rightarrow> RtspSession \<Rightarrow> RtspSession" where
  "MarkDescribed sid s = s\<lparr>rs_stream_id := sid\<rparr>"

definition SetupTcp :: "StreamId \<Rightarrow> u8 \<Rightarrow> RtspSession \<Rightarrow> RtspSession" where
  "SetupTcp sid channel s =
     s\<lparr>rs_stream_id := sid, rs_state := RtspReady, rs_transport := TcpInterleaved, rs_interleaved_rtp_channel := channel,
       rs_rtp_socket_id := 0, rs_rtcp_socket_id := 0, rs_client_rtp_port := 0, rs_udp_rtp_peer := no_address,
       rs_udp_rtcp_peer := no_address, rs_stats := (rs_stats s)\<lparr>rst_transport := TcpInterleaved, rst_stream_id := sid\<rparr>\<rparr>"

definition SetupUdp :: "StreamId \<Rightarrow> nat \<Rightarrow> nat \<Rightarrow> u16 \<Rightarrow> RtspSession \<Rightarrow> RtspSession" where
  "SetupUdp sid rtp_socket_id rtcp_socket_id client_rtp_port s =
     s\<lparr>rs_stream_id := sid, rs_state := RtspReady, rs_transport := Udp, rs_rtp_socket_id := rtp_socket_id,
       rs_rtcp_socket_id := rtcp_socket_id, rs_client_rtp_port := client_rtp_port,
       rs_udp_rtp_peer := (rs_peer s)\<lparr>sa_port := client_rtp_port\<rparr>,
       rs_udp_rtcp_peer := (rs_peer s)\<lparr>sa_port := client_rtp_port + 1\<rparr>,
       rs_stats := (rs_stats s)\<lparr>rst_transport := Udp, rst_stream_id := sid\<rparr>\<rparr>"

definition LearnUdpRtpPeer :: "SocketAddress \<Rightarrow> RtspSession \<Rightarrow> RtspSession \<times> bool" where
  "LearnUdpRtpPeer peer s =
     (if sa_ip peer = [] \<or> sa_port peer = 0 \<or> SameAddress (rs_udp_rtp_peer s) peer then (s, False)
      else (s\<lparr>rs_udp_rtp_peer := peer\<rparr>, True))"

definition LearnUdpRtcpPeer :: "SocketAddress \<Rightarrow> RtspSession \<Rightarrow> RtspSession \<times> bool" where
  "LearnUdpRtcpPeer peer s =
     (if sa_ip peer = [] \<or> sa_port peer = 0 \<or> SameAddress (rs_udp_rtcp_peer s) peer then (s, False)
      else (s\<lparr>rs_udp_rtcp_peer := peer\<rparr>, True))"

definition StartPlaying :: "RtspSession \<Rightarrow> RtspSession" where
  "StartPlaying s =
     s\<lparr>rs_state := RtspPlaying, rs_keyframe_seen := False, rs_last_rtcp_sender_report_ms := 0,
       rs_stats := (rs_stats s)\<lparr>rst_stream_id := rs_stream_id s, rst_transport := rs_transport s\<rparr>\<rparr>"

definition SetSubscription :: "nat \<Rightarrow> nat \<Rightarrow> MediaStreamInfo option \<Rightarrow> RtspSession \<Rightarrow> RtspSession" where
  "SetSubscription subscription_id generation info s =
     s\<lparr>rs_subscription_id := subscription_id, rs_subscription_generation := generation, rs_stream_info := info,
       rs_keyframe_seen := False\<rparr>"

definition ClearStartFrames :: "RtspSession \<Rightarrow> RtspSession" where
  "ClearStartFrames s = s\<lparr>rs_start_frames := []\<rparr>"

definition ClearSubscription :: "RtspSession \<Rightarrow> RtspSession" where
  "ClearSubscription s =
     ClearStartFrames (s\<lparr>rs_subscription_id := 0, rs_subscription_generation := 0, rs_stream_info := None, rs_keyframe_seen := False,
       rs_play_rtp_timestamp := 0, rs_last_rtcp_sender_report_ms := 0\<rparr>)"

definition IsSubscribed :: "RtspSession \<Rightarrow> bool" where
  "IsSubscribed s \<longleftrightarrow> rs_subscription_id s \<noteq> 0"

text \<open>The frames are moved out of the caller's vector, which is empty afterwards; \<open>None\<close> is the null pointer.\<close>

definition SetStartFrames :: "MediaFrame list option \<Rightarrow> RtspSession \<Rightarrow> RtspSession" where
  "SetStartFrames frames s =
     (case frames of None \<Rightarrow> ClearStartFrames s | Some fs \<Rightarrow> (ClearStartFrames s)\<lparr>rs_start_frames := fs\<rparr>)"

definition SetPlayRtpTimestamp :: "u32 \<Rightarrow> RtspSession \<Rightarrow> RtspSession" where
  "SetPlayRtpTimestamp timestamp s = s\<lparr>rs_play_rtp_timestamp := timestamp\<rparr>"

definition SetDrainTimer :: "nat \<Rightarrow> RtspSession \<Rightarrow> RtspSession" where
  "SetDrainTimer timer_id s = s\<lparr>rs_drain_timer_id := timer_id\<rparr>"

definition ClearDrainTimer :: "RtspSession \<Rightarrow> RtspSession" where
  "ClearDrainTimer s = s\<lparr>rs_drain_timer_id := 0\<rparr>"

definition RtspSession_Close :: "RtspSession \<Rightarrow> RtspSession" where
  "RtspSession_Close s = s\<lparr>rs_state := RtspClosed\<rparr>"

definition MarkCloseReason :: "TcpCloseReason \<Rightarrow> RtspSession \<Rightarrow> RtspSession" where
  "MarkCloseReason reason s = s\<lparr>rs_close_reason := reason\<rparr>"

definition MarkAuthenticated :: "StreamId \<Rightarrow> bytes \<Rightarrow> RtspSession \<Rightarrow> RtspSession" where
  "MarkAuthenticated sid user_name s =
     s\<lparr>rs_authenticated := True, rs_authenticated_stream_id := sid, rs_authenticated_user := user_name\<rparr>"

definition IsAuthenticatedFor :: "StreamId \<Rightarrow> RtspSession \<Rightarrow> bool" where
  "IsAuthenticatedFor sid s \<longleftrightarrow> rs_authenticated s \<and> rs_authenticated_stream_id s = sid"

definition RecordRtcpPacket :: "nat \<Rightarrow> int \<Rightarrow> RtspSession \<Rightarrow> RtspSession" where
  "RecordRtcpPacket packet_size now_ms s =
     (if packet_size = 0 then s
      else s\<lparr>rs_stats := (rs_stats s)\<lparr>rst_received_rtcp_packets := rst_received_rtcp_packets (rs_stats s) + 1,
               rst_received_rtcp_bytes := rst_received_rtcp_bytes (rs_stats s) + packet_size, rst_last_rtcp_ms := now_ms\<rparr>\<rparr>)"

section \<open>The session table\<close>

text \<open>\<open>sessions_\<close> is a map ordered by the connection; the list holds its entries in that order.\<close>

record RtspSessionTable =
  st_next_session_id :: u64
  st_sessions :: "(nat \<times> RtspSession) list"

fun table_set :: "nat \<Rightarrow> 'a \<Rightarrow> (nat \<times> 'a) list \<Rightarrow> (nat \<times> 'a) list" where
  "table_set k v [] = [(k, v)]"
| "table_set k v ((k', v') # m) =
     (if k = k' then (k, v) # m else if k < k' then (k, v) # (k', v') # m else (k', v') # table_set k v m)"

definition RtspSessionTable_Add ::
  "nat \<Rightarrow> SocketAddress \<Rightarrow> nat \<Rightarrow> RtspSessionTable \<Rightarrow> RtspSessionTable \<times> RtspSession option" where
  "RtspSessionTable_Add connection_id peer max_sessions t =
     (if length (st_sessions t) \<ge> max_sessions then (t, None)
      else
        let session = RtspSession_new connection_id peer (st_next_session_id t) in
        (t\<lparr>st_next_session_id := st_next_session_id t + 1, st_sessions := table_set connection_id session (st_sessions t)\<rparr>, Some session))"

definition RtspSessionTable_Find :: "nat \<Rightarrow> RtspSessionTable \<Rightarrow> RtspSession option" where
  "RtspSessionTable_Find connection_id t = map_of (st_sessions t) connection_id"

definition FindByUdpSocket :: "nat \<Rightarrow> RtspSessionTable \<Rightarrow> RtspSession option" where
  "FindByUdpSocket socket_id t =
     (if socket_id = 0 then None
      else map_option snd (find (\<lambda>e. rs_rtp_socket_id (snd e) = socket_id \<or> rs_rtcp_socket_id (snd e) = socket_id) (st_sessions t)))"

definition RtspSessionTable_Remove :: "nat \<Rightarrow> RtspSessionTable \<Rightarrow> RtspSessionTable \<times> RtspSession option" where
  "RtspSessionTable_Remove connection_id t =
     (case map_of (st_sessions t) connection_id of
        None \<Rightarrow> (t, None)
      | Some session \<Rightarrow> (t\<lparr>st_sessions := filter (\<lambda>e. fst e \<noteq> connection_id) (st_sessions t)\<rparr>, Some session))"

definition ConnectionIds :: "RtspSessionTable \<Rightarrow> nat list" where
  "ConnectionIds t = map fst (st_sessions t)"

definition Sessions :: "RtspSessionTable \<Rightarrow> RtspSession list" where
  "Sessions t = map snd (st_sessions t)"

definition RtspSessionTable_Clear :: "RtspSessionTable \<Rightarrow> RtspSessionTable" where
  "RtspSessionTable_Clear t = t\<lparr>st_sessions := []\<rparr>"

definition RtspSessionTable_Size :: "RtspSessionTable \<Rightarrow> nat" where
  "RtspSessionTable_Size t = length (st_sessions t)"

text \<open>Writing a session back, as the shared object would be.\<close>

definition RtspSessionTable_Update :: "RtspSession \<Rightarrow> RtspSessionTable \<Rightarrow> RtspSessionTable" where
  "RtspSessionTable_Update session t = t\<lparr>st_sessions := table_set (rs_connection_id session) session (st_sessions t)\<rparr>"

end
