(* ===== verification/Rtsp_Protocol.thy ===== *)
theory Rtsp_Protocol
  imports Http_Messages Media_Types
begin

text \<open>
  \<open>libs/rtsp/src/rtsp_protocol.{h,cpp}\<close>: parsing of RTSP requests, stream paths and transport headers, responses, and
  Base64 decoding. \<open>Trim\<close> and \<open>Lower\<close> are the functions of the same text in \<open>http_protocol.cpp\<close>. A request
  that is parsed into a fresh \<open>RtspRequest\<close> is an \<open>option\<close>, \<open>None\<close> being the return value \<open>false\<close>. An
  \<open>istringstream\<close> is the text not read yet.
\<close>

section \<open>Model\<close>

record RtspRequest =
  rq_method :: bytes
  rq_uri :: bytes
  rq_headers :: "(bytes \<times> bytes) list"

definition RtspStatusText :: "nat \<Rightarrow> string" where
  "RtspStatusText status =
     (if status = 200 then ''OK'' else if status = 400 then ''Bad Request'' else if status = 401 then ''Unauthorized''
      else if status = 403 then ''Forbidden'' else if status = 404 then ''Not Found''
      else if status = 415 then ''Unsupported Media Type'' else if status = 454 then ''Session Not Found''
      else if status = 455 then ''Method Not Valid in This State'' else if status = 461 then ''Unsupported Transport''
      else if status = 500 then ''Internal Server Status'' else ''Status'')"

definition Base64Value :: "u8 \<Rightarrow> int" where
  "Base64Value ch =
     (if 0x41 \<le> ch \<and> ch \<le> 0x5a then uint (ch - 0x41)
      else if 0x61 \<le> ch \<and> ch \<le> 0x7a then uint (ch - 0x61) + 26
      else if 0x30 \<le> ch \<and> ch \<le> 0x39 then uint (ch - 0x30) + 52
      else if ch = 0x2b then 62 else if ch = 0x2f then 63 else - 1)"

definition ContainsNoCase :: "bytes \<Rightarrow> bytes \<Rightarrow> bool" where
  "ContainsNoCase value needle \<longleftrightarrow> find_sub (ToLower needle) (ToLower value) \<noteq> None"

definition RtspHeaderValue :: "RtspRequest \<Rightarrow> bytes \<Rightarrow> bytes" where
  "RtspHeaderValue request name = (case map_of (rq_headers request) (ToLower name) of None \<Rightarrow> [] | Some v \<Rightarrow> v)"

text \<open>\<open>std::getline\<close>: a line without its line feed and what follows, \<open>None\<close> at the end of the text.\<close>

definition getline :: "bytes \<Rightarrow> (bytes \<times> bytes) option" where
  "getline input =
     (if input = [] then None
      else case find_char 0x0a input of None \<Rightarrow> Some (input, []) | Some n \<Rightarrow> Some (take n input, drop (n + 1) input))"

text \<open>\<open>if (!line.empty() && line.back() == CR) line.pop_back()\<close>.\<close>

definition chomp :: "bytes \<Rightarrow> bytes" where
  "chomp line = (if line \<noteq> [] \<and> last line = 0x0d then butlast line else line)"

text \<open>\<open>stream >> word\<close>; the word is empty when the extraction fails.\<close>

definition read_word :: "bytes \<Rightarrow> bytes \<times> bytes" where
  "read_word s = (takeWhile (\<lambda>c. \<not> is_space c) (dropWhile is_space s), dropWhile (\<lambda>c. \<not> is_space c) (dropWhile is_space s))"

lemma getline_shorter: "getline input = Some (line, rest) \<Longrightarrow> length rest < length input"
  by (auto simp: getline_def split: if_splits option.splits dest: find_char_Some)

function RtspHeaderLoop :: "bytes \<Rightarrow> (bytes \<times> bytes) list \<Rightarrow> (bytes \<times> bytes) list option" where
  "RtspHeaderLoop input headers =
     (case getline input of
        None \<Rightarrow> Some headers
      | Some (line, rest) \<Rightarrow>
          let line = chomp line in
          if line = [] then Some headers
          else case find_char 0x3a line of
            None \<Rightarrow> None
          | Some colon \<Rightarrow> RtspHeaderLoop rest (map_set (ToLower (Trim (take colon line))) (Trim (drop (colon + 1) line)) headers))"
  by pat_completeness auto
termination
  by (relation "measure (\<lambda>(input, headers). length input)") (auto dest: getline_shorter)

declare RtspHeaderLoop.simps [simp del]

definition ParseRtspRequest :: "bytes \<Rightarrow> RtspRequest option" where
  "ParseRtspRequest raw =
     (case getline raw of
        None \<Rightarrow> None
      | Some (line, input) \<Rightarrow>
          (case read_word (chomp line) of (method, start) \<Rightarrow>
             if method = [] then None
             else case read_word start of (uri, start) \<Rightarrow>
               if uri = [] then None
               else case read_word start of (version, start) \<Rightarrow>
                 if version = [] \<or> version \<noteq> ascii ''RTSP/1.0'' then None
                 else case RtspHeaderLoop input [] of
                        None \<Rightarrow> None
                      | Some headers \<Rightarrow> Some \<lparr>rq_method = method, rq_uri = uri, rq_headers = headers\<rparr>))"

definition CSeq :: "RtspRequest \<Rightarrow> bytes" where
  "CSeq request = (let cseq = RtspHeaderValue request (ascii ''CSeq'') in if cseq = [] then ascii ''1'' else cseq)"

definition BuildRtspResponse :: "nat \<Rightarrow> bytes \<Rightarrow> (bytes \<times> bytes) list \<Rightarrow> bytes \<Rightarrow> bytes" where
  "BuildRtspResponse status cseq headers body =
     ascii ''RTSP/1.0 '' @ show_nat status @ ascii '' '' @ ascii (RtspStatusText status) @ CRLF
   @ ascii ''CSeq: '' @ cseq @ CRLF
   @ concat (map (\<lambda>entry. fst entry @ ascii '': '' @ snd entry @ CRLF) headers)
   @ (if body \<noteq> [] then ascii ''Content-Length: '' @ show_nat (length body) @ CRLF else [])
   @ CRLF @ body"

definition PathToStreamId :: "bytes \<Rightarrow> StreamId option" where
  "PathToStreamId uri =
     (let path = (case find_sub (ascii ''://'') uri of
                    None \<Rightarrow> uri
                  | Some scheme \<Rightarrow>
                      (case find_char 0x2f (drop (scheme + 3) uri) of
                         None \<Rightarrow> []
                       | Some slash \<Rightarrow> drop (scheme + 3 + slash) uri));
          path = (case find_char 0x3f path of None \<Rightarrow> path | Some query \<Rightarrow> take query path)
      in if path \<in> {ascii ''/live/main'', ascii ''/live/main/'', ascii ''/live/main/*'', ascii ''/live/main/trackID=0''} then Some StreamMain
         else if path \<in> {ascii ''/live/sub'', ascii ''/live/sub/'', ascii ''/live/sub/*'', ascii ''/live/sub/trackID=0''} then Some StreamSub
         else None)"

definition StreamPath :: "StreamId \<Rightarrow> bytes" where
  "StreamPath sid = (if sid = StreamSub then ascii ''/live/sub'' else ascii ''/live/main'')"

text \<open>\<open>std::atoi\<close>, which saturates on the target.\<close>

definition c_atoi :: "bytes \<Rightarrow> int" where
  "c_atoi text =
     (let s = dropWhile is_space (takeWhile (\<lambda>c. c \<noteq> 0) text);
          negative = (s \<noteq> [] \<and> hd s = 0x2d);
          s = (if s \<noteq> [] \<and> (hd s = 0x2d \<or> hd s = 0x2b) then tl s else s);
          v = int (fst (scan_digits 10 s 0))
      in if negative then max (- (2 ^ 31)) (- v) else min (2 ^ 31 - 1) v)"

definition ParseClientRtpPort :: "bytes \<Rightarrow> int" where
  "ParseClientRtpPort transport =
     (let key = ascii ''client_port='' in
      case find_sub key (ToLower transport) of
        None \<Rightarrow> 0
      | Some pos \<Rightarrow> c_atoi (takeWhile (\<lambda>c. c \<notin> {0x2d, 0x3b, 0x0d, 0x0a}) (drop (pos + length key) transport)))"

definition BasicRealmHeader :: bytes where
  "BasicRealmHeader = ascii ''Basic realm='' @ [0x22] @ ascii ''live_stream'' @ [0x22]"

text \<open>
  The loop of \<open>DecodeBase64\<close>: \<open>value\<close> is a 32-bit \<open>int\<close> whose high bits are shifted out; the bytes taken from it do
  not reach its sign bit. \<open>0x3d\<close> is the equals sign.
\<close>

fun DecodeLoop :: "bytes \<Rightarrow> nat \<Rightarrow> u32 \<Rightarrow> bytes \<Rightarrow> bool \<times> bytes" where
  "DecodeLoop [] bits value decoded = (True, decoded)"
| "DecodeLoop (ch # rest) bits value decoded =
     (if ch = 0x3d then (True, decoded)
      else if is_space ch then DecodeLoop rest bits value decoded
      else
        let digit = Base64Value ch in
        if digit < 0 then (False, decoded)
        else
          let value = push_bit 6 value OR word_of_int digit; bits = bits + 6 in
          if bits \<ge> 8 then DecodeLoop rest (bits - 8) value (decoded @ [ucast (drop_bit (bits - 8) value AND 0xff)])
          else DecodeLoop rest bits value decoded)"

definition DecodeBase64 :: "bytes \<Rightarrow> bool \<times> bytes" where
  "DecodeBase64 encoded = DecodeLoop encoded 0 0 []"

section \<open>Requests\<close>

text \<open>A request as clients print it.\<close>

definition print_rtsp_request :: "bytes \<Rightarrow> bytes \<Rightarrow> (bytes \<times> bytes) list \<Rightarrow> bytes" where
  "print_rtsp_request method uri hs =
     method @ [0x20] @ uri @ ascii '' RTSP/1.0'' @ CRLF @ concat (map (\<lambda>h. header_line h @ CRLF) hs) @ CRLF"

definition rtsp_word :: "bytes \<Rightarrow> bool" where
  "rtsp_word w \<longleftrightarrow> w \<noteq> [] \<and> list_all (\<lambda>c. \<not> is_space c) w"

lemma read_word_eq: "rtsp_word w \<Longrightarrow> read_word (w @ 0x20 # t) = (w, 0x20 # t)"
  "rtsp_word w \<Longrightarrow> read_word (0x20 # w @ 0x20 # t) = (w, 0x20 # t)" "rtsp_word w \<Longrightarrow> read_word (0x20 # w) = (w, [])"
proof -
  assume w: "rtsp_word w"
  have sp: "is_space 0x20" by code_simp
  have dw: "dropWhile is_space (w @ t) = w @ t" for t using w by (cases w) (auto simp: rtsp_word_def)
  have tw: "takeWhile (\<lambda>c. \<not> is_space c) (w @ 0x20 # t) = w" "dropWhile (\<lambda>c. \<not> is_space c) (w @ 0x20 # t) = 0x20 # t" for t
    using w sp takeWhile_append2 [of w "\<lambda>c. \<not> is_space c"] dropWhile_append2 [of w "\<lambda>c. \<not> is_space c"]
    by (simp_all add: rtsp_word_def list_all_iff)
  have "takeWhile (\<lambda>c. \<not> is_space c) w = w" "dropWhile (\<lambda>c. \<not> is_space c) w = []"
    using w by (auto simp: rtsp_word_def list_all_iff takeWhile_eq_all_conv)
  then show "read_word (w @ 0x20 # t) = (w, 0x20 # t)" "read_word (0x20 # w @ 0x20 # t) = (w, 0x20 # t)" "read_word (0x20 # w) = (w, [])"
    using dw [of "0x20 # t"] dw [of "[]"] tw sp by (simp_all add: read_word_def)
qed

lemma getline_line: "0x0a \<notin> set l \<Longrightarrow> getline (l @ CRLF @ t) = Some (l @ [0x0d], t)"
  using find_char_append [of "0x0a" "l @ [0x0d]" t] by (auto simp: getline_def CRLF_def)

lemma chomp_line: "chomp (l @ [0x0d]) = l"
  by (simp add: chomp_def)

lemma RtspHeaderLoop_print:
  assumes "list_all header_ok hs"
  shows "RtspHeaderLoop (concat (map (\<lambda>h. header_line h @ CRLF) hs) @ CRLF) m
     = Some (set_headers m (map (\<lambda>h. (ToLower (fst h), snd h)) hs))"
  using assms
proof (induction hs arbitrary: m)
  case Nil
  then show ?case using getline_line [of "[]" "[]"] by (simp add: RtspHeaderLoop.simps chomp_def set_headers_def)
next
  case (Cons h hs)
  have ok: "header_ok h" using Cons.prems by simp
  have l: "0x0a \<notin> set (header_line h)" "header_line h \<noteq> []" using header_line_ok [OF ok] by (simp_all add: line_ok_def)
  have colon: "find_char 0x3a (header_line h) = Some (length (fst h))"
    using ok find_char_append [of "0x3a" "fst h" "0x20 # snd h"] by (simp add: header_line_def header_ok_def)
  have parts: "Trim (take (length (fst h)) (header_line h)) = fst h" "Trim (drop (length (fst h) + 1) (header_line h)) = snd h"
    using ok by (simp_all add: header_line_def header_ok_def Trim_space)
  let ?rest = "concat (map (\<lambda>h. header_line h @ CRLF) hs) @ CRLF"
  have "RtspHeaderLoop (header_line h @ CRLF @ ?rest) m = RtspHeaderLoop ?rest (map_set (ToLower (fst h)) (snd h) m)"
    using getline_line [OF l(1), of ?rest] chomp_line [of "header_line h"] colon parts l(2)
    by (subst RtspHeaderLoop.simps) (simp add: Let_def)
  then show ?case using Cons by (simp add: set_headers_def)
qed

lemma set_headers_map_of: "map_of (set_headers m hs) = map_of m ++ map_of (rev hs)"
proof (induction hs arbitrary: m)
  case (Cons h hs)
  have "map_of (set_headers m (h # hs)) = (map_of m)(fst h \<mapsto> snd h) ++ map_of (rev hs)"
    using Cons [of "map_set (fst h) (snd h) m"] by (simp add: set_headers_def map_set_map_of fun_upd_def)
  then show ?case by (cases h) (simp add: map_add_def fun_eq_iff split: option.split)
qed (simp add: set_headers_def)

lemma rtsp_version_word: "rtsp_word (ascii ''RTSP/1.0'')" "ascii '' RTSP/1.0'' = 0x20 # ascii ''RTSP/1.0''"
  by code_simp+

lemma ParseRtspRequest_print:
  assumes "rtsp_word method" and "rtsp_word uri" and "list_all header_ok hs"
  shows "ParseRtspRequest (print_rtsp_request method uri hs) =
     Some \<lparr>rq_method = method, rq_uri = uri, rq_headers = set_headers [] (map (\<lambda>h. (ToLower (fst h), snd h)) hs)\<rparr>"
proof -
  let ?line = "method @ 0x20 # uri @ 0x20 # ascii ''RTSP/1.0''"
  have "is_space 0x0a" by code_simp
  then have "0x0a \<notin> set method" "0x0a \<notin> set uri" "0x0a \<notin> set (ascii ''RTSP/1.0'')"
    using assms rtsp_version_word(1) by (auto simp: rtsp_word_def list_all_iff)
  then have "0x0a \<notin> set ?line" by simp
  from getline_line [OF this] have "getline (print_rtsp_request method uri hs) =
      Some (?line @ [0x0d], concat (map (\<lambda>h. header_line h @ CRLF) hs) @ CRLF)"
    by (simp add: print_rtsp_request_def rtsp_version_word(2))
  moreover have "chomp (?line @ [0x0d]) = ?line" by (rule chomp_line)
  moreover have "method \<noteq> []" "uri \<noteq> []" "ascii ''RTSP/1.0'' \<noteq> []" using assms rtsp_version_word by (simp_all add: rtsp_word_def)
  ultimately show ?thesis
    using read_word_eq(1) [OF assms(1)] read_word_eq(2) [OF assms(2)] read_word_eq(3) [OF rtsp_version_word(1)] RtspHeaderLoop_print [OF assms(3)]
    by (simp add: ParseRtspRequest_def)
qed

text \<open>
  Claim C39. A printed RTSP request is read back: method and URI, and for every name, in any spelling, the value of the
  last header of that name, or the empty string when there is none.
\<close>

theorem rtsp_request_roundtrip:
  assumes "rtsp_word method" and "rtsp_word uri" and "list_all header_ok hs"
  shows "\<exists>request. ParseRtspRequest (print_rtsp_request method uri hs) = Some request
     \<and> rq_method request = method \<and> rq_uri request = uri
     \<and> (\<forall>name. RtspHeaderValue request name =
          (case find (\<lambda>h. ToLower (fst h) = ToLower name) (rev hs) of None \<Rightarrow> [] | Some h \<Rightarrow> snd h))"
proof -
  have "map_of (map (\<lambda>h. (ToLower (fst h), snd h)) xs) n = map_option snd (find (\<lambda>h. ToLower (fst h) = n) xs)" for xs :: "(bytes \<times> bytes) list" and n
    by (induction xs) auto
  then show ?thesis using ParseRtspRequest_print [OF assms]
    by (auto simp: RtspHeaderValue_def set_headers_map_of rev_map split: option.splits)
qed

theorem rtsp_request_roundtrip_witness:
  "\<exists>request. ParseRtspRequest (ascii ''PLAY rtsp://c/live/sub RTSP/1.0'' @ CRLF @ ascii ''CSeq: 3'' @ CRLF @ CRLF) = Some request
     \<and> rq_method request = ascii ''PLAY'' \<and> RtspHeaderValue request (ascii ''cseq'') = ascii ''3''"
proof -
  let ?hs = "[(ascii ''CSeq'', ascii ''3'')]"
  have ok: "rtsp_word (ascii ''PLAY'')" "rtsp_word (ascii ''rtsp://c/live/sub'')" "list_all header_ok ?hs" by code_simp+
  have "print_rtsp_request (ascii ''PLAY'') (ascii ''rtsp://c/live/sub'') ?hs
      = ascii ''PLAY rtsp://c/live/sub RTSP/1.0'' @ CRLF @ ascii ''CSeq: 3'' @ CRLF @ CRLF" by code_simp
  moreover have "ToLower (ascii ''CSeq'') = ToLower (ascii ''cseq'')" by code_simp
  ultimately show ?thesis using rtsp_request_roundtrip [OF ok] by auto
qed

end
