(* ===== verification/Rtsp_Muxer.thy ===== *)
theory Rtsp_Muxer
  imports Rtsp_Protocol Rtp_Packetizer
begin

text \<open>
  \<open>libs/rtsp/src/rtsp_muxer.cpp\<close>: the session description a client gets for a stream, with the parameter sets in
  Base64 and, for H.265, the profile, tier and level read from the sequence parameter set.
\<close>

section \<open>Model\<close>

definition kBase64Alphabet :: bytes where
  "kBase64Alphabet = ascii ''ABCDEFGHIJKLMNOPQRSTUVWXYZabcdefghijklmnopqrstuvwxyz0123456789+/''"

record SdpProfileTierLevel =
  ptl_profile_id :: u32
  ptl_tier_flag :: u32
  ptl_level_id :: u32
  ptl_valid :: bool

definition no_profile :: SdpProfileTierLevel where
  "no_profile = \<lparr>ptl_profile_id = 0, ptl_tier_flag = 0, ptl_level_id = 0, ptl_valid = False\<rparr>"

text \<open>\<open>BitReader\<close>: the data is an argument, the state the bit offset.\<close>

fun ReadBitsLoop :: "bytes \<Rightarrow> nat \<Rightarrow> nat \<Rightarrow> u32 \<Rightarrow> nat \<times> u32 option" where
  "ReadBitsLoop data 0 bit_offset result = (bit_offset, Some result)"
| "ReadBitsLoop data (Suc n) bit_offset result =
     (if bit_offset \<ge> length data * 8 then (bit_offset, None)
      else
        let byte = data ! (bit_offset div 8); shift = 7 - bit_offset mod 8 in
        ReadBitsLoop data n (bit_offset + 1) (push_bit 1 result OR (drop_bit shift (ucast byte) AND 0x01)))"

definition ReadBits :: "bytes \<Rightarrow> nat \<Rightarrow> nat \<Rightarrow> nat \<times> u32 option" where
  "ReadBits data count bit_offset = (if count > 32 then (bit_offset, None) else ReadBitsLoop data count bit_offset 0)"

function SkipBits :: "bytes \<Rightarrow> nat \<Rightarrow> nat \<Rightarrow> nat \<times> bool" where
  "SkipBits data count bit_offset =
     (if count = 0 then (bit_offset, True)
      else
        let step = (if count > 32 then 32 else count) in
        case ReadBits data step bit_offset of
          (bit_offset, None) \<Rightarrow> (bit_offset, False)
        | (bit_offset, Some ignored) \<Rightarrow> SkipBits data (count - step) bit_offset)"
  by pat_completeness auto
termination
  by (relation "measure (\<lambda>(data, count, bit_offset). count)") (auto split: if_splits)

declare SkipBits.simps [simp del]

definition RtpEncodingName :: "Codec \<Rightarrow> bytes" where
  "RtpEncodingName c = (if c = CodecH265 then ascii ''H265'' else ascii ''H264'')"

fun RtpCodecFromCodec :: "Codec \<Rightarrow> RtpCodec option" where
  "RtpCodecFromCodec CodecH264 = Some RtpH264"
| "RtpCodecFromCodec CodecH265 = Some RtpH265"
| "RtpCodecFromCodec _ = None"

definition base64_char :: "u32 \<Rightarrow> nat \<Rightarrow> u8" where
  "base64_char block shift = kBase64Alphabet ! unat (drop_bit shift block AND 0x3f)"

text \<open>The groups of three bytes and the remaining one or two.\<close>

fun EncodeBase64 :: "bytes \<Rightarrow> bytes" where
  "EncodeBase64 (a # b # c # value) =
     (let block = push_bit 16 (ucast a) OR push_bit 8 (ucast b) OR ucast c
      in [base64_char block 18, base64_char block 12, base64_char block 6, base64_char block 0] @ EncodeBase64 value)"
| "EncodeBase64 [a, b] =
     (let block = push_bit 16 (ucast a) OR push_bit 8 (ucast b)
      in [base64_char block 18, base64_char block 12, base64_char block 6, 0x3d])"
| "EncodeBase64 [a] =
     (let block = push_bit 16 (ucast a) in [base64_char block 18, base64_char block 12, 0x3d, 0x3d])"
| "EncodeBase64 [] = []"

fun RbspLoop :: "bytes \<Rightarrow> nat \<Rightarrow> bytes \<Rightarrow> bytes" where
  "RbspLoop nal i [] = []"
| "RbspLoop nal i (byte # rest) =
     (if i \<ge> 4 \<and> byte = 0x03 \<and> nal ! (i - 1) = 0x00 \<and> nal ! (i - 2) = 0x00 then RbspLoop nal (i + 1) rest
      else byte # RbspLoop nal (i + 1) rest)"

definition H265NalPayloadToRbsp :: "bytes \<Rightarrow> bytes" where
  "H265NalPayloadToRbsp nal = (if length nal \<le> 2 then [] else RbspLoop nal 2 (drop 2 nal))"

text \<open>The chain of \<open>||\<close> in \<open>ParseH265ProfileTierLevel\<close>.\<close>

definition ParseH265ProfileTierLevel :: "bytes \<Rightarrow> SdpProfileTierLevel" where
  "ParseH265ProfileTierLevel sps =
     (let rbsp = H265NalPayloadToRbsp sps in
      if rbsp = [] then no_profile
      else
        case SkipBits rbsp 4 0 of (off, ok) \<Rightarrow> if \<not> ok then no_profile
        else case SkipBits rbsp 3 off of (off, ok) \<Rightarrow> if \<not> ok then no_profile
        else case SkipBits rbsp 1 off of (off, ok) \<Rightarrow> if \<not> ok then no_profile
        else case SkipBits rbsp 2 off of (off, ok) \<Rightarrow> if \<not> ok then no_profile
        else case ReadBits rbsp 1 off of (off, None) \<Rightarrow> no_profile
        | (off, Some tier_flag) \<Rightarrow>
            (case ReadBits rbsp 5 off of (off, None) \<Rightarrow> no_profile
             | (off, Some profile_id) \<Rightarrow>
                 (case SkipBits rbsp 32 off of (off, ok) \<Rightarrow> if \<not> ok then no_profile
                  else case SkipBits rbsp 48 off of (off, ok) \<Rightarrow> if \<not> ok then no_profile
                  else case ReadBits rbsp 8 off of (off, None) \<Rightarrow> no_profile
                  | (off, Some level_id) \<Rightarrow>
                      \<lparr>ptl_profile_id = profile_id, ptl_tier_flag = tier_flag, ptl_level_id = level_id, ptl_valid = (level_id \<noteq> 0)\<rparr>)))"

definition AppendCodecFmtp :: "MediaStreamInfo \<Rightarrow> u8 \<Rightarrow> bytes" where
  "AppendCodecFmtp stream_info payload_type =
     (if si_codec stream_info = CodecH264 \<and> si_sps stream_info \<noteq> [] \<and> si_pps stream_info \<noteq> [] then
        ascii ''a=fmtp:'' @ show_nat (unat payload_type) @ ascii '' packetization-mode=1;sprop-parameter-sets=''
        @ EncodeBase64 (si_sps stream_info) @ ascii '','' @ EncodeBase64 (si_pps stream_info) @ CRLF
      else if si_codec stream_info = CodecH265 \<and> si_vps stream_info \<noteq> [] \<and> si_sps stream_info \<noteq> [] \<and> si_pps stream_info \<noteq> [] then
        let ptl = ParseH265ProfileTierLevel (si_sps stream_info) in
        ascii ''a=fmtp:'' @ show_nat (unat payload_type) @ ascii '' ''
        @ (if ptl_valid ptl
           then ascii ''level-id='' @ show_nat (unat (ptl_level_id ptl)) @ ascii ''; profile-id='' @ show_nat (unat (ptl_profile_id ptl))
                @ ascii ''; tier-flag='' @ show_nat (unat (ptl_tier_flag ptl)) @ ascii ''; ''
           else [])
        @ ascii ''sprop-vps='' @ EncodeBase64 (si_vps stream_info) @ ascii ''; sprop-sps='' @ EncodeBase64 (si_sps stream_info)
        @ ascii ''; sprop-pps='' @ EncodeBase64 (si_pps stream_info) @ CRLF
      else [])"

definition IsCodecSupported :: "Codec \<Rightarrow> bool" where
  "IsCodecSupported c \<longleftrightarrow> c = CodecH264 \<or> c = CodecH265"

definition BuildSdp :: "bytes \<Rightarrow> StreamId \<Rightarrow> MediaStreamInfo \<Rightarrow> bytes" where
  "BuildSdp address_ip sid stream_info =
     (case RtpCodecFromCodec (si_codec stream_info) of
        None \<Rightarrow> []
      | Some rtpc \<Rightarrow>
          let payload_type = RtpPayloadTypeForCodec_default rtpc in
          ascii ''v=0'' @ CRLF
          @ ascii ''o=- 0 0 IN IP4 '' @ address_ip @ CRLF
          @ ascii ''s=live_stream'' @ CRLF
          @ ascii ''c=IN IP4 0.0.0.0'' @ CRLF
          @ ascii ''t=0 0'' @ CRLF
          @ ascii ''a=control:'' @ StreamPath sid @ CRLF
          @ ascii ''m=video 0 RTP/AVP '' @ show_nat (unat payload_type) @ CRLF
          @ ascii ''a=rtpmap:'' @ show_nat (unat payload_type) @ ascii '' '' @ RtpEncodingName (si_codec stream_info) @ ascii ''/''
          @ show_nat (if si_clock_rate stream_info \<noteq> 0 then unat (si_clock_rate stream_info) else kRtpClockRate) @ CRLF
          @ AppendCodecFmtp stream_info payload_type
          @ ascii ''a=control:trackID=0'' @ CRLF)"

section \<open>Base64\<close>

lemma alphabet:
  assumes "n < 64"
  shows "Base64Value (kBase64Alphabet ! n) = int n" "kBase64Alphabet ! n \<noteq> 0x3d" "\<not> is_space (kBase64Alphabet ! n)"
proof -
  have all: "list_all (\<lambda>(n, c). Base64Value c = int n \<and> c \<noteq> 0x3d \<and> \<not> is_space c) (zip [0..<64] kBase64Alphabet)"
    by code_simp
  have "length kBase64Alphabet = 64" by (simp add: kBase64Alphabet_def)
  then have "(n, kBase64Alphabet ! n) \<in> set (zip [0..<64] kBase64Alphabet)" using assms by (auto simp: in_set_zip intro!: exI [of _ n])
  with all show "Base64Value (kBase64Alphabet ! n) = int n" "kBase64Alphabet ! n \<noteq> 0x3d" "\<not> is_space (kBase64Alphabet ! n)"
    unfolding list_all_iff by fast+
qed

text \<open>One character of the encoder in the decoder.\<close>

lemma decode_char:
  "DecodeLoop (base64_char block shift # rest) bits value decoded =
     (let value = push_bit 6 value OR (drop_bit shift block AND 0x3f); bits = bits + 6 in
      if bits \<ge> 8 then DecodeLoop rest (bits - 8) value (decoded @ [ucast (drop_bit (bits - 8) value AND 0xff)])
      else DecodeLoop rest bits value decoded)"
proof -
  let ?d = "drop_bit shift block AND 0x3f"
  have "?d = take_bit 6 (drop_bit shift block)" by (simp add: take_bit_eq_mask mask_eq_exp_minus_1)
  then have "unat ?d = take_bit 6 (unat (drop_bit shift block))" by (simp add: unsigned_take_bit_eq)
  then have "unat ?d < 64" using take_bit_nat_less_exp [of 6 "unat (drop_bit shift block)"] by simp
  from alphabet [OF this] show ?thesis by (simp add: base64_char_def Let_def)
qed

lemma byte_high: "8 \<le> n \<Longrightarrow> \<not> bit (a :: u8) n"
  by (auto dest: bit_imp_le_length)

lemma byte_eqI:
  fixes a b :: u8
  assumes "bit a 0 = bit b 0" "bit a 1 = bit b 1" "bit a 2 = bit b 2" "bit a 3 = bit b 3"
    "bit a 4 = bit b 4" "bit a 5 = bit b 5" "bit a 6 = bit b 6" "bit a 7 = bit b 7"
  shows "a = b"
proof (rule bit_word_eqI)
  fix n
  assume "n < LENGTH(8)"
  then have "n < 8" by simp
  then have "n = 0 \<or> n = 1 \<or> n = 2 \<or> n = 3 \<or> n = 4 \<or> n = 5 \<or> n = 6 \<or> n = 7" by presburger
  then show "bit a n = bit b n" using assms by (elim disjE) simp_all
qed

lemma decoded_bytes:
  fixes a b c :: u8 and block x :: u32
  assumes "block = push_bit 16 (ucast a) OR push_bit 8 (ucast b) OR ucast c"
  defines "v2 y \<equiv> push_bit 6 (push_bit 6 y OR (drop_bit 18 block AND 0x3f)) OR (drop_bit 12 block AND 0x3f)"
  defines "v3 y \<equiv> push_bit 6 (v2 y) OR (drop_bit 6 block AND 0x3f)"
  shows "ucast (drop_bit 4 (v2 x) AND 0xff) = a" "ucast (drop_bit 2 (v3 x) AND 0xff) = b"
    "ucast (drop_bit 0 (push_bit 6 (v3 x) OR (drop_bit 0 block AND 0x3f)) AND 0xff) = c"
  unfolding v3_def v2_def assms(1) by (rule byte_eqI; simp add: bit_simps byte_high)+

lemma decode_two:
  "DecodeLoop (base64_char block s1 # base64_char block s2 # rest) 0 x decoded =
     DecodeLoop rest 4 (push_bit 6 (push_bit 6 x OR (drop_bit s1 block AND 0x3f)) OR (drop_bit s2 block AND 0x3f))
       (decoded @ [ucast (drop_bit 4 (push_bit 6 (push_bit 6 x OR (drop_bit s1 block AND 0x3f)) OR (drop_bit s2 block AND 0x3f)) AND 0xff)])"
  by (simp add: decode_char Let_def del: DecodeLoop.simps)

lemma decode_third:
  "DecodeLoop (base64_char block s # rest) 4 x decoded =
     DecodeLoop rest 2 (push_bit 6 x OR (drop_bit s block AND 0x3f)) (decoded @ [ucast (drop_bit 2 (push_bit 6 x OR (drop_bit s block AND 0x3f)) AND 0xff)])"
  by (simp add: decode_char Let_def del: DecodeLoop.simps)

lemma decode_fourth:
  "DecodeLoop (base64_char block s # rest) 2 x decoded =
     DecodeLoop rest 0 (push_bit 6 x OR (drop_bit s block AND 0x3f)) (decoded @ [ucast (drop_bit 0 (push_bit 6 x OR (drop_bit s block AND 0x3f)) AND 0xff)])"
  by (simp add: decode_char Let_def del: DecodeLoop.simps)

lemma decode_padding: "DecodeLoop (0x3d # rest) bits x decoded = (True, decoded)"
  by simp

lemma decode_encode_loop: "DecodeLoop (EncodeBase64 v) 0 x decoded = (True, decoded @ v)"
proof (induction v arbitrary: x decoded rule: EncodeBase64.induct)
  case (1 a b c v)
  define block :: u32 where "block = push_bit 16 (ucast a) OR push_bit 8 (ucast b) OR ucast c"
  have "EncodeBase64 (a # b # c # v) = base64_char block 18 # base64_char block 12 # base64_char block 6 # base64_char block 0 # EncodeBase64 v"
    by (simp add: block_def Let_def)
  then show ?case
    by (simp only: decode_two decode_third decode_fourth decoded_bytes [OF block_def] 1 append_assoc append_Cons append_Nil)
next
  case (2 a b)
  define block :: u32 where "block = push_bit 16 (ucast a) OR push_bit 8 (ucast b)"
  have b: "block = push_bit 16 (ucast a) OR push_bit 8 (ucast b) OR ucast (0 :: u8)" by (simp add: block_def)
  have "EncodeBase64 [a, b] = [base64_char block 18, base64_char block 12, base64_char block 6, 0x3d]" by (simp add: block_def Let_def)
  then show ?case
    by (simp only: decode_two decode_third decode_padding decoded_bytes [OF b] append_assoc append_Cons append_Nil)
next
  case (3 a)
  define block :: u32 where "block = push_bit 16 (ucast a)"
  have b: "block = push_bit 16 (ucast a) OR push_bit 8 (ucast (0 :: u8)) OR ucast (0 :: u8)" by (simp add: block_def)
  have "EncodeBase64 [a] = [base64_char block 18, base64_char block 12, 0x3d, 0x3d]" by (simp add: block_def Let_def)
  then show ?case
    by (simp only: decode_two decode_padding decoded_bytes [OF b])
qed simp

text \<open>
  What the server encodes in Base64 is what its own decoder reads back, for every byte string: the
  shifted-out high bits of the decoder's accumulator never reach a decoded byte, and the padding ends the input.
\<close>

lemma base64_roundtrip: "DecodeBase64 (EncodeBase64 v) = (True, v)"
  by (simp add: DecodeBase64_def decode_encode_loop)

section \<open>Profile, tier and level\<close>

text \<open>The emulation prevention of H.265: a \<open>0x03\<close> after two zero bytes in front of a byte up to \<open>0x03\<close>.\<close>

fun escape_rbsp :: "nat \<Rightarrow> bytes \<Rightarrow> bytes" where
  "escape_rbsp z [] = []"
| "escape_rbsp z (b # bs) =
     (if 2 \<le> z \<and> b \<le> 3 then 0x03 # b # escape_rbsp (if b = 0 then 1 else 0) bs
      else b # escape_rbsp (if b = 0 then z + 1 else 0) bs)"

definition zero_run :: "bytes \<Rightarrow> nat" where
  "zero_run pre = length (takeWhile ((=) 0) (rev (drop 2 pre)))"

lemma zero_run_snoc: "2 \<le> length pre \<Longrightarrow> zero_run (pre @ [b]) = (if b = 0 then zero_run pre + 1 else 0)"
  by (auto simp: zero_run_def)

lemma zero_run_2:
  assumes "2 \<le> length pre"
  shows "2 \<le> zero_run pre \<longleftrightarrow> 4 \<le> length pre \<and> (pre @ t) ! (length pre - 1) = 0 \<and> (pre @ t) ! (length pre - 2) = 0"
proof (cases "rev (drop 2 pre)")
  case Nil
  then show ?thesis using assms by (auto simp: zero_run_def)
next
  case (Cons x xs)
  then have d: "drop 2 pre = rev xs @ [x]" by (metis rev.simps(2) rev_rev_ident)
  then have pre: "pre = take 2 pre @ rev xs @ [x]" by (metis append_take_drop_id)
  have len: "length pre = 3 + length xs" using arg_cong [OF pre, of length] assms by simp
  have x: "(pre @ t) ! (length pre - 1) = x" by (subst pre) (use len assms in \<open>simp add: nth_append\<close>)
  show ?thesis
  proof (cases xs)
    case Nil
    then show ?thesis using Cons len by (simp add: zero_run_def)
  next
    case xs: (Cons y ys)
    have "(pre @ t) ! (length pre - 2) = y" by (subst pre) (use len assms xs in \<open>simp add: nth_append\<close>)
    then show ?thesis using Cons xs x len by (auto simp: zero_run_def)
  qed
qed

lemma RbspLoop_escape:
  assumes "2 \<le> length pre" and "z = zero_run pre"
  shows "RbspLoop (pre @ escape_rbsp z bs) (length pre) (escape_rbsp z bs) = bs"
  using assms
proof (induction bs arbitrary: pre z)
  case (Cons b bs)
  show ?case
  proof (cases "2 \<le> z \<and> b \<le> 3")
    case True
    let ?t = "escape_rbsp (if b = 0 then 1 else 0) bs"
    have "zero_run (pre @ [0x03, b]) = (if b = 0 then 1 else 0)"
      using zero_run_snoc [of "pre @ [0x03]" b] zero_run_snoc [of pre "0x03"] Cons.prems(1) by auto
    then have "RbspLoop ((pre @ [0x03, b]) @ ?t) (length (pre @ [0x03, b])) ?t = bs" using Cons.IH [of "pre @ [0x03, b]"] Cons.prems(1) by simp
    then show ?thesis using True zero_run_2 [OF Cons.prems(1), of "0x03 # b # ?t"] Cons.prems by (simp add: nth_append)
  next
    case False
    let ?t = "escape_rbsp (if b = 0 then z + 1 else 0) bs"
    have "RbspLoop ((pre @ [b]) @ ?t) (length (pre @ [b])) ?t = bs"
      using Cons.IH [of "pre @ [b]"] zero_run_snoc [of pre b] Cons.prems by (cases "b = 0") simp_all
    moreover have "\<not> (4 \<le> length pre \<and> b = 3 \<and> (pre @ b # ?t) ! (length pre - 1) = 0 \<and> (pre @ b # ?t) ! (length pre - 2) = 0)"
      using False zero_run_2 [OF Cons.prems(1), of "b # ?t"] Cons.prems(2) by auto
    ultimately show ?thesis using False by auto
  qed
qed simp

lemma rbsp_of_escaped: "H265NalPayloadToRbsp (h0 # h1 # escape_rbsp 0 r) = r"
proof (cases "escape_rbsp 0 r = []")
  case True
  then have "r = []" by (cases r) (auto split: if_splits)
  then show ?thesis by (simp add: H265NalPayloadToRbsp_def)
next
  case False
  then show ?thesis using RbspLoop_escape [of "[h0, h1]" 0 r] by (simp add: H265NalPayloadToRbsp_def zero_run_def numeral_2_eq_2)
qed

lemma ReadBitsLoop_ok: "off + n \<le> length data * 8 \<Longrightarrow> \<exists>v. ReadBitsLoop data n off r = (off + n, Some v)"
proof (induction n arbitrary: off r)
  case (Suc n)
  then show ?case using Suc.IH [of "off + 1"] by (simp add: Let_def)
qed simp

lemma ReadBitsLoop_step:
  "n \<noteq> 0 \<Longrightarrow> off < length data * 8 \<Longrightarrow> ReadBitsLoop data n off r =
     ReadBitsLoop data (n - 1) (off + 1) (push_bit 1 r OR (drop_bit (7 - off mod 8) (ucast (data ! (off div 8))) AND 0x01))"
  by (cases n) (auto simp: Let_def)

lemma SkipBits_ok: "off + count \<le> length data * 8 \<Longrightarrow> SkipBits data count off = (off + count, True)"
proof (induction count arbitrary: off rule: less_induct)
  case (less count)
  show ?case
  proof (cases "count = 0")
    case False
    let ?s = "if count > 32 then 32 else count"
    obtain v where "ReadBits data ?s off = (off + ?s, Some v)"
      using ReadBitsLoop_ok [of off ?s data 0] less.prems False by (cases "32 < count") (auto simp: ReadBits_def)
    then have "SkipBits data count off = SkipBits data (count - ?s) (off + ?s)"
      using False by (subst SkipBits.simps) (simp add: Let_def)
    then show ?thesis using less.IH [of "count - ?s" "off + ?s"] less.prems False by simp
  qed (simp add: SkipBits.simps)
qed

lemma u32_byte_eqI:
  fixes a b :: u32
  assumes "bit a 0 = bit b 0" "bit a 1 = bit b 1" "bit a 2 = bit b 2" "bit a 3 = bit b 3"
    "bit a 4 = bit b 4" "bit a 5 = bit b 5" "bit a 6 = bit b 6" "bit a 7 = bit b 7"
    and "\<And>n. 8 \<le> n \<Longrightarrow> \<not> bit a n" "\<And>n. 8 \<le> n \<Longrightarrow> \<not> bit b n"
  shows "a = b"
proof (rule bit_word_eqI)
  fix n :: nat
  have "n = 0 \<or> n = 1 \<or> n = 2 \<or> n = 3 \<or> n = 4 \<or> n = 5 \<or> n = 6 \<or> n = 7 \<or> 8 \<le> n" by presburger
  then show "bit a n = bit b n" using assms by (elim disjE) simp_all
qed

lemma read_profile_bits:
  assumes "13 \<le> length data"
  shows "ReadBits data 1 10 = (11, Some (ucast (drop_bit 5 (data ! 1) AND 0x01)))"
    and "ReadBits data 5 11 = (16, Some (ucast (data ! 1 AND 0x1f)))"
    and "ReadBits data 8 96 = (104, Some (ucast (data ! 12)))"
proof -
  have len: "n < length data * 8" if "n < 104" for n using assms that by simp
  show "ReadBits data 1 10 = (11, Some (ucast (drop_bit 5 (data ! 1) AND 0x01)))"
    by (simp add: ReadBits_def ReadBitsLoop_step len del: ReadBitsLoop.simps(2) push_bit_Suc One_nat_def)
      (rule u32_byte_eqI; simp add: bit_simps byte_high del: push_bit_Suc)
  show "ReadBits data 5 11 = (16, Some (ucast (data ! 1 AND 0x1f)))"
    by (simp add: ReadBits_def ReadBitsLoop_step len del: ReadBitsLoop.simps(2) push_bit_Suc One_nat_def)
      (rule u32_byte_eqI; simp add: bit_simps byte_high del: push_bit_Suc)
  show "ReadBits data 8 96 = (104, Some (ucast (data ! 12)))"
    by (simp add: ReadBits_def ReadBitsLoop_step len del: ReadBitsLoop.simps(2) push_bit_Suc One_nat_def)
      (rule u32_byte_eqI; simp add: bit_simps byte_high del: push_bit_Suc)
qed

text \<open>
  The profile, tier and level of the session description are those of the H.265 sequence parameter set: for every
  parameter set payload of at least 13 bytes, with its emulation prevention bytes inserted, the level is its 13th byte,
  and tier and profile are bit 5 and the low five bits of its second byte; a level of zero makes the result invalid.
\<close>

lemma h265_profile_tier_level:
  assumes "13 \<le> length r"
  shows "ParseH265ProfileTierLevel (h0 # h1 # escape_rbsp 0 r) =
     \<lparr>ptl_profile_id = ucast (r ! 1 AND 0x1f), ptl_tier_flag = ucast (drop_bit 5 (r ! 1) AND 0x01),
      ptl_level_id = ucast (r ! 12), ptl_valid = (r ! 12 \<noteq> 0)\<rparr>"
proof -
  have skip: "SkipBits r 4 0 = (4, True)" "SkipBits r 3 4 = (7, True)" "SkipBits r 1 7 = (8, True)" "SkipBits r 2 8 = (10, True)"
    "SkipBits r 32 16 = (48, True)" "SkipBits r 48 48 = (96, True)"
    using assms by (simp_all add: SkipBits_ok)
  have "(ucast (ucast (r ! 12) :: u32) :: u8) = r ! 12" by (rule byte_eqI; simp add: bit_simps)
  then have "(ucast (r ! 12) :: u32) \<noteq> 0 \<longleftrightarrow> r ! 12 \<noteq> 0" by auto
  moreover have "r \<noteq> []" using assms by auto
  ultimately show ?thesis
    unfolding ParseH265ProfileTierLevel_def Let_def rbsp_of_escaped
    by (simp add: skip read_profile_bits [OF assms] del: One_nat_def)
qed

end
