(* ===== verification/Rtsp_Server.thy ===== *)
theory Rtsp_Server
  imports Rtsp_Session Rtsp_Muxer "HOL-Library.Multiset"
begin

text \<open>
  The RTSP server: \<open>libs/rtsp/src/rtsp_auth.cpp\<close>, \<open>rtsp_session_close.cpp\<close>, the subscription part of
  \<open>rtsp_session_video_sender.cpp\<close>, \<open>rtsp_request_handler.cpp\<close>, and the connection handling of \<open>rtsp.cpp\<close>.

  What the server does to other components (sockets, timers, the media streams, the log of accepted logins) is
  a list of effects. What these components answer during one event is the record \<open>rtsp_env\<close>, an argument
  of the operations: the login service, the media streams, \<open>BindUdp\<close>, \<open>RunEvery\<close> and the clock.
  Diagnostic log lines are left out.
\<close>

section \<open>Effects and environment\<close>

record AuthPrincipal =
  ap_user_name :: bytes
  ap_session_id :: bytes

record LoginResult =
  lr_principal :: AuthPrincipal
  lr_token :: bytes
  lr_must_change_password :: bool

datatype RtspEffect =
  FxSend nat bytes
| FxCloseTcp nat
| FxCloseAfterSend nat
| FxBindUdp nat
| FxCloseUdp nat
| FxSubscribe nat StreamId nat
| FxUnsubscribe nat SubscriptionClose
| FxStartTimer nat
| FxCancelTimer nat
| FxLogout bytes bytes
| FxAuthAccepted nat StreamId bytes
| FxPublishConnected bytes
| FxPublishDisconnected bytes

record rtsp_env =
  env_auth_present :: bool
  env_login :: "bytes \<Rightarrow> bytes \<Rightarrow> bytes \<Rightarrow> LoginResult"
  env_permission :: "AuthPrincipal \<Rightarrow> bytes \<Rightarrow> bool"
  env_available :: "StreamId \<Rightarrow> bool"
  env_stream_info :: "StreamId \<Rightarrow> MediaStreamInfo"
  env_rtp_bind :: nat
  env_rtcp_bind :: nat
  env_rtp_address :: SocketAddress
  env_rtcp_address :: SocketAddress
  env_subscribe :: nat
  env_subscription_start :: SubscriptionStart
  env_timer_ok :: bool
  env_timer_id :: nat
  env_now_ms :: int

record RtspStats =
  rv_total_sessions :: nat
  rv_auth_failures :: nat
  rv_parse_failures :: nat
  rv_tcp_interleaved_sessions :: nat
  rv_udp_sessions :: nat

record RtspServerOptions =
  ro_max_sessions :: nat
  ro_max_request_bytes :: nat
  ro_enable_auth :: bool

text \<open>A request handler works on a session, the counters, and the effects so far.\<close>

record RtspCall =
  ca_session :: RtspSession
  ca_stats :: RtspStats
  ca_effects :: "RtspEffect list"

definition emit :: "RtspEffect \<Rightarrow> RtspCall \<Rightarrow> RtspCall" where
  "emit fx c = c\<lparr>ca_effects := ca_effects c @ [fx]\<rparr>"

definition on_session :: "(RtspSession \<Rightarrow> RtspSession) \<Rightarrow> RtspCall \<Rightarrow> RtspCall" where
  "on_session f c = c\<lparr>ca_session := f (ca_session c)\<rparr>"

section \<open>Responses and authorization\<close>

text \<open>\<open>SendRtspResponse\<close>; the headers are a \<open>std::map\<close>, so they are sent in the order of their names.\<close>

definition SendRtspResponse :: "nat \<Rightarrow> bytes \<Rightarrow> (bytes \<times> bytes) list \<Rightarrow> bytes \<Rightarrow> RtspCall \<Rightarrow> RtspCall" where
  "SendRtspResponse status cseq headers body c =
     emit (FxSend (rs_connection_id (ca_session c)) (BuildRtspResponse status cseq (set_headers [] headers) body)) c"

definition AddAuthFailure :: "RtspCall \<Rightarrow> RtspCall" where
  "AddAuthFailure c = c\<lparr>ca_stats := (ca_stats c)\<lparr>rv_auth_failures := rv_auth_failures (ca_stats c) + 1\<rparr>\<rparr>"

definition SendChallenge :: "bytes \<Rightarrow> RtspCall \<Rightarrow> RtspCall" where
  "SendChallenge cseq c = SendRtspResponse 401 cseq [(ascii ''WWW-Authenticate'', BasicRealmHeader)] [] c"

definition Authorize :: "rtsp_env \<Rightarrow> RtspRequest \<Rightarrow> StreamId \<Rightarrow> RtspCall \<Rightarrow> RtspCall \<times> bool" where
  "Authorize env request sid c =
     (let refuse = (SendChallenge (CSeq request) (AddAuthFailure c), False) in
      if \<not> env_auth_present env then (SendRtspResponse 500 (CSeq request) [] [] c, False)
      else if IsAuthenticatedFor sid (ca_session c) then (c, True)
      else
        let authorization = RtspHeaderValue request (ascii ''Authorization''); prefix = ascii ''Basic '' in
        if take (length prefix) authorization \<noteq> prefix then refuse
        else
          case DecodeBase64 (drop (length prefix) authorization) of (ok, decoded) \<Rightarrow>
            if \<not> ok then refuse
            else
              case find_char 0x3a decoded of
                None \<Rightarrow> refuse
              | Some colon \<Rightarrow>
                  if colon = 0 then refuse
                  else
                    let login_result = env_login env (sa_ip (rs_peer (ca_session c))) (take colon decoded) (drop (colon + 1) decoded);
                        principal = lr_principal login_result;
                        logout = FxLogout (ap_user_name principal) (ap_session_id principal);
                        forbid = (SendRtspResponse 403 (CSeq request) [] [] (AddAuthFailure (emit logout c)), False)
                    in if lr_token login_result = [] then refuse
                       else if lr_must_change_password login_result then forbid
                       else if \<not> env_permission env principal (StreamPath sid) then forbid
                       else (emit (FxAuthAccepted (rs_connection_id (ca_session c)) sid (ap_user_name principal))
                               (on_session (MarkAuthenticated sid (ap_user_name principal)) (emit logout c)), True))"

definition AuthorizeRtspRequest :: "rtsp_env \<Rightarrow> RtspServerOptions \<Rightarrow> RtspRequest \<Rightarrow> StreamId \<Rightarrow> RtspCall \<Rightarrow> RtspCall \<times> bool" where
  "AuthorizeRtspRequest env options request sid c =
     (if \<not> ro_enable_auth options then (c, True) else Authorize env request sid c)"

section \<open>Closing and starting the media stream\<close>

definition CloseSubscription :: "SubscriptionClose \<Rightarrow> RtspCall \<Rightarrow> RtspCall" where
  "CloseSubscription reason c =
     (let subscription_id = rs_subscription_id (ca_session c);
          send_timer_id = rs_drain_timer_id (ca_session c);
          c = on_session (\<lambda>s. ClearDrainTimer (ClearSubscription s)) c;
          c = (if send_timer_id \<noteq> 0 then emit (FxCancelTimer send_timer_id) c else c)
      in if subscription_id \<noteq> 0 then emit (FxUnsubscribe subscription_id reason) c else c)"

definition CloseSessionUdp :: "RtspCall \<Rightarrow> RtspCall" where
  "CloseSessionUdp c =
     (let rtp_socket_id = rs_rtp_socket_id (ca_session c);
          rtcp_socket_id = rs_rtcp_socket_id (ca_session c);
          c = on_session (\<lambda>s. s\<lparr>rs_rtp_socket_id := 0, rs_rtcp_socket_id := 0\<rparr>) c;
          c = (if rtp_socket_id \<noteq> 0 then emit (FxCloseUdp rtp_socket_id) c else c)
      in if rtcp_socket_id \<noteq> 0 then emit (FxCloseUdp rtcp_socket_id) c else c)"

definition CloseSessionVideoSend :: "SubscriptionClose \<Rightarrow> RtspCall \<Rightarrow> RtspCall" where
  "CloseSessionVideoSend reason c = CloseSessionUdp (CloseSubscription reason c)"

definition FirstStartFrameRtpTimestamp :: "SubscriptionStart \<Rightarrow> u32" where
  "FirstStartFrameRtpTimestamp start_data =
     (case ss_gop_frames start_data of [] \<Rightarrow> 0 | f # fs \<Rightarrow> RtpTimestampFromPtsUs (pts_us f) kRtpClockRate)"

definition start_track_ready :: "SubscriptionStart \<Rightarrow> bool" where
  "start_track_ready start_data = (case ss_stream_info start_data of None \<Rightarrow> False | Some info \<Rightarrow> si_track_ready info)"

definition start_codec :: "SubscriptionStart \<Rightarrow> Codec" where
  "start_codec start_data = (case ss_stream_info start_data of None \<Rightarrow> CodecH264 | Some info \<Rightarrow> si_codec info)"

text \<open>The result is the RTSP status.\<close>

definition StartMediaStream :: "rtsp_env \<Rightarrow> RtspCall \<Rightarrow> RtspCall \<times> nat" where
  "StartMediaStream env c =
     (if \<not> env_available env (rs_stream_id (ca_session c)) then (c, 404)
      else
        let c = CloseSubscription CloseUnsubscribed c;
            subscription_id = env_subscribe env;
            start_data = env_subscription_start env
        in if subscription_id = 0 then (c, 455)
           else
             let c = emit (FxSubscribe (rs_connection_id (ca_session c)) (rs_stream_id (ca_session c)) subscription_id) c in
             if \<not> start_track_ready start_data then (emit (FxUnsubscribe subscription_id CloseUnsubscribed) c, 455)
             else if \<not> IsCodecSupported (start_codec start_data) then (emit (FxUnsubscribe subscription_id CloseUnsubscribed) c, 415)
             else
               (on_session (\<lambda>s. SetStartFrames (Some (ss_gop_frames start_data))
                  (SetPlayRtpTimestamp (FirstStartFrameRtpTimestamp start_data)
                    (SetSubscription subscription_id (ss_generation start_data) (ss_stream_info start_data) (StartPlaying s)))) c, 200))"

text \<open>\<open>StartRtspMediaStream\<close> of \<open>rtsp.cpp\<close>.\<close>

definition StartRtspMediaStream :: "rtsp_env \<Rightarrow> RtspCall \<Rightarrow> RtspCall \<times> nat" where
  "StartRtspMediaStream env c =
     (if \<not> env_available env (rs_stream_id (ca_session c)) then (c, 404) else StartMediaStream env c)"

definition StartSessionSendTimer :: "rtsp_env \<Rightarrow> RtspCall \<Rightarrow> RtspCall" where
  "StartSessionSendTimer env c =
     (if \<not> env_timer_ok env \<or> env_timer_id env = 0 then
        let subscription_id = rs_subscription_id (ca_session c) in
        emit (FxUnsubscribe subscription_id CloseUnsubscribed) (on_session ClearSubscription c)
      else on_session (SetDrainTimer (env_timer_id env)) (emit (FxStartTimer (env_timer_id env)) c))"

section \<open>Transport setup\<close>

text \<open>\<open>%08x\<close>.\<close>

definition Hex32 :: "u32 \<Rightarrow> bytes" where
  "Hex32 v = map (\<lambda>shift. hex_char (unat (drop_bit shift v AND 0xf))) [28, 24, 20, 16, 12, 8, 4, 0]"

definition BindSessionUdpSockets :: "rtsp_env \<Rightarrow> RtspCall \<Rightarrow> RtspCall \<times> (nat \<times> nat) option" where
  "BindSessionUdpSockets env c =
     (let rtp_result = env_rtp_bind env; rtcp_result = env_rtcp_bind env in
      if rtp_result = 0 then (c, None)
      else
        let c = emit (FxBindUdp rtp_result) c in
        if rtcp_result = 0 then (emit (FxCloseUdp rtp_result) c, None)
        else
          let c = emit (FxBindUdp rtcp_result) c in
          if sa_port (env_rtp_address env) = 0 \<or> sa_port (env_rtcp_address env) = 0
          then (emit (FxCloseUdp rtcp_result) (emit (FxCloseUdp rtp_result) c), None)
          else (c, Some (rtp_result, rtcp_result)))"

definition setup_reply :: "RtspRequest \<Rightarrow> bytes \<Rightarrow> RtspCall \<Rightarrow> RtspCall" where
  "setup_reply request response_transport c =
     SendRtspResponse 200 (CSeq request)
       [(ascii ''Transport'', response_transport), (ascii ''Session'', show_nat (unat (rs_session_id (ca_session c))))] [] c"

definition SetupRtspTransport :: "rtsp_env \<Rightarrow> RtspRequest \<Rightarrow> StreamId \<Rightarrow> RtspCall \<Rightarrow> RtspCall" where
  "SetupRtspTransport env request sid c =
     (let transport = RtspHeaderValue request (ascii ''Transport'');
          unsupported = SendRtspResponse 461 (CSeq request) [] []
      in if transport = [] then unsupported c
         else if ContainsNoCase transport (ascii ''RTP/AVP/TCP'') \<or> ContainsNoCase transport (ascii ''interleaved'') then
           let c = on_session (SetupTcp sid 0) (CloseSessionVideoSend CloseUnsubscribed c);
               c = c\<lparr>ca_stats := (ca_stats c)\<lparr>rv_tcp_interleaved_sessions := rv_tcp_interleaved_sessions (ca_stats c) + 1\<rparr>\<rparr>
           in setup_reply request (ascii ''RTP/AVP/TCP;unicast;interleaved=0-1;ssrc='' @ Hex32 (rs_ssrc (ca_session c))) c
         else if ContainsNoCase transport (ascii ''RTP/AVP'') then
           let client_port = ParseClientRtpPort transport in
           if client_port \<le> 0 \<or> client_port > 65534 then unsupported c
           else
             case BindSessionUdpSockets env (CloseSessionVideoSend CloseUnsubscribed c) of
               (c, None) \<Rightarrow> unsupported c
             | (c, Some (rtp_socket_id, rtcp_socket_id)) \<Rightarrow>
                 let c = on_session (SetupUdp sid rtp_socket_id rtcp_socket_id (word_of_int client_port)) c;
                     c = c\<lparr>ca_stats := (ca_stats c)\<lparr>rv_udp_sessions := rv_udp_sessions (ca_stats c) + 1\<rparr>\<rparr>
                 in setup_reply request
                      (ascii ''RTP/AVP/UDP;unicast;client_port='' @ show_nat (nat client_port) @ ascii ''-'' @ show_nat (nat (client_port + 1))
                       @ ascii '';server_port='' @ show_nat (unat (sa_port (env_rtp_address env))) @ ascii ''-''
                       @ show_nat (unat (sa_port (env_rtcp_address env))) @ ascii '';ssrc='' @ Hex32 (rs_ssrc (ca_session c))) c
         else unsupported c)"

section \<open>Requests\<close>

definition BuildRtpInfo :: "RtspRequest \<Rightarrow> RtspSession \<Rightarrow> bytes" where
  "BuildRtpInfo request s =
     ascii ''url='' @ (if rq_uri request = [] then StreamPath (rs_stream_id s) else rq_uri request)
   @ ascii '';seq='' @ show_nat (unat (rs_rtp_sequence s)) @ ascii '';rtptime='' @ show_nat (unat (rs_play_rtp_timestamp s))"

definition HandleDescribe :: "rtsp_env \<Rightarrow> bytes \<Rightarrow> RtspRequest \<Rightarrow> StreamId \<Rightarrow> RtspCall \<Rightarrow> RtspCall" where
  "HandleDescribe env local_ip request sid c =
     (let c = on_session (MarkDescribed sid) c;
          reply = (\<lambda>status. SendRtspResponse status (CSeq request) [] [] c)
      in if \<not> env_available env sid \<or> \<not> si_track_ready (env_stream_info env sid) then reply 455
         else if \<not> IsCodecSupported (si_codec (env_stream_info env sid)) then reply 415
         else
           let sdp = BuildSdp local_ip sid (env_stream_info env sid) in
           if sdp = [] then reply 415
           else SendRtspResponse 200 (CSeq request)
                  [(ascii ''Content-Type'', ascii ''application/sdp''), (ascii ''Content-Base'', rq_uri request)] sdp c)"

definition HandlePlay :: "rtsp_env \<Rightarrow> RtspRequest \<Rightarrow> RtspCall \<Rightarrow> RtspCall" where
  "HandlePlay env request c =
     (if \<not> IsReadyForPlay (ca_session c) then SendRtspResponse 455 (CSeq request) [] [] c
      else case StartRtspMediaStream env c of (c, stream_status) \<Rightarrow>
        if stream_status \<noteq> 200 then SendRtspResponse stream_status (CSeq request) [] [] c
        else
          StartSessionSendTimer env
            (SendRtspResponse 200 (CSeq request)
              [(ascii ''Session'', show_nat (unat (rs_session_id (ca_session c)))), (ascii ''Range'', ascii ''npt=0.000-''),
               (ascii ''RTP-Info'', BuildRtpInfo request (ca_session c))] [] c))"

text \<open>\<open>HandleTeardown\<close> with \<open>CloseRtspConnectionAfterSend\<close>, which finds the same session in the table.\<close>

definition HandleTeardown :: "RtspRequest \<Rightarrow> RtspCall \<Rightarrow> RtspCall" where
  "HandleTeardown request c =
     (let c = SendRtspResponse 200 (CSeq request) [(ascii ''Session'', show_nat (unat (rs_session_id (ca_session c))))] [] c;
          c = on_session RtspSession_Close c;
          c = CloseSessionVideoSend CloseUnsubscribed c
      in emit (FxCloseAfterSend (rs_connection_id (ca_session c))) c)"

definition HandleRequest :: "rtsp_env \<Rightarrow> RtspServerOptions \<Rightarrow> bytes \<Rightarrow> RtspRequest \<Rightarrow> RtspCall \<Rightarrow> RtspCall" where
  "HandleRequest env options local_ip request c =
     (if rq_method request = ascii ''OPTIONS'' then
        SendRtspResponse 200 (CSeq request) [(ascii ''Public'', ascii ''OPTIONS, DESCRIBE, SETUP, PLAY, TEARDOWN'')] [] c
      else
        let from_uri = (rq_method request = ascii ''DESCRIBE'' \<or> rq_method request = ascii ''SETUP'');
            found = (if from_uri then PathToStreamId (rq_uri request) else Some (rs_stream_id (ca_session c)))
        in case found of
             None \<Rightarrow> SendRtspResponse 404 (CSeq request) [] [] c
           | Some sid \<Rightarrow>
               if from_uri \<and> \<not> env_available env sid then SendRtspResponse 404 (CSeq request) [] [] c
               else case AuthorizeRtspRequest env options request sid c of (c, authorized) \<Rightarrow>
                 if \<not> authorized then c
                 else if rq_method request = ascii ''DESCRIBE'' then HandleDescribe env local_ip request sid c
                 else if rq_method request = ascii ''SETUP'' then SetupRtspTransport env request sid c
                 else if rq_method request = ascii ''PLAY'' then HandlePlay env request c
                 else if rq_method request = ascii ''TEARDOWN'' then HandleTeardown request c
                 else SendRtspResponse 455 (CSeq request) [] [] c)"

section \<open>Connections\<close>

record RtspServer =
  sv_options :: RtspServerOptions
  sv_local_ip :: bytes
  sv_table :: RtspSessionTable
  sv_stats :: RtspStats
  sv_effects :: "RtspEffect list"

definition server_emit :: "RtspEffect \<Rightarrow> RtspServer \<Rightarrow> RtspServer" where
  "server_emit fx sv = sv\<lparr>sv_effects := sv_effects sv @ [fx]\<rparr>"

text \<open>Running a handler on a session object, and storing the object.\<close>

definition begin_call :: "RtspSession \<Rightarrow> RtspServer \<Rightarrow> RtspCall" where
  "begin_call s sv = \<lparr>ca_session = s, ca_stats = sv_stats sv, ca_effects = sv_effects sv\<rparr>"

definition end_call :: "RtspCall \<Rightarrow> RtspServer \<Rightarrow> RtspServer" where
  "end_call c sv = sv\<lparr>sv_stats := ca_stats c, sv_effects := ca_effects c\<rparr>"

definition store_session :: "RtspSession \<Rightarrow> RtspServer \<Rightarrow> RtspServer" where
  "store_session s sv = sv\<lparr>sv_table := RtspSessionTable_Update s (sv_table sv)\<rparr>"

definition OnConnection :: "nat \<Rightarrow> SocketAddress \<Rightarrow> RtspServer \<Rightarrow> RtspServer" where
  "OnConnection connection_id peer sv =
     (case RtspSessionTable_Add connection_id peer (ro_max_sessions (sv_options sv)) (sv_table sv) of
        (t, None) \<Rightarrow> server_emit (FxCloseTcp connection_id) sv
      | (t, Some session) \<Rightarrow>
          server_emit (FxPublishConnected (sa_ip peer))
            (sv\<lparr>sv_table := t, sv_stats := (sv_stats sv)\<lparr>rv_total_sessions := rv_total_sessions (sv_stats sv) + 1\<rparr>\<rparr>))"

definition OnConnectionClosed :: "nat \<Rightarrow> TcpCloseReason \<Rightarrow> RtspServer \<Rightarrow> RtspServer" where
  "OnConnectionClosed connection_id reason sv =
     (case RtspSessionTable_Remove connection_id (sv_table sv) of
        (t, None) \<Rightarrow> sv
      | (t, Some session) \<Rightarrow>
          let sv = sv\<lparr>sv_table := t\<rparr>;
              c = CloseSessionVideoSend CloseUnsubscribed (begin_call (MarkCloseReason reason session) sv)
          in server_emit (FxPublishDisconnected (sa_ip (rs_peer session))) (end_call c sv))"

definition OnUdpPacket :: "rtsp_env \<Rightarrow> nat \<Rightarrow> SocketAddress \<Rightarrow> nat \<Rightarrow> RtspServer \<Rightarrow> RtspServer" where
  "OnUdpPacket env socket_id peer sz sv =
     (case FindByUdpSocket socket_id (sv_table sv) of
        None \<Rightarrow> sv
      | Some session \<Rightarrow>
          if sa_ip peer \<noteq> sa_ip (rs_peer session) then sv
          else if rs_rtp_socket_id session = socket_id then store_session (fst (LearnUdpRtpPeer peer session)) sv
          else if rs_rtcp_socket_id session = socket_id
          then store_session (RecordRtcpPacket sz (env_now_ms env) (fst (LearnUdpRtcpPeer peer session))) sv
          else sv)"

definition RecordInterleavedRtcpPackets :: "rtsp_env \<Rightarrow> RtspInterleavedPacket list \<Rightarrow> RtspSession \<Rightarrow> RtspSession" where
  "RecordInterleavedRtcpPackets env packets s =
     foldl (\<lambda>s p. if rs_transport s = TcpInterleaved \<and> ip_channel p = rs_interleaved_rtp_channel s + 1
                  then RecordRtcpPacket (length (ip_payload p)) (env_now_ms env) s else s) s packets"

text \<open>The loop of \<open>OnMessage\<close> over the requests of one read; the flag tells that a request was malformed.\<close>

fun RequestLoop :: "rtsp_env \<Rightarrow> RtspServerOptions \<Rightarrow> bytes \<Rightarrow> bytes list \<Rightarrow> RtspCall \<Rightarrow> RtspCall" where
  "RequestLoop env options local_ip [] c = c"
| "RequestLoop env options local_ip (raw # raws) c =
     (case ParseRtspRequest raw of
        None \<Rightarrow>
          let c = c\<lparr>ca_stats := (ca_stats c)\<lparr>rv_parse_failures := rv_parse_failures (ca_stats c) + 1\<rparr>\<rparr>;
              c = SendRtspResponse 400 (ascii ''1'') [] [] c
          in emit (FxCloseAfterSend (rs_connection_id (ca_session c))) c
      | Some request \<Rightarrow> RequestLoop env options local_ip raws (HandleRequest env options local_ip request c))"

definition OnMessage :: "rtsp_env \<Rightarrow> nat \<Rightarrow> bytes option \<Rightarrow> nat \<Rightarrow> RtspServer \<Rightarrow> RtspServer" where
  "OnMessage env connection_id data sz sv =
     (case RtspSessionTable_Find connection_id (sv_table sv) of
        None \<Rightarrow> server_emit (FxCloseTcp connection_id) sv
      | Some session \<Rightarrow>
          (case RtspSession_AppendBytes data sz session of (session, ok) \<Rightarrow>
             if \<not> ok then sv
             else case RtspSession_SplitRequests (ro_max_request_bytes (sv_options sv)) session of (session, split) \<Rightarrow>
               if rsr_status split = RtspSplitPayloadTooLarge then
                 server_emit (FxCloseTcp connection_id)
                   (store_session session (sv\<lparr>sv_stats := (sv_stats sv)\<lparr>rv_parse_failures := rv_parse_failures (sv_stats sv) + 1\<rparr>\<rparr>))
               else
                 let session = RecordInterleavedRtcpPackets env (rsr_interleaved_packets split) session;
                     c = RequestLoop env (sv_options sv) (sv_local_ip sv) (rsr_requests split) (begin_call session sv)
                 in store_session (ca_session c) (end_call c sv)))"

text \<open>\<open>StopInternal\<close>, behind the closing of the listener: every session is closed, then every connection, then the table cleared.\<close>

fun CloseAll :: "RtspSession list \<Rightarrow> RtspServer \<Rightarrow> RtspServer" where
  "CloseAll [] sv = sv"
| "CloseAll (s # ss) sv =
     CloseAll ss (end_call (CloseSessionVideoSend CloseStreamStopped (begin_call s sv)) sv)"

definition StopInternal :: "RtspServer \<Rightarrow> RtspServer" where
  "StopInternal sv =
     (let connection_ids = ConnectionIds (sv_table sv);
          sv = CloseAll (Sessions (sv_table sv)) sv;
          sv = foldl (\<lambda>sv cid. server_emit (FxCloseTcp cid) sv) sv connection_ids
      in sv\<lparr>sv_table := RtspSessionTable_Clear (sv_table sv)\<rparr>)"

section \<open>What every handler leaves alone\<close>

text \<open>A handler stays on its connection and only adds effects.\<close>

definition call_framed :: "nat \<times> RtspEffect list \<Rightarrow> RtspCall \<Rightarrow> bool" where
  "call_framed k c \<longleftrightarrow> rs_connection_id (ca_session c) = fst k \<and> (\<exists>fxs. ca_effects c = snd k @ fxs)"

text \<open>The parts of a session that authorization depends on.\<close>

definition auth_part :: "RtspSession \<Rightarrow> nat \<times> bool \<times> StreamId" where
  "auth_part s = (rs_connection_id s, rs_authenticated s, rs_authenticated_stream_id s)"

lemma auth_parts:
  "auth_part (ClearDrainTimer s) = auth_part s" "auth_part (ClearSubscription s) = auth_part s"
  "auth_part (s\<lparr>rs_rtp_socket_id := i, rs_rtcp_socket_id := j\<rparr>) = auth_part s"
  "auth_part (SetDrainTimer i s) = auth_part s" "auth_part (SetupTcp sid ch s) = auth_part s"
  "auth_part (SetupUdp sid i j port s) = auth_part s" "auth_part (MarkDescribed sid s) = auth_part s"
  "auth_part (RtspSession_Close s) = auth_part s" "auth_part (StartPlaying s) = auth_part s"
  "auth_part (SetSubscription i g info s) = auth_part s" "auth_part (SetPlayRtpTimestamp ts s) = auth_part s"
  "auth_part (SetStartFrames frames s) = auth_part s" "auth_part (RecordRtcpPacket n now s) = auth_part s"
  "auth_part (fst (LearnUdpRtpPeer peer s)) = auth_part s" "auth_part (fst (LearnUdpRtcpPeer peer s)) = auth_part s"
  "auth_part (MarkCloseReason reason s) = auth_part s"
  by (simp_all add: auth_part_def ClearDrainTimer_def ClearSubscription_def ClearStartFrames_def SetDrainTimer_def SetupTcp_def SetupUdp_def
      MarkDescribed_def RtspSession_Close_def StartPlaying_def SetSubscription_def SetPlayRtpTimestamp_def SetStartFrames_def
      RecordRtcpPacket_def LearnUdpRtpPeer_def LearnUdpRtcpPeer_def MarkCloseReason_def split: option.split)

lemma framed_emit: "call_framed k c \<Longrightarrow> call_framed k (emit fx c)"
  by (auto simp: call_framed_def emit_def)

lemma framed_on_session: "call_framed k c \<Longrightarrow> auth_part (f (ca_session c)) = auth_part (ca_session c) \<Longrightarrow> call_framed k (on_session f c)"
  by (simp add: call_framed_def on_session_def auth_part_def)

lemma framed_mark: "call_framed k c \<Longrightarrow> call_framed k (on_session (MarkAuthenticated sid user) c)"
  by (simp add: call_framed_def on_session_def MarkAuthenticated_def)

lemma framed_stats: "call_framed k c \<Longrightarrow> call_framed k (c\<lparr>ca_stats := st\<rparr>)"
  by (simp add: call_framed_def)

lemma framed_send: "call_framed k c \<Longrightarrow> call_framed k (SendRtspResponse st cs hs b c)"
  by (simp add: SendRtspResponse_def framed_emit)

lemmas framed_intros = framed_send framed_stats framed_emit framed_mark framed_on_session

lemma Authorize_framed: "call_framed k c \<Longrightarrow> call_framed k (fst (Authorize env request sid c))"
  by (simp add: Authorize_def Let_def SendChallenge_def AddAuthFailure_def framed_intros split: option.split prod.split)

lemma CloseSubscription_framed: "call_framed k c \<Longrightarrow> call_framed k (CloseSubscription reason c)"
  by (simp add: CloseSubscription_def Let_def framed_intros auth_parts)

lemma CloseSessionVideoSend_framed: "call_framed k c \<Longrightarrow> call_framed k (CloseSessionVideoSend reason c)"
  by (simp add: CloseSessionVideoSend_def CloseSessionUdp_def Let_def framed_intros auth_parts CloseSubscription_framed)

lemma StartMediaStream_framed: "call_framed k c \<Longrightarrow> call_framed k (fst (StartMediaStream env c))"
  by (simp add: StartMediaStream_def Let_def framed_intros auth_parts CloseSubscription_framed)

lemma HandlePlay_framed:
  assumes "call_framed k c"
  shows "call_framed k (HandlePlay env request c)"
proof -
  obtain c' st where s: "StartMediaStream env c = (c', st)" by force
  then have "call_framed k c'" using StartMediaStream_framed [OF assms, of env] by simp
  then show ?thesis using assms s
    by (simp add: HandlePlay_def StartRtspMediaStream_def StartSessionSendTimer_def Let_def framed_intros auth_parts)
qed

lemma SetupRtspTransport_framed:
  assumes "call_framed k c"
  shows "call_framed k (SetupRtspTransport env request sid c)"
proof -
  let ?c = "CloseSessionVideoSend CloseUnsubscribed c"
  have a: "call_framed k ?c" using assms by (rule CloseSessionVideoSend_framed)
  have "call_framed k c'" if "BindSessionUdpSockets env ?c = (c', r)" for c' r
    using a that by (auto simp: BindSessionUdpSockets_def Let_def split: if_splits intro!: framed_emit)
  then show ?thesis using assms a
    by (auto simp: SetupRtspTransport_def Let_def setup_reply_def auth_parts intro!: framed_intros split: option.split prod.split)
qed

text \<open>A handled request: refused, or handed to the handler of its method once it is authorized.\<close>

lemma HandleRequest_rule:
  assumes "P c" and "\<And>c st cs hs b. P c \<Longrightarrow> P (SendRtspResponse st cs hs b c)"
    and "\<And>sid c'. P c \<Longrightarrow> AuthorizeRtspRequest env options request sid c = (c', False) \<Longrightarrow> P c'"
    and "\<And>sid c'. P c \<Longrightarrow> AuthorizeRtspRequest env options request sid c = (c', True) \<Longrightarrow>
      P c' \<and> P (HandleDescribe env ip request sid c') \<and> P (SetupRtspTransport env request sid c') \<and> P (HandleTeardown request c')
      \<and> (sid = rs_stream_id (ca_session c) \<longrightarrow> P (HandlePlay env request c'))"
  shows "P (HandleRequest env options ip request c)"
proof -
  let ?from_uri = "rq_method request = ascii ''DESCRIBE'' \<or> rq_method request = ascii ''SETUP''"
  let ?found = "if ?from_uri then PathToStreamId (rq_uri request) else Some (rs_stream_id (ca_session c))"
  have play: "ascii ''PLAY'' \<noteq> ascii ''DESCRIBE''" "ascii ''PLAY'' \<noteq> ascii ''SETUP''" by code_simp+
  show ?thesis
  proof (cases ?found)
    case None
    then show ?thesis using assms(1,2) unfolding HandleRequest_def Let_def None option.case by simp
  next
    case (Some sid)
    obtain c' ok where a: "AuthorizeRtspRequest env options request sid c = (c', ok)" by force
    have sid: "rq_method request = ascii ''PLAY'' \<Longrightarrow> sid = rs_stream_id (ca_session c)" using Some play by simp
    show ?thesis
    proof (cases ok)
      case True
      with a have "AuthorizeRtspRequest env options request sid c = (c', True)" by simp
      from assms(4) [OF assms(1) this] show ?thesis using assms(1) sid True unfolding HandleRequest_def Let_def Some option.case a prod.case
        by (simp add: assms(2))
    next
      case False
      with a have "AuthorizeRtspRequest env options request sid c = (c', False)" by simp
      from assms(3) [OF assms(1) this] show ?thesis using assms(1) False unfolding HandleRequest_def Let_def Some option.case a prod.case
        by (simp add: assms(2))
    qed
  qed
qed

lemma HandleRequest_framed: "call_framed k c \<Longrightarrow> call_framed k (HandleRequest env options ip request c)"
proof (rule HandleRequest_rule)
  fix sid c' assume c: "call_framed k c"
  have a: "call_framed k c'" if "AuthorizeRtspRequest env options request sid c = (c', ok)" for ok
    using that c Authorize_framed [OF c, of env request sid] by (auto simp: AuthorizeRtspRequest_def split: if_splits)
  then show "AuthorizeRtspRequest env options request sid c = (c', False) \<Longrightarrow> call_framed k c'" by blast
  assume "AuthorizeRtspRequest env options request sid c = (c', True)"
  with a have "call_framed k c'" by blast
  then show "call_framed k c' \<and> call_framed k (HandleDescribe env ip request sid c') \<and> call_framed k (SetupRtspTransport env request sid c')
      \<and> call_framed k (HandleTeardown request c') \<and> (sid = rs_stream_id (ca_session c) \<longrightarrow> call_framed k (HandlePlay env request c'))"
    by (simp add: HandleDescribe_def HandleTeardown_def Let_def framed_intros auth_parts CloseSessionVideoSend_framed
        SetupRtspTransport_framed HandlePlay_framed)
qed (simp_all add: framed_send)

lemma RequestLoop_framed: "call_framed k c \<Longrightarrow> call_framed k (RequestLoop env options ip raws c)"
  by (induction raws arbitrary: c) (auto simp: Let_def HandleRequest_framed intro!: framed_intros split: option.split)

section \<open>Resources\<close>

text \<open>Sockets, subscriptions and timers: what the effects open and release, and what a session holds.\<close>

datatype resource = ResUdp nat | ResSubscription nat | ResTimer nat

fun opened_by :: "RtspEffect \<Rightarrow> resource list" where
  "opened_by (FxBindUdp i) = [ResUdp i]"
| "opened_by (FxSubscribe cid sid i) = [ResSubscription i]"
| "opened_by (FxStartTimer i) = [ResTimer i]"
| "opened_by _ = []"

fun released_by :: "RtspEffect \<Rightarrow> resource list" where
  "released_by (FxCloseUdp i) = [ResUdp i]"
| "released_by (FxUnsubscribe i reason) = [ResSubscription i]"
| "released_by (FxCancelTimer i) = [ResTimer i]"
| "released_by _ = []"

definition opened :: "RtspEffect list \<Rightarrow> resource multiset" where
  "opened fxs = mset (concat (map opened_by fxs))"

definition released :: "RtspEffect list \<Rightarrow> resource multiset" where
  "released fxs = mset (concat (map released_by fxs))"

definition held :: "RtspSession \<Rightarrow> resource multiset" where
  "held s = mset ((if rs_subscription_id s \<noteq> 0 then [ResSubscription (rs_subscription_id s)] else [])
     @ (if rs_drain_timer_id s \<noteq> 0 then [ResTimer (rs_drain_timer_id s)] else [])
     @ (if rs_rtp_socket_id s \<noteq> 0 then [ResUdp (rs_rtp_socket_id s)] else [])
     @ (if rs_rtcp_socket_id s \<noteq> 0 then [ResUdp (rs_rtcp_socket_id s)] else []))"

lemma opened_simps [simp]: "opened [] = {#}" "opened (fx # fxs) = mset (opened_by fx) + opened fxs" "opened (fxs @ fxs') = opened fxs + opened fxs'"
  by (simp_all add: opened_def)

lemma released_simps [simp]: "released [] = {#}" "released (fx # fxs) = mset (released_by fx) + released fxs"
  "released (fxs @ fxs') = released fxs + released fxs'"
  by (simp_all add: released_def)

definition balanced :: "resource multiset \<Rightarrow> RtspCall \<Rightarrow> bool" where
  "balanced K c \<longleftrightarrow> opened (ca_effects c) = released (ca_effects c) + held (ca_session c) + K"

lemmas call_defs = emit_def on_session_def SendRtspResponse_def AddAuthFailure_def SendChallenge_def setup_reply_def

lemma balanced_send: "balanced K (SendRtspResponse st cs hs b c) = balanced K c"
  by (simp add: balanced_def call_defs)

lemma balanced_stats: "balanced K (c\<lparr>ca_stats := st\<rparr>) = balanced K c"
  by (simp add: balanced_def)

lemma balanced_on_session: "held (f (ca_session c)) = held (ca_session c) \<Longrightarrow> balanced K (on_session f c) = balanced K c"
  by (simp add: balanced_def call_defs)

lemma balanced_emit: "opened_by fx = [] \<Longrightarrow> released_by fx = [] \<Longrightarrow> balanced K (emit fx c) = balanced K c"
  by (simp add: balanced_def call_defs)

lemmas balanced_simps = balanced_send balanced_stats balanced_on_session balanced_emit

lemma Authorize_balanced: "balanced K c \<Longrightarrow> balanced K (fst (Authorize env request sid c))"
  by (simp add: Authorize_def Let_def SendChallenge_def AddAuthFailure_def balanced_simps MarkAuthenticated_def held_def
      split: option.split prod.split)

lemma AuthorizeRtspRequest_balanced: "balanced K c \<Longrightarrow> balanced K (fst (AuthorizeRtspRequest env options request sid c))"
  by (simp add: AuthorizeRtspRequest_def Authorize_balanced)

lemma CloseSubscription_balanced: "balanced K c \<Longrightarrow> balanced K (CloseSubscription reason c)"
  by (simp add: balanced_def CloseSubscription_def call_defs held_def ClearDrainTimer_def ClearSubscription_def ClearStartFrames_def Let_def)

lemma CloseSubscription_session:
  "ca_session (CloseSubscription reason c) = ClearDrainTimer (ClearSubscription (ca_session c))"
  by (simp add: CloseSubscription_def call_defs Let_def)

lemma CloseSessionUdp_balanced: "balanced K c \<Longrightarrow> balanced K (CloseSessionUdp c)"
  by (simp add: balanced_def CloseSessionUdp_def call_defs held_def Let_def)

lemma CloseSessionVideoSend_session:
  "ca_session (CloseSessionVideoSend reason c)
     = (ClearDrainTimer (ClearSubscription (ca_session c)))\<lparr>rs_rtp_socket_id := 0, rs_rtcp_socket_id := 0\<rparr>"
  by (simp add: CloseSessionVideoSend_def CloseSessionUdp_def CloseSubscription_session call_defs Let_def)

lemma CloseSessionVideoSend_balanced: "balanced K c \<Longrightarrow> balanced K (CloseSessionVideoSend reason c)"
  by (simp add: CloseSessionVideoSend_def CloseSessionUdp_balanced CloseSubscription_balanced)

lemma CloseSessionVideoSend_held: "held (ca_session (CloseSessionVideoSend reason c)) = {#}"
  by (simp add: CloseSessionVideoSend_session held_def ClearDrainTimer_def ClearSubscription_def ClearStartFrames_def)

lemma StartMediaStream_balanced:
  assumes "balanced K c" and "StartMediaStream env c = (c', st)"
  shows "balanced K c' \<and> (st = 200 \<longrightarrow> rs_subscription_id (ca_session c') \<noteq> 0 \<and> rs_drain_timer_id (ca_session c') = 0)"
proof -
  define c0 where "c0 = CloseSubscription CloseUnsubscribed c"
  have b: "balanced K c0" unfolding c0_def using assms(1) by (rule CloseSubscription_balanced)
  have c0: "rs_subscription_id (ca_session c0) = 0" "rs_drain_timer_id (ca_session c0) = 0"
    unfolding c0_def CloseSubscription_session by (simp_all add: ClearDrainTimer_def ClearSubscription_def ClearStartFrames_def)
  let ?play = "\<lambda>s. SetStartFrames (Some (ss_gop_frames (env_subscription_start env))) (SetPlayRtpTimestamp
      (FirstStartFrameRtpTimestamp (env_subscription_start env)) (SetSubscription (env_subscribe env)
      (ss_generation (env_subscription_start env)) (ss_stream_info (env_subscription_start env)) (StartPlaying s)))"
  let ?c1 = "emit (FxSubscribe (rs_connection_id (ca_session c0)) (rs_stream_id (ca_session c0)) (env_subscribe env)) c0"
  have play: "rs_subscription_id (?play s) = env_subscribe env" "rs_drain_timer_id (?play s) = rs_drain_timer_id s"
    "rs_rtp_socket_id (?play s) = rs_rtp_socket_id s" "rs_rtcp_socket_id (?play s) = rs_rtcp_socket_id s" for s
    by (simp_all add: SetStartFrames_def ClearStartFrames_def SetPlayRtpTimestamp_def SetSubscription_def StartPlaying_def)
  consider "c' = c" "st \<noteq> 200" | "c' = c0" "st \<noteq> 200"
    | "c' = emit (FxUnsubscribe (env_subscribe env) CloseUnsubscribed) ?c1" "st \<noteq> 200"
    | "c' = on_session ?play ?c1" "st = 200" "env_subscribe env \<noteq> 0"
    using assms(2) unfolding StartMediaStream_def Let_def c0_def [symmetric] by (auto split: if_splits)
  then show ?thesis
  proof cases
    case 3
    then show ?thesis using b by (simp add: balanced_def emit_def)
  next
    case 4
    then have "ca_session c' = ?play (ca_session c0)" "ca_effects c' = ca_effects ?c1" by (simp_all add: call_defs)
    then show ?thesis using b c0 play 4(3) by (simp add: balanced_def held_def emit_def)
  qed (use assms(1) b in simp_all)
qed

lemma StartSessionSendTimer_balanced:
  "balanced K c \<Longrightarrow> rs_subscription_id (ca_session c) \<noteq> 0 \<Longrightarrow> rs_drain_timer_id (ca_session c) = 0 \<Longrightarrow>
     balanced K (StartSessionSendTimer env c)"
  by (simp add: StartSessionSendTimer_def balanced_def call_defs held_def ClearSubscription_def ClearStartFrames_def SetDrainTimer_def Let_def)

lemma HandlePlay_balanced: "balanced K c \<Longrightarrow> balanced K (HandlePlay env request c)"
proof (cases "IsReadyForPlay (ca_session c) \<and> env_available env (rs_stream_id (ca_session c))")
  case True
  assume b: "balanced K c"
  obtain c' st where s: "StartMediaStream env c = (c', st)" by force
  from StartMediaStream_balanced [OF b s] have b': "balanced K c'"
    and sub: "st = 200 \<Longrightarrow> rs_subscription_id (ca_session c') \<noteq> 0 \<and> rs_drain_timer_id (ca_session c') = 0" by simp_all
  show ?thesis
  proof (cases "st = 200")
    case ok: True
    let ?r = "SendRtspResponse 200 (CSeq request) [(ascii ''Session'', show_nat (unat (rs_session_id (ca_session c')))),
      (ascii ''Range'', ascii ''npt=0.000-''), (ascii ''RTP-Info'', BuildRtpInfo request (ca_session c'))] [] c'"
    have "ca_session ?r = ca_session c'" by (simp add: call_defs)
    then have "balanced K (StartSessionSendTimer env ?r)"
      using StartSessionSendTimer_balanced [of K ?r env] sub [OF ok] b' by (simp add: balanced_send)
    then show ?thesis using True s ok by (simp add: HandlePlay_def StartRtspMediaStream_def)
  qed (use True s b' in \<open>simp add: HandlePlay_def StartRtspMediaStream_def balanced_send\<close>)
qed (auto simp: HandlePlay_def StartRtspMediaStream_def balanced_send)

lemma HandleTeardown_balanced: "balanced K c \<Longrightarrow> balanced K (HandleTeardown request c)"
  by (simp add: HandleTeardown_def Let_def balanced_simps CloseSessionVideoSend_balanced RtspSession_Close_def held_def)

lemma HandleDescribe_balanced: "balanced K c \<Longrightarrow> balanced K (HandleDescribe env ip request sid c)"
  by (simp add: HandleDescribe_def Let_def balanced_simps MarkDescribed_def held_def)

lemma SetupRtspTransport_balanced:
  assumes "balanced K c"
  shows "balanced K (SetupRtspTransport env request sid c)"
proof -
  let ?c = "CloseSessionVideoSend CloseUnsubscribed c"
  have b: "balanced K ?c" and h: "held (ca_session ?c) = {#}"
    using assms by (simp_all add: CloseSessionVideoSend_balanced CloseSessionVideoSend_held)
  have closed: "rs_subscription_id (ca_session ?c) = 0" "rs_drain_timer_id (ca_session ?c) = 0"
    by (simp_all add: CloseSessionVideoSend_session ClearDrainTimer_def ClearSubscription_def ClearStartFrames_def)
  have tcp: "held (SetupTcp sid 0 (ca_session ?c)) = {#}" using closed by (simp add: held_def SetupTcp_def)
  have bind: "balanced K c'" if "BindSessionUdpSockets env ?c = (c', None)" for c'
    using b that by (auto simp: BindSessionUdpSockets_def balanced_def call_defs Let_def split: if_splits)
  have udp: "balanced K (on_session (SetupUdp sid i j port) c')" if "BindSessionUdpSockets env ?c = (c', Some (i, j))" for c' i j port
    using b h closed that
    by (auto simp: BindSessionUdpSockets_def balanced_def call_defs Let_def held_def SetupUdp_def split: if_splits)
  show ?thesis
    using assms b h tcp
    by (auto simp: SetupRtspTransport_def Let_def setup_reply_def balanced_simps bind udp split: option.split prod.split)
qed

lemma HandleRequest_balanced: "balanced K c \<Longrightarrow> balanced K (HandleRequest env options ip request c)"
proof (rule HandleRequest_rule)
  fix sid c' assume c: "balanced K c"
  have a: "balanced K c'" if "AuthorizeRtspRequest env options request sid c = (c', ok)" for ok
    using that AuthorizeRtspRequest_balanced [OF c, of env options request sid] by simp
  then show "AuthorizeRtspRequest env options request sid c = (c', False) \<Longrightarrow> balanced K c'" by blast
  assume "AuthorizeRtspRequest env options request sid c = (c', True)"
  with a have "balanced K c'" by blast
  then show "balanced K c' \<and> balanced K (HandleDescribe env ip request sid c') \<and> balanced K (SetupRtspTransport env request sid c')
      \<and> balanced K (HandleTeardown request c') \<and> (sid = rs_stream_id (ca_session c) \<longrightarrow> balanced K (HandlePlay env request c'))"
    by (simp add: HandleDescribe_balanced SetupRtspTransport_balanced HandlePlay_balanced HandleTeardown_balanced)
qed (simp_all add: balanced_send)

lemma RequestLoop_balanced: "balanced K c \<Longrightarrow> balanced K (RequestLoop env options ip raws c)"
  by (induction raws arbitrary: c) (auto simp: Let_def balanced_simps HandleRequest_balanced split: option.split)

section \<open>Authorization\<close>

definition login_accepted :: "RtspEffect list \<Rightarrow> nat \<Rightarrow> StreamId \<Rightarrow> bool" where
  "login_accepted fxs cid sid \<longleftrightarrow> (\<exists>user. FxAuthAccepted cid sid user \<in> set fxs)"

text \<open>Every subscription is preceded by an accepted login of its connection for its stream.\<close>

definition subscriptions_ok :: "RtspEffect list \<Rightarrow> bool" where
  "subscriptions_ok fxs \<longleftrightarrow> (\<forall>before cid sid i after. fxs = before @ FxSubscribe cid sid i # after \<longrightarrow> login_accepted before cid sid)"

lemma subscriptions_ok_Nil [simp]: "subscriptions_ok []"
  by (simp add: subscriptions_ok_def)

lemma subscriptions_ok_snoc:
  "subscriptions_ok (fxs @ [fx]) \<longleftrightarrow> subscriptions_ok fxs \<and> (\<forall>cid sid i. fx = FxSubscribe cid sid i \<longrightarrow> login_accepted fxs cid sid)"
proof
  assume ok: "subscriptions_ok (fxs @ [fx])"
  have "subscriptions_ok fxs" unfolding subscriptions_ok_def
    using ok by (auto simp: subscriptions_ok_def)
  moreover have "fx = FxSubscribe cid sid i \<Longrightarrow> login_accepted fxs cid sid" for cid sid i
    using ok unfolding subscriptions_ok_def by (metis append.right_neutral)
  ultimately show "subscriptions_ok fxs \<and> (\<forall>cid sid i. fx = FxSubscribe cid sid i \<longrightarrow> login_accepted fxs cid sid)" by blast
next
  assume ok: "subscriptions_ok fxs \<and> (\<forall>cid sid i. fx = FxSubscribe cid sid i \<longrightarrow> login_accepted fxs cid sid)"
  show "subscriptions_ok (fxs @ [fx])" unfolding subscriptions_ok_def
  proof (intro allI impI)
    fix before cid sid i after
    assume eq: "fxs @ [fx] = before @ FxSubscribe cid sid i # after"
    show "login_accepted before cid sid"
    proof (cases after rule: rev_cases)
      case Nil
      then show ?thesis using eq ok by simp
    next
      case (snoc ys y)
      then have "fxs = before @ FxSubscribe cid sid i # ys" using eq by simp
      then show ?thesis using ok by (auto simp: subscriptions_ok_def)
    qed
  qed
qed

lemma login_accepted_mono [simp]: "login_accepted fxs cid sid \<Longrightarrow> login_accepted (fxs @ fxs') cid sid"
  by (auto simp: login_accepted_def)

text \<open>A session that counts as authenticated has an accepted login.\<close>

definition authentic :: "RtspEffect list \<Rightarrow> RtspSession \<Rightarrow> bool" where
  "authentic fxs s \<longleftrightarrow> (rs_authenticated s \<longrightarrow> login_accepted fxs (rs_connection_id s) (rs_authenticated_stream_id s))"

definition authorized_call :: "nat \<Rightarrow> RtspCall \<Rightarrow> bool" where
  "authorized_call cid c \<longleftrightarrow> rs_connection_id (ca_session c) = cid \<and> subscriptions_ok (ca_effects c) \<and> authentic (ca_effects c) (ca_session c)"

lemma authorized_call_emit:
  "authorized_call cid c \<Longrightarrow> (\<And>cid sid i. fx \<noteq> FxSubscribe cid sid i) \<Longrightarrow> authorized_call cid (emit fx c)"
  by (auto simp: authorized_call_def emit_def subscriptions_ok_snoc authentic_def)

lemma authorized_call_on_session:
  "authorized_call cid c \<Longrightarrow> auth_part (f (ca_session c)) = auth_part (ca_session c) \<Longrightarrow> authorized_call cid (on_session f c)"
  by (auto simp: authorized_call_def on_session_def authentic_def auth_part_def)

lemma authorized_call_stats: "authorized_call cid c \<Longrightarrow> authorized_call cid (c\<lparr>ca_stats := st\<rparr>)"
  by (simp add: authorized_call_def)

lemma authorized_call_send: "authorized_call cid c \<Longrightarrow> authorized_call cid (SendRtspResponse st cs hs b c)"
  by (simp add: SendRtspResponse_def authorized_call_emit)

lemmas authorized_call_intros = authorized_call_send authorized_call_stats authorized_call_emit authorized_call_on_session

lemma Authorize_authorized:
  "authorized_call cid c \<Longrightarrow> authorized_call cid (fst (Authorize env request sid c))"
proof -
  assume a: "authorized_call cid c"
  have mark: "authorized_call cid (emit (FxAuthAccepted (rs_connection_id (ca_session c)) sid user)
      (on_session (MarkAuthenticated sid user) (emit (FxLogout u i) c)))" for user u i
    using authorized_call_emit [OF a, of "FxLogout u i"]
      subscriptions_ok_snoc [of "ca_effects c @ [FxLogout u i]" "FxAuthAccepted (rs_connection_id (ca_session c)) sid user"]
    by (simp add: authorized_call_def emit_def on_session_def MarkAuthenticated_def authentic_def) (auto simp: login_accepted_def)
  show ?thesis using a mark
    by (simp add: Authorize_def Let_def SendChallenge_def AddAuthFailure_def authorized_call_intros split: option.split prod.split)
qed

lemma Authorize_true: "snd (Authorize env request sid c) \<Longrightarrow> IsAuthenticatedFor sid (ca_session (fst (Authorize env request sid c)))"
  by (auto simp: Authorize_def Let_def IsAuthenticatedFor_def call_defs MarkAuthenticated_def split: option.splits prod.splits if_splits)

lemma CloseSubscription_authorized: "authorized_call cid c \<Longrightarrow> authorized_call cid (CloseSubscription reason c)"
  by (simp add: CloseSubscription_def Let_def authorized_call_intros auth_parts)

lemma CloseSessionVideoSend_authorized: "authorized_call cid c \<Longrightarrow> authorized_call cid (CloseSessionVideoSend reason c)"
  by (simp add: CloseSessionVideoSend_def CloseSessionUdp_def Let_def authorized_call_intros auth_parts CloseSubscription_authorized)

lemma StartMediaStream_authorized:
  assumes "authorized_call cid c" and "IsAuthenticatedFor (rs_stream_id (ca_session c)) (ca_session c)"
  shows "authorized_call cid (fst (StartMediaStream env c))"
proof -
  define c0 where "c0 = CloseSubscription CloseUnsubscribed c"
  have a: "authorized_call cid c0" unfolding c0_def using assms(1) by (rule CloseSubscription_authorized)
  have "rs_stream_id (ca_session c0) = rs_stream_id (ca_session c)" "auth_part (ca_session c0) = auth_part (ca_session c)"
    unfolding c0_def CloseSubscription_session
    by (simp_all add: auth_parts) (simp add: ClearDrainTimer_def ClearSubscription_def ClearStartFrames_def)
  then have "login_accepted (ca_effects c0) (rs_connection_id (ca_session c0)) (rs_stream_id (ca_session c0))"
    using a assms(2) by (auto simp: authorized_call_def authentic_def IsAuthenticatedFor_def auth_part_def)
  then have "authorized_call cid (emit (FxSubscribe (rs_connection_id (ca_session c0)) (rs_stream_id (ca_session c0)) i) c0)" for i
    using a by (auto simp: authorized_call_def emit_def subscriptions_ok_snoc authentic_def)
  then show ?thesis using assms(1) a
    by (simp add: StartMediaStream_def Let_def c0_def [symmetric] authorized_call_intros auth_parts)
qed

lemma HandlePlay_authorized:
  assumes "authorized_call cid c" and "IsAuthenticatedFor (rs_stream_id (ca_session c)) (ca_session c)"
  shows "authorized_call cid (HandlePlay env request c)"
proof -
  obtain c' st where s: "StartMediaStream env c = (c', st)" by force
  then have "authorized_call cid c'" using StartMediaStream_authorized [OF assms, of env] by simp
  then show ?thesis using assms(1) s
    by (simp add: HandlePlay_def StartRtspMediaStream_def StartSessionSendTimer_def Let_def authorized_call_intros auth_parts)
qed

lemma SetupRtspTransport_authorized:
  assumes "authorized_call cid c"
  shows "authorized_call cid (SetupRtspTransport env request sid c)"
proof -
  let ?c = "CloseSessionVideoSend CloseUnsubscribed c"
  have a: "authorized_call cid ?c" using assms by (rule CloseSessionVideoSend_authorized)
  have "authorized_call cid c'" if "BindSessionUdpSockets env ?c = (c', r)" for c' r
    using a that by (auto simp: BindSessionUdpSockets_def Let_def split: if_splits intro!: authorized_call_emit)
  then show ?thesis using assms a
    by (auto simp: SetupRtspTransport_def Let_def setup_reply_def auth_parts intro!: authorized_call_intros split: option.split prod.split)
qed

lemma Authorize_stream: "rs_stream_id (ca_session (fst (Authorize env request sid c))) = rs_stream_id (ca_session c)"
  by (simp add: Authorize_def Let_def call_defs MarkAuthenticated_def split: option.split prod.split)

lemma HandleRequest_authorized:
  assumes "authorized_call cid c" and "ro_enable_auth options"
  shows "authorized_call cid (HandleRequest env options ip request c)"
proof (rule HandleRequest_rule)
  fix sid c'
  have au: "AuthorizeRtspRequest env options request sid c = Authorize env request sid c" using assms(2) by (simp add: AuthorizeRtspRequest_def)
  have a: "authorized_call cid c'" if "AuthorizeRtspRequest env options request sid c = (c', ok)" for ok
    using that au Authorize_authorized [OF assms(1), of env request sid] by simp
  then show "AuthorizeRtspRequest env options request sid c = (c', False) \<Longrightarrow> authorized_call cid c'" by blast
  assume t: "AuthorizeRtspRequest env options request sid c = (c', True)"
  with a have c': "authorized_call cid c'" by blast
  have "IsAuthenticatedFor (rs_stream_id (ca_session c')) (ca_session c')" if "sid = rs_stream_id (ca_session c)"
  proof -
    have e: "Authorize env request sid c = (c', True)" using t au by simp
    show ?thesis using that Authorize_true [of env request sid c] Authorize_stream [of env request sid c] unfolding e by simp
  qed
  with c' show "authorized_call cid c' \<and> authorized_call cid (HandleDescribe env ip request sid c')
      \<and> authorized_call cid (SetupRtspTransport env request sid c') \<and> authorized_call cid (HandleTeardown request c')
      \<and> (sid = rs_stream_id (ca_session c) \<longrightarrow> authorized_call cid (HandlePlay env request c'))"
    by (simp add: HandleDescribe_def HandleTeardown_def Let_def authorized_call_intros auth_parts CloseSessionVideoSend_authorized
        SetupRtspTransport_authorized HandlePlay_authorized)
qed (simp_all add: assms authorized_call_send)

lemma RequestLoop_authorized:
  "authorized_call cid c \<Longrightarrow> ro_enable_auth options \<Longrightarrow> authorized_call cid (RequestLoop env options ip raws c)"
  by (induction raws arbitrary: c) (auto simp: Let_def HandleRequest_authorized intro!: authorized_call_intros split: option.split)

section \<open>The table\<close>

definition table_ok :: "(nat \<times> RtspSession) list \<Rightarrow> bool" where
  "table_ok m \<longleftrightarrow> sorted_wrt (<) (map fst m) \<and> (\<forall>(k, s) \<in> set m. rs_connection_id s = k)"

definition held_all :: "(nat \<times> RtspSession) list \<Rightarrow> resource multiset" where
  "held_all m = sum_list (map (\<lambda>e. held (snd e)) m)"

lemma held_all_simps [simp]: "held_all [] = {#}" "held_all (e # m) = held (snd e) + held_all m"
  by (simp_all add: held_all_def)

lemma table_set_keys: "set (map fst (table_set k v m)) = insert k (set (map fst m))"
  by (induction k v m rule: table_set.induct) auto

lemma table_set_elems: "set (table_set k v m) \<subseteq> insert (k, v) (set m)"
  by (induction k v m rule: table_set.induct) auto

lemma table_set_sorted: "sorted_wrt (<) (map fst m) \<Longrightarrow> sorted_wrt (<) (map fst (table_set k v m))"
proof (induction k v m rule: table_set.induct)
  case (2 k v k' v' m)
  then show ?case using table_set_keys [of k v m] by (auto simp del: set_map)
qed simp

lemma table_set_ok: "table_ok m \<Longrightarrow> rs_connection_id s = k \<Longrightarrow> table_ok (table_set k s m)"
  using table_set_elems [of k s m] by (fastforce simp: table_ok_def table_set_sorted)

lemma table_ok_Cons: "table_ok (e # m) \<Longrightarrow> table_ok m \<and> (\<forall>k \<in> set (map fst m). fst e < k)"
  by (auto simp: table_ok_def)

lemma held_all_new: "map_of m k = None \<Longrightarrow> held_all (table_set k s m) = held s + held_all m"
  by (induction k s m rule: table_set.induct) (auto split: if_splits)

lemma held_all_set: "table_ok m \<Longrightarrow> map_of m k = Some s0 \<Longrightarrow> held_all (table_set k s m) + held s0 = held_all m + held s"
proof (induction k s m rule: table_set.induct)
  case (2 k v k' v' m)
  have "\<not> k < k'"
  proof
    assume "k < k'"
    then have "k \<notin> fst ` set m" using table_ok_Cons [OF 2(2)] by auto
    then have "map_of m k = None" by (simp add: map_of_eq_None_iff)
    then show False using 2(3) \<open>k < k'\<close> by (simp split: if_splits)
  qed
  then show ?case using 2 table_ok_Cons [OF 2(2)] by (auto simp: ac_simps)
qed simp

lemma held_all_remove: "table_ok m \<Longrightarrow> map_of m k = Some s \<Longrightarrow> held_all (filter (\<lambda>e. fst e \<noteq> k) m) + held s = held_all m"
proof (induction m)
  case (Cons e m)
  show ?case
  proof (cases "fst e = k")
    case True
    then have "filter (\<lambda>e. fst e \<noteq> k) m = m" using table_ok_Cons [OF Cons.prems(1)] by (intro filter_True) auto
    then show ?thesis using True Cons.prems by (cases e) (simp add: ac_simps)
  next
    case False
    then show ?thesis using Cons table_ok_Cons [OF Cons.prems(1)] by (cases e) (simp add: ac_simps)
  qed
qed simp

lemma table_ok_filter: "table_ok m \<Longrightarrow> table_ok (filter P m)"
  by (auto simp: table_ok_def sorted_wrt_map sorted_wrt_filter)

section \<open>Runs of the server\<close>

datatype RtspEvent =
  EvConnection nat SocketAddress
| EvClosed nat TcpCloseReason
| EvUdp nat SocketAddress nat
| EvMessage nat "bytes option" nat
| EvStop

fun server_step :: "rtsp_env \<Rightarrow> RtspEvent \<Rightarrow> RtspServer \<Rightarrow> RtspServer" where
  "server_step env (EvConnection cid peer) sv = OnConnection cid peer sv"
| "server_step env (EvClosed cid reason) sv = OnConnectionClosed cid reason sv"
| "server_step env (EvUdp i peer sz) sv = OnUdpPacket env i peer sz sv"
| "server_step env (EvMessage cid data sz) sv = OnMessage env cid data sz sv"
| "server_step env EvStop sv = StopInternal sv"

definition RtspServer_new :: "RtspServerOptions \<Rightarrow> bytes \<Rightarrow> RtspServer" where
  "RtspServer_new options local_ip = \<lparr>sv_options = options, sv_local_ip = local_ip,
     sv_table = \<lparr>st_next_session_id = 1, st_sessions = []\<rparr>,
     sv_stats = \<lparr>rv_total_sessions = 0, rv_auth_failures = 0, rv_parse_failures = 0, rv_tcp_interleaved_sessions = 0, rv_udp_sessions = 0\<rparr>,
     sv_effects = []\<rparr>"

text \<open>\<open>socket_io\<close> never gives an open connection the number of another one.\<close>

fun event_ok :: "RtspEvent \<Rightarrow> RtspServer \<Rightarrow> bool" where
  "event_ok (EvConnection cid peer) sv \<longleftrightarrow> RtspSessionTable_Find cid (sv_table sv) = None"
| "event_ok _ sv \<longleftrightarrow> True"

inductive rtsp_reachable for options local_ip where
  rtsp_start: "rtsp_reachable options local_ip (RtspServer_new options local_ip)"
| rtsp_event: "rtsp_reachable options local_ip sv \<Longrightarrow> event_ok ev sv \<Longrightarrow> rtsp_reachable options local_ip (server_step env ev sv)"

definition server_balanced :: "RtspServer \<Rightarrow> bool" where
  "server_balanced sv \<longleftrightarrow> table_ok (st_sessions (sv_table sv))
     \<and> opened (sv_effects sv) = released (sv_effects sv) + held_all (st_sessions (sv_table sv))"

definition server_authorized :: "RtspServer \<Rightarrow> bool" where
  "server_authorized sv \<longleftrightarrow> table_ok (st_sessions (sv_table sv)) \<and> subscriptions_ok (sv_effects sv)
     \<and> (\<forall>(k, s) \<in> set (st_sessions (sv_table sv)). authentic (sv_effects sv) s)"

definition rtsp_quiet :: "RtspEffect \<Rightarrow> bool" where
  "rtsp_quiet fx \<longleftrightarrow> opened_by fx = [] \<and> released_by fx = []"

lemma authentic_mono: "authentic fxs s \<Longrightarrow> authentic (fxs @ fxs') s"
  by (auto simp: authentic_def)

lemma server_balanced_emit: "rtsp_quiet fx \<Longrightarrow> server_balanced (server_emit fx sv) = server_balanced sv"
  by (simp add: server_balanced_def server_emit_def rtsp_quiet_def)

lemma server_authorized_emit:
  "server_authorized sv \<Longrightarrow> (\<And>cid sid i. fx \<noteq> FxSubscribe cid sid i) \<Longrightarrow> server_authorized (server_emit fx sv)"
  by (fastforce simp: server_authorized_def server_emit_def subscriptions_ok_snoc authentic_mono)

lemma OnConnection_balanced:
  assumes "server_balanced sv" and "RtspSessionTable_Find cid (sv_table sv) = None"
  shows "server_balanced (OnConnection cid peer sv)"
proof -
  have "held (RtspSession_new cid peer i) = {#}" for i by (simp add: held_def RtspSession_new_def)
  moreover have "rs_connection_id (RtspSession_new cid peer i) = cid" for i by (simp add: RtspSession_new_def)
  ultimately show ?thesis using assms
    by (auto simp: OnConnection_def RtspSessionTable_Add_def RtspSessionTable_Find_def server_balanced_def server_emit_def Let_def
        held_all_new table_set_ok)
qed

text \<open>A handler that runs on a session of the table.\<close>

lemma stored_balanced:
  assumes "server_balanced sv" and "map_of (st_sessions (sv_table sv)) cid = Some s0"
    and "\<And>K. balanced K (begin_call s sv) \<Longrightarrow> balanced K c" and "held s = held s0" and "rs_connection_id (ca_session c) = cid"
  shows "server_balanced (store_session (ca_session c) (end_call c sv))"
proof -
  let ?m = "st_sessions (sv_table sv)"
  have ok: "table_ok ?m" "opened (sv_effects sv) = released (sv_effects sv) + held_all ?m" using assms(1) by (simp_all add: server_balanced_def)
  obtain K where K: "held_all ?m = held s0 + K" using held_all_remove [OF ok(1) assms(2)] by (metis add.commute)
  then have "balanced K (begin_call s sv)" using ok(2) assms(4) by (simp add: balanced_def begin_call_def ac_simps)
  then have c: "opened (ca_effects c) = released (ca_effects c) + held (ca_session c) + K" using assms(3) by (simp add: balanced_def)
  have "held_all (table_set cid (ca_session c) ?m) + held s0 = held_all ?m + held (ca_session c)" by (rule held_all_set [OF ok(1) assms(2)])
  then have "held_all (table_set cid (ca_session c) ?m) = K + held (ca_session c)" using K by (simp add: ac_simps)
  then show ?thesis using c ok(1) assms(5)
    by (simp add: server_balanced_def store_session_def end_call_def RtspSessionTable_Update_def table_set_ok ac_simps)
qed

lemma stored_authorized:
  assumes "server_authorized sv" and "map_of (st_sessions (sv_table sv)) cid = Some s0"
    and "\<exists>fxs. ca_effects c = sv_effects sv @ fxs" and "authorized_call cid c"
  shows "server_authorized (store_session (ca_session c) (end_call c sv))"
proof -
  have "authentic (ca_effects c) s" if "(k, s) \<in> set (st_sessions (sv_table sv))" for k s
    using assms(1,3) that authentic_mono by (fastforce simp: server_authorized_def)
  then show ?thesis using assms(1,4) table_set_elems [of cid "ca_session c" "st_sessions (sv_table sv)"]
    by (fastforce simp: server_authorized_def store_session_def end_call_def RtspSessionTable_Update_def authorized_call_def table_set_ok)
qed

lemma held_keeps:
  "held (MarkCloseReason reason s) = held s" "held (RecordRtcpPacket n now s) = held s"
  "held (fst (LearnUdpRtpPeer peer s)) = held s" "held (fst (LearnUdpRtcpPeer peer s)) = held s"
  "held (s\<lparr>rs_splitter := sp\<rparr>) = held s"
  by (simp_all add: held_def MarkCloseReason_def RecordRtcpPacket_def LearnUdpRtpPeer_def LearnUdpRtcpPeer_def)

lemma RecordInterleaved_keeps:
  "held (RecordInterleavedRtcpPackets env ps s) = held s \<and> auth_part (RecordInterleavedRtcpPackets env ps s) = auth_part s"
  unfolding RecordInterleavedRtcpPackets_def
  by (induction ps arbitrary: s) (simp_all add: held_keeps auth_parts)

lemma split_keeps:
  "held (fst (RtspSession_AppendBytes data sz s)) = held s \<and> auth_part (fst (RtspSession_AppendBytes data sz s)) = auth_part s"
  "held (fst (RtspSession_SplitRequests n s)) = held s \<and> auth_part (fst (RtspSession_SplitRequests n s)) = auth_part s"
  by (auto simp: RtspSession_AppendBytes_def RtspSession_SplitRequests_def held_def auth_part_def split: prod.split)

lemma auth_part_conn: "auth_part s = auth_part s' \<Longrightarrow> rs_connection_id s = rs_connection_id s'"
  by (simp add: auth_part_def)

text \<open>
  One message: either nothing, a refusal without effects on resources, or the handlers on a session that holds what the stored
  session holds.
\<close>

lemma OnMessage_cases:
  obtains (unknown) "OnMessage env cid data sz sv = server_emit (FxCloseTcp cid) sv"
  | (ignored) "OnMessage env cid data sz sv = sv"
  | (handled) s0 s st raws tail where "map_of (st_sessions (sv_table sv)) cid = Some s0" "held s = held s0" "auth_part s = auth_part s0"
      "OnMessage env cid data sz sv = (if tail then server_emit (FxCloseTcp cid) else id)
         (store_session (ca_session (RequestLoop env (sv_options sv) (sv_local_ip sv) raws (begin_call s sv\<lparr>ca_stats := st\<rparr>)))
            (end_call (RequestLoop env (sv_options sv) (sv_local_ip sv) raws (begin_call s sv\<lparr>ca_stats := st\<rparr>)) sv))"
proof (cases "map_of (st_sessions (sv_table sv)) cid")
  case None
  then show thesis by (intro unknown) (simp add: OnMessage_def RtspSessionTable_Find_def)
next
  case (Some s0)
  obtain s1 ok where a: "RtspSession_AppendBytes data sz s0 = (s1, ok)" by force
  obtain s2 r where r: "RtspSession_SplitRequests (ro_max_request_bytes (sv_options sv)) s1 = (s2, r)" by force
  have k: "held s2 = held s0" "auth_part s2 = auth_part s0"
    using split_keeps(1) [of data sz s0] split_keeps(2) [of "ro_max_request_bytes (sv_options sv)" s1] a r by simp_all
  show thesis
  proof (cases ok)
    case False
    then show thesis using Some a by (intro ignored) (simp add: OnMessage_def RtspSessionTable_Find_def)
  next
    case True
    show thesis
    proof (cases "rsr_status r = RtspSplitPayloadTooLarge")
      case too_large: True
      let ?st = "(sv_stats sv)\<lparr>rv_parse_failures := rv_parse_failures (sv_stats sv) + 1\<rparr>"
      show thesis
        by (rule handled [OF Some k, of True "[]" ?st])
          (use Some a r True too_large in \<open>simp add: OnMessage_def RtspSessionTable_Find_def begin_call_def end_call_def store_session_def server_emit_def\<close>)
    next
      case False
      let ?s = "RecordInterleavedRtcpPackets env (rsr_interleaved_packets r) s2"
      have k': "held ?s = held s0" "auth_part ?s = auth_part s0" using k RecordInterleaved_keeps by auto
      show thesis
        by (rule handled [OF Some k', of False "rsr_requests r" "sv_stats sv"])
          (use Some a r True False in \<open>simp add: OnMessage_def RtspSessionTable_Find_def Let_def begin_call_def\<close>)
    qed
  qed
qed

lemma begin_call_framed: "rs_connection_id s = cid \<Longrightarrow> call_framed (cid, sv_effects sv) (begin_call s sv\<lparr>ca_stats := st\<rparr>)"
  by (simp add: call_framed_def begin_call_def)

lemma table_conn: "table_ok m \<Longrightarrow> map_of m cid = Some s \<Longrightarrow> rs_connection_id s = cid"
  by (auto simp: table_ok_def dest: map_of_SomeD)

lemma OnMessage_balanced: "server_balanced sv \<Longrightarrow> server_balanced (OnMessage env cid data sz sv)"
proof (cases rule: OnMessage_cases [of env cid data sz sv])
  case unknown
  then show "server_balanced sv \<Longrightarrow> ?thesis" by (simp add: server_balanced_emit rtsp_quiet_def)
next
  case (handled s0 s st raws tail)
  assume b: "server_balanced sv"
  let ?c = "RequestLoop env (sv_options sv) (sv_local_ip sv) raws (begin_call s sv\<lparr>ca_stats := st\<rparr>)"
  have cid: "rs_connection_id s = cid" using auth_part_conn [OF handled(3)] table_conn [OF _ handled(1)] b by (simp add: server_balanced_def)
  have "server_balanced (store_session (ca_session ?c) (end_call ?c sv))"
  proof (rule stored_balanced [OF b handled(1)])
    show "balanced K (begin_call s sv) \<Longrightarrow> balanced K ?c" for K by (simp add: RequestLoop_balanced balanced_stats)
    show "rs_connection_id (ca_session ?c) = cid" using RequestLoop_framed [OF begin_call_framed [OF cid]] by (simp add: call_framed_def)
  qed (rule handled(2))
  then show ?thesis using handled(4) by (simp add: server_balanced_emit rtsp_quiet_def)
qed simp

lemma OnMessage_authorized:
  assumes "server_authorized sv" and "ro_enable_auth (sv_options sv)"
  shows "server_authorized (OnMessage env cid data sz sv)"
proof (cases rule: OnMessage_cases [of env cid data sz sv])
  case unknown
  then show ?thesis using assms by (simp add: server_authorized_emit)
next
  case (handled s0 s st raws tail)
  let ?start = "begin_call s sv\<lparr>ca_stats := st\<rparr>"
  let ?c = "RequestLoop env (sv_options sv) (sv_local_ip sv) raws ?start"
  have cid: "rs_connection_id s = cid" using auth_part_conn [OF handled(3)] table_conn [OF _ handled(1)] assms by (simp add: server_authorized_def)
  have "authentic (sv_effects sv) s0" using assms(1) handled(1) by (auto simp: server_authorized_def dest: map_of_SomeD)
  then have "authentic (sv_effects sv) s" using handled(3) by (auto simp: authentic_def auth_part_def)
  then have "authorized_call cid ?start" using assms(1) cid by (simp add: authorized_call_def begin_call_def server_authorized_def)
  then have "authorized_call cid ?c" using assms(2) by (rule RequestLoop_authorized)
  moreover have "\<exists>fxs. ca_effects ?c = sv_effects sv @ fxs" using RequestLoop_framed [OF begin_call_framed [OF cid]] by (simp add: call_framed_def)
  ultimately have "server_authorized (store_session (ca_session ?c) (end_call ?c sv))" by (intro stored_authorized [OF assms(1) handled(1)])
  then show ?thesis using handled(4) by (simp add: server_authorized_emit)
qed (use assms in simp)

lemma find_member: "find P xs = Some x \<Longrightarrow> x \<in> set xs"
  by (induction xs) (auto split: if_splits)

lemma OnUdpPacket_cases:
  obtains (ignored) "OnUdpPacket env i peer sz sv = sv"
  | (stored) k s0 s where "(k, s0) \<in> set (st_sessions (sv_table sv))" "held s = held s0" "auth_part s = auth_part s0"
      "OnUdpPacket env i peer sz sv = store_session s sv"
proof (cases "FindByUdpSocket i (sv_table sv)")
  case None
  then show thesis by (intro ignored) (simp add: OnUdpPacket_def)
next
  case (Some s0)
  then obtain k where k: "(k, s0) \<in> set (st_sessions (sv_table sv))"
    by (auto simp: FindByUdpSocket_def split: if_splits dest: find_member)
  have "\<exists>s. held s = held s0 \<and> auth_part s = auth_part s0 \<and> (OnUdpPacket env i peer sz sv = sv \<or> OnUdpPacket env i peer sz sv = store_session s sv)"
    using Some by (auto simp: OnUdpPacket_def held_keeps auth_parts intro: exI [of _ "fst (LearnUdpRtpPeer peer s0)"]
        exI [of _ "RecordRtcpPacket sz (env_now_ms env) (fst (LearnUdpRtcpPeer peer s0))"])
  then show thesis using ignored stored [OF k] by blast
qed

lemma end_begin [simp]: "end_call (begin_call s sv) sv = sv" "ca_session (begin_call s sv) = s" "ca_effects (begin_call s sv) = sv_effects sv"
  by (simp_all add: end_call_def begin_call_def)

lemma table_member: "table_ok m \<Longrightarrow> (k, s) \<in> set m \<Longrightarrow> map_of m k = Some s \<and> rs_connection_id s = k"
proof -
  assume t: "table_ok m" "(k, s) \<in> set m"
  then have "distinct (map fst m)" by (simp add: table_ok_def strict_sorted_iff)
  then show ?thesis using t by (auto simp: table_ok_def)
qed

lemma OnUdpPacket_balanced: "server_balanced sv \<Longrightarrow> server_balanced (OnUdpPacket env i peer sz sv)"
proof (cases rule: OnUdpPacket_cases [of env i peer sz sv])
  case (stored k s0 s)
  assume b: "server_balanced sv"
  from table_member [OF _ stored(1)] b have k: "map_of (st_sessions (sv_table sv)) k = Some s0" "rs_connection_id s0 = k"
    by (simp_all add: server_balanced_def)
  have "server_balanced (store_session (ca_session (begin_call s sv)) (end_call (begin_call s sv) sv))"
    by (rule stored_balanced [OF b k(1), of s]) (use stored k(2) auth_part_conn [OF stored(3)] in simp_all)
  then show ?thesis using stored(4) by simp
qed simp

lemma OnUdpPacket_authorized: "server_authorized sv \<Longrightarrow> server_authorized (OnUdpPacket env i peer sz sv)"
proof (cases rule: OnUdpPacket_cases [of env i peer sz sv])
  case (stored k s0 s)
  assume a: "server_authorized sv"
  from table_member [OF _ stored(1)] a have k: "map_of (st_sessions (sv_table sv)) k = Some s0" "rs_connection_id s0 = k"
    by (simp_all add: server_authorized_def)
  have "authentic (sv_effects sv) s0" using a stored(1) by (auto simp: server_authorized_def)
  then have "authentic (sv_effects sv) s" using stored(3) by (simp add: authentic_def auth_part_def)
  then have "authorized_call k (begin_call s sv)"
    using a k(2) auth_part_conn [OF stored(3)] by (simp add: authorized_call_def server_authorized_def)
  then have "server_authorized (store_session (ca_session (begin_call s sv)) (end_call (begin_call s sv) sv))"
    by (intro stored_authorized [OF a k(1)]) simp_all
  then show ?thesis using stored(4) by simp
qed simp

text \<open>Closing a session that has left the table.\<close>

lemma OnConnectionClosed_balanced: "server_balanced sv \<Longrightarrow> server_balanced (OnConnectionClosed cid reason sv)"
proof (cases "map_of (st_sessions (sv_table sv)) cid")
  case (Some s)
  assume b: "server_balanced sv"
  let ?m = "filter (\<lambda>e. fst e \<noteq> cid) (st_sessions (sv_table sv))"
  let ?c = "CloseSessionVideoSend CloseUnsubscribed (begin_call (MarkCloseReason reason s) (sv\<lparr>sv_table := (sv_table sv)\<lparr>st_sessions := ?m\<rparr>\<rparr>))"
  have "held_all ?m + held s = held_all (st_sessions (sv_table sv))" using b Some by (simp add: server_balanced_def held_all_remove)
  then have "balanced (held_all ?m) (begin_call (MarkCloseReason reason s) (sv\<lparr>sv_table := (sv_table sv)\<lparr>st_sessions := ?m\<rparr>\<rparr>))"
    using b by (simp add: balanced_def server_balanced_def held_keeps begin_call_def ac_simps)
  then have "balanced (held_all ?m) ?c" by (rule CloseSessionVideoSend_balanced)
  then have "opened (ca_effects ?c) = released (ca_effects ?c) + held_all ?m" using CloseSessionVideoSend_held by (simp add: balanced_def)
  then have "server_balanced (end_call ?c (sv\<lparr>sv_table := (sv_table sv)\<lparr>st_sessions := ?m\<rparr>\<rparr>))"
    using b by (simp add: server_balanced_def end_call_def table_ok_filter)
  then show ?thesis using Some
    by (simp add: OnConnectionClosed_def RtspSessionTable_Remove_def Let_def server_balanced_emit rtsp_quiet_def)
qed (simp add: OnConnectionClosed_def RtspSessionTable_Remove_def)

lemma effects_authorized:
  assumes "server_authorized sv" and "authorized_call k c" and "call_framed (k, sv_effects sv) c" and "set m \<subseteq> set (st_sessions (sv_table sv))" and "table_ok m"
  shows "server_authorized (end_call c (sv\<lparr>sv_table := (sv_table sv)\<lparr>st_sessions := m\<rparr>\<rparr>))"
proof -
  obtain fxs where "ca_effects c = sv_effects sv @ fxs" using assms(3) by (auto simp: call_framed_def)
  moreover have "authentic (sv_effects sv @ fxs) s" if "(k, s) \<in> set m" for k s fxs
  proof (rule authentic_mono)
    show "authentic (sv_effects sv) s" using assms(1,4) that by (auto simp: server_authorized_def)
  qed
  ultimately show ?thesis using assms(1,2,5) by (auto simp: server_authorized_def end_call_def authorized_call_def)
qed

lemma begin_authorized:
  "server_authorized sv \<Longrightarrow> (k, s0) \<in> set (st_sessions (sv_table sv)) \<Longrightarrow> auth_part s = auth_part s0 \<Longrightarrow>
     authorized_call k (begin_call s sv) \<and> call_framed (k, sv_effects sv) (begin_call s sv)"
  using table_member [of "st_sessions (sv_table sv)" k s0]
  by (auto simp: server_authorized_def authorized_call_def call_framed_def authentic_def auth_part_def)

lemma begin_call_table [simp]: "begin_call s (sv\<lparr>sv_table := t\<rparr>) = begin_call s sv"
  by (simp add: begin_call_def)

lemma OnConnectionClosed_authorized: "server_authorized sv \<Longrightarrow> server_authorized (OnConnectionClosed cid reason sv)"
proof (cases "map_of (st_sessions (sv_table sv)) cid")
  case (Some s)
  assume a: "server_authorized sv"
  from begin_authorized [OF a map_of_SomeD [OF Some], of "MarkCloseReason reason s"]
  have "authorized_call cid (begin_call (MarkCloseReason reason s) sv)" "call_framed (cid, sv_effects sv) (begin_call (MarkCloseReason reason s) sv)"
    by (simp_all add: auth_parts)
  from effects_authorized [OF a CloseSessionVideoSend_authorized [OF this(1)] CloseSessionVideoSend_framed [OF this(2)],
      of "filter (\<lambda>e. fst e \<noteq> cid) (st_sessions (sv_table sv))"] a
  have "server_authorized (end_call (CloseSessionVideoSend CloseUnsubscribed (begin_call (MarkCloseReason reason s) sv))
      (sv\<lparr>sv_table := (sv_table sv)\<lparr>st_sessions := filter (\<lambda>e. fst e \<noteq> cid) (st_sessions (sv_table sv))\<rparr>\<rparr>))"
    by (simp add: server_authorized_def table_ok_filter filter_is_subset)
  then show ?thesis using Some by (simp add: OnConnectionClosed_def RtspSessionTable_Remove_def Let_def server_authorized_emit)
qed (simp add: OnConnectionClosed_def RtspSessionTable_Remove_def)

lemma OnConnection_authorized:
  assumes "server_authorized sv"
  shows "server_authorized (OnConnection cid peer sv)"
proof (cases "length (st_sessions (sv_table sv)) \<ge> ro_max_sessions (sv_options sv)")
  case True
  then show ?thesis using assms by (simp add: OnConnection_def RtspSessionTable_Add_def server_authorized_emit)
next
  case False
  let ?s = "RtspSession_new cid peer (st_next_session_id (sv_table sv))" and ?m = "st_sessions (sv_table sv)"
  have s: "authentic fxs ?s" "rs_connection_id ?s = cid" for fxs by (simp_all add: authentic_def RtspSession_new_def)
  have "authentic (sv_effects sv) s" if "(k, s) \<in> set (table_set cid ?s ?m)" for k s
    using that table_set_elems [of cid ?s ?m] assms s(1) by (auto simp: server_authorized_def)
  then have "server_authorized (sv\<lparr>sv_table := \<lparr>st_next_session_id = st_next_session_id (sv_table sv) + 1, st_sessions = table_set cid ?s ?m\<rparr>,
      sv_stats := st\<rparr>)" for st
    using assms s(2) table_set_ok [of ?m ?s cid] by (auto simp: server_authorized_def)
  from server_authorized_emit [OF this] show ?thesis using False
    by (cases "sv_table sv") (simp add: OnConnection_def RtspSessionTable_Add_def Let_def)
qed

text \<open>Stopping the server.\<close>

lemma CloseAll_balanced:
  "opened (sv_effects sv) = released (sv_effects sv) + sum_list (map held ss) \<Longrightarrow>
     opened (sv_effects (CloseAll ss sv)) = released (sv_effects (CloseAll ss sv))"
proof (induction ss arbitrary: sv)
  case (Cons s ss)
  let ?c = "CloseSessionVideoSend CloseStreamStopped (begin_call s sv)"
  have "balanced (sum_list (map held ss)) (begin_call s sv)" using Cons.prems by (simp add: balanced_def ac_simps)
  then have "balanced (sum_list (map held ss)) ?c" by (rule CloseSessionVideoSend_balanced)
  then show ?case using Cons.IH [of "end_call ?c sv"] CloseSessionVideoSend_held by (simp add: balanced_def end_call_def)
qed simp

lemma emit_closes:
  "opened (sv_effects (foldl (\<lambda>sv cid. server_emit (FxCloseTcp cid) sv) sv cids)) = opened (sv_effects sv)
   \<and> released (sv_effects (foldl (\<lambda>sv cid. server_emit (FxCloseTcp cid) sv) sv cids)) = released (sv_effects sv)"
  by (induction cids arbitrary: sv) (simp_all add: server_emit_def)

lemma StopInternal_balanced: "server_balanced sv \<Longrightarrow> server_balanced (StopInternal sv)"
  using CloseAll_balanced [of sv "Sessions (sv_table sv)"] emit_closes
  by (simp add: server_balanced_def StopInternal_def Let_def RtspSessionTable_Clear_def Sessions_def held_all_def comp_def table_ok_def)

lemma CloseAll_subscriptions:
  "subscriptions_ok (sv_effects sv) \<Longrightarrow> subscriptions_ok (sv_effects (CloseAll ss sv))"
proof (induction ss arbitrary: sv)
  case (Cons s ss)
  let ?s = "s\<lparr>rs_authenticated := False\<rparr>" and ?c = "CloseSessionVideoSend CloseStreamStopped (begin_call s sv)"
  have same: "ca_effects ?c = ca_effects (CloseSessionVideoSend CloseStreamStopped (begin_call ?s sv))"
    by (simp add: CloseSessionVideoSend_def CloseSessionUdp_def CloseSubscription_def call_defs Let_def begin_call_def ClearDrainTimer_def
        ClearSubscription_def ClearStartFrames_def)
  have "authorized_call (rs_connection_id s) (begin_call ?s sv)" using Cons.prems by (simp add: authorized_call_def authentic_def begin_call_def)
  then have "subscriptions_ok (ca_effects ?c)" using CloseSessionVideoSend_authorized same by (simp add: authorized_call_def)
  then show ?case using Cons.IH [of "end_call ?c sv"] by (simp add: end_call_def)
qed simp

lemma emit_closes_subscriptions:
  "subscriptions_ok (sv_effects sv) \<Longrightarrow> subscriptions_ok (sv_effects (foldl (\<lambda>sv cid. server_emit (FxCloseTcp cid) sv) sv cids))"
  by (induction cids arbitrary: sv) (simp_all add: server_emit_def subscriptions_ok_snoc)

lemma StopInternal_authorized: "server_authorized sv \<Longrightarrow> server_authorized (StopInternal sv)"
  using emit_closes_subscriptions [OF CloseAll_subscriptions, of sv "Sessions (sv_table sv)"]
  by (simp add: server_authorized_def StopInternal_def Let_def RtspSessionTable_Clear_def table_ok_def)

lemma server_step_options [simp]: "sv_options (server_step env ev sv) = sv_options sv"
proof -
  have close: "sv_options (CloseAll ss sv) = sv_options sv" for ss sv by (induction ss arbitrary: sv) (simp_all add: end_call_def)
  have emits: "sv_options (foldl (\<lambda>sv cid. server_emit (FxCloseTcp cid) sv) sv cids) = sv_options sv" for cids sv
    by (induction cids arbitrary: sv) (simp_all add: server_emit_def)
  show ?thesis
    by (cases ev) (simp_all add: OnConnection_def OnConnectionClosed_def OnUdpPacket_def OnMessage_def StopInternal_def Let_def
        server_emit_def end_call_def store_session_def close emits [unfolded server_emit_def] split: option.split prod.split)
qed

lemma rtsp_reachable_balanced: "rtsp_reachable options ip sv \<Longrightarrow> server_balanced sv"
proof (induction rule: rtsp_reachable.induct)
  case rtsp_start
  then show ?case by (simp add: server_balanced_def RtspServer_new_def table_ok_def)
next
  case (rtsp_event sv ev env)
  then show ?case
    by (cases ev) (simp_all add: OnConnection_balanced OnConnectionClosed_balanced OnUdpPacket_balanced OnMessage_balanced StopInternal_balanced)
qed

lemma rtsp_reachable_authorized:
  "rtsp_reachable options ip sv \<Longrightarrow> ro_enable_auth options \<Longrightarrow> server_authorized sv \<and> sv_options sv = options"
proof (induction rule: rtsp_reachable.induct)
  case rtsp_start
  then show ?case by (simp add: server_authorized_def RtspServer_new_def table_ok_def)
next
  case (rtsp_event sv ev env)
  then have "server_authorized (server_step env ev sv)"
    by (cases ev) (simp_all add: OnConnection_authorized OnConnectionClosed_authorized OnUdpPacket_authorized OnMessage_authorized
        StopInternal_authorized)
  then show ?case using rtsp_event by simp
qed

section \<open>Properties\<close>

text \<open>
  Claim C4. No socket, subscription or timer is leaked or released twice: in every reachable state of the server, over all
  connections and in every order of connections, messages, datagrams and disconnections, what was opened is what was released
  and what the sessions of the table hold; once the server is stopped, everything that was opened has been released exactly once.
\<close>

theorem rtsp_no_leak:
  assumes "rtsp_reachable options local_ip sv"
  shows "opened (sv_effects sv) = released (sv_effects sv) + held_all (st_sessions (sv_table sv))
     \<and> opened (sv_effects (StopInternal sv)) = released (sv_effects (StopInternal sv))"
  using rtsp_reachable_balanced [OF assms] StopInternal_balanced [of sv]
  by (simp add: server_balanced_def StopInternal_def Let_def RtspSessionTable_Clear_def)

text \<open>
  Claim C7. With authorization switched on, no connection ever subscribes to a stream before a login for this stream was accepted
  on this connection: whatever requests arrive in whatever order, a login for the main stream does not open the sub stream, and
  the stream played is the one the login was checked for.
\<close>

theorem rtsp_play_authorized:
  assumes "rtsp_reachable options local_ip sv" and "ro_enable_auth options"
    and "sv_effects sv = before @ FxSubscribe cid sid i # after"
  shows "\<exists>user. FxAuthAccepted cid sid user \<in> set before"
  using rtsp_reachable_authorized [OF assms(1,2)] assms(3)
  by (auto simp: server_authorized_def subscriptions_ok_def login_accepted_def)

definition witness_stream :: MediaStreamInfo where
  "witness_stream = \<lparr>si_running = True, si_track_ready = True, si_preview_codec = True, si_hls_ready = False, si_flv_ready = False,
     si_mjpeg_ready = False, si_codec = CodecH264, si_clock_rate = 0, si_codec_generation = 1, si_vps = [], si_sps = [], si_pps = [],
     si_hls_codec = [], si_hls_segment_size = 0, si_hls_first_segment_sequence = 0, si_hls_last_segment_sequence = 0,
     si_hls_missing_segments = 0, si_hls_evicted_segments = 0, si_flv_sequence_header_size = 0, si_flv_last_keyframe_size = 0,
     si_hls_current_segment_size = 0, si_last_dts_us = 0, si_last_reset_reason = [], si_hls_supported = True, si_flv_supported = True,
     si_mjpeg_supported = False\<rparr>"

definition witness_env :: rtsp_env where
  "witness_env = \<lparr>env_auth_present = True,
     env_login = (\<lambda>ip user pw. \<lparr>lr_principal = \<lparr>ap_user_name = user, ap_session_id = [1]\<rparr>,
        lr_token = (if pw = ascii ''b'' then [7] else []), lr_must_change_password = False\<rparr>),
     env_permission = (\<lambda>principal target. True), env_available = (\<lambda>sid. True),
     env_stream_info = (\<lambda>sid. witness_stream), env_rtp_bind = 3, env_rtcp_bind = 4,
     env_rtp_address = \<lparr>sa_ip = [], sa_port = 50\<rparr>, env_rtcp_address = \<lparr>sa_ip = [], sa_port = 51\<rparr>, env_subscribe = 9,
     env_subscription_start = \<lparr>ss_track_ready = True, ss_gop_complete = True, ss_generation = 1, ss_stream_info = Some witness_stream, ss_gop_frames = []\<rparr>,
     env_timer_ok = True, env_timer_id = 6, env_now_ms = 0\<rparr>"

definition witness_rtsp_options :: RtspServerOptions where
  "witness_rtsp_options = \<lparr>ro_max_sessions = 4, ro_max_request_bytes = 1000, ro_enable_auth = True\<rparr>"

definition witness_setup :: bytes where
  "witness_setup = ascii ''SETUP /live/sub RTSP/1.0'' @ CRLF @ ascii ''Authorization: Basic YTpi'' @ CRLF
     @ ascii ''Transport: RTP/AVP;client_port=70-71'' @ CRLF @ CRLF @ ascii ''PLAY * RTSP/1.0'' @ CRLF @ CRLF"

definition witness_server :: RtspServer where
  "witness_server = server_step witness_env (EvMessage 1 (Some witness_setup) 300)
     (server_step witness_env (EvConnection 1 \<lparr>sa_ip = [9], sa_port = 80\<rparr>) (RtspServer_new witness_rtsp_options []))"

lemma witness_server_reachable: "rtsp_reachable witness_rtsp_options [] witness_server"
  unfolding witness_server_def
  by (intro rtsp_reachable.intros) (simp_all add: RtspSessionTable_Find_def RtspServer_new_def)

definition witness_trace :: "RtspEffect list \<Rightarrow> bool" where
  "witness_trace fxs \<longleftrightarrow> 6 < length fxs \<and> fxs ! 3 = FxBindUdp 3 \<and> fxs ! 6 = FxSubscribe 1 StreamSub 9"

lemma witness_server_trace: "witness_trace (sv_effects witness_server)"
  by code_simp

theorem rtsp_no_leak_witness:
  "opened (sv_effects witness_server) = released (sv_effects witness_server) + held_all (st_sessions (sv_table witness_server))
   \<and> sv_effects witness_server ! 3 = FxBindUdp 3"
  using rtsp_no_leak [OF witness_server_reachable] witness_server_trace unfolding witness_trace_def by simp

theorem rtsp_play_authorized_witness:
  "\<exists>user. FxAuthAccepted 1 StreamSub user \<in> set (take 6 (sv_effects witness_server))"
proof -
  have "6 < length (sv_effects witness_server) \<and> sv_effects witness_server ! 6 = FxSubscribe 1 StreamSub 9"
    using witness_server_trace unfolding witness_trace_def by simp
  then have split: "sv_effects witness_server = take 6 (sv_effects witness_server) @ FxSubscribe 1 StreamSub 9 # drop (Suc 6) (sv_effects witness_server)"
    by (metis id_take_nth_drop)
  have "ro_enable_auth witness_rtsp_options" by (simp add: witness_rtsp_options_def)
  from rtsp_play_authorized [OF witness_server_reachable this split] show ?thesis .
qed

text \<open>
  Claim C40. \<open>RtspAuth\<close> accepts a request exactly when the connection is already authorized for this very stream, or when its Basic
  credentials decode to a non-empty user name and a password for which the login service issues a token, without a pending
  change of password and with the permission to preview this stream.
\<close>

theorem rtsp_login_checked:
  "snd (Authorize env request sid c) \<longleftrightarrow> env_auth_present env \<and>
     (IsAuthenticatedFor sid (ca_session c) \<or>
      (\<exists>encoded user password.
         take 6 (RtspHeaderValue request (ascii ''Authorization'')) = ascii ''Basic ''
       \<and> encoded = drop 6 (RtspHeaderValue request (ascii ''Authorization''))
       \<and> DecodeBase64 encoded = (True, user @ 0x3a # password) \<and> user \<noteq> [] \<and> 0x3a \<notin> set user
       \<and> lr_token (env_login env (sa_ip (rs_peer (ca_session c))) user password) \<noteq> []
       \<and> \<not> lr_must_change_password (env_login env (sa_ip (rs_peer (ca_session c))) user password)
       \<and> env_permission env (lr_principal (env_login env (sa_ip (rs_peer (ca_session c))) user password)) (StreamPath sid)))"
proof -
  have split: "(\<exists>n. find_char 0x3a d = Some n \<and> n \<noteq> 0 \<and> P (take n d) (drop (n + 1) d)) \<longleftrightarrow>
      (\<exists>user pw. d = user @ 0x3a # pw \<and> user \<noteq> [] \<and> 0x3a \<notin> set user \<and> P user pw)" for d P
  proof
    assume "\<exists>n. find_char 0x3a d = Some n \<and> n \<noteq> 0 \<and> P (take n d) (drop (n + 1) d)"
    then obtain n where n: "find_char 0x3a d = Some n" "n \<noteq> 0" "P (take n d) (drop (n + 1) d)" by blast
    have "n < length d" "d ! n = 0x3a" "0x3a \<notin> set (take n d)" using find_char_Some [OF n(1)] by auto
    then have "d = take n d @ 0x3a # drop (n + 1) d" "take n d \<noteq> []" "0x3a \<notin> set (take n d)"
      using id_take_nth_drop [of n d] n(2) by auto
    then show "\<exists>user pw. d = user @ 0x3a # pw \<and> user \<noteq> [] \<and> 0x3a \<notin> set user \<and> P user pw" using n(3) by blast
  next
    assume "\<exists>user pw. d = user @ 0x3a # pw \<and> user \<noteq> [] \<and> 0x3a \<notin> set user \<and> P user pw"
    then show "\<exists>n. find_char 0x3a d = Some n \<and> n \<noteq> 0 \<and> P (take n d) (drop (n + 1) d)" using find_char_append by fastforce
  qed
  let ?a = "RtspHeaderValue request (ascii ''Authorization'')"
  have six: "length (ascii ''Basic '') = 6" by code_simp
  obtain ok d where d: "DecodeBase64 (drop 6 ?a) = (ok, d)" by force
  let ?P = "\<lambda>user pw. lr_token (env_login env (sa_ip (rs_peer (ca_session c))) user pw) \<noteq> []
       \<and> \<not> lr_must_change_password (env_login env (sa_ip (rs_peer (ca_session c))) user pw)
       \<and> env_permission env (lr_principal (env_login env (sa_ip (rs_peer (ca_session c))) user pw)) (StreamPath sid)"
  have accepted: "snd (Authorize env request sid c) \<longleftrightarrow> env_auth_present env \<and>
      (IsAuthenticatedFor sid (ca_session c) \<or> take 6 ?a = ascii ''Basic '' \<and> ok \<and>
        (\<exists>n. find_char 0x3a d = Some n \<and> n \<noteq> 0 \<and> ?P (take n d) (drop (n + 1) d)))"
    unfolding Authorize_def Let_def six d by (cases "find_char 0x3a d") auto
  have named: "(\<exists>n. find_char 0x3a d = Some n \<and> n \<noteq> 0 \<and> ?P (take n d) (drop (n + 1) d)) \<longleftrightarrow>
      (\<exists>user pw. d = user @ 0x3a # pw \<and> user \<noteq> [] \<and> 0x3a \<notin> set user \<and> ?P user pw)" by (rule split [of d ?P])
  have decoded: "DecodeBase64 (drop 6 ?a) = (True, x) \<longleftrightarrow> ok \<and> d = x" for x by (simp add: d)
  show ?thesis unfolding accepted named by (simp only: decoded simp_thms ex_simps) blast
qed

end
