(* ===== verification/Sha256_Hash.thy ===== *)
theory Sha256_Hash
  imports Byte_Writer
begin

text \<open>
  \<open>libs/infra/src/hash.cpp\<close>: SHA-256 over data that arrives in pieces. The class keeps an unfinished block of 64 bytes;
  the input pointer of \<open>Update\<close> is never null in the callers. The reference at the end follows the
  text of FIPS 180-4: padding of the whole message, its blocks, and the message schedule by its recurrence.
\<close>

section \<open>Model\<close>

definition RotateRight :: "u32 \<Rightarrow> nat \<Rightarrow> u32" where
  "RotateRight value bits = drop_bit bits value OR push_bit (32 - bits) value"

definition ReadBigEndian32 :: "bytes \<Rightarrow> nat \<Rightarrow> u32" where
  "ReadBigEndian32 data off =
     push_bit 24 (ucast (data ! off)) OR push_bit 16 (ucast (data ! (off + 1)))
     OR push_bit 8 (ucast (data ! (off + 2))) OR ucast (data ! (off + 3))"

definition WriteBigEndian64 :: "u64 \<Rightarrow> bytes" where
  "WriteBigEndian64 value = map (\<lambda>i. ucast (drop_bit (i * 8) value AND 0xff)) [7, 6, 5, 4, 3, 2, 1, 0]"

definition kInitialHash :: "u32 list" where
  "kInitialHash = [0x6a09e667, 0xbb67ae85, 0x3c6ef372, 0xa54ff53a, 0x510e527f, 0x9b05688c, 0x1f83d9ab, 0x5be0cd19]"

definition kRoundConstants :: "u32 list" where
  "kRoundConstants = concat
    [[0x428a2f98, 0x71374491, 0xb5c0fbcf, 0xe9b5dba5],
     [0x3956c25b, 0x59f111f1, 0x923f82a4, 0xab1c5ed5],
     [0xd807aa98, 0x12835b01, 0x243185be, 0x550c7dc3],
     [0x72be5d74, 0x80deb1fe, 0x9bdc06a7, 0xc19bf174],
     [0xe49b69c1, 0xefbe4786, 0x0fc19dc6, 0x240ca1cc],
     [0x2de92c6f, 0x4a7484aa, 0x5cb0a9dc, 0x76f988da],
     [0x983e5152, 0xa831c66d, 0xb00327c8, 0xbf597fc7],
     [0xc6e00bf3, 0xd5a79147, 0x06ca6351, 0x14292967],
     [0x27b70a85, 0x2e1b2138, 0x4d2c6dfc, 0x53380d13],
     [0x650a7354, 0x766a0abb, 0x81c2c92e, 0x92722c85],
     [0xa2bfe8a1, 0xa81a664b, 0xc24b8b70, 0xc76c51a3],
     [0xd192e819, 0xd6990624, 0xf40e3585, 0x106aa070],
     [0x19a4c116, 0x1e376c08, 0x2748774c, 0x34b0bcb5],
     [0x391c0cb3, 0x4ed8aa4a, 0x5b9cca4f, 0x682e6ff3],
     [0x748f82ee, 0x78a5636f, 0x84c87814, 0x8cc70208],
     [0x90befffa, 0xa4506ceb, 0xbef9a3f7, 0xc67178f2]]"

record Sha256 =
  sh_hash :: "u32 list"
  sh_buffer :: bytes
  sh_total_size :: u64
  sh_buffer_size :: nat
  sh_finished :: bool

definition Sha256_new :: Sha256 where
  "Sha256_new = \<lparr>sh_hash = kInitialHash, sh_buffer = replicate 64 0, sh_total_size = 0, sh_buffer_size = 0, sh_finished = False\<rparr>"

text \<open>\<open>words[i]\<close> of the second loop of \<open>ProcessBlock\<close>.\<close>

definition ExtendWord :: "u32 list \<Rightarrow> nat \<Rightarrow> u32 list" where
  "ExtendWord words i =
     (let s0 = RotateRight (words ! (i - 15)) 7 XOR RotateRight (words ! (i - 15)) 18 XOR drop_bit 3 (words ! (i - 15));
          s1 = RotateRight (words ! (i - 2)) 17 XOR RotateRight (words ! (i - 2)) 19 XOR drop_bit 10 (words ! (i - 2))
      in words[i := words ! (i - 16) + s0 + words ! (i - 7) + s1])"

definition BlockWords :: "bytes \<Rightarrow> u32 list" where
  "BlockWords block =
     (let words = foldl (\<lambda>words i. words[i := ReadBigEndian32 block (i * 4)]) (replicate 64 0) [0..<16]
      in foldl ExtendWord words [16..<64])"

text \<open>One round on the eight working variables.\<close>

definition Round :: "u32 list \<Rightarrow> u32 list \<Rightarrow> nat \<Rightarrow> u32 list" where
  "Round words v i =
     (case v of [a, b, c, d, e, f, g, h] \<Rightarrow>
        let s1 = RotateRight e 6 XOR RotateRight e 11 XOR RotateRight e 25;
            choice = (e AND f) XOR ((NOT e) AND g);
            temp1 = h + s1 + choice + kRoundConstants ! i + words ! i;
            s0 = RotateRight a 2 XOR RotateRight a 13 XOR RotateRight a 22;
            majority = (a AND b) XOR (a AND c) XOR (b AND c);
            temp2 = s0 + majority
        in [temp1 + temp2, a, b, c, d + temp1, e, f, g]
      | _ \<Rightarrow> v)"

definition ProcessBlock :: "bytes \<Rightarrow> Sha256 \<Rightarrow> Sha256" where
  "ProcessBlock block s = s\<lparr>sh_hash := map2 (+) (sh_hash s) (foldl (Round (BlockWords block)) (sh_hash s) [0..<64])\<rparr>"

text \<open>The loop of \<open>Update\<close>. \<open>free_size\<close> is never zero: a full buffer has been processed (\<open>sha_inv\<close> below).\<close>

function UpdateLoop :: "bytes \<Rightarrow> Sha256 \<Rightarrow> Sha256" where
  "UpdateLoop data s =
     (let free_size = 64 - sh_buffer_size s;
          copy_size = (if length data < free_size then length data else free_size)
      in if data = [] \<or> free_size = 0 then s
         else
           let s = s\<lparr>sh_buffer := memcpy_at (sh_buffer s) (sh_buffer_size s) (take copy_size data),
                     sh_buffer_size := sh_buffer_size s + copy_size\<rparr>;
               s = (if sh_buffer_size s = 64 then (ProcessBlock (sh_buffer s) s)\<lparr>sh_buffer_size := 0\<rparr> else s)
           in UpdateLoop (drop copy_size data) s)"
  by pat_completeness auto
termination
  by (relation "measure (\<lambda>(data, s). length data)") (auto simp: Let_def)

declare UpdateLoop.simps [simp del]

definition Sha256_Update :: "bytes \<Rightarrow> Sha256 \<Rightarrow> Sha256" where
  "Sha256_Update data s =
     (if sh_finished s \<or> data = [] then s
      else UpdateLoop data (s\<lparr>sh_total_size := sh_total_size s + word_of_nat (length data)\<rparr>))"

text \<open>\<open>Finish\<close> into a buffer of the given size.\<close>

definition Sha256_Finish :: "nat \<Rightarrow> Sha256 \<Rightarrow> Sha256 \<times> bytes option" where
  "Sha256_Finish digest_size s =
     (if digest_size < 32 then (s, None)
      else
        let s = (if sh_finished s then s
                 else
                   let bit_size = sh_total_size s * 8;
                       padding = (replicate 128 0)[0 := 0x80];
                       pad_size = (if sh_buffer_size s < 56 then 56 - sh_buffer_size s else 120 - sh_buffer_size s);
                       s = Sha256_Update (take pad_size padding) s;
                       s = Sha256_Update (WriteBigEndian64 bit_size) s
                   in s\<lparr>sh_finished := True\<rparr>)
        in (s, Some (concat (map (\<lambda>i. let h = sh_hash s ! i in
              [ucast (drop_bit 24 h AND 0xff), ucast (drop_bit 16 h AND 0xff), ucast (drop_bit 8 h AND 0xff), ucast (h AND 0xff)])
              [0..<8]))))"

definition kHex :: bytes where
  "kHex = ascii ''0123456789abcdef''"

definition BytesToHex :: "bytes \<Rightarrow> bytes" where
  "BytesToHex data = concat (map (\<lambda>b. [kHex ! unat (drop_bit 4 b AND 0x0f), kHex ! unat (b AND 0x0f)]) data)"

definition Sha256_FinishHex :: "Sha256 \<Rightarrow> Sha256 \<times> bytes" where
  "Sha256_FinishHex s = (case Sha256_Finish 32 s of (s, None) \<Rightarrow> (s, []) | (s, Some digest) \<Rightarrow> (s, BytesToHex digest))"

text \<open>\<open>isxdigit\<close> of the C locale.\<close>

definition is_xdigit :: "u8 \<Rightarrow> bool" where
  "is_xdigit c \<longleftrightarrow> 0x30 \<le> c \<and> c \<le> 0x39 \<or> 0x41 \<le> c \<and> c \<le> 0x46 \<or> 0x61 \<le> c \<and> c \<le> 0x66"

definition IsHexString :: "bytes \<Rightarrow> bool" where
  "IsHexString value \<longleftrightarrow> value \<noteq> [] \<and> even (length value) \<and> list_all is_xdigit value"

definition IsSha256HexString :: "bytes \<Rightarrow> bool" where
  "IsSha256HexString value \<longleftrightarrow> length value = 64 \<and> IsHexString value"

definition Sha256Hex :: "bytes \<Rightarrow> bytes" where
  "Sha256Hex data = snd (Sha256_FinishHex (Sha256_Update data Sha256_new))"

text \<open>\<open>Sha256FileHex\<close> behind the opening of the file: what the calls of \<open>fread\<close> return, and whether reading failed.\<close>

definition Sha256FileHex :: "bytes list \<Rightarrow> bool \<Rightarrow> bytes" where
  "Sha256FileHex reads failed =
     (let s = foldl (\<lambda>s data. if length data > 0 then Sha256_Update data s else s) Sha256_new reads
      in if failed then [] else snd (Sha256_FinishHex s))"

section \<open>The standard\<close>

text \<open>FIPS 180-4, sections 4.1.2, 5.1.1, 5.2.1 and 6.2.2.\<close>

definition fips_sigma0 :: "u32 \<Rightarrow> u32" where
  "fips_sigma0 x = word_rotr 7 x XOR word_rotr 18 x XOR drop_bit 3 x"

definition fips_sigma1 :: "u32 \<Rightarrow> u32" where
  "fips_sigma1 x = word_rotr 17 x XOR word_rotr 19 x XOR drop_bit 10 x"

definition fips_Sigma0 :: "u32 \<Rightarrow> u32" where
  "fips_Sigma0 x = word_rotr 2 x XOR word_rotr 13 x XOR word_rotr 22 x"

definition fips_Sigma1 :: "u32 \<Rightarrow> u32" where
  "fips_Sigma1 x = word_rotr 6 x XOR word_rotr 11 x XOR word_rotr 25 x"

definition fips_Ch :: "u32 \<Rightarrow> u32 \<Rightarrow> u32 \<Rightarrow> u32" where
  "fips_Ch x y z = (x AND y) XOR ((NOT x) AND z)"

definition fips_Maj :: "u32 \<Rightarrow> u32 \<Rightarrow> u32 \<Rightarrow> u32" where
  "fips_Maj x y z = (x AND y) XOR (x AND z) XOR (y AND z)"

text \<open>The message schedule of a block of sixteen words.\<close>

fun fips_W :: "u32 list \<Rightarrow> nat \<Rightarrow> u32" where
  "fips_W M t =
     (if t < 16 then M ! t
      else fips_sigma1 (fips_W M (t - 2)) + fips_W M (t - 7) + fips_sigma0 (fips_W M (t - 15)) + fips_W M (t - 16))"

declare fips_W.simps [simp del]

fun fips_round :: "u32 list \<Rightarrow> u32 list \<Rightarrow> nat \<Rightarrow> u32 list" where
  "fips_round M [a, b, c, d, e, f, g, h] t =
     (let T1 = h + fips_Sigma1 e + fips_Ch e f g + kRoundConstants ! t + fips_W M t;
          T2 = fips_Sigma0 a + fips_Maj a b c
      in [T1 + T2, a, b, c, d + T1, e, f, g])"
| "fips_round M v t = v"

definition fips_compress :: "u32 list \<Rightarrow> u32 list \<Rightarrow> u32 list" where
  "fips_compress H M = map2 (+) H (foldl (fips_round M) H [0..<64])"

text \<open>The message padded to a multiple of 64 bytes: a one bit, zeros, the length in bits.\<close>

definition fips_pad :: "bytes \<Rightarrow> bytes" where
  "fips_pad m = m @ [0x80] @ replicate (nat ((55 - int (length m)) mod 64)) 0
     @ map (\<lambda>i. word_of_nat (8 * length m div 256 ^ i)) [7, 6, 5, 4, 3, 2, 1, 0]"

function chunks :: "nat \<Rightarrow> 'a list \<Rightarrow> 'a list list" where
  "chunks n xs = (if n = 0 \<or> length xs < n then [] else take n xs # chunks n (drop n xs))"
  by pat_completeness auto
termination by (relation "measure (length \<circ> snd)") auto

declare chunks.simps [simp del]

definition fips_words :: "bytes \<Rightarrow> u32 list" where
  "fips_words block = map (\<lambda>w. word_of_nat (be_value w)) (chunks 4 block)"

definition fips_sha256 :: "bytes \<Rightarrow> bytes" where
  "fips_sha256 m = concat (map be32 (foldl fips_compress kInitialHash (map fips_words (chunks 64 (fips_pad m)))))"

section \<open>The block function\<close>

lemma RotateRight_rotr: "0 < n \<Longrightarrow> n < 32 \<Longrightarrow> RotateRight x n = word_rotr n x"
proof (intro bit_word_eqI)
  fix m assume n: "0 < n" "n < 32" and m: "m < LENGTH(32)"
  show "bit (RotateRight x n) m \<longleftrightarrow> bit (word_rotr n x) m"
  proof (cases "n + m < 32")
    case True
    then show ?thesis using n m by (auto simp: RotateRight_def bit_simps bit_word_rotr_iff ac_simps)
  next
    case False
    then have "(n + m) mod 32 = m - (32 - n)" using n m by (subst le_mod_geq) auto
    moreover have "\<not> bit x (n + m)" using False bit_imp_le_length [of x "n + m"] by auto
    moreover have "32 - n \<le> m" using False by simp
    ultimately show ?thesis using n m by (simp add: RotateRight_def bit_simps bit_word_rotr_iff ac_simps)
  qed
qed

lemma ReadBigEndian32_be: "off + 4 \<le> length d \<Longrightarrow> ReadBigEndian32 d off = word_of_nat (be_value (take 4 (drop off d)))"
proof -
  assume "off + 4 \<le> length d"
  then obtain a b c e where abc: "take 4 (drop off d) = [a, b, c, e]"
    and nth: "d ! off = a" "d ! (off + 1) = b" "d ! (off + 2) = c" "d ! (off + 3) = e"
  proof -
    assume len: "off + 4 \<le> length d"
    assume *: "\<And>a b c e. take 4 (drop off d) = [a, b, c, e] \<Longrightarrow> d ! off = a \<Longrightarrow> d ! (off + 1) = b \<Longrightarrow> d ! (off + 2) = c
      \<Longrightarrow> d ! (off + 3) = e \<Longrightarrow> thesis"
    show thesis using len by (intro *) (auto simp: list_eq_iff_nth_eq less_Suc_eq numeral_eq_Suc nth_Cons split: nat.splits)
  qed
  have "push_bit 8 (ucast c) OR (ucast e :: u32) = push_bit 8 (ucast c) + ucast e"
    by (rule disjunctive_add_eq_or [symmetric]) (auto simp: bit_eq_iff bit_simps dest: bit_imp_le_length)
  moreover have "push_bit 16 (ucast b) OR (push_bit 8 (ucast c) OR (ucast e :: u32)) = push_bit 16 (ucast b) + (push_bit 8 (ucast c) OR ucast e)"
    by (rule disjunctive_add_eq_or [symmetric]) (auto simp: bit_eq_iff bit_simps dest: bit_imp_le_length)
  moreover have "push_bit 24 (ucast a) OR (push_bit 16 (ucast b) OR (push_bit 8 (ucast c) OR (ucast e :: u32)))
      = push_bit 24 (ucast a) + (push_bit 16 (ucast b) OR (push_bit 8 (ucast c) OR ucast e))"
    by (rule disjunctive_add_eq_or [symmetric]) (auto simp: bit_eq_iff bit_simps dest: bit_imp_le_length)
  ultimately have "push_bit 24 (ucast a) OR push_bit 16 (ucast b) OR push_bit 8 (ucast c) OR (ucast e :: u32)
      = push_bit 24 (ucast a) + (push_bit 16 (ucast b) + (push_bit 8 (ucast c) + ucast e))"
    by (simp only: or.assoc)
  then show ?thesis
    unfolding ReadBigEndian32_def nth abc by (simp add: push_bit_eq_mult)
qed

lemma chunks_nth: "0 < n \<Longrightarrow> i < length xs div n \<Longrightarrow> i < length (chunks n xs) \<and> chunks n xs ! i = take n (drop (n * i) xs)"
proof (induction n xs arbitrary: i rule: chunks.induct)
  case (1 n xs)
  have long: "n \<le> length xs" using 1(2,3) by (metis div_less less_nat_zero_code not_less)
  show ?case
  proof (cases i)
    case 0
    then show ?thesis using long 1(2) by (simp add: chunks.simps)
  next
    case (Suc j)
    have "j < length (drop n xs) div n" using 1(2,3) Suc long by (simp add: le_div_geq)
    with 1 Suc long show ?thesis by (subst (1 2) chunks.simps) (simp add: not_less add.commute)
  qed
qed

lemma length_chunks: "0 < n \<Longrightarrow> length (chunks n xs) = length xs div n"
proof (induction n xs rule: chunks.induct)
  case (1 n xs)
  then show ?case by (subst chunks.simps) (auto simp: le_div_geq not_less)
qed

lemma chunks_append: "0 < n \<Longrightarrow> n dvd length xs \<Longrightarrow> chunks n (xs @ ys) = chunks n xs @ chunks n ys"
proof (induction n xs rule: chunks.induct)
  case (1 n xs)
  show ?case
  proof (cases "xs = []")
    case True
    then show ?thesis using 1(2) by (simp add: chunks.simps [of n "[]"])
  next
    case False
    then have "n \<le> length xs" using 1(2,3) by (simp add: dvd_imp_le)
    with 1 False show ?thesis by (subst (1 2) chunks.simps) (simp add: not_less)
  qed
qed

lemma fips_words_nth:
  assumes "length block = 64" and "t < 16"
  shows "fips_words block ! t = ReadBigEndian32 block (t * 4)"
  using chunks_nth [of 4 t block] assms by (simp add: fips_words_def length_chunks ReadBigEndian32_be mult.commute)

lemma foldl_update:
  "foldl (\<lambda>ws i. ws[i := f i]) ws [0..<n] = map f [0..<min n (length ws)] @ drop n ws"
proof (induction n)
  case (Suc n)
  show ?case
  proof (cases "n < length ws")
    case True
    then have "drop n ws = ws ! n # drop (Suc n) ws" by (simp add: Cons_nth_drop_Suc)
    with Suc True show ?thesis by (simp add: list_update_append min_def)
  next
    case False
    then show ?thesis using Suc by (simp add: min_absorb2 list_update_beyond)
  qed
qed simp

lemma BlockWords_schedule:
  assumes "length block = 64"
  shows "length (BlockWords block) = 64 \<and> (\<forall>t < 64. BlockWords block ! t = fips_W (fips_words block) t)"
proof -
  let ?M = "fips_words block"
  define start where "start = foldl (\<lambda>words i. words[i := ReadBigEndian32 block (i * 4)]) (replicate 64 0) [0..<16]"
  have "length (foldl ExtendWord start [16..<n]) = 64 \<and> (\<forall>t < n. foldl ExtendWord start [16..<n] ! t = fips_W ?M t)"
    if "16 \<le> n" "n \<le> 64" for n
    using that
  proof (induction n rule: dec_induct)
    case base
    have "start ! t = fips_W ?M t" if "t < 16" for t
      using that fips_words_nth [OF assms that] by (simp add: start_def foldl_update nth_append fips_W.simps)
    then show ?case by (simp add: start_def foldl_update)
  next
    case (step n)
    let ?ws = "foldl ExtendWord start [16..<n]"
    have ws: "length ?ws = 64" "\<And>t. t < n \<Longrightarrow> ?ws ! t = fips_W ?M t" using step by auto
    have "ExtendWord ?ws n = ?ws[n := fips_W ?M n]"
      using step.hyps ws(2)
      by (simp add: ExtendWord_def Let_def fips_W.simps [of _ n] fips_sigma0_def fips_sigma1_def RotateRight_rotr ac_simps)
    then show ?case using ws step by (simp add: nth_list_update less_Suc_eq)
  qed
  from this [of 64] show ?thesis by (simp add: BlockWords_def start_def)
qed

lemma Round_fips: "ws ! i = fips_W M i \<Longrightarrow> Round ws v i = fips_round M v i"
  by (cases "(M, v, i)" rule: fips_round.cases)
    (simp_all add: Round_def Let_def RotateRight_rotr fips_Sigma0_def fips_Sigma1_def fips_Ch_def fips_Maj_def ac_simps)

lemma ProcessBlock_compress:
  assumes "length block = 64"
  shows "ProcessBlock block s = s\<lparr>sh_hash := fips_compress (sh_hash s) (fips_words block)\<rparr>"
proof -
  have "foldl (Round (BlockWords block)) v [0..<n] = foldl (fips_round (fips_words block)) v [0..<n]" if "n \<le> 64" for v n
    using that by (induction n) (use BlockWords_schedule [OF assms] in \<open>simp_all add: Round_fips\<close>)
  then show ?thesis by (simp add: ProcessBlock_def fips_compress_def)
qed

section \<open>Updates\<close>

definition fips_hash :: "bytes \<Rightarrow> u32 list" where
  "fips_hash m = foldl fips_compress kInitialHash (map fips_words (chunks 64 m))"

definition sha_inv :: "bytes \<Rightarrow> Sha256 \<Rightarrow> bool" where
  "sha_inv m s \<longleftrightarrow> length (sh_buffer s) = 64 \<and> sh_buffer_size s = length m mod 64
     \<and> take (sh_buffer_size s) (sh_buffer s) = drop (length m div 64 * 64) m \<and> sh_hash s = fips_hash m"

lemma fips_hash_block: "64 dvd length m \<Longrightarrow> length block = 64 \<Longrightarrow> fips_hash (m @ block) = fips_compress (fips_hash m) (fips_words block)"
  by (simp add: fips_hash_def chunks_append chunks.simps [of 64 block] chunks.simps [of 64 "[]"])

lemma fips_hash_part: "64 dvd length m \<Longrightarrow> length rest < 64 \<Longrightarrow> fips_hash (m @ rest) = fips_hash m"
  by (simp add: fips_hash_def chunks_append chunks.simps [of 64 rest])

lemma mod64_part: "(x :: nat) mod 64 + n < 64 \<Longrightarrow> (x + n) mod 64 = x mod 64 + n \<and> (x + n) div 64 = x div 64"
proof -
  assume n: "x mod 64 + n < 64"
  have e: "x + n = (x mod 64 + n) + 64 * (x div 64)" by simp
  have "((x mod 64 + n) + 64 * (x div 64)) mod 64 = x mod 64 + n" unfolding mod_mult_self2 using n by (rule mod_less)
  moreover have "((x mod 64 + n) + 64 * (x div 64)) div 64 = x div 64" using n by (subst div_mult_self2) simp_all
  ultimately show ?thesis using e by metis
qed

lemma UpdateLoop_inv: "sha_inv m s \<Longrightarrow> sha_inv (m @ data) (UpdateLoop data s) \<and> sh_total_size (UpdateLoop data s) = sh_total_size s
   \<and> sh_finished (UpdateLoop data s) = sh_finished s"
proof (induction data s arbitrary: m rule: UpdateLoop.induct)
  case (1 data s)
  let ?bs = "length m mod 64" and ?whole = "take (length m div 64 * 64) m" and ?rest = "drop (length m div 64 * 64) m"
  have inv: "length (sh_buffer s) = 64" "sh_buffer_size s = ?bs" "take ?bs (sh_buffer s) = ?rest" "sh_hash s = fips_hash m"
    using 1(2) by (auto simp: sha_inv_def)
  show ?case
  proof (cases "data = []")
    case True
    then show ?thesis using 1(2) by (subst (1 2 3) UpdateLoop.simps) (simp add: Let_def)
  next
    case False
    define n where "n = (if length data < 64 - ?bs then length data else 64 - ?bs)"
    define t where "t = s\<lparr>sh_buffer := memcpy_at (sh_buffer s) ?bs (take n data), sh_buffer_size := ?bs + n\<rparr>"
    define u where "u = (if ?bs + n = 64 then (ProcessBlock (sh_buffer t) t)\<lparr>sh_buffer_size := 0\<rparr> else t)"
    have bs: "?bs < 64" by simp
    have n: "0 < n" "?bs + n \<le> 64" "n \<le> length data" using False bs by (auto simp: n_def)
    have step: "UpdateLoop data s = UpdateLoop (drop n data) u"
      using False inv bs by (subst UpdateLoop.simps) (simp add: Let_def n_def [symmetric] t_def u_def)
    have whole: "64 dvd length ?whole" "m = ?whole @ ?rest" "length ?rest = ?bs"
      by (simp_all add: min_absorb2 minus_mult_div_eq_mod mult.commute)
    have buf: "length (sh_buffer t) = 64" "take (?bs + n) (sh_buffer t) = ?rest @ take n data"
      using inv n by (simp_all add: t_def memcpy_at_def minus_div_mult_eq_mod)
    have "sha_inv (m @ take n data) u"
    proof (cases "?bs + n = 64")
      case True
      then have b: "sh_buffer t = ?rest @ take n data" using buf by simp
      have "fips_hash (m @ take n data) = fips_compress (fips_hash ?whole) (fips_words (sh_buffer t))"
        using fips_hash_block [OF whole(1), of "?rest @ take n data"] whole(2) n True b
        by (metis append_assoc buf(1))
      moreover have "fips_hash ?whole = fips_hash m" using fips_hash_part [OF whole(1), of ?rest] whole(2,3) bs by metis
      moreover have "length (m @ take n data) mod 64 = 0"
        using whole(1,2,3) n True by (metis append_assoc length_append dvd_add_triv_right_iff dvd_imp_mod_0 buf(1) b dvd_refl dvd_add)
      ultimately show ?thesis using True inv buf n
        by (simp add: u_def sha_inv_def ProcessBlock_compress t_def mult.commute minus_mod_eq_mult_div [symmetric])
    next
      case part: False
      have "length (m @ take n data) mod 64 = ?bs + n" "length (m @ take n data) div 64 = length m div 64"
        using n part mod64_part [of "length m" n] by simp_all
      moreover have "fips_hash (m @ take n data) = fips_hash m"
      proof -
        have "length (?rest @ take n data) < 64" using whole(3) part n by simp
        from fips_hash_part [OF whole(1) this] have "fips_hash (m @ take n data) = fips_hash ?whole" using whole(2) by (metis append_assoc)
        moreover have "fips_hash ?whole = fips_hash m" using fips_hash_part [OF whole(1), of ?rest] whole(2,3) bs by metis
        ultimately show ?thesis by simp
      qed
      moreover have "u = t" using part by (simp add: u_def)
      moreover have "drop (length m div 64 * 64) (m @ take n data) = ?rest @ take n data" using div_times_less_eq_dividend by simp
      ultimately show ?thesis unfolding sha_inv_def using inv(4) buf by (simp only:) (simp add: t_def)
    qed
    from 1(1) [OF refl refl _ refl refl, unfolded inv(2) n_def [symmetric], folded t_def, folded u_def, of "m @ take n data"] this False bs n(3)
    show ?thesis unfolding step by (simp add: u_def t_def ProcessBlock_def)
  qed
qed

text \<open>A running hash of the bytes so far.\<close>

definition sha_running :: "bytes \<Rightarrow> Sha256 \<Rightarrow> bool" where
  "sha_running m s \<longleftrightarrow> sha_inv m s \<and> sh_total_size s = word_of_nat (length m) \<and> \<not> sh_finished s"

lemma sha_running_new: "sha_running [] Sha256_new"
  by (simp add: sha_running_def sha_inv_def Sha256_new_def fips_hash_def chunks.simps)

lemma sha_inv_total: "sha_inv m (s\<lparr>sh_total_size := n\<rparr>) = sha_inv m s"
  by (simp add: sha_inv_def)

lemma Sha256_Update_running: "sha_running m s \<Longrightarrow> sha_running (m @ data) (Sha256_Update data s)"
  using UpdateLoop_inv [of m "s\<lparr>sh_total_size := sh_total_size s + word_of_nat (length data)\<rparr>" data]
  by (simp add: sha_running_def Sha256_Update_def sha_inv_total)

lemma Sha256_Update_pieces: "sha_running m s \<Longrightarrow> sha_running (m @ concat pieces) (foldl (\<lambda>s d. Sha256_Update d s) s pieces)"
proof (induction pieces arbitrary: m s)
  case (Cons p ps)
  from Cons.IH [OF Sha256_Update_running [OF Cons.prems, of p]] show ?case by simp
qed simp

section \<open>The digest\<close>

lemma WriteBigEndian64_bytes:
  "WriteBigEndian64 (word_of_nat n) = map (\<lambda>i. word_of_nat (n div 256 ^ i)) [7, 6, 5, 4, 3, 2, 1, 0]"
proof -
  have byte: "(ucast (drop_bit (i * 8) (word_of_nat n :: u64) AND 0xff) :: u8) = word_of_nat (n div 256 ^ i)" if "i \<le> 7" for i
  proof (rule bit_word_eqI)
    fix k assume k: "k < LENGTH(8)"
    have "256 ^ i = (2 :: nat) ^ (i * 8)" using power_mult [of "2 :: nat" 8 i] by (simp add: mult.commute)
    then have "bit (n div 256 ^ i) k \<longleftrightarrow> bit n (i * 8 + k)" by (simp add: bit_drop_bit_eq flip: drop_bit_eq_div)
    moreover have "bit (0xff :: u64) k"
    proof -
      have "bit (mask 8 :: u64) k" using k by (simp add: bit_mask_iff del: mask_numeral)
      then show ?thesis by (simp add: mask_eq_exp_minus_1)
    qed
    moreover have "i * 8 + k < 64" using that k by simp
    ultimately show "bit (ucast (drop_bit (i * 8) (word_of_nat n :: u64) AND 0xff) :: u8) k \<longleftrightarrow> bit (word_of_nat (n div 256 ^ i) :: u8) k"
      using k by (simp add: bit_simps)
  qed
  show ?thesis unfolding WriteBigEndian64_def by (rule list.map_cong0, rule byte) auto
qed

lemma length_fips_round: "length (fips_round M v t) = length v"
  by (cases "(M, v, t)" rule: fips_round.cases) (simp_all add: Let_def)

lemma length_fips_compress: "length (fips_compress H M) = length H"
proof -
  have "length (foldl (fips_round M) v ts) = length v" for v ts by (induction ts arbitrary: v) (simp_all add: length_fips_round)
  then show ?thesis by (simp add: fips_compress_def)
qed

lemma length_fips_hash: "length (fips_hash m) = 8"
proof -
  have "length (foldl fips_compress H Ms) = length H" for H Ms by (induction Ms arbitrary: H) (simp_all add: length_fips_compress)
  then show ?thesis by (simp add: fips_hash_def kInitialHash_def)
qed

lemma digest_bytes: "length h = 8 \<Longrightarrow> concat (map (\<lambda>i. let h = h ! i in
    [ucast (drop_bit 24 h AND 0xff), ucast (drop_bit 16 h AND 0xff), ucast (drop_bit 8 h AND 0xff), ucast (h AND 0xff)]) [0..<8])
   = concat (map be32 (h :: u32 list))"
proof -
  assume len: "length h = 8"
  have "map (\<lambda>i. be32 (h ! i)) [0..<8] = map be32 h" by (rule nth_equalityI) (use len in simp_all)
  then show ?thesis by (simp add: be32_def Let_def)
qed

lemma pad_length: "nat ((55 - int n) mod 64) = (if n mod 64 < 56 then 55 - n mod 64 else 119 - n mod 64)"
proof -
  have "(55 - int n) mod 64 = (55 - int (n mod 64)) mod 64" by (simp add: mod_diff_right_eq zmod_int)
  moreover have "(55 - int r) mod 64 = int (if r < 56 then 55 - r else 119 - r)" if "r < 64" for r
  proof (cases "r < 56")
    case False
    have "(55 - int r) mod 64 = (119 - int r) mod 64" using mod_add_self2 [of "55 - int r" 64] by (simp del: mod_add_self2)
    also have "\<dots> = 119 - int r" using False that by (intro mod_pos_pos_trivial) simp_all
    finally show ?thesis using False that by simp
  qed simp
  ultimately show ?thesis by simp
qed

lemma Sha256_Finish_running:
  assumes "sha_running m s"
  shows "snd (Sha256_Finish 32 s) = Some (fips_sha256 m)"
proof -
  define pad_size where "pad_size = (if sh_buffer_size s < 56 then 56 - sh_buffer_size s else 120 - sh_buffer_size s)"
  define zeros where "zeros = nat ((55 - int (length m)) mod 64)"
  have bs: "sh_buffer_size s = length m mod 64" using assms by (simp add: sha_running_def sha_inv_def)
  have lt: "length m mod 64 < 64" by simp
  have "pad_size = Suc zeros \<and> pad_size \<le> 128" using lt unfolding pad_size_def zeros_def pad_length bs by (auto simp: Suc_diff_le)
  moreover have "(replicate 128 0)[0 := 0x80] = 0x80 # replicate 127 (0 :: u8)"
  proof -
    have "(128 :: nat) = Suc 127" by simp
    then show ?thesis by (simp only: replicate_Suc list_update.simps nat.case)
  qed
  ultimately have padding: "take pad_size ((replicate 128 0)[0 := 0x80]) = 0x80 # replicate zeros (0 :: u8)"
    by simp
  define u where "u = Sha256_Update (WriteBigEndian64 (sh_total_size s * 8)) (Sha256_Update (take pad_size ((replicate 128 0)[0 := 0x80])) s)"
  have total: "sh_total_size s * 8 = word_of_nat (8 * length m)" using assms by (simp add: sha_running_def mult.commute)
  have "sha_running ((m @ 0x80 # replicate zeros 0) @ WriteBigEndian64 (sh_total_size s * 8)) u"
    unfolding u_def padding by (intro Sha256_Update_running assms)
  then have "sh_hash u = fips_hash (fips_pad m)"
    unfolding total WriteBigEndian64_bytes by (simp add: sha_running_def sha_inv_def fips_pad_def zeros_def)
  moreover have "snd (Sha256_Finish 32 s) = Some (concat (map be32 (sh_hash u)))" if "length (sh_hash u) = 8"
    using assms digest_bytes [OF that] by (simp add: Sha256_Finish_def Let_def sha_running_def u_def pad_size_def)
  ultimately show ?thesis by (simp add: length_fips_hash fips_sha256_def) (simp add: fips_hash_def)
qed

text \<open>
  The constants are those of the standard: the first 32 bits of the fractional parts of the cube roots of the first 64 primes, and of the
  square roots of the first eight.
\<close>

definition first_primes :: "int list" where
  "first_primes = [2, 3, 5, 7, 11, 13, 17, 19, 23, 29, 31, 37, 41, 43, 47, 53, 59, 61, 67, 71, 73, 79, 83, 89, 97, 101, 103, 107, 109, 113, 127, 131, 137, 139, 149, 151, 157, 163, 167, 173, 179, 181, 191, 193, 197, 199, 211, 223, 227, 229, 233, 239, 241, 251, 257, 263, 269, 271, 277, 281, 283, 293, 307, 311]"

definition root_bits :: "nat \<Rightarrow> int \<Rightarrow> u32 \<Rightarrow> bool" where
  "root_bits n p k \<longleftrightarrow> list_ex (\<lambda>m. m ^ n < p \<and> p < (m + 1) ^ n
     \<and> (m * 2 ^ 32 + uint k) ^ n \<le> p * 2 ^ (32 * n) \<and> p * 2 ^ (32 * n) < (m * 2 ^ 32 + uint k + 1) ^ n) [1, 2, 3, 4, 5, 6]"

lemma kRoundConstants_cube_roots: "list_all2 (root_bits 3) first_primes kRoundConstants"
  unfolding first_primes_def kRoundConstants_def concat.simps append.simps list_all2_Cons list_all2_Nil
  by (intro conjI TrueI; simp add: root_bits_def)

lemma kInitialHash_square_roots: "list_all2 (root_bits 2) (take 8 first_primes) kInitialHash"
  unfolding first_primes_def kInitialHash_def by (simp add: root_bits_def)

text \<open>
  Claim C8. However the data is cut into pieces, the digest the class computes is the SHA-256 digest of FIPS 180-4 of the whole
  data: the buffering of partial blocks, the padding at the end and the block function are those of the standard (its constants: \<open>kRoundConstants_cube_roots\<close>, \<open>kInitialHash_square_roots\<close>).
\<close>

theorem sha256_is_fips:
  "snd (Sha256_Finish 32 (foldl (\<lambda>s data. Sha256_Update data s) Sha256_new pieces)) = Some (fips_sha256 (concat pieces))"
  using Sha256_Finish_running [OF Sha256_Update_pieces [OF sha_running_new]] by simp

end
