(* ===== verification/Password_Credential.thy ===== *)
theory Password_Credential
  imports Sha256_Hash Http_Messages
begin

text \<open>
  \<open>libs/auth/src/auth_crypto.cpp\<close>, \<open>auth_password.cpp\<close>: HMAC-SHA-256 and PBKDF2 (RFC 2104, RFC 8018), the stored
  credential \<open>pbkdf2-sha256:<iterations>:<salt_hex>:<hash_hex>\<close>, and its verification. Arrays filled by a
  function are its result; the tests of array pointers against null never fail in these callers.
\<close>

section \<open>Model\<close>

definition kMaxPasswordLength :: nat where "kMaxPasswordLength = 256"
definition kPasswordPbkdf2Iterations :: nat where "kPasswordPbkdf2Iterations = 20000"
definition kSha256BlockSize :: nat where "kSha256BlockSize = 64"

definition HexNibble :: "u8 \<Rightarrow> u8" where
  "HexNibble c =
     (if 0x30 \<le> c \<and> c \<le> 0x39 then c - 0x30
      else if 0x61 \<le> c \<and> c \<le> 0x66 then c - 0x61 + 10
      else if 0x41 \<le> c \<and> c \<le> 0x46 then c - 0x41 + 10
      else 0)"

definition HexToBytes :: "bytes \<Rightarrow> bytes" where
  "HexToBytes hex =
     (if \<not> IsHexString hex then []
      else map (\<lambda>i. push_bit 4 (HexNibble (hex ! (i * 2))) OR HexNibble (hex ! (i * 2 + 1))) [0..<length hex div 2])"

definition Sha256Bytes :: "bytes \<Rightarrow> bytes option" where
  "Sha256Bytes data = snd (Sha256_Finish 32 (Sha256_Update data Sha256_new))"

record HmacSha256Key =
  hk_inner_seed :: Sha256
  hk_outer_seed :: Sha256

definition PrepareHmacSha256Key :: "bytes \<Rightarrow> HmacSha256Key option" where
  "PrepareHmacSha256Key key =
     (let zero = replicate 64 0;
          hmac_key = (if length key > kSha256BlockSize then map_option (memcpy_at zero 0) (Sha256Bytes key)
                      else Some (memcpy_at zero 0 key))
      in case hmac_key of
           None \<Rightarrow> None
         | Some hmac_key \<Rightarrow>
             Some \<lparr>hk_inner_seed = Sha256_Update (map (\<lambda>b. b XOR 0x36) hmac_key) Sha256_new,
                   hk_outer_seed = Sha256_Update (map (\<lambda>b. b XOR 0x5c) hmac_key) Sha256_new\<rparr>)"

definition HmacSha256Bytes :: "HmacSha256Key \<Rightarrow> bytes \<Rightarrow> bytes option" where
  "HmacSha256Bytes key data =
     (case snd (Sha256_Finish 32 (Sha256_Update data (hk_inner_seed key))) of
        None \<Rightarrow> None
      | Some inner_digest \<Rightarrow> snd (Sha256_Finish 32 (Sha256_Update inner_digest (hk_outer_seed key))))"

definition WriteBigEndian32 :: "u32 \<Rightarrow> bytes" where
  "WriteBigEndian32 value =
     [ucast (drop_bit 24 value AND 0xff), ucast (drop_bit 16 value AND 0xff), ucast (drop_bit 8 value AND 0xff), ucast (value AND 0xff)]"

text \<open>The loop over the iterations: the number left, the last block and the derived key.\<close>

fun IterateLoop :: "HmacSha256Key \<Rightarrow> nat \<Rightarrow> bytes \<Rightarrow> bytes \<Rightarrow> bytes option" where
  "IterateLoop key 0 block derived = Some derived"
| "IterateLoop key (Suc n) block derived =
     (case HmacSha256Bytes key block of
        None \<Rightarrow> None
      | Some block \<Rightarrow> IterateLoop key n block (map2 (XOR) derived block))"

text \<open>An empty result is the failure of all these functions.\<close>

definition Pbkdf2Sha256Bytes :: "bytes \<Rightarrow> bytes \<Rightarrow> nat \<Rightarrow> bytes" where
  "Pbkdf2Sha256Bytes password salt iterations =
     (if password = [] \<or> salt = [] \<or> iterations = 0 then []
      else
        case PrepareHmacSha256Key password of
          None \<Rightarrow> []
        | Some hmac_key \<Rightarrow>
            (case HmacSha256Bytes hmac_key (salt @ WriteBigEndian32 1) of
               None \<Rightarrow> []
             | Some block \<Rightarrow> (case IterateLoop hmac_key (iterations - 1) block block of None \<Rightarrow> [] | Some derived \<Rightarrow> derived)))"

definition kCredentialPrefix :: bytes where
  "kCredentialPrefix = ascii ''pbkdf2-sha256:''"

definition Pbkdf2Sha256Credential :: "bytes \<Rightarrow> bytes \<Rightarrow> nat \<Rightarrow> bytes" where
  "Pbkdf2Sha256Credential password salt_hex iterations =
     (if password = [] \<or> length password > kMaxPasswordLength \<or> iterations = 0 \<or> \<not> IsHexString salt_hex then []
      else
        let salt = HexToBytes salt_hex in
        if salt = [] then []
        else
          let derived = Pbkdf2Sha256Bytes password salt iterations in
          if derived = [] then []
          else kCredentialPrefix @ show_nat iterations @ ascii '':'' @ salt_hex @ ascii '':'' @ BytesToHex derived)"

definition ConstantTimeEquals :: "bytes \<Rightarrow> bytes \<Rightarrow> bool" where
  "ConstantTimeEquals l r =
     (if length l \<noteq> length r then False
      else foldl (\<lambda>diff i. diff OR (l ! i XOR r ! i)) 0 [0..<length l] = 0)"

datatype PasswordVerifierKind = PlainTextVerifier | Pbkdf2Verifier

definition PlainText_VerifyPassword :: "bytes \<Rightarrow> bytes \<Rightarrow> bool" where
  "PlainText_VerifyPassword password password_credential \<longleftrightarrow> password = password_credential"

definition Pbkdf2_VerifyPassword :: "bytes \<Rightarrow> bytes \<Rightarrow> bool" where
  "Pbkdf2_VerifyPassword password password_credential =
     (if take (length kCredentialPrefix) password_credential \<noteq> kCredentialPrefix then False
      else
        let rest = drop (length kCredentialPrefix) password_credential in
        case find_char 0x3a rest of
          None \<Rightarrow> False
        | Some n \<Rightarrow>
            let iterations_text = take n rest in
            (case c_strtoul 10 (2 ^ 32 - 1) iterations_text of (iterations, erange, end_text) \<Rightarrow>
               if end_text = takeWhile (\<lambda>c. c \<noteq> 0) iterations_text \<or> end_text \<noteq> [] \<or> iterations \<noteq> kPasswordPbkdf2Iterations then False
               else
                 let rest = drop (n + 1) rest in
                 (case find_char 0x3a rest of
                    None \<Rightarrow> False
                  | Some k \<Rightarrow>
                      let expected = Pbkdf2Sha256Credential password (take k rest) iterations in
                      expected \<noteq> [] \<and> ConstantTimeEquals expected password_credential)))"

definition VerifyPassword :: "PasswordVerifierKind \<Rightarrow> bytes \<Rightarrow> bytes \<Rightarrow> bool" where
  "VerifyPassword kind password password_credential =
     (case kind of PlainTextVerifier \<Rightarrow> PlainText_VerifyPassword password password_credential
      | Pbkdf2Verifier \<Rightarrow> Pbkdf2_VerifyPassword password password_credential)"

section \<open>HMAC and PBKDF2 as the standards define them\<close>

definition hmac_sha256 :: "bytes \<Rightarrow> bytes \<Rightarrow> bytes" where
  "hmac_sha256 key m =
     (let k = (if 64 < length key then fips_sha256 key else key);
          k0 = k @ replicate (64 - length k) 0
      in fips_sha256 (map (\<lambda>b. b XOR 0x5c) k0 @ fips_sha256 (map (\<lambda>b. b XOR 0x36) k0 @ m)))"

text \<open>The blocks \<open>U_1, U_2, ...\<close> of the first (and only) output block, and their sum.\<close>

fun pbkdf2_U :: "bytes \<Rightarrow> bytes \<Rightarrow> nat \<Rightarrow> bytes" where
  "pbkdf2_U password salt 0 = hmac_sha256 password (salt @ be32 1)"
| "pbkdf2_U password salt (Suc i) = hmac_sha256 password (pbkdf2_U password salt i)"

definition pbkdf2_sha256 :: "bytes \<Rightarrow> bytes \<Rightarrow> nat \<Rightarrow> bytes" where
  "pbkdf2_sha256 password salt c = foldl (map2 (XOR)) (pbkdf2_U password salt 0) (map (pbkdf2_U password salt) [1..<c])"

lemma length_fips_sha256: "length (fips_sha256 m) = 32"
proof -
  have "length (concat (map be32 ws)) = 4 * length ws" for ws by (induction ws) simp_all
  then show ?thesis using length_fips_hash [of "fips_pad m"] by (simp add: fips_sha256_def fips_hash_def)
qed

lemma Sha256_digest: "sha_running m s \<Longrightarrow> snd (Sha256_Finish 32 (Sha256_Update data s)) = Some (fips_sha256 (m @ data))"
  by (intro Sha256_Finish_running Sha256_Update_running)

lemma Sha256Bytes_fips: "Sha256Bytes data = Some (fips_sha256 data)"
  using Sha256_digest [OF sha_running_new] by (simp add: Sha256Bytes_def)

lemma HmacSha256_standard:
  "\<exists>key. PrepareHmacSha256Key password = Some key \<and> (\<forall>data. HmacSha256Bytes key data = Some (hmac_sha256 password data))"
proof -
  define k where "k = (if 64 < length password then fips_sha256 password else password)"
  have short: "length k \<le> 64" using length_fips_sha256 [of password] by (simp add: k_def)
  define k0 where "k0 = k @ replicate (64 - length k) 0"
  have padded: "memcpy_at (replicate 64 0) 0 k = k0" using short by (simp add: memcpy_at_def k0_def drop_replicate)
  let ?key = "\<lparr>hk_inner_seed = Sha256_Update (map (\<lambda>b. b XOR 0x36) k0) Sha256_new, hk_outer_seed = Sha256_Update (map (\<lambda>b. b XOR 0x5c) k0) Sha256_new\<rparr>"
  have "PrepareHmacSha256Key password = Some ?key"
    using padded by (simp add: PrepareHmacSha256Key_def Sha256Bytes_fips kSha256BlockSize_def Let_def k_def split: if_splits)
  moreover have "HmacSha256Bytes ?key data = Some (hmac_sha256 password data)" for data
    unfolding HmacSha256Bytes_def hmac_sha256_def Let_def k_def [symmetric] k0_def [symmetric]
    by (simp only: HmacSha256Key.simps Sha256_digest [OF Sha256_Update_running [OF sha_running_new]] append_Nil option.case)
  ultimately show ?thesis by blast
qed

lemma IterateLoop_standard:
  assumes "\<And>data. HmacSha256Bytes key data = Some (hmac_sha256 password data)"
  shows "IterateLoop key n (pbkdf2_U password salt i) derived
     = Some (foldl (map2 (XOR)) derived (map (pbkdf2_U password salt) [Suc i..<Suc i + n]))"
proof (induction n arbitrary: i derived)
  case (Suc n)
  have "[Suc i..<Suc i + Suc n] = Suc i # [Suc (Suc i)..<Suc (Suc i) + n]" by (simp add: upt_conv_Cons)
  then show ?case using assms Suc [of "Suc i"] by simp
qed simp

lemma WriteBigEndian32_be32: "WriteBigEndian32 v = be32 v"
  by (simp add: WriteBigEndian32_def be32_def)

text \<open>
  The key derivation is PBKDF2 with HMAC-SHA-256 of RFC 8018, for every password, salt and positive number of iterations.
\<close>

lemma pbkdf2_is_standard:
  assumes "password \<noteq> []" and "salt \<noteq> []" and "0 < iterations"
  shows "Pbkdf2Sha256Bytes password salt iterations = pbkdf2_sha256 password salt iterations"
proof -
  obtain key where key: "PrepareHmacSha256Key password = Some key"
    and hmac: "\<And>data. HmacSha256Bytes key data = Some (hmac_sha256 password data)"
    using HmacSha256_standard by blast
  have "IterateLoop key (iterations - 1) (pbkdf2_U password salt 0) (pbkdf2_U password salt 0) = Some (pbkdf2_sha256 password salt iterations)"
  proof -
    have n: "Suc 0 + (iterations - Suc 0) = iterations" using assms(3) by simp
    show ?thesis by (simp only: IterateLoop_standard [OF hmac] n pbkdf2_sha256_def One_nat_def)
  qed
  then show ?thesis using assms key by (simp add: Pbkdf2Sha256Bytes_def hmac WriteBigEndian32_be32)
qed

section \<open>Verification of credentials\<close>

lemma ConstantTimeEquals_iff: "ConstantTimeEquals l r \<longleftrightarrow> l = r"
proof -
  have fold: "foldl (\<lambda>diff i. diff OR (l ! i XOR r ! i)) d [0..<n] = 0 \<longleftrightarrow> d = 0 \<and> (\<forall>i < n. l ! i = r ! i)" for d :: u8 and n
  proof (induction n)
    case (Suc n)
    have xor: "x XOR y = 0 \<longleftrightarrow> x = y" for x y :: u8 by (simp add: bit_eq_iff bit_simps)
    show ?case by (simp add: Suc or_eq_0_iff xor All_less_Suc conj_ac)
  qed simp
  show ?thesis unfolding ConstantTimeEquals_def fold list_eq_iff_nth_eq by simp
qed

lemma length_BytesToHex: "length (BytesToHex d) = 2 * length d"
  by (induction d) (simp_all add: BytesToHex_def)

lemma HexToBytes_Nil: "HexToBytes hex = [] \<longleftrightarrow> \<not> IsHexString hex"
  by (cases hex) (auto simp: HexToBytes_def IsHexString_def dest!: arg_cong [of _ _ length])

lemma credential_text:
  assumes "iterations \<noteq> 0"
  shows "Pbkdf2Sha256Credential password salt_hex iterations =
    (if password = [] \<or> 256 < length password \<or> \<not> IsHexString salt_hex then []
     else kCredentialPrefix @ show_nat iterations @ 0x3a # salt_hex @ 0x3a # BytesToHex (pbkdf2_sha256 password (HexToBytes salt_hex) iterations))"
proof -
  have "length (pbkdf2_sha256 password salt n) \<noteq> 0" if "0 < n" for salt n
  proof -
    have "length (pbkdf2_U password salt i) = 32" for i by (cases i) (simp_all add: hmac_sha256_def Let_def length_fips_sha256)
    then have "length (foldl (map2 (XOR)) d (map (pbkdf2_U password salt) is)) = 32" if "length d = 32" for d "is"
      using that by (induction "is" arbitrary: d) simp_all
    then show ?thesis by (simp add: pbkdf2_sha256_def \<open>\<And>i. length (pbkdf2_U password salt i) = 32\<close> del: pbkdf2_U.simps)
  qed
  moreover have "ascii '':'' = [0x3a]" by code_simp
  ultimately show ?thesis using assms pbkdf2_is_standard [of password "HexToBytes salt_hex" iterations]
    by (auto simp: Pbkdf2Sha256Credential_def Let_def kMaxPasswordLength_def HexToBytes_Nil)
qed

lemma digits_no_colon: "digits 10 s n \<Longrightarrow> 0x3a \<notin> set s"
proof -
  have "digit_value 0x3a = 16" by code_simp
  then show "digits 10 s n \<Longrightarrow> ?thesis" by (auto simp: digits_def)
qed

lemma hex_no_colon: "IsHexString s \<Longrightarrow> 0x3a \<notin> set s"
  by (auto simp: IsHexString_def list_all_iff is_xdigit_def)

lemma Pbkdf2_VerifyPassword_iff:
  "Pbkdf2_VerifyPassword password cred \<longleftrightarrow> cred \<noteq> [] \<and> (\<exists>salt_hex. cred = Pbkdf2Sha256Credential password salt_hex kPasswordPbkdf2Iterations)"
proof
  assume "Pbkdf2_VerifyPassword password cred"
  then show "cred \<noteq> [] \<and> (\<exists>salt_hex. cred = Pbkdf2Sha256Credential password salt_hex kPasswordPbkdf2Iterations)"
    by (auto simp: Pbkdf2_VerifyPassword_def Let_def ConstantTimeEquals_iff split: if_splits option.splits prod.splits) metis
next
  assume *: "cred \<noteq> [] \<and> (\<exists>salt_hex. cred = Pbkdf2Sha256Credential password salt_hex kPasswordPbkdf2Iterations)"
  then obtain salt_hex where cred: "cred = Pbkdf2Sha256Credential password salt_hex kPasswordPbkdf2Iterations" by blast
  let ?n = kPasswordPbkdf2Iterations
  have n: "?n \<noteq> 0" "?n \<le> 2 ^ 32 - 1" by (simp_all add: kPasswordPbkdf2Iterations_def)
  define hash where "hash = BytesToHex (pbkdf2_sha256 password (HexToBytes salt_hex) ?n)"
  have parts: "cred = kCredentialPrefix @ show_nat ?n @ 0x3a # salt_hex @ 0x3a # hash" and hex: "IsHexString salt_hex"
    using * credential_text [OF n(1), of password salt_hex] by (auto simp: cred hash_def split: if_splits)
  have d: "digits 10 (show_nat ?n) ?n" by (rule show_nat_digits)
  have num: "c_strtoul 10 (2 ^ 32 - 1) (show_nat ?n) = (?n, False, [])" by (rule c_strtoul_digits [OF d]) (use n in simp_all)
  have "show_nat ?n \<noteq> []" by (simp add: show_nat.simps)
  moreover have "0 \<notin> set (show_nat ?n)" using d digit_not_special [of 0] by (auto simp: digits_def)
  ultimately have tw: "takeWhile (\<lambda>c. c \<noteq> 0) (show_nat ?n) \<noteq> []" by (cases "show_nat ?n") auto
  have f1: "find_char 0x3a (show_nat ?n @ 0x3a # salt_hex @ 0x3a # hash) = Some (length (show_nat ?n))"
    using find_char_append [OF digits_no_colon [OF d]] .
  have f2: "find_char 0x3a (salt_hex @ 0x3a # hash) = Some (length salt_hex)" using find_char_append [OF hex_no_colon [OF hex]] .
  show "Pbkdf2_VerifyPassword password cred"
    using num tw f1 f2 * cred [symmetric] unfolding Pbkdf2_VerifyPassword_def Let_def ConstantTimeEquals_iff parts by simp
qed

text \<open>
  Claim C9. A password is verified against a stored credential exactly when it has 1 to 256 bytes and the credential
  is the text \<open>pbkdf2-sha256:20000:<salt>:<key>\<close> with a hexadecimal salt, where the key is PBKDF2 with
  HMAC-SHA-256 (RFC 8018, RFC 2104, FIPS 180-4) of the password, the decoded salt and 20000 iterations.
\<close>

theorem password_verified_iff:
  "VerifyPassword Pbkdf2Verifier password cred \<longleftrightarrow> 1 \<le> length password \<and> length password \<le> 256 \<and>
     (\<exists>salt_hex. IsHexString salt_hex \<and>
        cred = kCredentialPrefix @ show_nat kPasswordPbkdf2Iterations @ [0x3a] @ salt_hex @ [0x3a]
          @ BytesToHex (pbkdf2_sha256 password (HexToBytes salt_hex) kPasswordPbkdf2Iterations))"
proof -
  have n: "kPasswordPbkdf2Iterations \<noteq> 0" by (simp add: kPasswordPbkdf2Iterations_def)
  have prefix: "kCredentialPrefix \<noteq> []" by (simp add: kCredentialPrefix_def ascii_def)
  show ?thesis
    unfolding VerifyPassword_def PasswordVerifierKind.case Pbkdf2_VerifyPassword_iff credential_text [OF n]
    using prefix by (cases password) (auto split: if_splits)
qed

end
