(* ===== verification/Auth_Service.thy ===== *)
theory Auth_Service
  imports Password_Credential
begin

text \<open>
  \<open>libs/auth/src/auth.cpp\<close>, \<open>auth_internal.cpp\<close>, and the users in memory of \<open>auth_users.cpp\<close>: logins, sessions with
  their tokens, lockout after failed logins, and permissions. The clocks and the random source are
  arguments: \<open>now\<close> is the monotonic clock during an operation, and the random source is the list of its next
  answers, after which it fails (an empty string is its failure). \<open>std::map\<close>s are association lists in the order of their keys.
  Every operation is one step; the code takes its lock for parts of an operation. Audit records are left out.
\<close>

section \<open>Data\<close>

datatype AuthRole = RoleAdmin | RoleOperator | RoleViewer

datatype AuthPermission = PermReadStatus | PermPreviewVideo | PermModifyConfig | PermUpgrade | PermReboot | PermFactoryReset | PermManageUsers

record Principal =
  pr_user_name :: bytes
  pr_session_id :: bytes
  pr_role :: AuthRole
  pr_must_change_password :: bool

definition no_principal :: Principal where
  "no_principal = \<lparr>pr_user_name = [], pr_session_id = [], pr_role = RoleViewer, pr_must_change_password = False\<rparr>"

record AuthUserRecord =
  ur_user_name :: bytes
  ur_password_credential :: bytes
  ur_role :: AuthRole
  ur_enabled :: bool
  ur_must_change_password :: bool

definition no_user :: AuthUserRecord where
  "no_user = \<lparr>ur_user_name = [], ur_password_credential = [], ur_role = RoleViewer, ur_enabled = True, ur_must_change_password = False\<rparr>"

record AuthLoginResult =
  al_principal :: Principal
  al_token :: bytes
  al_expires_at_ms :: int
  al_must_change_password :: bool

definition no_login :: AuthLoginResult where
  "no_login = \<lparr>al_principal = no_principal, al_token = [], al_expires_at_ms = 0, al_must_change_password = False\<rparr>"

record TokenValidationResult =
  tv_principal :: Principal
  tv_expires_at_ms :: int
  tv_must_change_password :: bool

definition no_validation :: TokenValidationResult where
  "no_validation = \<lparr>tv_principal = no_principal, tv_expires_at_ms = 0, tv_must_change_password = False\<rparr>"

record AuthOptions =
  ao_token_ttl_seconds :: nat
  ao_max_sessions :: nat
  ao_max_sessions_per_user :: nat
  ao_lockout_failures :: nat
  ao_lockout_seconds :: nat
  ao_password_min_length :: nat
  ao_password_require_number :: bool
  ao_password_require_symbol :: bool

definition default_auth_options :: AuthOptions where
  "default_auth_options = \<lparr>ao_token_ttl_seconds = 1800, ao_max_sessions = 16, ao_max_sessions_per_user = 4, ao_lockout_failures = 5,
     ao_lockout_seconds = 300, ao_password_min_length = 1, ao_password_require_number = False, ao_password_require_symbol = False\<rparr>"

record AuthStats =
  as_login_success :: nat
  as_login_failed :: nat
  as_token_validation_failed :: nat
  as_expired_sessions :: nat
  as_lockouts :: nat
  as_config_applies :: nat
  as_config_apply_failures :: nat
  as_active_sessions :: nat

record FailureRecord =
  fr_failures :: nat
  fr_locked_until_ms :: int

record SessionRecord =
  se_principal :: Principal
  se_token :: bytes
  se_created_at_monotonic_ms :: int
  se_expires_at_monotonic_ms :: int
  se_expires_at_ms :: int
  se_must_change_password :: bool

text \<open>The service: \<open>AuthImpl\<close> with its users.\<close>

record Auth =
  au_options :: AuthOptions
  au_users :: "(bytes \<times> AuthUserRecord) list"
  au_verifier :: PasswordVerifierKind
  au_sessions :: "(bytes \<times> SessionRecord) list"
  au_failures :: "(bytes \<times> FailureRecord) list"
  au_stats :: AuthStats
  au_initialized :: bool
  au_started :: bool

text \<open>\<open>m[key] = value\<close> and \<open>erase\<close> on a map in key order.\<close>

fun key_set :: "bytes \<Rightarrow> 'a \<Rightarrow> (bytes \<times> 'a) list \<Rightarrow> (bytes \<times> 'a) list" where
  "key_set k v [] = [(k, v)]"
| "key_set k v ((k', v') # m) =
     (if k = k' then (k, v) # m else if k < k' then (k, v) # (k', v') # m else (k', v') # key_set k v m)"

definition key_erase :: "bytes \<Rightarrow> (bytes \<times> 'a) list \<Rightarrow> (bytes \<times> 'a) list" where
  "key_erase k m = filter (\<lambda>e. fst e \<noteq> k) m"

section \<open>Rules\<close>

definition kMaxUserNameLength :: nat where "kMaxUserNameLength = 64"
definition kMaxTokenLength :: nat where "kMaxTokenLength = 256"
definition kMaxTargetLength :: nat where "kMaxTargetLength = 128"

definition IsEmptyOrTooLong :: "bytes \<Rightarrow> nat \<Rightarrow> bool" where
  "IsEmptyOrTooLong value max_length \<longleftrightarrow> value = [] \<or> length value > max_length"

definition ParseRole :: "bytes \<Rightarrow> AuthRole option" where
  "ParseRole role =
     (if role = ascii ''admin'' then Some RoleAdmin else if role = ascii ''operator'' then Some RoleOperator
      else if role = ascii ''viewer'' then Some RoleViewer else None)"

fun IsPermissionAllowed :: "AuthRole \<Rightarrow> AuthPermission \<Rightarrow> bool" where
  "IsPermissionAllowed RoleAdmin permission = True"
| "IsPermissionAllowed RoleOperator permission = (permission = PermReadStatus \<or> permission = PermPreviewVideo \<or> permission = PermModifyConfig)"
| "IsPermissionAllowed RoleViewer permission = (permission = PermReadStatus \<or> permission = PermPreviewVideo)"

definition IsValidPolicy :: "AuthOptions \<Rightarrow> bool" where
  "IsValidPolicy options \<longleftrightarrow> ao_token_ttl_seconds options > 0 \<and> ao_max_sessions options > 0 \<and> ao_max_sessions_per_user options > 0
     \<and> ao_password_min_length options \<le> kMaxPasswordLength"

definition ContainsDigit :: "bytes \<Rightarrow> bool" where
  "ContainsDigit value \<longleftrightarrow> list_ex (\<lambda>c. 0x30 \<le> c \<and> c \<le> 0x39) value"

definition is_alnum :: "u8 \<Rightarrow> bool" where
  "is_alnum c \<longleftrightarrow> 0x30 \<le> c \<and> c \<le> 0x39 \<or> 0x41 \<le> c \<and> c \<le> 0x5a \<or> 0x61 \<le> c \<and> c \<le> 0x7a"

definition ContainsSymbol :: "bytes \<Rightarrow> bool" where
  "ContainsSymbol value \<longleftrightarrow> list_ex (\<lambda>c. \<not> is_alnum c) value"

definition IsValidNewPassword :: "bytes \<Rightarrow> AuthOptions \<Rightarrow> bool" where
  "IsValidNewPassword password options =
     (if password = [] \<or> length password > kMaxPasswordLength \<or> length password < ao_password_min_length options then False
      else if ao_password_require_number options \<and> \<not> ContainsDigit password then False
      else if ao_password_require_symbol options \<and> \<not> ContainsSymbol password then False
      else True)"

text \<open>\<open>GeneratePasswordCredential\<close>, \<open>SystemRandomSessionId\<close> with the hexadecimal string that \<open>SystemRandomHex\<close> returns.\<close>

definition GeneratePasswordCredential :: "bytes \<Rightarrow> bytes \<Rightarrow> bytes" where
  "GeneratePasswordCredential password salt_hex =
     (if salt_hex = [] then [] else Pbkdf2Sha256Credential password salt_hex kPasswordPbkdf2Iterations)"

definition SystemRandomSessionId :: "bytes \<Rightarrow> bytes" where
  "SystemRandomSessionId random = (if random = [] then [] else ascii ''auth-'' @ random)"

section \<open>Users in memory\<close>

definition FindUser :: "bytes \<Rightarrow> (bytes \<times> AuthUserRecord) list \<Rightarrow> AuthUserRecord" where
  "FindUser user_name users = (case map_of users user_name of None \<Rightarrow> no_user | Some u \<Rightarrow> u)"

definition UpdatePassword :: "bytes \<Rightarrow> bytes \<Rightarrow> bool \<Rightarrow> (bytes \<times> AuthUserRecord) list \<Rightarrow> (bytes \<times> AuthUserRecord) list \<times> bool" where
  "UpdatePassword user_name password_credential must_change users =
     (case map_of users user_name of
        None \<Rightarrow> (users, False)
      | Some u \<Rightarrow>
          if password_credential = [] then (users, False)
          else (key_set user_name (u\<lparr>ur_password_credential := password_credential, ur_must_change_password := must_change\<rparr>) users, True))"

section \<open>Sessions and lockout\<close>

definition IsStarted :: "Auth \<Rightarrow> bool" where
  "IsStarted a \<longleftrightarrow> au_initialized a \<and> au_started a"

definition Auth_Stop :: "Auth \<Rightarrow> Auth" where
  "Auth_Stop a = a\<lparr>au_started := False\<rparr>"

definition Auth_Release :: "Auth \<Rightarrow> Auth" where
  "Auth_Release a = a\<lparr>au_sessions := [], au_failures := [], au_initialized := False, au_started := False\<rparr>"

definition CheckLockout :: "int \<Rightarrow> bytes \<Rightarrow> Auth \<Rightarrow> Auth \<times> bool" where
  "CheckLockout now user_name a =
     (case map_of (au_failures a) user_name of
        None \<Rightarrow> (a, True)
      | Some failure \<Rightarrow>
          if fr_locked_until_ms failure > now then (a, False)
          else if fr_locked_until_ms failure \<noteq> 0 then (a\<lparr>au_failures := key_erase user_name (au_failures a)\<rparr>, True)
          else (a, True))"

definition RegisterFailedAttempt :: "int \<Rightarrow> bytes \<Rightarrow> Auth \<Rightarrow> Auth" where
  "RegisterFailedAttempt now user_name a =
     (let a = a\<lparr>au_stats := (au_stats a)\<lparr>as_login_failed := as_login_failed (au_stats a) + 1\<rparr>\<rparr> in
      if ao_lockout_failures (au_options a) = 0 \<or> ao_lockout_seconds (au_options a) = 0 then a
      else
        let failure = (case map_of (au_failures a) user_name of None \<Rightarrow> \<lparr>fr_failures = 0, fr_locked_until_ms = 0\<rparr> | Some f \<Rightarrow> f) in
        if fr_locked_until_ms failure > now then a\<lparr>au_failures := key_set user_name failure (au_failures a)\<rparr>
        else
          let failure = failure\<lparr>fr_failures := fr_failures failure + 1\<rparr> in
          if fr_failures failure \<ge> ao_lockout_failures (au_options a)
          then a\<lparr>au_failures := key_set user_name (failure\<lparr>fr_locked_until_ms := now + int (ao_lockout_seconds (au_options a)) * 1000, fr_failures := 0\<rparr>)
                   (au_failures a),
                 au_stats := (au_stats a)\<lparr>as_lockouts := as_lockouts (au_stats a) + 1\<rparr>\<rparr>
          else a\<lparr>au_failures := key_set user_name failure (au_failures a)\<rparr>)"

definition ClearFailedAttempts :: "bytes \<Rightarrow> Auth \<Rightarrow> Auth" where
  "ClearFailedAttempts user_name a = a\<lparr>au_failures := key_erase user_name (au_failures a)\<rparr>"

definition PruneExpiredSessionsLocked :: "int \<Rightarrow> Auth \<Rightarrow> Auth" where
  "PruneExpiredSessionsLocked now a =
     (let expired = filter (\<lambda>e. se_expires_at_monotonic_ms (snd e) \<le> now) (au_sessions a)
      in a\<lparr>au_sessions := filter (\<lambda>e. \<not> se_expires_at_monotonic_ms (snd e) \<le> now) (au_sessions a),
           au_stats := (au_stats a)\<lparr>as_expired_sessions := as_expired_sessions (au_stats a) + length expired\<rparr>\<rparr>)"

definition UserSessionSizeLocked :: "bytes \<Rightarrow> (bytes \<times> SessionRecord) list \<Rightarrow> nat" where
  "UserSessionSizeLocked user_name sessions = length (filter (\<lambda>e. pr_user_name (se_principal (snd e)) = user_name) sessions)"

text \<open>The loop that finds the oldest session of a user; among equal ones the first.\<close>

fun OldestLoop :: "bytes \<Rightarrow> (bytes \<times> SessionRecord) list \<Rightarrow> (bytes \<times> SessionRecord) option \<Rightarrow> (bytes \<times> SessionRecord) option" where
  "OldestLoop user_name [] oldest = oldest"
| "OldestLoop user_name (e # es) oldest =
     (if pr_user_name (se_principal (snd e)) \<noteq> user_name then OldestLoop user_name es oldest
      else
        case oldest of
          None \<Rightarrow> OldestLoop user_name es (Some e)
        | Some b \<Rightarrow> OldestLoop user_name es
            (if se_created_at_monotonic_ms (snd e) < se_created_at_monotonic_ms (snd b) then Some e else oldest))"

definition RemoveOldestUserSessionLocked :: "bytes \<Rightarrow> (bytes \<times> SessionRecord) list \<Rightarrow> (bytes \<times> SessionRecord) list option" where
  "RemoveOldestUserSessionLocked user_name sessions =
     (case OldestLoop user_name sessions None of None \<Rightarrow> None | Some e \<Rightarrow> Some (key_erase (fst e) sessions))"

lemma OldestLoop_mem: "OldestLoop user_name es oldest = Some e \<Longrightarrow> e \<in> set es \<or> oldest = Some e"
proof (induction user_name es oldest rule: OldestLoop.induct)
  case (2 user_name e' es oldest)
  then show ?case by (auto split: if_splits option.splits)
qed simp

lemma RemoveOldest_shrinks: "RemoveOldestUserSessionLocked user_name sessions = Some sessions' \<Longrightarrow> length sessions' < length sessions"
  by (auto simp: RemoveOldestUserSessionLocked_def key_erase_def split: option.splits dest!: OldestLoop_mem intro!: length_filter_less)

text \<open>The loop \<open>while (UserSessionSizeLocked(user) >= limit)\<close>; the removal fails when the user has no session.\<close>

function EnforceLoop :: "nat \<Rightarrow> bytes \<Rightarrow> (bytes \<times> SessionRecord) list \<Rightarrow> (bytes \<times> SessionRecord) list" where
  "EnforceLoop limit user_name sessions =
     (if UserSessionSizeLocked user_name sessions \<ge> limit
      then (case RemoveOldestUserSessionLocked user_name sessions of None \<Rightarrow> sessions | Some sessions' \<Rightarrow> EnforceLoop limit user_name sessions')
      else sessions)"
  by pat_completeness auto
termination
  by (relation "measure (\<lambda>(limit, user_name, sessions). length sessions)") (auto dest: RemoveOldest_shrinks)

declare EnforceLoop.simps [simp del]

definition EnforceUserSessionLimitLocked :: "bytes \<Rightarrow> Auth \<Rightarrow> Auth" where
  "EnforceUserSessionLimitLocked user_name a =
     a\<lparr>au_sessions := EnforceLoop (ao_max_sessions_per_user (au_options a)) user_name (au_sessions a)\<rparr>"

text \<open>The users with sessions in the order of the map \<open>seen\<close>; here the test is \<open>>\<close>.\<close>

definition EnforcePerUserSessionLimitLocked :: "Auth \<Rightarrow> Auth" where
  "EnforcePerUserSessionLimitLocked a =
     (let seen = map fst (foldl (\<lambda>m e. key_set (pr_user_name (se_principal (snd e))) True m) [] (au_sessions a))
      in a\<lparr>au_sessions := foldl (\<lambda>sessions user. EnforceLoop (ao_max_sessions_per_user (au_options a) + 1) user sessions) (au_sessions a) seen\<rparr>)"

definition ContainsSessionIdLocked :: "bytes \<Rightarrow> (bytes \<times> SessionRecord) list \<Rightarrow> bool" where
  "ContainsSessionIdLocked session_id sessions \<longleftrightarrow> list_ex (\<lambda>e. pr_session_id (se_principal (snd e)) = session_id) sessions"

text \<open>The random strings an operation may draw: tokens, the random parts of session identifiers, and a salt.\<close>

record AuthRandom =
  ra_tokens :: "bytes list"
  ra_session_ids :: "bytes list"
  ra_salt :: bytes

fun draw :: "bytes list \<Rightarrow> bytes \<times> bytes list" where
  "draw [] = ([], [])"
| "draw (r # rs) = (r, rs)"

text \<open>The loops that draw again while a token or session identifier is in use.\<close>

fun TokenLoop :: "(bytes \<times> SessionRecord) list \<Rightarrow> bytes \<Rightarrow> bytes list \<Rightarrow> bytes option" where
  "TokenLoop sessions token [] = (if map_of sessions token = None then Some token else None)"
| "TokenLoop sessions token (t # ts) =
     (if map_of sessions token = None then Some token else if t = [] then None else TokenLoop sessions t ts)"

fun SessionIdLoop :: "(bytes \<times> SessionRecord) list \<Rightarrow> bytes \<Rightarrow> bytes list \<Rightarrow> bytes option" where
  "SessionIdLoop sessions session_id [] = (if \<not> ContainsSessionIdLocked session_id sessions then Some session_id else None)"
| "SessionIdLoop sessions session_id (r # rs) =
     (if \<not> ContainsSessionIdLocked session_id sessions then Some session_id
      else if SystemRandomSessionId r = [] then None else SessionIdLoop sessions (SystemRandomSessionId r) rs)"

definition CreateSession :: "int \<Rightarrow> int \<Rightarrow> AuthRandom \<Rightarrow> AuthUserRecord \<Rightarrow> Auth \<Rightarrow> Auth \<times> AuthLoginResult option" where
  "CreateSession now wall_now rnd user a =
     (case draw (ra_tokens rnd) of (token, tokens) \<Rightarrow>
        if token = [] then (a, None)
        else case draw (ra_session_ids rnd) of (random, session_ids) \<Rightarrow>
          if SystemRandomSessionId random = [] then (a, None)
          else
            let a = EnforceUserSessionLimitLocked (ur_user_name user) (PruneExpiredSessionsLocked now a) in
            if length (au_sessions a) \<ge> ao_max_sessions (au_options a) then (a, None)
            else
              case TokenLoop (au_sessions a) token tokens of
                None \<Rightarrow> (a, None)
              | Some token \<Rightarrow>
                  (case SessionIdLoop (au_sessions a) (SystemRandomSessionId random) session_ids of
                     None \<Rightarrow> (a, None)
                   | Some session_id \<Rightarrow>
                       let ttl_ms = int (ao_token_ttl_seconds (au_options a)) * 1000;
                           who = \<lparr>pr_user_name = ur_user_name user, pr_session_id = session_id, pr_role = ur_role user,
                             pr_must_change_password = ur_must_change_password user\<rparr>;
                           session = \<lparr>se_principal = who, se_token = token, se_created_at_monotonic_ms = now,
                             se_expires_at_monotonic_ms = now + ttl_ms, se_expires_at_ms = wall_now + ttl_ms,
                             se_must_change_password = ur_must_change_password user\<rparr>
                       in (a\<lparr>au_sessions := key_set token session (au_sessions a)\<rparr>,
                           Some \<lparr>al_principal = who, al_token = token, al_expires_at_ms = wall_now + ttl_ms,
                             al_must_change_password = ur_must_change_password user\<rparr>)))"

section \<open>Operations\<close>

text \<open>The configuration document as the reader of JSON delivers it; \<open>None\<close> when a field is missing or has a wrong type or range.\<close>

record UserConfig =
  uc_min_length :: nat
  uc_require_number :: bool
  uc_require_symbol :: bool
  uc_lockout_failures :: nat
  uc_lockout_seconds :: nat
  uc_token_ttl_seconds :: nat
  uc_max_sessions_per_user :: nat

definition ParseUserConfig :: "UserConfig option \<Rightarrow> AuthOptions \<Rightarrow> AuthOptions option" where
  "ParseUserConfig value fallback =
     (case value of
        None \<Rightarrow> None
      | Some c \<Rightarrow>
          if uc_token_ttl_seconds c < 1 \<or> uc_max_sessions_per_user c < 1 then None
          else
            let options = fallback\<lparr>ao_password_min_length := uc_min_length c, ao_password_require_number := uc_require_number c,
                  ao_password_require_symbol := uc_require_symbol c, ao_lockout_failures := uc_lockout_failures c,
                  ao_lockout_seconds := uc_lockout_seconds c, ao_token_ttl_seconds := uc_token_ttl_seconds c,
                  ao_max_sessions_per_user := uc_max_sessions_per_user c\<rparr>
            in if \<not> IsValidPolicy options then None else Some options)"

definition VerifyConfig :: "UserConfig option \<Rightarrow> Auth \<Rightarrow> bool" where
  "VerifyConfig value a \<longleftrightarrow> ParseUserConfig value (au_options a) \<noteq> None"

text \<open>The result of \<open>ParseUserConfig\<close> is not looked at: a document it refuses leaves \<open>parsed\<close> with the default options.\<close>

definition ApplyConfigLocked :: "int \<Rightarrow> UserConfig option \<Rightarrow> Auth \<Rightarrow> Auth" where
  "ApplyConfigLocked now value a =
     (let parsed = (case ParseUserConfig value (au_options a) of None \<Rightarrow> default_auth_options | Some options \<Rightarrow> options);
          a = EnforcePerUserSessionLimitLocked (PruneExpiredSessionsLocked now (a\<lparr>au_options := parsed\<rparr>))
      in a\<lparr>au_stats := (au_stats a)\<lparr>as_config_applies := as_config_applies (au_stats a) + 1\<rparr>\<rparr>)"

text \<open>\<open>Prepare\<close> with the document of the configuration service (\<open>None\<close> when there is no object) and whether attaching to it succeeds.\<close>

definition Auth_Prepare :: "int \<Rightarrow> UserConfig option option \<Rightarrow> bool \<Rightarrow> Auth \<Rightarrow> Auth \<times> bool" where
  "Auth_Prepare now config attach_ok a =
     (if au_initialized a then (a, True)
      else if \<not> IsValidPolicy (au_options a) then (a, False)
      else
        let a = (case config of None \<Rightarrow> a | Some value \<Rightarrow> ApplyConfigLocked now value a)
        in if \<not> attach_ok then (a, False) else (a\<lparr>au_initialized := True\<rparr>, True))"

definition Auth_Start :: "int \<Rightarrow> UserConfig option option \<Rightarrow> bool \<Rightarrow> Auth \<Rightarrow> Auth \<times> bool" where
  "Auth_Start now config attach_ok a =
     (case Auth_Prepare now config attach_ok a of
        (a, False) \<Rightarrow> (a, False)
      | (a, True) \<Rightarrow> (a\<lparr>au_started := True\<rparr>, True))"

definition Login :: "int \<Rightarrow> int \<Rightarrow> AuthRandom \<Rightarrow> bytes \<Rightarrow> bytes \<Rightarrow> Auth \<Rightarrow> Auth \<times> AuthLoginResult" where
  "Login now wall_now rnd user_name password a =
     (if IsEmptyOrTooLong user_name kMaxUserNameLength \<or> length password > kMaxPasswordLength then (a, no_login)
      else if \<not> IsStarted a then (a, no_login)
      else case CheckLockout now user_name a of
        (a, False) \<Rightarrow> (a, no_login)
      | (a, True) \<Rightarrow>
          let user = FindUser user_name (au_users a) in
          if ur_user_name user = [] \<or> \<not> ur_enabled user then (RegisterFailedAttempt now user_name a, no_login)
          else if \<not> VerifyPassword (au_verifier a) password (ur_password_credential user)
          then (RegisterFailedAttempt now user_name a, no_login)
          else case CreateSession now wall_now rnd user a of
            (a, None) \<Rightarrow> (a, no_login)
          | (a, Some result) \<Rightarrow>
              let a = ClearFailedAttempts user_name a
              in (a\<lparr>au_stats := (au_stats a)\<lparr>as_login_success := as_login_success (au_stats a) + 1\<rparr>\<rparr>, result))"

definition Logout :: "bytes \<Rightarrow> Auth \<Rightarrow> Auth \<times> bool" where
  "Logout session_id a =
     (if session_id = [] \<or> \<not> IsStarted a then (a, False)
      else case find (\<lambda>e. pr_session_id (se_principal (snd e)) = session_id) (au_sessions a) of
        None \<Rightarrow> (a, False)
      | Some e \<Rightarrow> (a\<lparr>au_sessions := key_erase (fst e) (au_sessions a)\<rparr>, True))"

definition ValidateToken :: "int \<Rightarrow> bytes \<Rightarrow> Auth \<Rightarrow> Auth \<times> TokenValidationResult" where
  "ValidateToken now token a =
     (if IsEmptyOrTooLong token kMaxTokenLength \<or> \<not> IsStarted a then (a, no_validation)
      else case map_of (au_sessions a) token of
        None \<Rightarrow> (a\<lparr>au_stats := (au_stats a)\<lparr>as_token_validation_failed := as_token_validation_failed (au_stats a) + 1\<rparr>\<rparr>, no_validation)
      | Some session \<Rightarrow>
          if se_expires_at_monotonic_ms session \<le> now
          then (a\<lparr>au_sessions := key_erase token (au_sessions a),
                  au_stats := (au_stats a)\<lparr>as_token_validation_failed := as_token_validation_failed (au_stats a) + 1,
                    as_expired_sessions := as_expired_sessions (au_stats a) + 1\<rparr>\<rparr>, no_validation)
          else (a, \<lparr>tv_principal = se_principal session, tv_expires_at_ms = se_expires_at_ms session,
                    tv_must_change_password = se_must_change_password session\<rparr>))"

definition IsSessionActive :: "int \<Rightarrow> bytes \<Rightarrow> bytes \<Rightarrow> Auth \<Rightarrow> Auth \<times> bool" where
  "IsSessionActive now user_name session_id a =
     (let a = PruneExpiredSessionsLocked now a
      in (a, list_ex (\<lambda>e. pr_user_name (se_principal (snd e)) = user_name \<and> pr_session_id (se_principal (snd e)) = session_id) (au_sessions a)))"

fun AcceptLoop :: "bytes \<Rightarrow> bytes \<Rightarrow> (bytes \<times> SessionRecord) list \<Rightarrow> (bytes \<times> SessionRecord) list" where
  "AcceptLoop user_name session_id [] = []"
| "AcceptLoop user_name session_id (e # es) =
     (if pr_user_name (se_principal (snd e)) \<noteq> user_name then e # AcceptLoop user_name session_id es
      else if pr_session_id (se_principal (snd e)) = session_id
      then (fst e, (snd e)\<lparr>se_must_change_password := False, se_principal := (se_principal (snd e))\<lparr>pr_must_change_password := False\<rparr>\<rparr>)
             # AcceptLoop user_name session_id es
      else AcceptLoop user_name session_id es)"

definition AcceptChangedPasswordSession :: "bytes \<Rightarrow> bytes \<Rightarrow> Auth \<Rightarrow> Auth" where
  "AcceptChangedPasswordSession user_name session_id a = a\<lparr>au_sessions := AcceptLoop user_name session_id (au_sessions a)\<rparr>"

definition ChangePassword :: "int \<Rightarrow> AuthRandom \<Rightarrow> bytes \<Rightarrow> bytes \<Rightarrow> bytes \<Rightarrow> bytes \<Rightarrow> Auth \<Rightarrow> Auth \<times> bool" where
  "ChangePassword now rnd user_name session_id old_password new_password a =
     (if IsEmptyOrTooLong user_name kMaxUserNameLength \<or> IsEmptyOrTooLong session_id kMaxTokenLength
         \<or> length old_password > kMaxPasswordLength then (a, False)
      else if \<not> IsStarted a then (a, False)
      else if \<not> IsValidNewPassword new_password (au_options a) then (a, False)
      else case IsSessionActive now user_name session_id a of
        (a, False) \<Rightarrow> (a, False)
      | (a, True) \<Rightarrow>
          let user = FindUser user_name (au_users a) in
          if ur_user_name user = [] \<or> \<not> ur_enabled user then (a, False)
          else if \<not> VerifyPassword (au_verifier a) old_password (ur_password_credential user) then (a, False)
          else
            let credential = GeneratePasswordCredential new_password (ra_salt rnd) in
            if credential = [] then (a, False)
            else case UpdatePassword (ur_user_name user) credential False (au_users a) of
              (users, False) \<Rightarrow> (a\<lparr>au_users := users\<rparr>, False)
            | (users, True) \<Rightarrow>
                (AcceptChangedPasswordSession user_name session_id (ClearFailedAttempts (ur_user_name user) (a\<lparr>au_users := users\<rparr>)), True))"

definition CheckPermission :: "Principal \<Rightarrow> AuthPermission \<Rightarrow> bytes \<Rightarrow> Auth \<Rightarrow> bool" where
  "CheckPermission who permission target a =
     (if IsEmptyOrTooLong (pr_user_name who) kMaxUserNameLength \<or> IsEmptyOrTooLong (pr_session_id who) kMaxTokenLength
         \<or> length target > kMaxTargetLength then False
      else if \<not> IsStarted a then False
      else if pr_must_change_password who then False
      else IsPermissionAllowed (pr_role who) permission)"

definition Auth_GetStats :: "Auth \<Rightarrow> AuthStats" where
  "Auth_GetStats a = (au_stats a)\<lparr>as_active_sessions := length (au_sessions a)\<rparr>"

end
