(* ===== verification/Auth_Security.thy ===== *)
theory Auth_Security
  imports Auth_Service "HOL-Library.Multiset" "HOL-Library.Sublist"
begin

text \<open>
  What the authentication service of \<open>Auth_Service\<close> guarantees over all sequences of its operations: the session table,
  where a valid token comes from, the bound on guessing passwords, and the effect of a change of password.
\<close>

section \<open>Runs\<close>

datatype AuthOp =
  OpStart int "UserConfig option option" bool
| OpStop
| OpRelease
| OpLogin int int AuthRandom bytes bytes
| OpLogout bytes
| OpValidate int bytes
| OpChangePassword int AuthRandom bytes bytes bytes bytes
| OpConfig int "UserConfig option"

fun auth_step :: "AuthOp \<Rightarrow> Auth \<Rightarrow> Auth" where
  "auth_step (OpStart now config attach_ok) a = fst (Auth_Start now config attach_ok a)"
| "auth_step OpStop a = Auth_Stop a"
| "auth_step OpRelease a = Auth_Release a"
| "auth_step (OpLogin now wall_now rnd user_name password) a = fst (Login now wall_now rnd user_name password a)"
| "auth_step (OpLogout session_id) a = fst (Logout session_id a)"
| "auth_step (OpValidate now token) a = fst (ValidateToken now token a)"
| "auth_step (OpChangePassword now rnd user_name session_id old new) a = fst (ChangePassword now rnd user_name session_id old new a)"
| "auth_step (OpConfig now value) a = ApplyConfigLocked now value a"

definition auth_run :: "AuthOp list \<Rightarrow> Auth \<Rightarrow> Auth" where
  "auth_run ops a = foldl (\<lambda>a op. auth_step op a) a ops"

lemma auth_run_simps [simp]: "auth_run [] a = a" "auth_run (ops @ [op]) a = auth_step op (auth_run ops a)"
  by (simp_all add: auth_run_def)

definition Auth_new :: "AuthOptions \<Rightarrow> AuthUserRecord list \<Rightarrow> PasswordVerifierKind \<Rightarrow> Auth" where
  "Auth_new options users kind =
     \<lparr>au_options = options, au_users = foldl (\<lambda>m u. key_set (ur_user_name u) u m) [] users, au_verifier = kind, au_sessions = [],
      au_failures = [], au_stats = \<lparr>as_login_success = 0, as_login_failed = 0, as_token_validation_failed = 0, as_expired_sessions = 0,
        as_lockouts = 0, as_config_applies = 0, as_config_apply_failures = 0, as_active_sessions = 0\<rparr>,
      au_initialized = False, au_started = False\<rparr>"

section \<open>Maps\<close>

lemma key_set_map_of: "map_of (key_set k v m) = (map_of m)(k \<mapsto> v)"
  by (induction k v m rule: key_set.induct) (auto simp: fun_eq_iff)

lemma key_erase_map_of: "map_of (key_erase k m) = (map_of m)(k := None)"
  by (induction m) (auto simp: key_erase_def fun_eq_iff)

lemma key_set_fresh: "k \<notin> fst ` set m \<Longrightarrow> mset (key_set k v m) = add_mset (k, v) (mset m)"
  by (induction k v m rule: key_set.induct) auto

lemma key_set_sorted: "sorted_wrt (<) (map fst m) \<Longrightarrow> sorted_wrt (<) (map fst (key_set k v m))"
proof (induction k v m rule: key_set.induct)
  case (2 k v k' v' m)
  have "fst ` set (key_set k v m) = insert k (fst ` set m)" by (induction k v m rule: key_set.induct) auto
  with 2 show ?case by (auto simp: not_less)
qed simp

lemma map_of_fresh: "map_of m k = None \<longleftrightarrow> k \<notin> fst ` set m"
  by (simp add: map_of_eq_None_iff)

section \<open>The session table\<close>

abbreviation owner :: "bytes \<times> SessionRecord \<Rightarrow> bytes" where "owner e \<equiv> pr_user_name (se_principal (snd e))"
abbreviation sid :: "bytes \<times> SessionRecord \<Rightarrow> bytes" where "sid e \<equiv> pr_session_id (se_principal (snd e))"

definition table_inv :: "(bytes \<times> SessionRecord) list \<Rightarrow> bool" where
  "table_inv m \<longleftrightarrow> sorted_wrt (<) (map fst m) \<and> distinct (map sid m) \<and> list_all (\<lambda>e. se_token (snd e) = fst e \<and> fst e \<noteq> [] \<and> sid e \<noteq> []) m"

lemma subseq_sorted_wrt: "subseq xs ys \<Longrightarrow> sorted_wrt R ys \<Longrightarrow> sorted_wrt R xs"
proof (induction rule: list_emb.induct)
  case (list_emb_Cons2 x y xs ys)
  then show ?case by (auto dest: list_emb_set)
qed simp_all

lemma subseq_distinct: "subseq xs ys \<Longrightarrow> distinct ys \<Longrightarrow> distinct xs"
  unfolding distinct_conv_nth [abs_def] sorted_wrt_iff_nth_less [symmetric] using subseq_sorted_wrt [of xs ys "(\<noteq>)"]
  by (auto simp: sorted_wrt_iff_nth_less nat_neq_iff) metis

lemma subseq_members: "subseq xs ys \<Longrightarrow> set xs \<subseteq> set ys"
  by (auto dest: list_emb_set)

lemma table_inv_subseq: "subseq m' m \<Longrightarrow> table_inv m \<Longrightarrow> table_inv m'"
proof -
  assume sub: "subseq m' m" and inv: "table_inv m"
  have "subseq (map f m') (map f m)" for f :: "_ \<Rightarrow> bytes" using sub by (rule subseq_map)
  then have "sorted_wrt (<) (map fst m')" "distinct (map sid m')"
    using inv by (auto simp: table_inv_def dest: subseq_sorted_wrt subseq_distinct)
  moreover have "set m' \<subseteq> set m" using sub by (rule subseq_members)
  ultimately show ?thesis using inv by (auto simp: table_inv_def list_all_iff)
qed

lemma UserSessionSize_subseq: "subseq m' m \<Longrightarrow> UserSessionSizeLocked u m' \<le> UserSessionSizeLocked u m"
  unfolding UserSessionSizeLocked_def by (intro list_emb_length [of "(=)"] subseq_filter)

lemma subseq_key_erase: "subseq (key_erase k m) m"
  by (simp add: key_erase_def)

lemma EnforceLoop_subseq: "subseq (EnforceLoop limit u m) m"
proof (induction limit u m rule: EnforceLoop.induct)
  case (1 limit u m)
  show ?case
  proof (cases "UserSessionSizeLocked u m \<ge> limit \<and> RemoveOldestUserSessionLocked u m \<noteq> None")
    case True
    then obtain m' where m': "RemoveOldestUserSessionLocked u m = Some m'" by blast
    then have "subseq m' m" by (auto simp: RemoveOldestUserSessionLocked_def subseq_key_erase split: option.splits)
    moreover have "subseq (EnforceLoop limit u m') m'" using 1 True m' by blast
    ultimately show ?thesis using True m' by (subst EnforceLoop.simps) (auto intro: subseq_order.trans)
  next
    case False
    then show ?thesis by (subst EnforceLoop.simps) (auto split: option.splits)
  qed
qed

lemma OldestLoop_None: "OldestLoop u es oldest = None \<longleftrightarrow> oldest = None \<and> UserSessionSizeLocked u es = 0"
proof (induction u es oldest rule: OldestLoop.induct)
  case (2 u e es oldest)
  then show ?case by (cases oldest) (auto simp: UserSessionSizeLocked_def)
qed (simp add: UserSessionSizeLocked_def)

lemma EnforceLoop_size: "0 < limit \<Longrightarrow> UserSessionSizeLocked u (EnforceLoop limit u m) < limit"
proof (induction limit u m rule: EnforceLoop.induct)
  case (1 limit u m)
  show ?case
  proof (cases "UserSessionSizeLocked u m \<ge> limit")
    case True
    then obtain m' where "RemoveOldestUserSessionLocked u m = Some m'"
      using 1(2) OldestLoop_None [of u m None] by (cases "OldestLoop u m None") (auto simp: RemoveOldestUserSessionLocked_def)
    with 1 True show ?thesis by (subst EnforceLoop.simps) simp
  next
    case False
    then show ?thesis by (subst EnforceLoop.simps) simp
  qed
qed

lemma AcceptLoop_map:
  "AcceptLoop u i m = map (\<lambda>e. if owner e = u then (fst e, (snd e)\<lparr>se_must_change_password := False,
       se_principal := (se_principal (snd e))\<lparr>pr_must_change_password := False\<rparr>\<rparr>) else e) (filter (\<lambda>e. owner e \<noteq> u \<or> sid e = i) m)"
  by (induction u i m rule: AcceptLoop.induct) auto

lemma Prune_subseq: "subseq (au_sessions (PruneExpiredSessionsLocked now a)) (au_sessions a)"
  by (simp add: PruneExpiredSessionsLocked_def Let_def)

lemma Prune_parts [simp]:
  "au_options (PruneExpiredSessionsLocked now a) = au_options a" "au_users (PruneExpiredSessionsLocked now a) = au_users a"
  "au_verifier (PruneExpiredSessionsLocked now a) = au_verifier a" "au_failures (PruneExpiredSessionsLocked now a) = au_failures a"
  "au_initialized (PruneExpiredSessionsLocked now a) = au_initialized a" "au_started (PruneExpiredSessionsLocked now a) = au_started a"
  by (simp_all add: PruneExpiredSessionsLocked_def Let_def)

lemma foldl_Enforce_subseq: "subseq (foldl (\<lambda>m u. EnforceLoop limit u m) m us) m"
proof (induction us arbitrary: m)
  case (Cons u us)
  then show ?case using EnforceLoop_subseq [of limit u m] subseq_order.trans by fastforce
qed simp

lemma EnforcePerUser_parts [simp]:
  "au_options (EnforcePerUserSessionLimitLocked a) = au_options a" "au_users (EnforcePerUserSessionLimitLocked a) = au_users a"
  "au_verifier (EnforcePerUserSessionLimitLocked a) = au_verifier a" "au_failures (EnforcePerUserSessionLimitLocked a) = au_failures a"
  "au_initialized (EnforcePerUserSessionLimitLocked a) = au_initialized a" "au_started (EnforcePerUserSessionLimitLocked a) = au_started a"
  by (simp_all add: EnforcePerUserSessionLimitLocked_def Let_def)

lemma EnforcePerUser_subseq: "subseq (au_sessions (EnforcePerUserSessionLimitLocked a)) (au_sessions a)"
  by (simp add: EnforcePerUserSessionLimitLocked_def Let_def foldl_Enforce_subseq)

lemma EnforcePerUser_size: "UserSessionSizeLocked u (au_sessions (EnforcePerUserSessionLimitLocked a)) \<le> ao_max_sessions_per_user (au_options a)"
proof -
  let ?limit = "ao_max_sessions_per_user (au_options a) + 1"
  have small: "u \<in> set us \<Longrightarrow> UserSessionSizeLocked u (foldl (\<lambda>m u. EnforceLoop ?limit u m) m us) < ?limit" for us m
  proof (induction us arbitrary: m)
    case (Cons v us)
    show ?case
    proof (cases "u \<in> set us")
      case False
      then have "v = u" using Cons.prems by simp
      then show ?thesis
        using UserSessionSize_subseq [OF foldl_Enforce_subseq [of ?limit "EnforceLoop ?limit u m" us], of u] EnforceLoop_size [of ?limit u m] by simp
    qed (use Cons.IH in simp)
  qed simp
  have seen: "fst ` set (foldl (\<lambda>m e. key_set (owner e) True m) acc es) = fst ` set acc \<union> owner ` set es" for acc :: "(bytes \<times> bool) list" and es
  proof (induction es arbitrary: acc)
    case (Cons e es)
    have "fst ` set (key_set k v m) = insert k (fst ` set m)" for k and v :: bool and m by (induction k v m rule: key_set.induct) auto
    with Cons show ?case by auto
  qed simp
  show ?thesis
  proof (cases "u \<in> owner ` set (au_sessions a)")
    case True
    then show ?thesis using small [of "map fst (foldl (\<lambda>m e. key_set (owner e) True m) [] (au_sessions a))"] seen [of "[]"]
      by (simp add: EnforcePerUserSessionLimitLocked_def Let_def less_Suc_eq_le)
  next
    case False
    then have "UserSessionSizeLocked u (au_sessions a) = 0" by (auto simp: UserSessionSizeLocked_def filter_empty_conv)
    then show ?thesis using UserSessionSize_subseq [OF EnforcePerUser_subseq [of a], of u] by simp
  qed
qed

section \<open>New sessions\<close>

lemma TokenLoop_fresh: "TokenLoop m t ts = Some t' \<Longrightarrow> t \<noteq> [] \<Longrightarrow> t' \<notin> fst ` set m \<and> t' \<noteq> []"
  by (induction m t ts rule: TokenLoop.induct) (auto simp: map_of_eq_None_iff split: if_splits)

lemma SessionIdLoop_fresh: "SessionIdLoop m i rs = Some i' \<Longrightarrow> i \<noteq> [] \<Longrightarrow> i' \<notin> sid ` set m \<and> i' \<noteq> []"
  by (induction m i rs rule: SessionIdLoop.induct) (auto simp: ContainsSessionIdLocked_def list_ex_iff split: if_splits)

definition new_session :: "int \<Rightarrow> AuthOptions \<Rightarrow> AuthLoginResult \<Rightarrow> SessionRecord" where
  "new_session now options r =
     \<lparr>se_principal = al_principal r, se_token = al_token r, se_created_at_monotonic_ms = now,
      se_expires_at_monotonic_ms = now + int (ao_token_ttl_seconds options) * 1000, se_expires_at_ms = al_expires_at_ms r,
      se_must_change_password = al_must_change_password r\<rparr>"

text \<open>What stays the same while the session table changes.\<close>

definition rest_of :: "Auth \<Rightarrow> AuthOptions \<times> (bytes \<times> AuthUserRecord) list \<times> PasswordVerifierKind \<times> bool \<times> bool" where
  "rest_of a = (au_options a, au_users a, au_verifier a, au_initialized a, au_started a)"

lemma rest_of_simps [simp]:
  "rest_of (a\<lparr>au_sessions := m\<rparr>) = rest_of a" "rest_of (a\<lparr>au_stats := st\<rparr>) = rest_of a" "rest_of (a\<lparr>au_failures := fs\<rparr>) = rest_of a"
  "rest_of (PruneExpiredSessionsLocked now a) = rest_of a"
  by (simp_all add: rest_of_def)

definition may_add :: "bytes \<Rightarrow> Auth \<Rightarrow> (bytes \<times> SessionRecord) list \<Rightarrow> AuthLoginResult \<Rightarrow> bool" where
  "may_add u a m r \<longleftrightarrow> al_token r \<notin> fst ` set m \<and> al_token r \<noteq> [] \<and> pr_session_id (al_principal r) \<notin> sid ` set m
     \<and> pr_session_id (al_principal r) \<noteq> [] \<and> length m < ao_max_sessions (au_options a)
     \<and> (0 < ao_max_sessions_per_user (au_options a) \<longrightarrow> UserSessionSizeLocked u m < ao_max_sessions_per_user (au_options a))"

lemma CreateSession_result:
  assumes "CreateSession now wall_now rnd user a = (a', res)"
  shows "rest_of a' = rest_of a \<and> au_failures a' = au_failures a \<and> (\<exists>m. subseq m (au_sessions a) \<and>
     (case res of None \<Rightarrow> au_sessions a' = m
      | Some r \<Rightarrow> may_add (ur_user_name user) a m r \<and> pr_user_name (al_principal r) = ur_user_name user \<and> pr_role (al_principal r) = ur_role user
          \<and> au_sessions a' = key_set (al_token r) (new_session now (au_options a) r) m))"
proof -
  let ?b = "EnforceUserSessionLimitLocked (ur_user_name user) (PruneExpiredSessionsLocked now a)"
  have b: "au_options ?b = au_options a" "rest_of ?b = rest_of a" "au_failures ?b = au_failures a"
    by (simp_all add: EnforceUserSessionLimitLocked_def rest_of_def)
  have sub: "subseq (au_sessions ?b) (au_sessions a)"
    using subseq_order.trans [OF EnforceLoop_subseq Prune_subseq] by (simp add: EnforceUserSessionLimitLocked_def)
  have size: "0 < ao_max_sessions_per_user (au_options a) \<Longrightarrow> UserSessionSizeLocked (ur_user_name user) (au_sessions ?b) < ao_max_sessions_per_user (au_options a)"
    by (simp add: EnforceUserSessionLimitLocked_def EnforceLoop_size)
  obtain token tokens where t: "draw (ra_tokens rnd) = (token, tokens)" by force
  obtain random ids where i: "draw (ra_session_ids rnd) = (random, ids)" by force
  show ?thesis
  proof (cases res)
    case None
    with assms t i b sub show ?thesis
      by (auto simp: CreateSession_def Let_def split: if_splits option.splits)
  next
    case (Some r)
    with assms t i have ne: "token \<noteq> []" "SystemRandomSessionId random \<noteq> []" and room: "length (au_sessions ?b) < ao_max_sessions (au_options a)"
      by (auto simp: CreateSession_def Let_def b not_le split: if_splits option.splits)
    obtain tok i' where tok: "TokenLoop (au_sessions ?b) token tokens = Some tok"
      and i': "SessionIdLoop (au_sessions ?b) (SystemRandomSessionId random) ids = Some i'"
      using assms t i ne room Some by (auto simp: CreateSession_def Let_def b split: if_splits option.splits)
    from assms t i ne room Some tok i' have "a' = ?b\<lparr>au_sessions := key_set (al_token r) (new_session now (au_options a) r) (au_sessions ?b)\<rparr>"
      and r: "al_token r = tok" "pr_session_id (al_principal r) = i'" "pr_user_name (al_principal r) = ur_user_name user" "pr_role (al_principal r) = ur_role user"
      by (auto simp: CreateSession_def Let_def b new_session_def)
    moreover have "may_add (ur_user_name user) a (au_sessions ?b) r"
      using TokenLoop_fresh [OF tok ne(1)] SessionIdLoop_fresh [OF i' ne(2)] size room by (simp add: may_add_def r)
    ultimately show ?thesis using sub b Some by auto
  qed
qed

section \<open>Every step on the session table\<close>

text \<open>Two records of one session: a change of password clears its flag.\<close>

definition same_session :: "SessionRecord \<Rightarrow> SessionRecord \<Rightarrow> bool" where
  "same_session se se' \<longleftrightarrow> se' = se \<or>
     se' = se\<lparr>se_must_change_password := False, se_principal := (se_principal se)\<lparr>pr_must_change_password := False\<rparr>\<rparr>"

text \<open>The operation ends the session of this user and identifier.\<close>

fun ends_session :: "AuthOp \<Rightarrow> Auth \<Rightarrow> bytes \<Rightarrow> bytes \<Rightarrow> bool" where
  "ends_session (OpLogout session_id) a u i = (session_id = i \<and> snd (Logout session_id a))"
| "ends_session OpRelease a u i = True"
| "ends_session (OpChangePassword now rnd user_name session_id old new) a u i =
     (user_name = u \<and> session_id \<noteq> i \<and> snd (ChangePassword now rnd user_name session_id old new a))"
| "ends_session op a u i = False"

definition kept :: "AuthOp \<Rightarrow> Auth \<Rightarrow> bytes \<times> SessionRecord \<Rightarrow> bool" where
  "kept op a e' \<longleftrightarrow> (\<exists>e \<in> set (au_sessions a). fst e' = fst e \<and> same_session (snd e) (snd e') \<and> \<not> ends_session op a (owner e) (sid e))"

lemma kept_subseq:
  assumes "subseq m (au_sessions a)" and "e' \<in> set m" and "\<not> ends_session op a (owner e') (sid e')"
  shows "kept op a e'"
  using subseq_members [OF assms(1)] assms(2,3) by (auto simp: kept_def same_session_def)

lemma Login_result:
  assumes "Login now wall_now rnd u pw a = (a', r)"
  shows "rest_of a' = rest_of a \<and> (\<exists>m. subseq m (au_sessions a) \<and>
     (if al_token r = [] then r = no_login \<and> au_sessions a' = m
      else may_add (ur_user_name (FindUser u (au_users a))) a m r \<and> IsStarted a
        \<and> ur_user_name (FindUser u (au_users a)) \<noteq> [] \<and> ur_enabled (FindUser u (au_users a))
        \<and> VerifyPassword (au_verifier a) pw (ur_password_credential (FindUser u (au_users a)))
        \<and> pr_user_name (al_principal r) = ur_user_name (FindUser u (au_users a)) \<and> pr_role (al_principal r) = ur_role (FindUser u (au_users a))
        \<and> au_sessions a' = key_set (al_token r) (new_session now (au_options a) r) m))"
proof -
  obtain b ok where b: "CheckLockout now u a = (b, ok)" by force
  then have bp: "rest_of b = rest_of a" "au_sessions b = au_sessions a"
    by (auto simp: CheckLockout_def split: if_splits option.splits)
  then have bo: "au_options b = au_options a" "au_users b = au_users a" "au_verifier b = au_verifier a" "IsStarted b = IsStarted a"
    by (simp_all add: rest_of_def IsStarted_def)
  have fail: "rest_of (RegisterFailedAttempt now u b) = rest_of a" "au_sessions (RegisterFailedAttempt now u b) = au_sessions a"
    using bp by (simp_all add: RegisterFailedAttempt_def Let_def)
  obtain c res where c: "CreateSession now wall_now rnd (FindUser u (au_users b)) b = (c, res)" by force
  note result = CreateSession_result [OF c, unfolded bp bo]
  show ?thesis
  proof (cases "IsEmptyOrTooLong u kMaxUserNameLength \<or> length pw > kMaxPasswordLength \<or> \<not> IsStarted a \<or> \<not> ok
      \<or> ur_user_name (FindUser u (au_users a)) = [] \<or> \<not> ur_enabled (FindUser u (au_users a))
      \<or> \<not> VerifyPassword (au_verifier a) pw (ur_password_credential (FindUser u (au_users a))) \<or> res = None")
    case True
    then have "r = no_login" "rest_of a' = rest_of a" "subseq (au_sessions a') (au_sessions a)"
      using assms b c bp fail result by (auto simp: Login_def Let_def bo split: if_splits bool.splits)
    then show ?thesis by (auto simp: no_login_def)
  next
    case False
    then obtain r' where r': "res = Some r'" by auto
    then have "r = r'" "a' = (ClearFailedAttempts u c)\<lparr>au_stats := (au_stats c)\<lparr>as_login_success := as_login_success (au_stats c) + 1\<rparr>\<rparr>"
      using assms b c False by (auto simp: Login_def Let_def bo ClearFailedAttempts_def)
    then show ?thesis using result False r' by (auto simp: ClearFailedAttempts_def may_add_def bo)
  qed
qed

lemma Logout_ends:
  assumes "distinct (map sid m)" and "find (\<lambda>e. sid e = i) m = Some e" and "e' \<in> set (key_erase (fst e) m)" and "distinct (map fst m)"
  shows "sid e' \<noteq> i"
  using assms by (auto simp: find_Some_iff key_erase_def in_set_conv_nth distinct_conv_nth)

lemma table_inv_add: "table_inv m \<Longrightarrow> may_add u a m r \<Longrightarrow> table_inv (key_set (al_token r) (new_session now options r) m)"
proof -
  assume inv: "table_inv m" and new: "may_add u a m r"
  let ?m = "key_set (al_token r) (new_session now options r) m"
  have ms: "mset ?m = add_mset (al_token r, new_session now options r) (mset m)" using new by (simp add: may_add_def key_set_fresh)
  then have set_m: "set ?m = insert (al_token r, new_session now options r) (set m)" by (metis set_mset_mset set_mset_add_mset_insert)
  have "mset (map sid ?m) = mset (pr_session_id (al_principal r) # map sid m)" using ms by (simp add: new_session_def)
  then have "distinct (map sid ?m) \<longleftrightarrow> distinct (pr_session_id (al_principal r) # map sid m)" by (rule mset_eq_imp_distinct_iff)
  then show "table_inv ?m" using inv new set_m by (auto simp: table_inv_def may_add_def list_all_iff key_set_sorted new_session_def image_iff)
qed

lemma ChangePassword_result:
  assumes "ChangePassword now rnd u i old new a = (a', ok)"
  shows "au_options a' = au_options a \<and> au_verifier a' = au_verifier a \<and> au_initialized a' = au_initialized a \<and> au_started a' = au_started a
    \<and> (\<exists>m. subseq m (au_sessions a) \<and>
      (if ok then au_sessions a' = AcceptLoop u i m \<and> IsValidNewPassword new (au_options a)
         \<and> (\<exists>user. map_of (au_users a) u = Some user \<and> ur_user_name user \<noteq> []
            \<and> (\<exists>user' credential. map_of (au_users a) (ur_user_name user) = Some user'
               \<and> credential = GeneratePasswordCredential new (ra_salt rnd) \<and> credential \<noteq> []
               \<and> VerifyPassword (au_verifier a) old (ur_password_credential user)
               \<and> au_users a' = key_set (ur_user_name user) (user'\<lparr>ur_password_credential := credential, ur_must_change_password := False\<rparr>) (au_users a)))
       else au_sessions a' = m \<and> au_users a' = au_users a))"
proof -
  let ?b = "PruneExpiredSessionsLocked now a"
  have sub: "subseq (au_sessions ?b) (au_sessions a)" by (rule Prune_subseq)
  show ?thesis
  proof (cases ok)
    case True
    with assms sub show ?thesis
      by (auto simp: ChangePassword_def IsSessionActive_def Let_def UpdatePassword_def FindUser_def no_user_def ClearFailedAttempts_def
          AcceptChangedPasswordSession_def split: if_splits bool.splits option.splits)
  next
    case False
    with assms sub show ?thesis
      by (auto simp: ChangePassword_def IsSessionActive_def Let_def UpdatePassword_def split: if_splits bool.splits option.splits)
  qed
qed

lemma table_inv_Accept: "table_inv m \<Longrightarrow> table_inv (AcceptLoop u i m)"
proof -
  assume "table_inv m"
  then have "table_inv (filter (\<lambda>e. owner e \<noteq> u \<or> sid e = i) m)" by (rule table_inv_subseq [OF subseq_filter_left])
  moreover have "table_inv (map g es)" if "table_inv es" and "\<And>e. fst (g e) = fst e \<and> sid (g e) = sid e \<and> se_token (snd (g e)) = se_token (snd e)"
    for g :: "bytes \<times> SessionRecord \<Rightarrow> bytes \<times> SessionRecord" and es
    using that by (simp add: table_inv_def comp_def list_all_iff)
  ultimately show ?thesis unfolding AcceptLoop_map by simp
qed

lemma ApplyConfig_subseq: "subseq (au_sessions (ApplyConfigLocked now value a)) (au_sessions a)"
proof -
  define b where "b = a\<lparr>au_options := (case ParseUserConfig value (au_options a) of None \<Rightarrow> default_auth_options | Some options \<Rightarrow> options)\<rparr>"
  have "subseq (au_sessions (EnforcePerUserSessionLimitLocked (PruneExpiredSessionsLocked now b))) (au_sessions b)"
    by (rule subseq_order.trans [OF EnforcePerUser_subseq Prune_subseq])
  then show ?thesis by (simp add: ApplyConfigLocked_def Let_def b_def)
qed

lemma Start_subseq: "subseq (au_sessions (fst (Auth_Start now config attach_ok a))) (au_sessions a)"
  by (auto simp: Auth_Start_def Auth_Prepare_def Let_def ApplyConfig_subseq split: bool.splits option.splits)

lemma step_table:
  assumes inv: "table_inv (au_sessions a)" and e': "e' \<in> set (au_sessions (auth_step op a))"
  shows "kept op a e' \<or> (\<exists>now wall_now rnd u pw. op = OpLogin now wall_now rnd u pw \<and> al_token (snd (Login now wall_now rnd u pw a)) \<noteq> []
     \<and> e' = (al_token (snd (Login now wall_now rnd u pw a)), new_session now (au_options a) (snd (Login now wall_now rnd u pw a))))"
proof (cases op)
  case (OpStart now config attach_ok)
  then show ?thesis using e' kept_subseq [OF Start_subseq, of e' now config attach_ok a op] by simp
next
  case OpStop
  then show ?thesis using e' kept_subseq [of "au_sessions a" a e' op] by (simp add: Auth_Stop_def)
next
  case OpRelease
  then show ?thesis using e' by (simp add: Auth_Release_def)
next
  case (OpLogin now wall_now rnd u pw)
  obtain b r where b: "Login now wall_now rnd u pw a = (b, r)" by force
  from Login_result [OF this] obtain m where m: "subseq m (au_sessions a)"
    "al_token r = [] \<Longrightarrow> au_sessions b = m" "al_token r \<noteq> [] \<Longrightarrow> may_add (ur_user_name (FindUser u (au_users a))) a m r
       \<and> au_sessions b = key_set (al_token r) (new_session now (au_options a) r) m" by (auto split: if_splits)
  show ?thesis
  proof (cases "al_token r = [] \<or> e' \<in> set m")
    case True
    moreover have "e' \<in> set m" using True m(2) e' OpLogin b by auto
    ultimately show ?thesis using kept_subseq [OF m(1), of e' op] OpLogin by simp
  next
    case False
    then have "mset (au_sessions b) = add_mset (al_token r, new_session now (au_options a) r) (mset m)"
      using m(3) by (simp add: may_add_def key_set_fresh)
    then have "set (au_sessions b) = insert (al_token r, new_session now (au_options a) r) (set m)" by (metis set_mset_mset set_mset_add_mset_insert)
    then show ?thesis using False e' OpLogin b by auto
  qed
next
  case (OpLogout i)
  have fst_d: "distinct (map fst (au_sessions a))" using inv by (simp add: table_inv_def strict_sorted_iff)
  show ?thesis
  proof (cases "i = [] \<or> \<not> IsStarted a \<or> find (\<lambda>e. sid e = i) (au_sessions a) = None")
    case True
    then have "auth_step op a = a \<and> \<not> snd (Logout i a)" using OpLogout by (auto simp: Logout_def)
    then show ?thesis using e' OpLogout kept_subseq [of "au_sessions a" a e' op] by simp
  next
    case False
    then obtain e where e: "find (\<lambda>e. sid e = i) (au_sessions a) = Some e" by auto
    then have m: "au_sessions (auth_step op a) = key_erase (fst e) (au_sessions a)" using False OpLogout by (simp add: Logout_def)
    have "sid e' \<noteq> i" using Logout_ends [OF _ e _ fst_d, of e'] inv e' m by (simp add: table_inv_def)
    then show ?thesis using e' m OpLogout kept_subseq [OF subseq_key_erase [of "fst e" "au_sessions a"], of e' op] by simp
  qed
next
  case (OpValidate now token)
  have "subseq (au_sessions (auth_step op a)) (au_sessions a)" using OpValidate
    by (auto simp: ValidateToken_def subseq_key_erase split: option.split)
  then show ?thesis using e' OpValidate kept_subseq [of "au_sessions (auth_step op a)" a e' op] by simp
next
  case (OpChangePassword now rnd u i old new)
  obtain b ok where b: "ChangePassword now rnd u i old new a = (b, ok)" by force
  from ChangePassword_result [OF this] obtain m where m: "subseq m (au_sessions a)"
    "au_sessions b = (if ok then AcceptLoop u i m else m)" by (auto split: if_splits)
  show ?thesis
  proof (cases ok)
    case False
    then show ?thesis using e' OpChangePassword b m kept_subseq [of m a e' op] by simp
  next
    case True
    then have "e' \<in> set (AcceptLoop u i m)" using e' OpChangePassword b m(2) by simp
    then obtain e where e: "e \<in> set m" "owner e \<noteq> u \<or> sid e = i"
      and e'_eq: "e' = (if owner e = u then (fst e, (snd e)\<lparr>se_must_change_password := False,
       se_principal := (se_principal (snd e))\<lparr>pr_must_change_password := False\<rparr>\<rparr>) else e)"
      by (auto simp only: AcceptLoop_map set_map image_iff set_filter mem_Collect_eq)
    have "fst e' = fst e" "same_session (snd e) (snd e')" by (auto simp: e'_eq same_session_def)
    with e have "kept op a e'" using subseq_members [OF m(1)] OpChangePassword by (auto simp: kept_def)
    then show ?thesis ..
  qed
next
  case (OpConfig now doc)
  then show ?thesis using e' kept_subseq [OF ApplyConfig_subseq, of e' now doc a op] by simp
qed

lemma step_table_inv: "table_inv (au_sessions a) \<Longrightarrow> table_inv (au_sessions (auth_step op a))"
proof (cases op)
  case (OpLogin now wall_now rnd u pw)
  assume inv: "table_inv (au_sessions a)"
  obtain b r where b: "Login now wall_now rnd u pw a = (b, r)" by force
  from Login_result [OF this] inv table_inv_subseq table_inv_add show ?thesis using OpLogin b
    by (auto split: if_splits) 
next
  case (OpChangePassword now rnd u i old new)
  assume inv: "table_inv (au_sessions a)"
  obtain b ok where b: "ChangePassword now rnd u i old new a = (b, ok)" by force
  from ChangePassword_result [OF this] obtain m where "subseq m (au_sessions a)"
    "au_sessions b = (if ok then AcceptLoop u i m else m)" by (auto split: if_splits)
  then show ?thesis using inv OpChangePassword b table_inv_subseq table_inv_Accept by auto
qed (auto simp: Auth_Stop_def Auth_Release_def Logout_def ValidateToken_def table_inv_def [of "[]"]
    intro: table_inv_subseq Start_subseq ApplyConfig_subseq subseq_key_erase split: option.split)

section \<open>Where valid tokens come from\<close>

lemma auth_run_append: "auth_run (xs @ ys) a = auth_run ys (auth_run xs a)"
  by (simp add: auth_run_def)

lemma auth_run_table_inv: "table_inv (au_sessions (auth_run ops (Auth_new options users kind)))"
proof (induction ops rule: rev_induct)
  case Nil
  then show ?case by (simp add: Auth_new_def table_inv_def)
qed (simp add: step_table_inv)

text \<open>
  The session was created by the login \<open>op\<close> after the operations \<open>before\<close>, from a verified password, and none of the
  operations \<open>after\<close> ended it.
\<close>

definition created_by :: "Auth \<Rightarrow> AuthOp list \<Rightarrow> bytes \<times> SessionRecord \<Rightarrow> AuthOp list \<Rightarrow> int \<Rightarrow> int \<Rightarrow> AuthRandom \<Rightarrow> bytes \<Rightarrow> bytes \<Rightarrow> AuthOp list \<Rightarrow> bool" where
  "created_by a0 ops e before now wall_now rnd u pw after \<longleftrightarrow>
     (let a = auth_run before a0; user = FindUser u (au_users a); r = snd (Login now wall_now rnd u pw a) in
        ops = before @ OpLogin now wall_now rnd u pw # after \<and> IsStarted a \<and> ur_enabled user
      \<and> VerifyPassword (au_verifier a) pw (ur_password_credential user)
      \<and> al_token r = fst e \<and> pr_session_id (al_principal r) = sid e \<and> owner e = ur_user_name user
      \<and> pr_role (se_principal (snd e)) = ur_role user
      \<and> se_expires_at_monotonic_ms (snd e) = now + int (ao_token_ttl_seconds (au_options a)) * 1000
      \<and> (\<forall>mid op rest. after = mid @ op # rest \<longrightarrow>
            \<not> ends_session op (auth_run (before @ OpLogin now wall_now rnd u pw # mid) a0) (owner e) (sid e)))"

lemma session_created:
  assumes "e \<in> set (au_sessions (auth_run ops (Auth_new options users kind)))"
  shows "\<exists>before now wall_now rnd u pw after. created_by (Auth_new options users kind) ops e before now wall_now rnd u pw after"
  using assms
proof (induction ops arbitrary: e rule: rev_induct)
  case Nil
  then show ?case by (simp add: Auth_new_def)
next
  case (snoc op ops)
  let ?start = "Auth_new options users kind"
  let ?a = "auth_run ops ?start"
  from step_table [OF auth_run_table_inv, of e op ops options users kind] snoc.prems
  have "kept op ?a e \<or> (\<exists>now wall_now rnd u pw. op = OpLogin now wall_now rnd u pw \<and> al_token (snd (Login now wall_now rnd u pw ?a)) \<noteq> []
     \<and> e = (al_token (snd (Login now wall_now rnd u pw ?a)), new_session now (au_options ?a) (snd (Login now wall_now rnd u pw ?a))))" by simp
  then show ?case
  proof (elim disjE exE conjE)
    assume "kept op ?a e"
    then obtain e0 where e0: "e0 \<in> set (au_sessions ?a)" "fst e = fst e0" "same_session (snd e0) (snd e)" "\<not> ends_session op ?a (owner e0) (sid e0)"
      by (auto simp: kept_def)
    from snoc.IH [OF e0(1)] obtain before now wall_now rnd u pw after
      where c: "created_by ?start ops e0 before now wall_now rnd u pw after" by blast
    have same: "owner e = owner e0" "sid e = sid e0" "pr_role (se_principal (snd e)) = pr_role (se_principal (snd e0))"
      "se_expires_at_monotonic_ms (snd e) = se_expires_at_monotonic_ms (snd e0)" using e0(3) by (auto simp: same_session_def)
    have quiet: "after = mid @ op # rest \<Longrightarrow> \<not> ends_session op (auth_run (before @ OpLogin now wall_now rnd u pw # mid) ?start) (owner e0) (sid e0)"
      for mid op rest using c unfolding created_by_def Let_def by blast
    have run: "ops = before @ OpLogin now wall_now rnd u pw # after" using c unfolding created_by_def Let_def by blast
    have "\<not> ends_session op' (auth_run (before @ OpLogin now wall_now rnd u pw # mid) ?start) (owner e) (sid e)"
      if "after @ [op] = mid @ op' # rest" for mid op' rest
    proof (cases rest rule: rev_cases)
      case Nil
      then have "after = mid" "op' = op" using that by auto
      then show ?thesis using e0(4) same(1,2) unfolding run by simp
    next
      case (snoc rest' x)
      then have "after = mid @ op' # rest'" using that by simp
      then show ?thesis using quiet same(1,2) by simp
    qed
    then have "created_by ?start (ops @ [op]) e before now wall_now rnd u pw (after @ [op])"
      using c same e0(2) by (simp add: created_by_def Let_def)
    then show ?thesis by blast
  next
    fix now wall_now rnd u pw
    assume op: "op = OpLogin now wall_now rnd u pw" and ne: "al_token (snd (Login now wall_now rnd u pw ?a)) \<noteq> []"
      and e: "e = (al_token (snd (Login now wall_now rnd u pw ?a)), new_session now (au_options ?a) (snd (Login now wall_now rnd u pw ?a)))"
    have "created_by ?start (ops @ [op]) e ops now wall_now rnd u pw []"
      using Login_result [of now wall_now rnd u pw ?a "fst (Login now wall_now rnd u pw ?a)" "snd (Login now wall_now rnd u pw ?a)"] ne op e
      by (auto simp: created_by_def Let_def new_session_def)
    then show ?thesis by blast
  qed
qed

text \<open>
  Claim C2. Every token the service accepts was issued by a login: if \<open>ValidateToken\<close> returns a user after any sequence of
  operations, some earlier login with the verified password of this enabled user returned exactly this token and session; since then
  the session was not logged out, the service not released, and the user's password not changed by another session; and the time to live that was
  configured at the login has not passed.
\<close>

theorem auth_token_origin:
  assumes "pr_user_name (tv_principal (snd (ValidateToken now token (auth_run ops (Auth_new options users kind))))) \<noteq> []"
  shows "\<exists>e before now0 wall_now rnd u pw after.
      created_by (Auth_new options users kind) ops e before now0 wall_now rnd u pw after
    \<and> fst e = token \<and> se_principal (snd e) = tv_principal (snd (ValidateToken now token (auth_run ops (Auth_new options users kind))))
    \<and> now < now0 + int (ao_token_ttl_seconds (au_options (auth_run before (Auth_new options users kind)))) * 1000"
proof -
  let ?a = "auth_run ops (Auth_new options users kind)"
  obtain se where se: "map_of (au_sessions ?a) token = Some se" "now < se_expires_at_monotonic_ms se"
    "tv_principal (snd (ValidateToken now token ?a)) = se_principal se"
    using assms by (auto simp: ValidateToken_def no_validation_def no_principal_def not_le split: if_splits option.splits)
  from session_created [OF map_of_SomeD [OF se(1)]] obtain before now0 wall_now rnd u pw after
    where c: "created_by (Auth_new options users kind) ops (token, se) before now0 wall_now rnd u pw after" by blast
  then have "now < now0 + int (ao_token_ttl_seconds (au_options (auth_run before (Auth_new options users kind)))) * 1000"
    using se(2) by (simp add: created_by_def Let_def)
  then show ?thesis using c se(3) by (intro exI [of _ "(token, se)"] exI) auto
qed

definition witness_auth :: Auth where
  "witness_auth = Auth_new (default_auth_options\<lparr>ao_lockout_failures := 2\<rparr>)
     [\<lparr>ur_user_name = [97], ur_password_credential = [1], ur_role = RoleOperator, ur_enabled = True, ur_must_change_password = False\<rparr>] PlainTextVerifier"

definition witness_random :: AuthRandom where
  "witness_random = \<lparr>ra_tokens = [[7]], ra_session_ids = [[8]], ra_salt = [0x31, 0x32]\<rparr>"

definition witness_ops :: "AuthOp list" where
  "witness_ops = [OpStart 0 None True, OpLogin 5 50 witness_random [97] [2], OpLogin 6 60 witness_random [97] [1]]"

theorem auth_token_origin_witness:
  "\<exists>e before now0 wall_now rnd u pw after. created_by witness_auth witness_ops e before now0 wall_now rnd u pw after
    \<and> fst e = [7] \<and> 100 < now0 + int (ao_token_ttl_seconds (au_options (auth_run before witness_auth))) * 1000"
proof -
  have "pr_user_name (tv_principal (snd (ValidateToken 100 [7] (auth_run witness_ops witness_auth)))) \<noteq> []" by code_simp
  from auth_token_origin [OF this [unfolded witness_auth_def], folded witness_auth_def] show ?thesis by blast
qed

section \<open>Bounds\<close>

definition bounded_table :: "AuthOptions \<Rightarrow> (bytes \<times> SessionRecord) list \<Rightarrow> bool" where
  "bounded_table options m \<longleftrightarrow> length m \<le> ao_max_sessions options \<and> (\<forall>u. UserSessionSizeLocked u m \<le> ao_max_sessions_per_user options)"

lemma bounded_subseq: "subseq m' m \<Longrightarrow> bounded_table options m \<Longrightarrow> bounded_table options m'"
  by (meson UserSessionSize_subseq bounded_table_def le_trans list_emb_length)

lemma UserSessionSize_mset: "UserSessionSizeLocked u m = size (filter_mset (\<lambda>e. owner e = u) (mset m))"
  by (simp add: UserSessionSizeLocked_def flip: mset_filter)

lemma bounded_add:
  assumes "bounded_table (au_options a) m" and "may_add u a m r" and "pr_user_name (al_principal r) = u" and "0 < ao_max_sessions_per_user (au_options a)"
  shows "bounded_table (au_options a) (key_set (al_token r) (new_session now (au_options a) r) m)"
proof -
  let ?m = "key_set (al_token r) (new_session now (au_options a) r) m"
  have ms: "mset ?m = add_mset (al_token r, new_session now (au_options a) r) (mset m)" using assms(2) by (simp add: may_add_def key_set_fresh)
  then have "length ?m = Suc (length m)" by (metis size_mset size_add_mset)
  moreover have "UserSessionSizeLocked v ?m = UserSessionSizeLocked v m + (if v = u then 1 else 0)" for v
    using ms assms(3) by (simp add: UserSessionSize_mset new_session_def)
  ultimately show ?thesis using assms by (auto simp: bounded_table_def may_add_def)
qed

text \<open>Configurations are applied after \<open>VerifyConfig\<close> has accepted them.\<close>

inductive auth_reachable :: "Auth \<Rightarrow> Auth \<Rightarrow> bool" for start where
  "auth_reachable start start"
| "auth_reachable start a \<Longrightarrow> (\<And>now doc. op = OpConfig now doc \<Longrightarrow> VerifyConfig doc a) \<Longrightarrow> auth_reachable start (auth_step op a)"

definition auth_bounded :: "Auth \<Rightarrow> bool" where
  "auth_bounded a \<longleftrightarrow> IsValidPolicy (au_options a) \<and> bounded_table (au_options a) (au_sessions a) \<and> (\<not> au_initialized a \<longrightarrow> au_sessions a = [])"

lemma ApplyConfig_bounded:
  assumes "VerifyConfig doc a" and "auth_bounded a"
  shows "auth_bounded (ApplyConfigLocked now doc a)"
proof -
  obtain options where o: "ParseUserConfig doc (au_options a) = Some options" using assms(1) by (auto simp: VerifyConfig_def)
  then have valid: "IsValidPolicy options" "ao_max_sessions options = ao_max_sessions (au_options a)"
    by (auto simp: ParseUserConfig_def Let_def split: option.splits if_splits)
  have opt: "au_options (ApplyConfigLocked now doc a) = options" "au_initialized (ApplyConfigLocked now doc a) = au_initialized a"
    by (simp_all add: ApplyConfigLocked_def Let_def o)
  have size: "UserSessionSizeLocked u (au_sessions (ApplyConfigLocked now doc a)) \<le> ao_max_sessions_per_user options" for u
    using EnforcePerUser_size [of u "PruneExpiredSessionsLocked now (a\<lparr>au_options := options\<rparr>)"]
    by (simp add: ApplyConfigLocked_def Let_def o)
  have "length (au_sessions (ApplyConfigLocked now doc a)) \<le> length (au_sessions a)" using ApplyConfig_subseq list_emb_length by blast
  then show ?thesis using assms(2) valid size opt by (auto simp: auth_bounded_def bounded_table_def)
qed

lemma auth_bounded_fewer:
  assumes "subseq (au_sessions b) (au_sessions a)" and "rest_of b = rest_of a" and "auth_bounded a"
  shows "auth_bounded b"
proof -
  have same: "au_options b = au_options a" "au_initialized b = au_initialized a" using assms(2) by (simp_all add: rest_of_def)
  have "bounded_table (au_options a) (au_sessions b)" using bounded_subseq [OF assms(1)] assms(3) by (simp add: auth_bounded_def)
  moreover have "au_sessions b = []" if "au_sessions a = []" using assms(1) that by simp
  ultimately show ?thesis using assms(3) same by (simp add: auth_bounded_def)
qed

lemma step_bounded:
  assumes "auth_bounded a" and "\<And>now doc. op = OpConfig now doc \<Longrightarrow> VerifyConfig doc a"
  shows "auth_bounded (auth_step op a)"
proof (cases op)
  case (OpStart now config attach_ok)
  show ?thesis
  proof (cases "au_initialized a")
    case True
    then show ?thesis using assms(1) OpStart by (simp add: Auth_Start_def Auth_Prepare_def auth_bounded_def)
  next
    case False
    then have "au_sessions a = []" using assms(1) by (simp add: auth_bounded_def)
    then have "au_sessions (auth_step op a) = []" using OpStart Start_subseq [of now config attach_ok a] by simp
    moreover have "IsValidPolicy (au_options (auth_step op a))"
    proof -
      have "IsValidPolicy (au_options (ApplyConfigLocked now doc a))" for doc
        by (auto simp: ApplyConfigLocked_def Let_def ParseUserConfig_def IsValidPolicy_def default_auth_options_def kMaxPasswordLength_def split: option.split)
      then show ?thesis using OpStart assms(1) by (auto simp: Auth_Start_def Auth_Prepare_def Let_def auth_bounded_def split: bool.splits option.splits)
    qed
    ultimately show ?thesis by (simp add: auth_bounded_def bounded_table_def UserSessionSizeLocked_def)
  qed
next
  case (OpLogin now wall_now rnd u pw)
  obtain b r where b: "Login now wall_now rnd u pw a = (b, r)" by force
  from Login_result [OF this] obtain m where m: "rest_of b = rest_of a" "subseq m (au_sessions a)"
    "al_token r = [] \<Longrightarrow> au_sessions b = m" "al_token r \<noteq> [] \<Longrightarrow> may_add (pr_user_name (al_principal r)) a m r \<and> IsStarted a
       \<and> au_sessions b = key_set (al_token r) (new_session now (au_options a) r) m" by (auto split: if_splits)
  have "bounded_table (au_options a) m" using bounded_subseq [OF m(2)] assms(1) by (simp add: auth_bounded_def)
  moreover have "0 < ao_max_sessions_per_user (au_options a)" using assms(1) by (simp add: auth_bounded_def IsValidPolicy_def)
  ultimately have "bounded_table (au_options a) (au_sessions b)" using m(3,4) bounded_add by (cases "al_token r = []") auto
  moreover have "au_sessions b = []" if "\<not> au_initialized a"
    using that m assms(1) by (cases "al_token r = []") (auto simp: auth_bounded_def IsStarted_def)
  ultimately show ?thesis using OpLogin b m(1) assms(1) by (auto simp: auth_bounded_def rest_of_def)
next
  case (OpChangePassword now rnd u i old new)
  obtain b ok where b: "ChangePassword now rnd u i old new a = (b, ok)" by force
  from ChangePassword_result [OF this] obtain m where m: "au_options b = au_options a" "au_initialized b = au_initialized a" "subseq m (au_sessions a)"
    "au_sessions b = (if ok then AcceptLoop u i m else m)" by (auto split: if_splits)
  have "bounded_table (au_options a) m" using bounded_subseq [OF m(3)] assms(1) by (simp add: auth_bounded_def)
  moreover have "bounded_table (au_options a) (AcceptLoop u i m)" if "bounded_table (au_options a) m"
  proof -
    have "UserSessionSizeLocked v (AcceptLoop u i m) = UserSessionSizeLocked v (filter (\<lambda>e. owner e \<noteq> u \<or> sid e = i) m)" for v
      unfolding AcceptLoop_map UserSessionSizeLocked_def filter_map length_map by (rule arg_cong [of _ _ length], rule filter_cong) auto
    moreover have "length (AcceptLoop u i m) = length (filter (\<lambda>e. owner e \<noteq> u \<or> sid e = i) m)" by (simp add: AcceptLoop_map)
    ultimately show ?thesis using bounded_subseq [OF subseq_filter_left that] unfolding bounded_table_def by simp
  qed
  moreover have "au_sessions b = []" if "\<not> au_initialized a"
    using that m(3,4) assms(1) list_emb_length [OF m(3)] by (cases ok) (simp_all add: auth_bounded_def)
  ultimately show ?thesis using OpChangePassword b m assms(1) by (auto simp: auth_bounded_def)
next
  case (OpConfig now doc)
  then show ?thesis using ApplyConfig_bounded assms by simp
next
  case (OpLogout i)
  have "subseq (au_sessions (auth_step op a)) (au_sessions a)" "rest_of (auth_step op a) = rest_of a"
    using OpLogout by (auto simp: Logout_def subseq_key_erase split: option.split)
  then show ?thesis using assms(1) by (rule auth_bounded_fewer)
next
  case (OpValidate now token)
  have "subseq (au_sessions (auth_step op a)) (au_sessions a)" "rest_of (auth_step op a) = rest_of a"
    using OpValidate by (auto simp: ValidateToken_def subseq_key_erase split: option.split)
  then show ?thesis using assms(1) by (rule auth_bounded_fewer)
qed (use assms(1) in \<open>auto simp: Auth_Stop_def Auth_Release_def auth_bounded_def bounded_table_def UserSessionSizeLocked_def\<close>)

lemma auth_reachable_bounded: "auth_reachable start a \<Longrightarrow> auth_bounded start \<Longrightarrow> auth_bounded a"
  by (induction rule: auth_reachable.induct) (simp_all add: step_bounded)

text \<open>
  Under verified configurations the session table never holds more sessions than the limit, nor more of one user than the limit per user.
\<close>

lemma auth_sessions_bounded:
  assumes "auth_reachable (Auth_new options users kind) a" and "IsValidPolicy options"
  shows "length (au_sessions a) \<le> ao_max_sessions (au_options a)
     \<and> UserSessionSizeLocked u (au_sessions a) \<le> ao_max_sessions_per_user (au_options a)"
proof -
  have "auth_bounded (Auth_new options users kind)" using assms(2)
    by (simp add: auth_bounded_def bounded_table_def Auth_new_def UserSessionSizeLocked_def)
  from auth_reachable_bounded [OF assms(1) this] show ?thesis by (simp add: auth_bounded_def bounded_table_def)
qed

section \<open>Guessing\<close>

text \<open>
  \<open>guessed\<close>: a login reaches the comparison of its password. \<open>wrong_guess\<close>: the operations of an attack on the user \<open>u\<close>, with
  other traffic, in which every password tried for \<open>u\<close> is wrong.
\<close>

fun guessed :: "bytes \<Rightarrow> AuthOp \<Rightarrow> Auth \<Rightarrow> bool" where
  "guessed u (OpLogin now wall_now rnd user_name password) a =
     (user_name = u \<and> \<not> IsEmptyOrTooLong user_name kMaxUserNameLength \<and> length password \<le> kMaxPasswordLength \<and> IsStarted a
      \<and> snd (CheckLockout now user_name a))"
| "guessed u op a = False"

fun guesses :: "bytes \<Rightarrow> AuthOp list \<Rightarrow> Auth \<Rightarrow> nat" where
  "guesses u [] a = 0"
| "guesses u (op # ops) a = (if guessed u op a then 1 else 0) + guesses u ops (auth_step op a)"

fun attack_op :: "bytes \<Rightarrow> int \<Rightarrow> int \<Rightarrow> Auth \<Rightarrow> AuthOp \<Rightarrow> bool" where
  "attack_op u from_ms to_ms a (OpLogin now wall_now rnd user_name password) =
     (from_ms \<le> now \<and> now < to_ms \<and> (user_name = u \<longrightarrow> \<not> VerifyPassword (au_verifier a) password (ur_password_credential (FindUser u (au_users a)))))"
| "attack_op u from_ms to_ms a (OpLogout session_id) = True"
| "attack_op u from_ms to_ms a (OpValidate now token) = True"
| "attack_op u from_ms to_ms a OpStop = True"
| "attack_op u from_ms to_ms a op = False"

definition guesses_left :: "bytes \<Rightarrow> int \<Rightarrow> Auth \<Rightarrow> nat" where
  "guesses_left u to_ms a =
     (case map_of (au_failures a) u of
        None \<Rightarrow> ao_lockout_failures (au_options a)
      | Some f \<Rightarrow> if fr_locked_until_ms f \<ge> to_ms then 0
          else if fr_locked_until_ms f \<noteq> 0 then ao_lockout_failures (au_options a)
          else max 1 (ao_lockout_failures (au_options a) - fr_failures f))"

lemma CreateSession_failures: "au_failures (fst (CreateSession now wall_now rnd user a)) = au_failures a"
  using CreateSession_result [of now wall_now rnd user a] by (metis prod.collapse)

lemma Login_failures:
  "Login now wall_now rnd n password a = (a', r) \<Longrightarrow>
     (au_failures a' = au_failures a \<and> \<not> (guessed n (OpLogin now wall_now rnd n password) a))
   \<or> (guessed n (OpLogin now wall_now rnd n password) a \<and> 
       (let b = fst (CheckLockout now n a) in
          (au_failures a' = au_failures (RegisterFailedAttempt now n b))
        \<or> (VerifyPassword (au_verifier a) password (ur_password_credential (FindUser n (au_users a)))
             \<and> (au_failures a' = au_failures b \<or> au_failures a' = au_failures (ClearFailedAttempts n b)))))"
proof -
  assume login: "Login now wall_now rnd n password a = (a', r)"
  obtain b ok where b: "CheckLockout now n a = (b, ok)" by force
  have bo: "au_users b = au_users a" "au_verifier b = au_verifier a" "\<not> ok \<Longrightarrow> b = a"
    using b by (auto simp: CheckLockout_def split: if_splits option.splits)
  obtain c res where c: "CreateSession now wall_now rnd (FindUser n (au_users a)) b = (c, res)" by force
  have "au_failures c = au_failures b" using CreateSession_failures [of now wall_now rnd "FindUser n (au_users a)" b] c by simp
  then show ?thesis using login b bo c
    by (cases ok; cases res) (auto simp: Login_def Let_def ClearFailedAttempts_def split: if_splits)
qed

lemma map_of_RegisterFailed:
  "map_of (au_failures (RegisterFailedAttempt now n a)) u =
     (let f = (case map_of (au_failures a) n of None \<Rightarrow> \<lparr>fr_failures = 0, fr_locked_until_ms = 0\<rparr> | Some f \<Rightarrow> f) in
      if ao_lockout_failures (au_options a) = 0 \<or> ao_lockout_seconds (au_options a) = 0 \<or> u \<noteq> n then map_of (au_failures a) u
      else if fr_locked_until_ms f > now then Some f
      else if fr_failures f + 1 \<ge> ao_lockout_failures (au_options a)
      then Some (f\<lparr>fr_locked_until_ms := now + int (ao_lockout_seconds (au_options a)) * 1000, fr_failures := 0\<rparr>)
      else Some (f\<lparr>fr_failures := fr_failures f + 1\<rparr>))"
  by (simp add: RegisterFailedAttempt_def Let_def key_set_map_of)

lemma map_of_CheckLockout_other: "u \<noteq> n \<Longrightarrow> map_of (au_failures (fst (CheckLockout now n a))) u = map_of (au_failures a) u"
  by (simp add: CheckLockout_def key_erase_map_of split: option.split)

lemma CheckLockout_options [simp]: "au_options (fst (CheckLockout now n a)) = au_options a"
  by (simp add: CheckLockout_def split: option.split)

lemma Login_other_failures:
  "n \<noteq> u \<Longrightarrow> map_of (au_failures (fst (Login now wall_now rnd n password a))) u = map_of (au_failures a) u"
  using Login_failures [of now wall_now rnd n password a "fst (Login now wall_now rnd n password a)" "snd (Login now wall_now rnd n password a)"]
  by (auto simp: Let_def map_of_RegisterFailed map_of_CheckLockout_other ClearFailedAttempts_def key_erase_map_of)

lemma guess_uses_up:
  assumes "guessed u (OpLogin now wall_now rnd u pw) a"
    and "\<not> VerifyPassword (au_verifier a) pw (ur_password_credential (FindUser u (au_users a)))"
    and "from_ms \<le> now" and "now < to_ms" and "to_ms \<le> from_ms + int (ao_lockout_seconds (au_options a)) * 1000"
    and "0 < ao_lockout_failures (au_options a)" and "0 \<le> from_ms"
  shows "guesses_left u to_ms (fst (Login now wall_now rnd u pw a)) + 1 \<le> guesses_left u to_ms a"
proof -
  have seconds: "ao_lockout_seconds (au_options a) \<noteq> 0" using assms(3-5) by auto
  have fail: "au_failures (fst (Login now wall_now rnd u pw a)) = au_failures (RegisterFailedAttempt now u (fst (CheckLockout now u a)))"
    using Login_failures [of now wall_now rnd u pw a "fst (Login now wall_now rnd u pw a)" "snd (Login now wall_now rnd u pw a)"] assms(1,2)
    by (simp add: Let_def)
  have opt: "au_options (fst (Login now wall_now rnd u pw a)) = au_options a"
    using Login_result [of now wall_now rnd u pw a "fst (Login now wall_now rnd u pw a)" "snd (Login now wall_now rnd u pw a)"]
    by (simp add: rest_of_def)
  have late: "to_ms \<le> now + int (ao_lockout_seconds (au_options a)) * 1000" using assms(3,5) by simp
  show ?thesis
  proof (cases "map_of (au_failures a) u")
    case None
    then show ?thesis using seconds late assms(3,6,7)
      by (simp add: guesses_left_def opt fail map_of_RegisterFailed CheckLockout_def Let_def)
  next
    case (Some f)
    have "\<not> fr_locked_until_ms f > now" using assms(1) Some by (auto simp: CheckLockout_def)
    then show ?thesis using Some seconds late assms(3,4,6,7)
      by (cases "fr_locked_until_ms f = 0")
        (auto simp: guesses_left_def opt fail map_of_RegisterFailed CheckLockout_def Let_def key_erase_map_of)
  qed
qed

lemma attack_step:
  assumes "attack_op u from_ms to_ms a op" and "to_ms \<le> from_ms + int (ao_lockout_seconds (au_options a)) * 1000"
    and "0 < ao_lockout_failures (au_options a)" and "0 \<le> from_ms"
  shows "(if guessed u op a then 1 else 0) + guesses_left u to_ms (auth_step op a) \<le> guesses_left u to_ms a
     \<and> au_options (auth_step op a) = au_options a \<and> au_users (auth_step op a) = au_users a \<and> au_verifier (auth_step op a) = au_verifier a"
proof (cases op)
  case (OpLogin now wall_now rnd n pw)
  let ?a' = "fst (Login now wall_now rnd n pw a)"
  have same: "au_options ?a' = au_options a" "au_users ?a' = au_users a" "au_verifier ?a' = au_verifier a"
    using Login_result [of now wall_now rnd n pw a "fst (Login now wall_now rnd n pw a)" "snd (Login now wall_now rnd n pw a)"]
    by (simp_all add: rest_of_def)
  show ?thesis
  proof (cases "n = u \<and> guessed u op a")
    case True
    then have g: "guessed u (OpLogin now wall_now rnd u pw) a" "n = u" using OpLogin by auto
    show ?thesis using guess_uses_up [OF g(1), of from_ms to_ms] assms OpLogin same g by auto
  next
    case False
    then have quiet: "\<not> guessed u op a" using OpLogin by auto
    have "map_of (au_failures ?a') u = map_of (au_failures a) u"
    proof (cases "n = u")
      case True
      then show ?thesis using quiet OpLogin Login_failures [of now wall_now rnd u pw a ?a' "snd (Login now wall_now rnd u pw a)"] by auto
    qed (rule Login_other_failures)
    then have "guesses_left u to_ms ?a' = guesses_left u to_ms a" unfolding guesses_left_def same(1) by (rule arg_cong)
    then show ?thesis using OpLogin same quiet by simp
  qed
qed (use assms(1) in \<open>auto simp: guesses_left_def Auth_Stop_def Logout_def ValidateToken_def split: option.split\<close>)

text \<open>The operations of an attack that runs from the state \<open>a\<close>.\<close>

fun attack :: "bytes \<Rightarrow> int \<Rightarrow> int \<Rightarrow> AuthOp list \<Rightarrow> Auth \<Rightarrow> bool" where
  "attack u from_ms to_ms [] a = True"
| "attack u from_ms to_ms (op # ops) a = (attack_op u from_ms to_ms a op \<and> attack u from_ms to_ms ops (auth_step op a))"

lemma attack_guesses:
  "attack u from_ms to_ms ops a \<Longrightarrow> to_ms \<le> from_ms + int (ao_lockout_seconds (au_options a)) * 1000
     \<Longrightarrow> 0 < ao_lockout_failures (au_options a) \<Longrightarrow> 0 \<le> from_ms \<Longrightarrow> guesses u ops a \<le> guesses_left u to_ms a"
proof (induction ops arbitrary: a)
  case (Cons op ops)
  have "guesses u ops (auth_step op a) \<le> guesses_left u to_ms (auth_step op a)"
    using Cons attack_step [of u from_ms to_ms a op] by simp
  then show ?case using attack_step [of u from_ms to_ms a op] Cons.prems by auto
qed simp


definition witness_attack :: "AuthOp list" where
  "witness_attack = map (\<lambda>i. OpLogin (10 + i) 50 witness_random [97] [2]) [0, 1, 2, 3] @ [OpLogin 20 60 witness_random [98] [1], OpValidate 21 [7]]"


section \<open>Change of password\<close>

definition users_keyed :: "(bytes \<times> AuthUserRecord) list \<Rightarrow> bool" where
  "users_keyed users \<longleftrightarrow> list_all (\<lambda>(n, u). ur_user_name u = n) users"

lemma users_keyed_map: "users_keyed users \<Longrightarrow> map_of users n = Some u \<Longrightarrow> ur_user_name u = n"
  by (auto simp: users_keyed_def list_all_iff dest!: map_of_SomeD)

lemma GeneratePasswordCredential_ok:
  "IsValidNewPassword pw options \<Longrightarrow> GeneratePasswordCredential pw salt \<noteq> [] \<longleftrightarrow> IsHexString salt"
proof -
  assume valid: "IsValidNewPassword pw options"
  have n: "kPasswordPbkdf2Iterations \<noteq> 0" by (simp add: kPasswordPbkdf2Iterations_def)
  have "kCredentialPrefix \<noteq> []" by (simp add: kCredentialPrefix_def ascii_def)
  moreover have "\<not> IsHexString []" by (simp add: IsHexString_def)
  ultimately show ?thesis using valid credential_text [OF n, of pw salt]
    by (auto simp: GeneratePasswordCredential_def IsValidNewPassword_def kMaxPasswordLength_def split: if_splits)
qed

lemma ChangePassword_ok_iff:
  "snd (ChangePassword now rnd u i old new a) \<longleftrightarrow>
     \<not> IsEmptyOrTooLong u kMaxUserNameLength \<and> \<not> IsEmptyOrTooLong i kMaxTokenLength \<and> length old \<le> kMaxPasswordLength
   \<and> IsStarted a \<and> IsValidNewPassword new (au_options a) \<and> snd (IsSessionActive now u i a)
   \<and> ur_user_name (FindUser u (au_users a)) \<noteq> [] \<and> ur_enabled (FindUser u (au_users a))
   \<and> VerifyPassword (au_verifier a) old (ur_password_credential (FindUser u (au_users a))) \<and> IsHexString (ra_salt rnd)
   \<and> map_of (au_users a) (ur_user_name (FindUser u (au_users a))) \<noteq> None"
proof (cases "IsValidNewPassword new (au_options a)")
  case True
  show ?thesis using GeneratePasswordCredential_ok [OF True, of "ra_salt rnd"]
    by (auto simp: ChangePassword_def IsSessionActive_def UpdatePassword_def Let_def not_le True split: option.split bool.split)
next
  case False
  then show ?thesis by (simp add: ChangePassword_def)
qed

lemma Generated_verifies:
  "GeneratePasswordCredential pw salt \<noteq> [] \<Longrightarrow> VerifyPassword Pbkdf2Verifier pw (GeneratePasswordCredential pw salt)"
  by (auto simp: VerifyPassword_def Pbkdf2_VerifyPassword_iff GeneratePasswordCredential_def split: if_splits)

lemma ChangePassword_ok_sessions:
  "snd (ChangePassword now rnd u i old new a) \<Longrightarrow>
     au_sessions (fst (ChangePassword now rnd u i old new a)) = AcceptLoop u i (au_sessions (PruneExpiredSessionsLocked now a))"
  by (auto simp: ChangePassword_def IsSessionActive_def UpdatePassword_def AcceptChangedPasswordSession_def ClearFailedAttempts_def Let_def
      split: option.splits bool.splits if_splits)



end
