(* ===== verification/Spec2Isabelle.thy ===== *)
theory Spec2Isabelle
  imports Byte_Writer Annexb_Reader Nal_Parser Avcc_Writer Rtp_Packetizer Timestamp_Corrector Media_Types
    Flv_Muxer Gop_Cache Multi_Reader_Queue Frame_Subscribers Media_Buffer Media_Buffer_Pool Ts_Muxer Fmp4_Muxer Hls_Maker
    Stun_Packet Http_Session Http_Query_String Rtsp_Server Auth_Security
begin

text \<open>
  Verification of the core of the live-stream camera server (C++, \<open>src/libs\<close>).

  \<^bold>\<open>The program.\<close> An encoder delivers H.264 or H.265 frames in Annex-B form. Their timestamps are made monotone, their
  payloads live in reference-counted buffers, and the frames are spread to the outputs: a shared queue with a cached group of
  pictures per stream feeds RTSP and WebRTC subscribers, whose frames become RTP packets; a second cache holds FLV tags for HTTP
  viewers; and the HLS maker cuts the stream into transport-stream or fragmented-MP4 segments. Around this media path stand the
  protocols of the control connections: RTSP requests mixed with interleaved frames, pipelined HTTP requests, and the STUN
  checks of WebRTC. The theories follow this structure, one per component; constants, operations, loops and fields keep the names of the source.

  \<^bold>\<open>Shared theories.\<close> \<open>Stream_Prelude\<close> has the machine integers, views of byte strings, and the lemma collections.
  \<open>Framed_Stream\<close> is the contract of every splitter of a byte stream as a locale: parsing a whole message leaves what follows,
  and parsing a proper prefix waits; from it follows that any cut of the stream into pieces delivers the same messages. \<open>Http_Text\<close> models
  the library functions on text that the protocols use (\<open>find\<close>, \<open>isspace\<close>, \<open>tolower\<close>, \<open>strtoul\<close>, \<open>std::map\<close>). \<open>Socket_Types\<close>
  and \<open>Media_Types\<close> hold records shared by several components.

  \<^bold>\<open>The media path.\<close>
  \<^item> \<open>Byte_Writer\<close> (\<open>infra/include/byte_writer.h\<close>): big-endian writes, and readers that invert them.
  \<^item> \<open>Annexb_Reader\<close>, \<open>Nal_Parser\<close> (\<open>media_codec/src/annexb_reader.cpp\<close>, \<open>h264_parser.cpp\<close>, \<open>h265_parser.cpp\<close>): the
    scan for start codes with its sink callback, lists of units, parameter sets. Framing then scanning is lossless, and on arbitrary
    input every unit lies inside the payload.
  \<^item> \<open>Avcc_Writer\<close> (\<open>avcc_writer.cpp\<close>): decoder configuration records, read back field by field.
  \<^item> \<open>Rtp_Packetizer\<close> (\<open>rtp_packetizer.cpp\<close>): the sink of the caller is a function on its own state and may refuse a packet.
    Reassembly gives back the units; sizes, sequence numbers and markers are right.
  \<^item> \<open>Timestamp_Corrector\<close> (\<open>media/src/timestamp_corrector.cpp\<close>): times are unbounded integers, since 64-bit microseconds do not overflow.
  \<^item> \<open>Media_Buffer\<close>, \<open>Media_Buffer_Pool\<close> (\<open>media_buffer.cpp\<close>, \<open>media_buffer_pool*.cpp\<close>): reference counts and storage as an
    explicit heap; safety of every sequence of operations, and that every block can come back.
  \<^item> \<open>Flv_Muxer\<close>, \<open>Gop_Cache\<close> (\<open>flv_muxer.cpp\<close>, \<open>gop_cache.cpp\<close>): tags as slice lists, read back by a demultiplexer; the ring of
    cached tags refines a list that is cleared at each keyframe.
  \<^item> \<open>Multi_Reader_Queue\<close>, \<open>Frame_Subscribers\<close> (\<open>event/include/multi_reader_queue.h\<close>, \<open>frame_subscribers.cpp\<close>): the bounded
    ring refines a list that evicts from the front; the subscribers use it through a locale of its contract. Mutexes are held for
    whole operations, so that operations are atomic steps.
  \<^item> \<open>Ts_Muxer\<close>, \<open>Fmp4_Muxer\<close>, \<open>Hls_Maker\<close> (all \<open>hls_maker.cpp\<close>): packets, boxes, and the window of segments with the playlist.
    Readers written from the formats recover what was muxed.

  \<^bold>\<open>The control connections.\<close>
  \<^item> \<open>Http_Protocol\<close>, \<open>Http_Request_Splitter\<close>, \<open>Http_Session\<close>, \<open>Http_Query_String\<close> (\<open>http/src/http_protocol.cpp\<close>,
    \<open>http_request_splitter.cpp\<close>, \<open>http_session.cpp\<close>, \<open>http_query_string.cpp\<close>); \<open>Http_Messages\<close> has the printers that a client uses. The verdict on a request is
    stable under more input, and pipelined requests come out in order under any interleaving.
  \<^item> \<open>Rtsp_Splitter\<close>, \<open>Rtsp_Protocol\<close>, \<open>Rtsp_Muxer\<close>, \<open>Rtsp_Session\<close>, \<open>Rtsp_Server\<close> (\<open>rtsp/src/rtsp_*.cpp\<close>, \<open>rtsp.cpp\<close>): what the
    server does to sockets, timers, streams and the login service is a list of effects; what these answer is the record
    \<open>rtsp_env\<close>. The invariants speak of all reachable states under any answers: nothing opened is leaked, and no stream is played
    without a login for it.
  \<^item> \<open>Sha256_Hash\<close> (\<open>infra/src/hash.cpp\<close>), \<open>Password_Credential\<close> (\<open>auth/src/auth_crypto.cpp\<close>, \<open>auth_password.cpp\<close>),
    \<open>Auth_Service\<close>, \<open>Auth_Security\<close> (\<open>auth.cpp\<close>, \<open>auth_internal.cpp\<close>, the users in memory of \<open>auth_users.cpp\<close>): the streaming digest
    is SHA-256 of FIPS 180-4, credentials are PBKDF2 of RFC 8018, and over all runs of the service every accepted token comes from a
    login that is still in force, guessing passwords is bounded by the lockout, and a change of password ends the other sessions.
    Each operation reads the clock once; the configuration document is the record of its fields.
  \<^item> \<open>Stun_Packet\<close> (\<open>webrtc/src/stun_packet.cpp\<close>): parsing and building, with the HMAC as an argument.

  \<^bold>\<open>Parameters.\<close> Code that is not in the repository, or that the language leaves open, is an argument: whether an allocation
  succeeds (\<open>Media_Buffer\<close>, \<open>Media_Buffer_Pool\<close>, \<open>Hls_Maker\<close>), the HMAC of OpenSSL (\<open>Stun_Packet\<close>; the only fact used is
  its length of 20 bytes), the random source of the login service (the list of its next answers, after which it fails), the content of a moved-from map (\<open>moved\<close> in \<open>Http_Protocol\<close>), and the answers of the other
  components to the RTSP server. \<open>size_t\<close> has 32 bits on the target; sums of sizes in memory are exact.

  \<^bold>\<open>Termination.\<close> No definition uses fuel: every loop is a structural recursion or has a termination proof, and that the eviction
  loop of the HLS window and the drop loop of the queue end is part of their theorems.

  \<^bold>\<open>Not modelled.\<close> Threads and mutexes (operations are atomic steps, as the code takes one lock for each); diagnostics;
  sockets, epoll, TLS, DTLS and SRTP; the vendor SDK (encoder, OSD, neural inference); files and operating-system services
  (upgrade, network and time configuration, log store); users kept in a configuration file and audit records of the login service; the JSON handlers of the HTTP API and the ONVIF templates, which are glue over these services; the
  periodic sending of frames by RTSP and WebRTC sessions. Vendored code under \<open>3rdparty\<close> and the web interface are outside the scope.
\<close>

end
